(* ===== verification/Prelude.thy ===== *)
theory Prelude
  imports Main "HOL-Library.Word" "HOL-Library.Sublist"
begin

text \<open>
  Shared vocabulary of the development: the identifier, time and result types, the
  standard-library operations of the source language that several components use
  (saturating arithmetic on machine words, prefix and substring search on strings,
  insertion-ordered association lists), the collections of rewrite rules the component
  theories extend, and the row-store interface that every SQLite-backed component
  relies on.
\<close>

section \<open>Rule collections\<close>

named_theorems budget_simps \<open>unfolding rules of the budget arithmetic\<close>
named_theorems lease_simps \<open>unfolding rules of leases and their constraints\<close>
named_theorems store_simps \<open>lookup-after-update rules of the durable tables\<close>
named_theorems dag_simps \<open>unfolding rules of the state graph\<close>
named_theorems broker_simps \<open>unfolding rules of the effect broker\<close>

section \<open>Types of the model\<close>

text \<open>
  Identifiers are prefixed UUID strings; a string is its UTF-8 byte sequence, one
  character per byte. Instants are integers (nanoseconds since the epoch), and a
  fallible operation returns its error on the left.
\<close>

type_synonym ident = string
type_synonym instant = int
type_synonym u64 = "64 word"
type_synonym u32 = "32 word"
type_synonym ('e, 'a) outcome = "'e + 'a"

abbreviation Err :: "'e \<Rightarrow> ('e, 'a) outcome" where
  "Err \<equiv> Inl"

abbreviation Ok :: "'a \<Rightarrow> ('e, 'a) outcome" where
  "Ok \<equiv> Inr"

definition is_ok :: "('e, 'a) outcome \<Rightarrow> bool" where
  "is_ok r = (case r of Inl _ \<Rightarrow> False | Inr _ \<Rightarrow> True)"

lemma is_ok_simps [simp]: "is_ok (Ok a)" "\<not> is_ok (Err e)"
  by (simp_all add: is_ok_def)

lemma is_ok_iff: "is_ok r \<longleftrightarrow> (\<exists>a. r = Ok a)"
  by (cases r) auto

lemma find_SomeD: "find P xs = Some x \<Longrightarrow> x \<in> set xs \<and> P x"
  by (induction xs) (auto split: if_splits)

lemma find_append_first: "P x \<Longrightarrow> \<forall>y \<in> set pre. \<not> P y \<Longrightarrow> find P (pre @ x # post) = Some x"
  by (induction pre) simp_all

lemma find_SomeE: "find P xs = Some x \<Longrightarrow> \<exists>pre post. xs = pre @ x # post \<and> (\<forall>y \<in> set pre. \<not> P y)"
proof (induction xs)
  case (Cons a xs)
  show ?case
  proof (cases "P a")
    case True
    with Cons.prems show ?thesis
      by (intro exI [of _ "[]"] exI [of _ xs]) simp
  next
    case False
    with Cons obtain pre post where "xs = pre @ x # post" "\<forall>y \<in> set pre. \<not> P y"
      by auto
    with False show ?thesis
      by (intro exI [of _ "a # pre"] exI [of _ post]) simp
  qed
qed simp

lemma find_split:
  "find P xs = Some x \<longleftrightarrow> (\<exists>pre post. xs = pre @ x # post \<and> (\<forall>y \<in> set pre. \<not> P y) \<and> P x)"
  using find_append_first find_SomeE find_SomeD by metis

section \<open>Saturating arithmetic of the machine integers\<close>

definition sat_sub :: "'a::len word \<Rightarrow> 'a word \<Rightarrow> 'a word" where
  "sat_sub a b = (if a < b then 0 else a - b)"

definition sat_add :: "'a::len word \<Rightarrow> 'a word \<Rightarrow> 'a word" where
  "sat_add a b = (if a + b < a then - 1 else a + b)"

lemma unat_sat_sub: "unat (sat_sub a b) = unat a - unat b"
  by (auto simp: sat_sub_def word_less_nat_alt word_le_nat_alt unat_sub not_less)

lemma unat_sat_add:
  fixes a b :: "'a::len word"
  shows "unat (sat_add a b) = min (unat a + unat b) (2 ^ LENGTH('a) - 1)"
proof (cases "unat a + unat b < 2 ^ LENGTH('a)")
  case True
  then have "unat (a + b) = unat a + unat b"
    by (rule unat_add_lem [THEN iffD1])
  with True show ?thesis
    by (simp add: sat_add_def word_less_nat_alt)
next
  case False
  have "unat (a + b) = unat a + unat b - 2 ^ LENGTH('a)"
    using False by (simp add: unat_plus_if')
  moreover have "unat b < 2 ^ LENGTH('a)"
    by (rule unsigned_less)
  ultimately have "a + b < a"
    using False unfolding word_less_nat_alt by linarith
  with False show ?thesis
    by (simp add: sat_add_def unsigned_minus_1_eq_mask mask_eq_exp_minus_1)
qed

lemma sat_sub_zero [simp]: "sat_sub a 0 = a" "sat_sub a a = 0"
  by (simp_all add: sat_sub_def)

lemma sat_add_zero [simp]: "sat_add a 0 = a" "sat_add 0 a = a"
  by (simp_all add: sat_add_def)

lemma sat_sub_le: "sat_sub a b \<le> a"
  by (simp add: word_le_nat_alt unat_sat_sub)

lemma sat_add_commute: "sat_add a b = sat_add b a"
  by (rule word_unat_eq_iff [THEN iffD2]) (simp add: unat_sat_add add.commute)

lemma sat_add_assoc: "sat_add (sat_add a b) c = sat_add a (sat_add b c)"
  by (rule word_unat_eq_iff [THEN iffD2]) (simp add: unat_sat_add)

lemma sat_add_sub_cancel: "b \<le> a \<Longrightarrow> sat_add (sat_sub a b) b = a"
proof (rule word_unat_eq_iff [THEN iffD2])
  assume "b \<le> a"
  then have "unat b \<le> unat a"
    by (simp add: word_le_nat_alt)
  moreover have "unat a < 2 ^ LENGTH('a)"
    by (rule unsigned_less)
  ultimately show "unat (sat_add (sat_sub a b) b) = unat a"
    unfolding unat_sat_add unat_sat_sub by linarith
qed

lemma sat_sub_mono: "c \<le> b \<Longrightarrow> sat_sub a b \<le> sat_sub a c"
  by (simp add: word_le_nat_alt unat_sat_sub)

section \<open>Durable tables\<close>

text \<open>
  A table keyed by a text primary key is the list of its rows in rowid order.
  \<open>INSERT OR REPLACE\<close> drops the old row and appends the new one under a fresh rowid;
  \<open>UPDATE\<close> rewrites the row in place; \<open>DELETE\<close> removes it.
\<close>

type_synonym ('k, 'v) table = "('k \<times> 'v) list"

definition tbl_get :: "('k, 'v) table \<Rightarrow> 'k \<Rightarrow> 'v option" where
  "tbl_get t k = map_of t k"

definition tbl_delete :: "'k \<Rightarrow> ('k, 'v) table \<Rightarrow> ('k, 'v) table" where
  "tbl_delete k t = filter (\<lambda>r. fst r \<noteq> k) t"

definition tbl_put :: "'k \<Rightarrow> 'v \<Rightarrow> ('k, 'v) table \<Rightarrow> ('k, 'v) table" where
  "tbl_put k v t = tbl_delete k t @ [(k, v)]"

definition tbl_update :: "'k \<Rightarrow> ('v \<Rightarrow> 'v) \<Rightarrow> ('k, 'v) table \<Rightarrow> ('k, 'v) table" where
  "tbl_update k f t = map (\<lambda>(k', v). (k', if k' = k then f v else v)) t"

definition tbl_ok :: "('k, 'v) table \<Rightarrow> bool" where
  "tbl_ok t = distinct (map fst t)"

definition tbl_vals :: "('k, 'v) table \<Rightarrow> 'v list" where
  "tbl_vals t = map snd t"

lemma map_of_filter_ne: "map_of (filter (\<lambda>r. fst r \<noteq> k) t) = (map_of t)(k := None)"
  by (induction t) auto

lemma tbl_get_empty [simp, store_simps]: "tbl_get [] k = None"
  by (simp add: tbl_get_def)

lemma tbl_get_delete [simp, store_simps]: "tbl_get (tbl_delete k t) = (tbl_get t)(k := None)"
  by (simp add: tbl_get_def [abs_def] tbl_delete_def map_of_filter_ne)

lemma tbl_get_put [simp, store_simps]: "tbl_get (tbl_put k v t) = (tbl_get t)(k \<mapsto> v)"
  by (rule ext)
     (simp add: tbl_get_def [abs_def] tbl_put_def tbl_delete_def map_add_def map_of_filter_ne
       split: option.split)

lemma tbl_get_update [simp, store_simps]:
  "tbl_get (tbl_update k f t) k' = (if k' = k then map_option f (tbl_get t k') else tbl_get t k')"
  by (induction t) (auto simp: tbl_get_def tbl_update_def)

lemma tbl_ok_empty [simp, store_simps]: "tbl_ok []"
  by (simp add: tbl_ok_def)

lemma tbl_ok_delete [simp, store_simps]: "tbl_ok t \<Longrightarrow> tbl_ok (tbl_delete k t)"
  by (simp add: tbl_ok_def tbl_delete_def distinct_map_filter)

lemma tbl_ok_put [simp, store_simps]: "tbl_ok t \<Longrightarrow> tbl_ok (tbl_put k v t)"
  by (auto simp: tbl_ok_def tbl_put_def tbl_delete_def distinct_map_filter)

lemma map_fst_tbl_update [simp]: "map fst (tbl_update k f t) = map fst t"
  by (simp add: tbl_update_def comp_def case_prod_beta)

lemma tbl_ok_update [simp, store_simps]: "tbl_ok (tbl_update k f t) = tbl_ok t"
  by (simp add: tbl_ok_def)

lemma tbl_get_in_set: "tbl_get t k = Some v \<Longrightarrow> (k, v) \<in> set t"
  by (simp add: tbl_get_def map_of_SomeD)

lemma tbl_in_set_iff: "tbl_ok t \<Longrightarrow> (k, v) \<in> set t \<longleftrightarrow> tbl_get t k = Some v"
  by (simp add: tbl_ok_def tbl_get_def)

lemma tbl_get_None_iff: "tbl_get t k = None \<longleftrightarrow> k \<notin> fst ` set t"
  by (simp add: tbl_get_def map_of_eq_None_iff)

lemma tbl_get_snoc [simp, store_simps]:
  "tbl_get t k = None \<Longrightarrow> tbl_get (t @ [(k, v)]) = (tbl_get t)(k \<mapsto> v)"
  by (rule ext) (auto simp: tbl_get_def map_add_def split: option.splits)

lemma tbl_ok_snoc [simp, store_simps]: "tbl_get t k = None \<Longrightarrow> tbl_ok (t @ [(k, v)]) = tbl_ok t"
  by (auto simp: tbl_ok_def tbl_get_def map_of_eq_None_iff)

lemma tbl_get_update_Some:
  "tbl_get t k = Some v \<Longrightarrow> tbl_get (tbl_update k f t) = (tbl_get t)(k \<mapsto> f v)"
  by (rule ext) simp

lemma tbl_get_filter:
  "tbl_ok t \<Longrightarrow> tbl_get (filter P t) k
     = (case tbl_get t k of Some v \<Rightarrow> if P (k, v) then Some v else None | None \<Rightarrow> None)"
proof (induction t)
  case (Cons a t)
  obtain k' v where a: "a = (k', v)"
    by fastforce
  with Cons.prems have "k' \<notin> fst ` set t" "tbl_ok t"
    by (auto simp: tbl_ok_def)
  then have "tbl_get t k' = None" "tbl_get (filter P t) k
     = (case tbl_get t k of Some v \<Rightarrow> if P (k, v) then Some v else None | None \<Rightarrow> None)"
    using Cons.IH by (simp_all add: tbl_get_None_iff)
  then show ?case
    by (auto simp: a tbl_get_def)
qed simp

lemma tbl_ok_filter [simp, store_simps]: "tbl_ok t \<Longrightarrow> tbl_ok (filter P t)"
  by (simp add: tbl_ok_def distinct_map_filter)

text \<open>
  The contract the stores rely on: a keyed table with replacement, in-place update and
  deletion, and the well-formedness every statement keeps.
\<close>

locale row_store =
  fixes get :: "'t \<Rightarrow> 'k \<Rightarrow> 'v option"
    and put :: "'k \<Rightarrow> 'v \<Rightarrow> 't \<Rightarrow> 't"
    and upd :: "'k \<Rightarrow> ('v \<Rightarrow> 'v) \<Rightarrow> 't \<Rightarrow> 't"
    and del :: "'k \<Rightarrow> 't \<Rightarrow> 't"
    and ok :: "'t \<Rightarrow> bool"
  assumes get_put: "get (put k v t) = (get t)(k \<mapsto> v)"
    and get_upd: "get (upd k f t) k' = (if k' = k then map_option f (get t k') else get t k')"
    and get_del: "get (del k t) = (get t)(k := None)"
    and ok_put: "ok t \<Longrightarrow> ok (put k v t)"
    and ok_upd: "ok (upd k f t) = ok t"
    and ok_del: "ok t \<Longrightarrow> ok (del k t)"
begin

lemma dom_put: "dom (get (put k v t)) = insert k (dom (get t))"
  by (simp add: get_put)

lemma dom_upd: "dom (get (upd k f t)) = dom (get t)"
  by (auto simp: get_upd split: if_splits)

lemma dom_del: "dom (get (del k t)) = dom (get t) - {k}"
  by (simp add: get_del)

lemma put_keeps_all:
  assumes "\<And>k v. get t k = Some v \<Longrightarrow> P k v" and "P k v"
  shows "get (put k v t) k' = Some v' \<Longrightarrow> P k' v'"
  using assms by (auto simp: get_put split: if_splits)

lemma upd_keeps_all:
  assumes "\<And>k v. get t k = Some v \<Longrightarrow> P k v" and "\<And>v. get t k = Some v \<Longrightarrow> P k (f v)"
  shows "get (upd k f t) k' = Some v' \<Longrightarrow> P k' v'"
  using assms by (auto simp: get_upd split: if_splits)

lemma del_keeps_all:
  assumes "\<And>k v. get t k = Some v \<Longrightarrow> P k v"
  shows "get (del k t) k' = Some v' \<Longrightarrow> P k' v'"
  using assms by (auto simp: get_del split: if_splits)

lemma foldr_upd_get:
  assumes "distinct ks"
  shows "get (foldr (\<lambda>k t. upd k f t) ks t) k
    = (if k \<in> set ks then map_option f (get t k) else get t k)"
  using assms by (induction ks) (auto simp: get_upd)

end

interpretation tbl: row_store tbl_get tbl_put tbl_update tbl_delete tbl_ok
  by unfold_locales simp_all

end
