(* ===== verification/Base64.thy ===== *)
theory Base64
  imports Prelude
begin

text \<open>
  The dependency-free base64 codec of kernel/core/src/b64.rs on bytes and 32-bit
  accumulators. Decoding the encoding of any byte string gives it back.
\<close>

unbundle bit_operations_syntax

type_synonym byte = "8 word"

datatype B64Error = InvalidByte char | Truncated

definition ALPHABET :: string where
  "ALPHABET = ''ABCDEFGHIJKLMNOPQRSTUVWXYZabcdefghijklmnopqrstuvwxyz0123456789+/''"

text \<open>\<open>slice::chunks\<close>: consecutive runs of \<open>n\<close> elements, the last one possibly shorter.\<close>

fun chunks :: "nat \<Rightarrow> 'a list \<Rightarrow> 'a list list" where
  "chunks n xs = (if xs = [] \<or> n = 0 then [] else take n xs # chunks n (drop n xs))"

declare chunks.simps [simp del]

definition encode_chunk :: "byte list \<Rightarrow> string" where
  "encode_chunk chunk =
     (let b0 = chunk ! 0;
          b1 = (if length chunk > 1 then chunk ! 1 else 0);
          b2 = (if length chunk > 2 then chunk ! 2 else 0);
          n = (push_bit 16 (ucast b0) OR push_bit 8 (ucast b1) OR ucast b2 :: u32)
      in [ALPHABET ! unat (drop_bit 18 n AND 63),
          ALPHABET ! unat (drop_bit 12 n AND 63),
          (if length chunk > 1 then ALPHABET ! unat (drop_bit 6 n AND 63) else CHR ''=''),
          (if length chunk > 2 then ALPHABET ! unat (n AND 63) else CHR ''='')])"

definition b64_encode :: "byte list \<Rightarrow> string" where
  "b64_encode input = concat (map encode_chunk (chunks 3 input))"

definition b64_val :: "char \<Rightarrow> (B64Error, u32) outcome" where
  "b64_val c =
     (let k = (of_char c :: nat) in
      if 65 \<le> k \<and> k \<le> 90 then Ok (of_nat (k - 65))
      else if 97 \<le> k \<and> k \<le> 122 then Ok (of_nat (k - 97) + 26)
      else if 48 \<le> k \<and> k \<le> 57 then Ok (of_nat (k - 48) + 52)
      else if c = CHR ''+'' then Ok 62
      else if c = CHR ''/'' then Ok 63
      else Err (InvalidByte c))"

text \<open>\<open>u8::is_ascii_whitespace\<close>: tab, line feed, form feed, carriage return, space.\<close>

definition ascii_whitespace :: "char \<Rightarrow> bool" where
  "ascii_whitespace c = ((of_char c :: nat) \<in> {9, 10, 12, 13, 32})"

fun b64_accumulate :: "u32 \<Rightarrow> string \<Rightarrow> (B64Error, u32) outcome" where
  "b64_accumulate n [] = Ok n"
| "b64_accumulate n (c # cs) =
     (case b64_val c of
        Err e \<Rightarrow> Err e
      | Ok v \<Rightarrow> b64_accumulate (push_bit 6 n OR v) cs)"

definition decode_chunk :: "string \<Rightarrow> (B64Error, byte list) outcome" where
  "decode_chunk chunk =
     (if length chunk = 1 then Err Truncated
      else case b64_accumulate 0 chunk of
        Err e \<Rightarrow> Err e
      | Ok n \<Rightarrow>
          (let m = push_bit (6 * (4 - length chunk)) n in
           Ok ([ucast (drop_bit 16 m)]
             @ (if length chunk > 2 then [ucast (drop_bit 8 m)] else [])
             @ (if length chunk > 3 then [ucast m] else []))))"

fun decode_chunks :: "string list \<Rightarrow> (B64Error, byte list) outcome" where
  "decode_chunks [] = Ok []"
| "decode_chunks (c # cs) =
     (case decode_chunk c of
        Err e \<Rightarrow> Err e
      | Ok bs \<Rightarrow> (case decode_chunks cs of Err e \<Rightarrow> Err e | Ok rest \<Rightarrow> Ok (bs @ rest)))"

definition b64_decode :: "string \<Rightarrow> (B64Error, byte list) outcome" where
  "b64_decode input =
     (let cleaned = filter (\<lambda>c. \<not> ascii_whitespace c \<and> c \<noteq> CHR ''='') input
      in decode_chunks (chunks 4 cleaned))"

section \<open>Round trip\<close>

abbreviation b64_clean :: "string \<Rightarrow> string" where
  "b64_clean \<equiv> filter (\<lambda>c. \<not> ascii_whitespace c \<and> c \<noteq> CHR ''='')"

lemma alphabet_vals: "map b64_val ALPHABET = map (\<lambda>k. Ok (of_nat k)) [0..<64]"
  by (simp add: ALPHABET_def b64_val_def upt_conv_Cons)

lemma alphabet_kept: "list_all (\<lambda>c. \<not> ascii_whitespace c \<and> c \<noteq> CHR ''='') ALPHABET"
  by (simp add: ALPHABET_def ascii_whitespace_def)

lemma length_ALPHABET: "length ALPHABET = 64"
  by (simp add: ALPHABET_def)

lemma alphabet_val:
  assumes "k < 64"
  shows "b64_val (ALPHABET ! k) = Ok (of_nat k) \<and> \<not> ascii_whitespace (ALPHABET ! k)
    \<and> ALPHABET ! k \<noteq> CHR ''=''"
proof -
  have "map b64_val ALPHABET ! k = Ok (of_nat k)"
    unfolding alphabet_vals using assms by simp
  moreover have "ALPHABET ! k \<in> set ALPHABET"
    using assms by (simp add: length_ALPHABET)
  ultimately show ?thesis
    using assms alphabet_kept by (simp add: length_ALPHABET list_all_iff)
qed

lemma sextet_less: "unat (n AND 63 :: u32) < 64"
proof -
  have "n AND 63 = take_bit 6 n"
    by (simp add: take_bit_eq_mask mask_eq_exp_minus_1)
  then show ?thesis
    by (simp add: unsigned_take_bit_eq take_bit_nat_less_exp [of 6, simplified])
qed

lemma sextet_val:
  "b64_val (ALPHABET ! unat (n AND 63 :: u32)) = Ok (n AND 63)"
  "\<not> ascii_whitespace (ALPHABET ! unat (n AND 63 :: u32))"
  "ALPHABET ! unat (n AND 63 :: u32) \<noteq> CHR ''=''"
  using alphabet_val [OF sextet_less [of n]] by simp_all

abbreviation octets :: "byte \<Rightarrow> byte \<Rightarrow> byte \<Rightarrow> u32" where
  "octets a b c \<equiv> push_bit 16 (ucast a) OR push_bit 8 (ucast b) OR ucast c"

lemma and_63: "(n AND 63 :: u32) = take_bit 6 n"
  by (simp add: take_bit_eq_mask mask_eq_exp_minus_1)

lemma sextets4:
  "(push_bit 6 (push_bit 6 (push_bit 6 (take_bit 6 (drop_bit 18 n)) OR take_bit 6 (drop_bit 12 n))
      OR take_bit 6 (drop_bit 6 n)) OR take_bit 6 n :: u32) = take_bit 24 n"
proof (rule bit_word_eqI)
  fix k
  assume "k < LENGTH(32)"
  consider "k < 6" | "6 \<le> k" "k < 12" | "12 \<le> k" "k < 18" | "18 \<le> k" "k < 24" | "24 \<le> k"
    by linarith
  then show "bit (push_bit 6 (push_bit 6 (push_bit 6 (take_bit 6 (drop_bit 18 n))
      OR take_bit 6 (drop_bit 12 n)) OR take_bit 6 (drop_bit 6 n)) OR take_bit 6 n) k
    = bit (take_bit 24 n) k"
    using \<open>k < LENGTH(32)\<close> by cases (auto simp: bit_simps)
qed

lemma octets_bytes:
  "ucast (drop_bit 16 (take_bit 24 (octets a b c))) = a"
  "ucast (drop_bit 8 (take_bit 24 (octets a b c))) = b"
  "ucast (take_bit 24 (octets a b c)) = c"
  by (rule bit_word_eqI; auto simp: bit_simps dest: bit_imp_le_length)+

lemma b64_clean_alphabet [simp]:
  "b64_clean (ALPHABET ! unat (n AND 63 :: u32) # cs)
     = ALPHABET ! unat (n AND 63) # b64_clean cs"
  by (simp add: sextet_val)

lemma encode_chunk_sextets:
  "b64_clean (encode_chunk [a, b, c]) = encode_chunk [a, b, c]"
  "length (encode_chunk xs) = 4"
  by (simp_all add: encode_chunk_def Let_def sextet_val)

abbreviation sextet :: "u32 \<Rightarrow> char" where
  "sextet n \<equiv> ALPHABET ! unat (n AND 63)"

lemma accumulate_sextet [simp]:
  "b64_accumulate m (sextet n # cs) = b64_accumulate (push_bit 6 m OR (n AND 63)) cs"
  by (simp add: sextet_val)

lemma decode_sextets4:
  "decode_chunk [sextet (drop_bit 18 n), sextet (drop_bit 12 n), sextet (drop_bit 6 n), sextet n]
     = Ok [ucast (drop_bit 16 (take_bit 24 n)), ucast (drop_bit 8 (take_bit 24 n)),
           ucast (take_bit 24 n)]"
  unfolding decode_chunk_def accumulate_sextet b64_accumulate.simps(1)
  by (simp add: Let_def and_63 sextets4 [of n, symmetric] del: push_bit_or)

lemma decode_sextets3:
  assumes "take_bit 6 n = 0"
  shows "decode_chunk [sextet (drop_bit 18 n), sextet (drop_bit 12 n), sextet (drop_bit 6 n)]
     = Ok [ucast (drop_bit 16 (take_bit 24 n)), ucast (drop_bit 8 (take_bit 24 n))]"
  unfolding decode_chunk_def accumulate_sextet b64_accumulate.simps(1)
  by (simp add: Let_def and_63 sextets4 [of n, symmetric] assms del: push_bit_or)

lemma decode_sextets2:
  assumes "take_bit 6 n = 0" "take_bit 6 (drop_bit 6 n) = 0"
  shows "decode_chunk [sextet (drop_bit 18 n), sextet (drop_bit 12 n)]
     = Ok [ucast (drop_bit 16 (take_bit 24 n))]"
  unfolding decode_chunk_def accumulate_sextet b64_accumulate.simps(1)
  by (simp add: Let_def and_63 sextets4 [of n, symmetric] assms del: push_bit_or)

lemma octets_low:
  "take_bit 6 (octets a b 0) = 0" "take_bit 6 (drop_bit 6 (octets a 0 0)) = 0"
  by (rule bit_word_eqI; auto simp: bit_simps)+

lemma decode_encode_chunk3: "decode_chunk (encode_chunk [a, b, c]) = Ok [a, b, c]"
  using decode_sextets4 [of "octets a b c"]
  unfolding octets_bytes by (simp add: encode_chunk_def Let_def del: drop_bit_or)

lemma decode_encode_chunk2: "decode_chunk (b64_clean (encode_chunk [a, b])) = Ok [a, b]"
  using decode_sextets3 [OF octets_low(1) [of a b]]
  unfolding octets_bytes by (simp add: encode_chunk_def Let_def sextet_val del: drop_bit_or)

lemma decode_encode_chunk1: "decode_chunk (b64_clean (encode_chunk [a])) = Ok [a]"
  using decode_sextets2 [OF octets_low(1) [of a 0] octets_low(2) [of a]]
  unfolding octets_bytes by (simp add: encode_chunk_def Let_def sextet_val del: drop_bit_or)

lemma chunks_append: "length xs = Suc n \<Longrightarrow> chunks (Suc n) (xs @ ys) = xs # chunks (Suc n) ys"
  by (subst chunks.simps) auto

lemma chunks_short: "xs \<noteq> [] \<Longrightarrow> length xs \<le> n \<Longrightarrow> chunks n xs = [xs]"
  by (subst chunks.simps) (cases n; simp add: chunks.simps)

lemma chunks_Nil [simp]: "chunks n [] = []"
  by (simp add: chunks.simps)

lemma b64_encode_3: "b64_encode (a # b # c # xs) = encode_chunk [a, b, c] @ b64_encode xs"
  using chunks_append [of "[a, b, c]" 2 xs] by (simp add: b64_encode_def)

lemma b64_decode_block:
  assumes "b64_clean s = s" "length s = 4"
  shows "b64_decode (s @ t) = (case decode_chunk s of
      Err e \<Rightarrow> Err e
    | Ok bs \<Rightarrow> (case b64_decode t of Err e \<Rightarrow> Err e | Ok rest \<Rightarrow> Ok (bs @ rest)))"
  using chunks_append [of s 3] assms unfolding b64_decode_def Let_def by simp

lemma b64_decode_last:
  assumes "b64_clean s \<noteq> []" "length (b64_clean s) \<le> 4"
  shows "b64_decode s = decode_chunk (b64_clean s)"
  using chunks_short [OF assms] by (simp add: b64_decode_def split: sum.split)

lemma clean_encode_short:
  "b64_clean (encode_chunk [a]) \<noteq> []" "b64_clean (encode_chunk [a, b]) \<noteq> []"
  "length (b64_clean (encode_chunk xs)) \<le> 4"
  using length_filter_le [of _ "encode_chunk xs"]
  by (simp_all add: encode_chunk_def Let_def sextet_val encode_chunk_sextets)

text \<open>
  Base64 round trip: decoding the padded encoding of any byte string returns it.
\<close>

theorem b64_roundtrip: "b64_decode (b64_encode bytes) = Ok bytes"
proof (induction bytes rule: measure_induct_rule [where f = length])
  case (less bytes)
  consider "bytes = []" | a where "bytes = [a]" | a b where "bytes = [a, b]"
    | a b c xs where "bytes = a # b # c # xs"
    by (metis neq_Nil_conv)
  then show ?case
  proof cases
    case 1
    then show ?thesis
      by (simp add: b64_encode_def b64_decode_def)
  next
    case (2 a)
    then have "b64_encode bytes = encode_chunk [a]"
      by (simp add: b64_encode_def chunks_short)
    then show ?thesis
      using 2 by (simp add: b64_decode_last clean_encode_short decode_encode_chunk1)
  next
    case (3 a b)
    then have "b64_encode bytes = encode_chunk [a, b]"
      by (simp add: b64_encode_def chunks_short)
    then show ?thesis
      using 3 by (simp add: b64_decode_last clean_encode_short decode_encode_chunk2)
  next
    case (4 a b c xs)
    then show ?thesis
      using less [of xs]
      by (simp add: b64_encode_3 b64_decode_block encode_chunk_sextets decode_encode_chunk3)
  qed
qed

end
