(* ===== verification/NetGuard.thy ===== *)
theory NetGuard
  imports Prelude
begin

text \<open>
  The egress address guard (kernel/core/src/net.rs): octet and segment tests of the
  standard library, and the guard composed of them. The guard is shown to refuse exactly
  a list of address blocks, written as prefix ranges over the numeric address.
\<close>

unbundle bit_operations_syntax

type_synonym octet = "8 word"
type_synonym segment = "16 word"

datatype Ipv4Addr = Ipv4 octet octet octet octet
datatype Ipv6Addr = Ipv6 segment segment segment segment segment segment segment segment
datatype IpAddr = V4 Ipv4Addr | V6 Ipv6Addr

definition METADATA_V4 :: Ipv4Addr where
  "METADATA_V4 = Ipv4 169 254 169 254"

definition METADATA_V6 :: Ipv6Addr where
  "METADATA_V6 = Ipv6 0xfd00 0x0ec2 0 0 0 0 0 0x254"

text \<open>The address predicates of the standard library.\<close>

fun v4_is_loopback :: "Ipv4Addr \<Rightarrow> bool" where
  "v4_is_loopback (Ipv4 a b c d) = (a = 127)"

fun v4_is_private :: "Ipv4Addr \<Rightarrow> bool" where
  "v4_is_private (Ipv4 a b c d) =
     (a = 10 \<or> (a = 172 \<and> 16 \<le> b \<and> b \<le> 31) \<or> (a = 192 \<and> b = 168))"

fun v4_is_link_local :: "Ipv4Addr \<Rightarrow> bool" where
  "v4_is_link_local (Ipv4 a b c d) = (a = 169 \<and> b = 254)"

definition v4_is_unspecified :: "Ipv4Addr \<Rightarrow> bool" where
  "v4_is_unspecified ip = (ip = Ipv4 0 0 0 0)"

definition v4_is_broadcast :: "Ipv4Addr \<Rightarrow> bool" where
  "v4_is_broadcast ip = (ip = Ipv4 255 255 255 255)"

fun v6_to_ipv4_mapped :: "Ipv6Addr \<Rightarrow> Ipv4Addr option" where
  "v6_to_ipv4_mapped (Ipv6 s0 s1 s2 s3 s4 s5 s6 s7) =
     (if s0 = 0 \<and> s1 = 0 \<and> s2 = 0 \<and> s3 = 0 \<and> s4 = 0 \<and> s5 = 0xffff
      then Some (Ipv4 (ucast (drop_bit 8 s6)) (ucast s6) (ucast (drop_bit 8 s7)) (ucast s7))
      else None)"

fun is_forbidden_v4 :: "Ipv4Addr \<Rightarrow> bool" where
  "is_forbidden_v4 (Ipv4 a b c d) =
     (let v4 = Ipv4 a b c d in
      v4_is_loopback v4 \<or> v4_is_private v4 \<or> v4_is_link_local v4 \<or> v4_is_unspecified v4
    \<or> v4_is_broadcast v4 \<or> v4 = METADATA_V4 \<or> (a = 100 \<and> b AND 0xc0 = 64))"

fun is_forbidden_ip :: "IpAddr \<Rightarrow> bool" where
  "is_forbidden_ip (V4 v4) = is_forbidden_v4 v4"
| "is_forbidden_ip (V6 (Ipv6 s0 s1 s2 s3 s4 s5 s6 s7)) =
     (let v6 = Ipv6 s0 s1 s2 s3 s4 s5 s6 s7 in
      v6 = Ipv6 0 0 0 0 0 0 0 1
    \<or> v6 = Ipv6 0 0 0 0 0 0 0 0
    \<or> s0 AND 0xfe00 = 0xfc00
    \<or> s0 AND 0xffc0 = 0xfe80
    \<or> v6 = METADATA_V6
    \<or> (case v6_to_ipv4_mapped v6 of Some m \<Rightarrow> is_forbidden_v4 m | None \<Rightarrow> False))"

section \<open>The refused address blocks\<close>

text \<open>The numeric address, and membership in the block of addresses sharing a prefix.\<close>

fun v4_num :: "Ipv4Addr \<Rightarrow> nat" where
  "v4_num (Ipv4 a b c d) = ((unat a * 256 + unat b) * 256 + unat c) * 256 + unat d"

fun seg_num :: "nat \<Rightarrow> segment list \<Rightarrow> nat" where
  "seg_num n [] = n"
| "seg_num n (s # ss) = seg_num (n * 65536 + unat s) ss"

fun v6_num :: "Ipv6Addr \<Rightarrow> nat" where
  "v6_num (Ipv6 s0 s1 s2 s3 s4 s5 s6 s7) = seg_num 0 [s0, s1, s2, s3, s4, s5, s6, s7]"

definition in_block :: "nat \<Rightarrow> nat \<Rightarrow> nat \<times> nat \<Rightarrow> bool" where
  "in_block width n = (\<lambda>(base, len). n div 2 ^ (width - len) = base div 2 ^ (width - len))"

text \<open>Loopback, RFC 1918, link-local, unspecified, broadcast and CGNAT.\<close>

definition v4_blocks :: "(nat \<times> nat) list" where
  "v4_blocks =
     [(v4_num (Ipv4 127 0 0 0), 8), (v4_num (Ipv4 10 0 0 0), 8), (v4_num (Ipv4 172 16 0 0), 12),
      (v4_num (Ipv4 192 168 0 0), 16), (v4_num (Ipv4 169 254 0 0), 16),
      (v4_num (Ipv4 0 0 0 0), 32), (v4_num (Ipv4 255 255 255 255), 32),
      (v4_num (Ipv4 100 64 0 0), 10)]"

text \<open>Loopback, unspecified, unique-local and link-local.\<close>

definition v6_blocks :: "(nat \<times> nat) list" where
  "v6_blocks = [(1, 128), (0, 128), (0xfc00 * 2 ^ 112, 7), (0xfe80 * 2 ^ 112, 10)]"

lemma octet_less: "unat (a :: octet) < 256"
  using unsigned_less [of a] by simp

lemma segment_less: "unat (s :: segment) < 65536"
  using unsigned_less [of s] by simp

lemma v4_prefixes:
  "v4_num (Ipv4 a b c d) div 16777216 = unat a"
  "v4_num (Ipv4 a b c d) div 4194304 = unat a * 4 + unat b div 64"
  "v4_num (Ipv4 a b c d) div 1048576 = unat a * 16 + unat b div 16"
  "v4_num (Ipv4 a b c d) div 65536 = unat a * 256 + unat b"
  using octet_less [of a] octet_less [of b] octet_less [of c] octet_less [of d] by simp_all

lemma unat_and_not_mask: "unat (w AND NOT (mask k)) = unat w div 2 ^ k * 2 ^ k"
  for w :: "'a::len word"
proof -
  have "w AND NOT (mask k) = push_bit k (drop_bit k w)"
    by (rule bit_word_eqI) (auto simp: bit_simps)
  then have "unat (w AND NOT (mask k)) = take_bit LENGTH('a) (push_bit k (drop_bit k (unat w)))"
    by (simp add: unsigned_push_bit_eq unsigned_drop_bit_eq take_bit_nat_eq_self unsigned_less)
  also have "\<dots> = take_bit LENGTH('a) (unat w div 2 ^ k * 2 ^ k)"
    by (simp add: drop_bit_eq_div push_bit_eq_mult)
  also have "\<dots> = unat w div 2 ^ k * 2 ^ k"
    using unsigned_less [of w] div_times_less_eq_dividend le_less_trans
    by (blast intro: take_bit_nat_eq_self)
  finally show ?thesis .
qed

lemma and_not_mask_iff:
  "w AND NOT (mask k) = v \<longleftrightarrow> unat w div 2 ^ k * 2 ^ k = unat v"
  by (simp add: word_unat_eq_iff unat_and_not_mask)

lemma high_masks:
  "(0xc0 :: octet) = NOT (mask 6)"
  "(0xfe00 :: segment) = NOT (mask 9)" "(0xffc0 :: segment) = NOT (mask 6)"
  by code_simp+

lemma cgnat_bits: "b AND 0xc0 = (64 :: octet) \<longleftrightarrow> unat b div 64 = 1"
  unfolding high_masks and_not_mask_iff by simp

lemma ula_bits: "s AND 0xfe00 = (0xfc00 :: segment) \<longleftrightarrow> unat s div 512 = 126"
  unfolding high_masks and_not_mask_iff by simp

lemma link_local_bits: "s AND 0xffc0 = (0xfe80 :: segment) \<longleftrightarrow> unat s div 64 = 1018"
  unfolding high_masks and_not_mask_iff by simp

lemma digit_inj: "y < m \<Longrightarrow> y' < m \<Longrightarrow> x * m + y = x' * m + y' \<longleftrightarrow> x = x' \<and> y = y'"
  for m :: nat
  by (metis add_right_cancel bits_mod_div_trivial div_mult_self3 less_nat_zero_code
      mod_less mod_mult_self3 mult_cancel2 add.commute)

lemma v4_num_eq:
  "v4_num (Ipv4 a b c d) = v4_num (Ipv4 a' b' c' d') \<longleftrightarrow> Ipv4 a b c d = Ipv4 a' b' c' d'"
  unfolding v4_num.simps
  by (simp only: digit_inj [OF octet_less octet_less] Ipv4Addr.inject word_unat_eq_iff conj_assoc)

lemma v4_blocks_iff:
  "list_ex (in_block 32 (v4_num (Ipv4 a b c d))) v4_blocks \<longleftrightarrow>
     unat a = 127 \<or> unat a = 10 \<or> unat a * 16 + unat b div 16 = 172 * 16 + 1
   \<or> unat a * 256 + unat b = 192 * 256 + 168 \<or> unat a * 256 + unat b = 169 * 256 + 254
   \<or> v4_num (Ipv4 a b c d) = v4_num (Ipv4 0 0 0 0)
   \<or> v4_num (Ipv4 a b c d) = v4_num (Ipv4 255 255 255 255)
   \<or> unat a * 4 + unat b div 64 = 100 * 4 + 1"
  unfolding v4_blocks_def in_block_def
  by (simp add: v4_prefixes [unfolded v4_num.simps, simplified])

lemma octet_prefixes:
  "unat a * 16 + unat (b :: octet) div 16 = 172 * 16 + 1 \<longleftrightarrow> unat a = 172 \<and> unat b div 16 = 1"
  "unat a * 4 + unat b div 64 = 100 * 4 + 1 \<longleftrightarrow> unat a = 100 \<and> unat b div 64 = 1"
  "unat a * 256 + unat b = 192 * 256 + 168 \<longleftrightarrow> unat a = 192 \<and> unat b = 168"
  "unat a * 256 + unat b = 169 * 256 + 254 \<longleftrightarrow> unat a = 169 \<and> unat b = 254"
  using octet_less [of b] by (intro digit_inj; simp add: less_mult_imp_div_less)+

lemma private_b_range: "16 \<le> b \<and> b \<le> 31 \<longleftrightarrow> unat b div 16 = 1" for b :: octet
proof -
  have "16 \<le> b \<and> b \<le> 31 \<longleftrightarrow> 16 \<le> unat b \<and> unat b \<le> 31"
    by (simp add: word_le_nat_alt)
  then show ?thesis
    by linarith
qed

lemma forbidden_v4_blocks:
  "is_forbidden_v4 v4 \<longleftrightarrow> list_ex (in_block 32 (v4_num v4)) v4_blocks"
proof (cases v4)
  case (Ipv4 a b c d)
  have eqs: "a = 127 \<longleftrightarrow> unat a = 127" "a = 10 \<longleftrightarrow> unat a = 10" "a = 172 \<longleftrightarrow> unat a = 172"
    "a = 192 \<longleftrightarrow> unat a = 192" "a = 169 \<longleftrightarrow> unat a = 169" "a = 100 \<longleftrightarrow> unat a = 100"
    "b = 168 \<longleftrightarrow> unat b = 168" "b = 254 \<longleftrightarrow> unat b = 254"
    by (simp_all add: word_unat_eq_iff)
  show ?thesis
    unfolding Ipv4 v4_blocks_iff v4_num_eq octet_prefixes
    unfolding is_forbidden_v4.simps Let_def v4_is_loopback.simps v4_is_private.simps
      v4_is_link_local.simps v4_is_unspecified_def v4_is_broadcast_def METADATA_V4_def cgnat_bits
      private_b_range Ipv4Addr.inject
    unfolding eqs by blast
qed

lemma seg_num_append: "seg_num n (xs @ [s]) = seg_num n xs * 65536 + unat s"
  by (induction n xs rule: seg_num.induct) simp_all

lemma seg_num_inj:
  "length xs = length ys \<Longrightarrow> seg_num m xs = seg_num n ys \<longleftrightarrow> m = n \<and> xs = ys"
proof (induction xs arbitrary: ys rule: rev_induct)
  case (snoc x xs)
  then obtain zs z where "ys = zs @ [z]"
    by (cases ys rule: rev_cases) auto
  with snoc digit_inj [OF segment_less segment_less] show ?case
    by (auto simp: seg_num_append word_unat_eq_iff)
qed simp

lemma v6_num_eq: "v6_num v = v6_num w \<longleftrightarrow> v = w"
  by (cases v; cases w) (simp add: seg_num_inj del: seg_num.simps)

lemma seg_num_div: "seg_num n (xs @ ys) div 65536 ^ length ys = seg_num n xs"
proof (induction ys rule: rev_induct)
  case (snoc y ys)
  have "seg_num n (xs @ ys @ [y]) div 65536 = seg_num n (xs @ ys)"
    using segment_less [of y] seg_num_append [of n "xs @ ys" y] by simp
  then show ?case
    using snoc by (simp add: div_mult2_eq)
qed simp

lemma v6_num_div112: "v6_num (Ipv6 s0 s1 s2 s3 s4 s5 s6 s7) div 2 ^ 112 = unat s0"
  using seg_num_div [of 0 "[s0]" "[s1, s2, s3, s4, s5, s6, s7]"] by simp

lemma v6_num_div32:
  "v6_num (Ipv6 s0 s1 s2 s3 s4 s5 s6 s7) div 2 ^ 32 = seg_num 0 [s0, s1, s2, s3, s4, s5]"
  using seg_num_div [of 0 "[s0, s1, s2, s3, s4, s5]" "[s6, s7]"] by simp

lemma v6_num_mod32:
  "v6_num (Ipv6 s0 s1 s2 s3 s4 s5 s6 s7) mod 2 ^ 32 = unat s6 * 65536 + unat s7"
proof -
  have "unat s6 * 65536 + unat s7 < 2 ^ 32"
    using segment_less [of s6] segment_less [of s7] by simp
  moreover have "v6_num (Ipv6 s0 s1 s2 s3 s4 s5 s6 s7)
      = seg_num 0 [s0, s1, s2, s3, s4, s5] * 2 ^ 32 + (unat s6 * 65536 + unat s7)"
    by simp
  ultimately show ?thesis
    by (metis mod_less mod_mult_self3)
qed

lemma segment_bytes: "unat s div 256 * 256 + unat s mod 256 = unat (s :: segment)"
  by simp

lemma unat_high_byte: "unat (ucast (drop_bit 8 s) :: octet) = unat (s :: segment) div 256"
proof -
  have "unat (drop_bit 8 s) = unat s div 256"
    using segment_less [of s]
    by (simp add: unsigned_drop_bit_eq drop_bit_nat_def take_bit_nat_eq_self)
  then show ?thesis
    using segment_less [of s] by (simp add: unsigned_ucast_eq take_bit_nat_eq_self_iff)
qed

lemma unat_low_byte: "unat (ucast s :: octet) = unat (s :: segment) mod 256"
  by (simp add: unsigned_ucast_eq take_bit_eq_mod)

lemma mapped_num:
  "v4_num (Ipv4 (ucast (drop_bit 8 s6)) (ucast s6) (ucast (drop_bit 8 s7)) (ucast (s7 :: segment)))
     = unat (s6 :: segment) * 65536 + unat s7"
  unfolding v4_num.simps unat_high_byte unfolding unat_low_byte segment_bytes
  by (simp add: add_mult_distrib)

lemma v6_blocks_iff:
  "list_ex (in_block 128 (v6_num (Ipv6 s0 s1 s2 s3 s4 s5 s6 s7))) v6_blocks \<longleftrightarrow>
     v6_num (Ipv6 s0 s1 s2 s3 s4 s5 s6 s7) = 1 \<or> v6_num (Ipv6 s0 s1 s2 s3 s4 s5 s6 s7) = 0
   \<or> unat s0 div 512 = 126 \<or> unat s0 div 64 = 1018"
proof -
  let ?n = "v6_num (Ipv6 s0 s1 s2 s3 s4 s5 s6 s7)"
  have "?n div 2 ^ 121 = unat s0 div 512" "?n div 2 ^ 118 = unat s0 div 64"
    using div_mult2_eq [of ?n "2 ^ 112" 512] div_mult2_eq [of ?n "2 ^ 112" 64] v6_num_div112
    by (simp_all del: v6_num.simps)
  then show ?thesis
    by (simp add: v6_blocks_def in_block_def del: v6_num.simps)
qed

lemma mapped_iff:
  "v6_to_ipv4_mapped (Ipv6 s0 s1 s2 s3 s4 s5 s6 s7) \<noteq> None
     \<longleftrightarrow> v6_num (Ipv6 s0 s1 s2 s3 s4 s5 s6 s7) div 2 ^ 32 = 0xffff"
  using seg_num_inj [of "[s0, s1, s2, s3, s4, s5]" "[0, 0, 0, 0, 0, 0xffff]" 0 0]
  unfolding v6_num_div32 by simp

lemma forbidden_v6_blocks:
  "is_forbidden_ip (V6 v6) \<longleftrightarrow> list_ex (in_block 128 (v6_num v6)) v6_blocks
     \<or> (v6_num v6 div 2 ^ 32 = 0xffff \<and> list_ex (in_block 32 (v6_num v6 mod 2 ^ 32)) v4_blocks)"
proof (cases v6)
  case (Ipv6 s0 s1 s2 s3 s4 s5 s6 s7)
  have nums: "v6_num v6 = 1 \<longleftrightarrow> v6 = Ipv6 0 0 0 0 0 0 0 1" "v6_num v6 = 0 \<longleftrightarrow> v6 = Ipv6 0 0 0 0 0 0 0 0"
    using v6_num_eq [of v6 "Ipv6 0 0 0 0 0 0 0 1"] v6_num_eq [of v6 "Ipv6 0 0 0 0 0 0 0 0"]
    by simp_all
  have metadata: "v6 = METADATA_V6 \<Longrightarrow> unat s0 div 512 = 126"
    by (simp add: Ipv6 METADATA_V6_def)
  have mapped: "(case v6_to_ipv4_mapped v6 of Some m \<Rightarrow> is_forbidden_v4 m | None \<Rightarrow> False)
    \<longleftrightarrow> v6_num v6 div 2 ^ 32 = 0xffff \<and> list_ex (in_block 32 (v6_num v6 mod 2 ^ 32)) v4_blocks"
    using mapped_iff [of s0 s1 s2 s3 s4 s5 s6 s7]
      v6_num_mod32 [of s0 s1 s2 s3 s4 s5 s6 s7]
    by (auto simp: Ipv6 forbidden_v4_blocks mapped_num simp del: v6_num.simps v4_num.simps
        split: if_splits)
  have "is_forbidden_ip (V6 v6) \<longleftrightarrow> v6 = Ipv6 0 0 0 0 0 0 0 1 \<or> v6 = Ipv6 0 0 0 0 0 0 0 0
      \<or> unat s0 div 512 = 126 \<or> unat s0 div 64 = 1018 \<or> v6 = METADATA_V6
      \<or> (case v6_to_ipv4_mapped v6 of Some m \<Rightarrow> is_forbidden_v4 m | None \<Rightarrow> False)"
    unfolding Ipv6 is_forbidden_ip.simps Let_def ula_bits link_local_bits ..
  then show ?thesis
    unfolding mapped using v6_blocks_iff [of s0 s1 s2 s3 s4 s5 s6 s7] nums metadata
    unfolding Ipv6 [symmetric] by blast
qed

text \<open>
  The egress guard refuses exactly the documented address blocks: for IPv4 the loopback,
  private, link-local, unspecified, broadcast and CGNAT prefixes, and for IPv6 the loopback,
  unspecified, unique-local and link-local prefixes together with the IPv4-mapped addresses
  whose embedded address is refused.
\<close>

theorem is_forbidden_ip_blocks:
  "is_forbidden_ip ip \<longleftrightarrow>
     (case ip of
        V4 v4 \<Rightarrow> list_ex (in_block 32 (v4_num v4)) v4_blocks
      | V6 v6 \<Rightarrow> list_ex (in_block 128 (v6_num v6)) v6_blocks
          \<or> (v6_num v6 div 2 ^ 32 = 0xffff
             \<and> list_ex (in_block 32 (v6_num v6 mod 2 ^ 32)) v4_blocks))"
  by (cases ip) (simp_all only: IpAddr.case is_forbidden_ip.simps(1) forbidden_v4_blocks
      forbidden_v6_blocks)

end
