(* ===== verification/Strings.thy ===== *)
theory Strings
  imports Prelude "HOL-Library.Char_ord" "HOL-Library.List_Lexorder"
begin

text \<open>
  The string operations of the standard library that the kernel uses (\<open>split\<close>,
  \<open>strip_prefix\<close>, \<open>find\<close>, \<open>trim\<close>), and the \<open>*\<close>-glob matcher of
  kernel/core/src/capability.rs with its declarative meaning: the greedy left-to-right
  scan accepts exactly the strings obtained by replacing each star by some string.
\<close>

section \<open>Standard-library string operations\<close>

fun split_on :: "char \<Rightarrow> string \<Rightarrow> string list" where
  "split_on c [] = [[]]"
| "split_on c (x # xs) =
     (if x = c then [] # split_on c xs
      else (case split_on c xs of p # ps \<Rightarrow> (x # p) # ps | [] \<Rightarrow> [[x]]))"

fun strip_prefix :: "string \<Rightarrow> string \<Rightarrow> string option" where
  "strip_prefix [] s = Some s"
| "strip_prefix (c # p) [] = None"
| "strip_prefix (c # p) (d # s) = (if c = d then strip_prefix p s else None)"

fun str_find :: "string \<Rightarrow> string \<Rightarrow> nat option" where
  "str_find p [] = (if p = [] then Some 0 else None)"
| "str_find p (d # s) = (if prefix p (d # s) then Some 0 else map_option Suc (str_find p s))"

lemma split_on_nonempty [simp]: "split_on c s \<noteq> []"
  by (induction s) (auto split: list.splits)

lemma strip_prefix_Some: "strip_prefix p s = Some r \<longleftrightarrow> s = p @ r"
  by (induction p s rule: strip_prefix.induct) auto

lemma strip_prefix_None: "strip_prefix p s = None \<longleftrightarrow> \<not> prefix p s"
  by (induction p s rule: strip_prefix.induct) auto

lemma str_find_Some:
  "str_find p s = Some n \<Longrightarrow> n \<le> length s \<and> prefix p (drop n s) \<and> (\<forall>m < n. \<not> prefix p (drop m s))"
proof (induction p s arbitrary: n rule: str_find.induct)
  case (2 p d s)
  show ?case
  proof (cases "prefix p (d # s)")
    case False
    then obtain m where m: "str_find p s = Some m" "n = Suc m"
      using 2(2) by auto
    have "\<forall>k < Suc m. \<not> prefix p (drop k (d # s))"
      using 2(1) [OF False m(1)] False by (auto simp: less_Suc_eq_0_disj)
    with 2(1) [OF False m(1)] m(2) show ?thesis
      by simp
  qed (use 2(2) in auto)
qed (auto split: if_splits)

lemma str_find_None: "str_find p s = None \<longleftrightarrow> (\<forall>n \<le> length s. \<not> prefix p (drop n s))"
proof (induction p s rule: str_find.induct)
  case (2 p d s)
  have "(\<forall>n \<le> length (d # s). \<not> prefix p (drop n (d # s)))
    \<longleftrightarrow> \<not> prefix p (d # s) \<and> (\<forall>n \<le> length s. \<not> prefix p (drop n s))"
    by (auto simp: All_less_Suc2 simp flip: less_Suc_eq_le)
  with 2 show ?case
    by auto
qed auto

section \<open>The glob matcher\<close>

fun glob_loop :: "string list \<Rightarrow> string \<Rightarrow> nat \<Rightarrow> string list \<Rightarrow> bool" where
  "glob_loop parts rest i [] = (last parts = [] \<or> length parts = 1)"
| "glob_loop parts rest i (part # more) =
     (if part = [] then glob_loop parts rest (i + 1) more
      else if i = 0 then
        (case strip_prefix part rest of
           Some r \<Rightarrow> glob_loop parts r (i + 1) more
         | None \<Rightarrow> False)
      else if i = length parts - 1 then suffix part rest
      else
        (case str_find part rest of
           Some pos \<Rightarrow> glob_loop parts (drop (pos + length part) rest) (i + 1) more
         | None \<Rightarrow> False))"

definition glob_match :: "string \<Rightarrow> string \<Rightarrow> bool" where
  "glob_match pattern input =
     (let parts = split_on CHR ''*'' pattern in
      if length parts = 1 then pattern = input else glob_loop parts input 0 parts)"

text \<open>The meaning of a glob pattern: a star stands for any string, any other character for itself.\<close>

fun glob_accepts :: "string \<Rightarrow> string \<Rightarrow> bool" where
  "glob_accepts [] s = (s = [])"
| "glob_accepts (c # p) s =
     (if c = CHR ''*'' then \<exists>n \<le> length s. glob_accepts p (drop n s)
      else (case s of [] \<Rightarrow> False | d # s' \<Rightarrow> d = c \<and> glob_accepts p s'))"

text \<open>The parts after the first, each preceded by a star.\<close>

fun star_parts :: "string list \<Rightarrow> string \<Rightarrow> bool" where
  "star_parts [] s = (s = [])"
| "star_parts (p # ps) s = (\<exists>n \<le> length s. prefix p (drop n s)
     \<and> star_parts ps (drop (n + length p) s))"

lemma star_parts_Cons: "star_parts (p # ps) s \<longleftrightarrow> (\<exists>u v. s = u @ p @ v \<and> star_parts ps v)"
proof
  assume "star_parts (p # ps) s"
  then obtain n where n: "prefix p (drop n s)" "star_parts ps (drop (n + length p) s)"
    by auto
  then obtain v where "drop n s = p @ v"
    by (auto simp: prefix_def)
  then have "s = take n s @ p @ v" "v = drop (n + length p) s"
    by (metis append_take_drop_id, metis add.commute append_eq_conv_conj drop_drop)
  with n show "\<exists>u v. s = u @ p @ v \<and> star_parts ps v"
    by blast
next
  assume "\<exists>u v. s = u @ p @ v \<and> star_parts ps v"
  then obtain u v where "s = u @ p @ v" "star_parts ps v"
    by blast
  then have "length u \<le> length s \<and> prefix p (drop (length u) s)
      \<and> star_parts ps (drop (length u + length p) s)"
    by simp
  then show "star_parts (p # ps) s"
    unfolding star_parts.simps by blast
qed

lemma star_parts_extend: "star_parts (p # ps) v \<Longrightarrow> star_parts (p # ps) (u @ v)"
  unfolding star_parts_Cons by (metis append.assoc)

lemma star_parts_last: "star_parts [p] s \<longleftrightarrow> suffix p s"
  by (simp only: star_parts_Cons) (auto simp: suffix_def)

lemma star_parts_skip: "ps \<noteq> [] \<Longrightarrow> star_parts ([] # ps) s \<longleftrightarrow> star_parts ps s"
proof -
  assume "ps \<noteq> []"
  then obtain q qs where ps: "ps = q # qs"
    by (cases ps) auto
  have "(\<exists>u v. s = u @ [] @ v \<and> star_parts (q # qs) v) \<longleftrightarrow> star_parts (q # qs) s"
    using star_parts_extend [of q qs] by (metis append_Nil)
  then show ?thesis
    unfolding star_parts_Cons [of "[]"] ps .
qed

text \<open>Taking the first occurrence of a part loses no match.\<close>

lemma star_parts_greedy:
  assumes "ps \<noteq> []" "str_find p s = Some n"
  shows "star_parts (p # ps) s \<longleftrightarrow> star_parts ps (drop (n + length p) s)"
proof
  assume "star_parts (p # ps) s"
  then obtain m where m: "m \<le> length s" "prefix p (drop m s)" "star_parts ps (drop (m + length p) s)"
    by auto
  have "\<not> m < n"
    using str_find_Some [OF assms(2)] m(2) by blast
  then have "drop (m - n) (drop (n + length p) s) = drop (m + length p) s"
    by simp
  then have split: "drop (n + length p) s
      = take (m - n) (drop (n + length p) s) @ drop (m + length p) s"
    by (metis append_take_drop_id)
  obtain q qs where "ps = q # qs"
    using assms(1) by (cases ps) auto
  with m(3) star_parts_extend [of q qs] split show "star_parts ps (drop (n + length p) s)"
    by (simp del: star_parts.simps) metis
next
  assume "star_parts ps (drop (n + length p) s)"
  with str_find_Some [OF assms(2)] show "star_parts (p # ps) s"
    by auto
qed

text \<open>The loop past its first part decides \<open>star_parts\<close>.\<close>

lemma glob_loop_star:
  assumes "parts = done @ more" "done \<noteq> []" "more \<noteq> []" "i = length done"
  shows "glob_loop parts rest i more \<longleftrightarrow> star_parts more rest"
  using assms
proof (induction more arbitrary: rest i "done")
  case (Cons p ps)
  show ?case
  proof (cases "ps = []")
    case True
    with Cons.prems show ?thesis
      by (cases "p = []") (simp_all add: star_parts_last del: star_parts.simps)
  next
    case False
    have IH: "glob_loop parts r (i + 1) ps \<longleftrightarrow> star_parts ps r" for r
      using Cons.IH [of "done @ [p]" "i + 1" r] Cons.prems False by simp
    have "i \<noteq> 0" "i \<noteq> length parts - 1"
      using Cons.prems False by (cases ps; simp)+
    show ?thesis
    proof (cases "p = []")
      case True
      then show ?thesis
        using IH star_parts_skip [OF False] by (simp del: star_parts.simps)
    next
      case p: False
      show ?thesis
      proof (cases "str_find p rest")
        case None
        then have "\<not> star_parts (p # ps) rest"
          unfolding str_find_None by auto
        with None p \<open>i \<noteq> 0\<close> \<open>i \<noteq> length parts - 1\<close> show ?thesis
          by (simp del: star_parts.simps)
      next
        case (Some n)
        with p \<open>i \<noteq> 0\<close> \<open>i \<noteq> length parts - 1\<close> IH star_parts_greedy [OF False Some]
        show ?thesis
          by (simp del: star_parts.simps)
      qed
    qed
  qed
qed simp

lemma glob_accepts_parts:
  "glob_accepts pat s \<longleftrightarrow>
     prefix (hd (split_on CHR ''*'' pat)) s
   \<and> star_parts (tl (split_on CHR ''*'' pat)) (drop (length (hd (split_on CHR ''*'' pat))) s)"
proof (induction pat arbitrary: s)
  case (Cons c pat)
  obtain p ps where pat: "split_on CHR ''*'' pat = p # ps"
    by (cases "split_on CHR ''*'' pat") simp_all
  show ?case
    using Cons.IH pat by (cases s) (auto simp: add.commute)
qed simp

lemma split_single: "split_on c s = [p] \<Longrightarrow> p = s"
  by (induction s arbitrary: p) (auto split: list.splits if_splits)

lemma glob_match_meaning: "glob_match pattern input \<longleftrightarrow> glob_accepts pattern input"
proof -
  obtain p ps where parts: "split_on CHR ''*'' pattern = p # ps"
    by (cases "split_on CHR ''*'' pattern") simp_all
  have spec: "glob_accepts pattern input
      \<longleftrightarrow> prefix p input \<and> star_parts ps (drop (length p) input)"
    unfolding glob_accepts_parts parts by simp
  show ?thesis
  proof (cases "ps = []")
    case True
    with parts have "p = pattern"
      using split_single by blast
    with True parts show ?thesis
      unfolding spec by (auto simp: glob_match_def prefix_def)
  next
    case False
    have loop: "glob_loop (p # ps) r (Suc 0) ps \<longleftrightarrow> star_parts ps r" for r
      using glob_loop_star [of "p # ps" "[p]" ps 1 r] False by simp
    have start: "glob_match pattern input \<longleftrightarrow> glob_loop (p # ps) input 0 (p # ps)"
      using False by (simp add: glob_match_def parts)
    show ?thesis
    proof (cases "strip_prefix p input")
      case None
      then have "p \<noteq> []" "\<not> prefix p input"
        by (auto simp: strip_prefix_None)
      with None show ?thesis
        unfolding start spec by simp
    next
      case (Some r)
      then have "input = p @ r"
        by (simp add: strip_prefix_Some)
      with Some loop [of r] show ?thesis
        unfolding start spec by (cases "p = []") simp_all
    qed
  qed
qed

text \<open>
  C40. The glob matcher decides the declarative meaning of its pattern: splitting at the
  stars and scanning greedily accepts exactly the inputs that the pattern describes.
\<close>

theorem glob_match_correct: "glob_match pattern input \<longleftrightarrow> glob_accepts pattern input"
  by (rule glob_match_meaning)

end
