(* ===== verification/Paths.thy ===== *)
theory Paths
  imports Strings
begin

text \<open>
  Workspace paths: path normalization and prefix confinement (kernel/core/src/path.rs) and
  the snapshot-ignore set (state.rs). Paths are strings seen through the standard library's
  component iterator.
\<close>

section \<open>Paths and their components\<close>

datatype component = RootDir | CurDir | ParentDir | Normal string

definition classify :: "string \<Rightarrow> component" where
  "classify p = (if p = ''..'' then ParentDir else Normal p)"

text \<open>
  \<open>Path::components\<close> on a Unix path: empty pieces and inner \<open>.\<close> pieces vanish, a leading
  separator is the root, a leading \<open>.\<close> the current directory.
\<close>

definition kept_piece :: "string \<Rightarrow> bool" where
  "kept_piece p = (p \<noteq> [] \<and> p \<noteq> ''.'')"

definition components :: "string \<Rightarrow> component list" where
  "components s =
     (let pieces = split_on CHR ''/'' s; body = map classify (filter kept_piece pieces) in
      if s \<noteq> [] \<and> hd s = CHR ''/'' then RootDir # body
      else if hd pieces = ''.'' then CurDir # body
      else body)"

fun component_str :: "component \<Rightarrow> string" where
  "component_str RootDir = ''/''"
| "component_str CurDir = ''.''"
| "component_str ParentDir = ''..''"
| "component_str (Normal c) = c"

definition path_push :: "string \<Rightarrow> string \<Rightarrow> string" where
  "path_push out c = (if out = [] then c else out @ ''/'' @ c)"

fun join_path :: "string list \<Rightarrow> string" where
  "join_path [] = []"
| "join_path [c] = c"
| "join_path (c # d # cs) = c @ ''/'' @ join_path (d # cs)"

datatype PathError =
    EmptyPath
  | HasParentDir string
  | AbsolutePath string
  | NamesRoot string
  | ScratchTier string string

fun normalize_loop :: "string \<Rightarrow> string \<Rightarrow> component list \<Rightarrow> (PathError, string) outcome" where
  "normalize_loop raw out [] = Ok out"
| "normalize_loop raw out (Normal c # cs) = normalize_loop raw (path_push out c) cs"
| "normalize_loop raw out (CurDir # cs) = normalize_loop raw out cs"
| "normalize_loop raw out (ParentDir # cs) = Err (HasParentDir raw)"
| "normalize_loop raw out (RootDir # cs) = Err (AbsolutePath raw)"

definition normalize_relative :: "string \<Rightarrow> (PathError, string) outcome" where
  "normalize_relative raw =
     (if raw = [] then Err EmptyPath else normalize_loop raw [] (components raw))"

fun trim_dot_slash :: "string \<Rightarrow> string" where
  "trim_dot_slash (CHR ''.'' # CHR ''/'' # s) = trim_dot_slash s"
| "trim_dot_slash s = s"

definition trim_end_slash :: "string \<Rightarrow> string" where
  "trim_end_slash s = rev (dropWhile (\<lambda>c. c = CHR ''/'') (rev s))"

definition matches_prefixes :: "string \<Rightarrow> string list \<Rightarrow> bool" where
  "matches_prefixes rel prefs =
     (if prefs = [] then True
      else list_ex (\<lambda>p. let q = trim_end_slash (trim_dot_slash p) in
                        if q = [] then True else prefix (components q) (components rel)) prefs)"

definition DEFAULT_SNAPSHOT_IGNORES :: "string list" where
  "DEFAULT_SNAPSHOT_IGNORES =
     [''node_modules'', ''target'', ''.venv'', ''venv'', ''__pycache__'', ''.pytest_cache'',
      ''.mypy_cache'', ''.ruff_cache'', ''.cache'', ''.aktmp'', ''.DS_Store'']"

definition is_ignored_component :: "string \<Rightarrow> bool" where
  "is_ignored_component name = List.member DEFAULT_SNAPSHOT_IGNORES name"

definition syncable_path :: "string \<Rightarrow> (PathError, string) outcome" where
  "syncable_path path =
     (case normalize_relative path of
        Err e \<Rightarrow> Err e
      | Ok rel \<Rightarrow>
          if rel = [] then Err (NamesRoot path)
          else
            let parts = map component_str (components rel) in
            (case find is_ignored_component parts of
               Some part \<Rightarrow> Err (ScratchTier path part)
             | None \<Rightarrow> Ok (join_path parts)))"

section \<open>Normalization\<close>

definition clean_name :: "string \<Rightarrow> bool" where
  "clean_name c = (c \<noteq> [] \<and> c \<noteq> ''.'' \<and> c \<noteq> ''..'' \<and> CHR ''/'' \<notin> set c)"

abbreviation pieces :: "string \<Rightarrow> string list" where
  "pieces s \<equiv> filter kept_piece (split_on CHR ''/'' s)"

lemma split_on_no_sep: "p \<in> set (split_on c s) \<Longrightarrow> c \<notin> set p"
  by (induction s arbitrary: p) (auto split: list.splits if_splits)

lemma split_on_append:
  "c \<notin> set p \<Longrightarrow> split_on c (p @ c # s) = p # split_on c s"
  by (induction p) auto

lemma split_on_id: "c \<notin> set p \<Longrightarrow> split_on c p = [p]"
  by (induction p) auto

lemma split_join:
  "cs \<noteq> [] \<Longrightarrow> list_all clean_name cs \<Longrightarrow> split_on CHR ''/'' (join_path cs) = cs"
  by (induction cs rule: join_path.induct) (auto simp: clean_name_def split_on_id split_on_append)

lemma filter_clean: "list_all clean_name cs \<Longrightarrow> filter kept_piece cs = cs"
  by (auto simp: list_all_iff clean_name_def kept_piece_def intro: filter_True)

lemma clean_classify: "list_all clean_name cs \<Longrightarrow> map classify cs = map Normal cs"
  by (auto simp: list_all_iff clean_name_def classify_def)

lemma components_join:
  assumes "list_all clean_name cs"
  shows "components (join_path cs) = map Normal cs"
proof (cases cs)
  case Nil
  then show ?thesis
    by (simp add: components_def kept_piece_def)
next
  case (Cons c cs')
  have "c \<noteq> []" "hd c \<noteq> CHR ''/''" "c \<noteq> ''.''"
    using assms Cons by (cases c; auto simp: clean_name_def)+
  moreover from this have "join_path cs \<noteq> []" "hd (join_path cs) \<noteq> CHR ''/''"
    using Cons by (cases cs'; simp)+
  ultimately show ?thesis
    using split_join [OF _ assms] filter_clean [OF assms] clean_classify [OF assms] Cons
    by (simp add: components_def)
qed

lemma join_path_Nil: "list_all clean_name cs \<Longrightarrow> join_path cs = [] \<longleftrightarrow> cs = []"
  by (cases cs rule: join_path.cases) (auto simp: clean_name_def)

lemma join_path_snoc: "list_all clean_name cs \<Longrightarrow> path_push (join_path cs) c = join_path (cs @ [c])"
proof (induction cs rule: join_path.induct)
  case (3 c d cs)
  then show ?case
    using join_path_Nil [of "d # cs"] by (auto simp: path_push_def)
qed (auto simp: path_push_def clean_name_def)

lemma normalize_loop_normal:
  "list_all clean_name (cs @ ds)
    \<Longrightarrow> normalize_loop raw (join_path cs) (map Normal ds) = Ok (join_path (cs @ ds))"
proof (induction ds arbitrary: cs)
  case (Cons d ds)
  then show ?case
    using Cons.IH [of "cs @ [d]"] by (simp add: join_path_snoc)
qed simp

lemma normalize_loop_parent:
  "''..'' \<in> set ps \<Longrightarrow> normalize_loop raw out (map classify ps) = Err (HasParentDir raw)"
  by (induction ps arbitrary: out) (auto simp: classify_def)

lemma pieces_clean: "''..'' \<notin> set (split_on CHR ''/'' s) \<Longrightarrow> list_all clean_name (pieces s)"
  by (auto simp: list_all_iff clean_name_def kept_piece_def dest: split_on_no_sep)

lemma parent_kept: "''..'' \<in> set (split_on CHR ''/'' s) \<longleftrightarrow> ''..'' \<in> set (pieces s)"
  by (auto simp: kept_piece_def)

lemma normalize_body:
  "normalize_loop raw [] (map classify (pieces s)) =
     (if ''..'' \<in> set (split_on CHR ''/'' s) then Err (HasParentDir raw)
      else Ok (join_path (pieces s)))"
proof (cases "''..'' \<in> set (split_on CHR ''/'' s)")
  case True
  then show ?thesis
    unfolding parent_kept by (simp add: normalize_loop_parent)
next
  case False
  then show ?thesis
    using normalize_loop_normal [of "[]" "pieces s" raw] pieces_clean [OF False]
    by (simp add: clean_classify)
qed

lemma normalize_relative_eq:
  "normalize_relative raw =
     (if raw = [] then Err EmptyPath
      else if hd raw = CHR ''/'' then Err (AbsolutePath raw)
      else if ''..'' \<in> set (split_on CHR ''/'' raw) then Err (HasParentDir raw)
      else Ok (join_path (pieces raw)))"
  using normalize_body [of raw raw]
  by (simp add: normalize_relative_def components_def Let_def)

lemma normalize_join:
  "cs \<noteq> [] \<Longrightarrow> list_all clean_name cs \<Longrightarrow> normalize_relative (join_path cs) = Ok (join_path cs)"
proof -
  assume cs: "cs \<noteq> []" "list_all clean_name cs"
  have "join_path cs \<noteq> []"
    using join_path_Nil cs by blast
  then show ?thesis
    using normalize_loop_normal [of "[]" cs] cs
    by (simp add: normalize_relative_def components_join)
qed



section \<open>State sync\<close>

lemma syncable_path_Ok:
  "syncable_path path = Ok q \<longleftrightarrow>
     (\<exists>names. normalize_relative path = Ok q \<and> names \<noteq> [] \<and> q = join_path names
        \<and> list_all clean_name names \<and> list_all (\<lambda>n. \<not> is_ignored_component n) names)"
proof
  assume sp: "syncable_path path = Ok q"
  then obtain rel where rel: "normalize_relative path = Ok rel" "rel \<noteq> []"
    by (auto simp: syncable_path_def split: sum.splits if_splits)
  then obtain names where names: "rel = join_path names" "list_all clean_name names"
    using pieces_clean by (auto simp: normalize_relative_eq split: if_splits)
  have parts: "map component_str (components rel) = names"
    using names by (simp add: components_join comp_def)
  have "find is_ignored_component names = None" "q = join_path names"
    using sp rel parts by (auto simp: syncable_path_def Let_def split: option.splits)
  then show "\<exists>names. normalize_relative path = Ok q \<and> names \<noteq> [] \<and> q = join_path names
        \<and> list_all clean_name names \<and> list_all (\<lambda>n. \<not> is_ignored_component n) names"
    using rel names by (intro exI [of _ names]) (auto simp: find_None_iff list_all_iff)
next
  assume "\<exists>names. normalize_relative path = Ok q \<and> names \<noteq> [] \<and> q = join_path names
        \<and> list_all clean_name names \<and> list_all (\<lambda>n. \<not> is_ignored_component n) names"
  then obtain names where n: "normalize_relative path = Ok q" "names \<noteq> []" "q = join_path names"
    "list_all clean_name names" "list_all (\<lambda>n. \<not> is_ignored_component n) names"
    by blast
  have "find is_ignored_component names = None"
    using n(5) by (auto simp: find_None_iff list_all_iff)
  then show "syncable_path path = Ok q"
    using n by (simp add: syncable_path_def components_join comp_def join_path_Nil)
qed

end
