(* ===== verification/StateSync.thy ===== *)
theory StateSync
  imports Paths "HOL-Library.Sublist"
begin

text \<open>
  Remote state sync: the transfer plan between two workspace manifests and the manifest
  shape check (kernel/core/src/sync.rs), and the validation of the delta a remote sandbox
  returns (kernel/api/src/kernel.rs). A manifest, a sorted map in the source, is its list of
  entries in key order.
\<close>

section \<open>Manifests and transfer plans\<close>

record SyncEntry =
  sync_blob :: string
  sync_mode :: u32

type_synonym SyncManifest = "(string \<times> SyncEntry) list"

record PushPlan =
  plan_upserts :: "(string \<times> SyncEntry) list"
  plan_deletes :: "string list"

definition push_plan :: "SyncManifest \<Rightarrow> SyncManifest \<Rightarrow> PushPlan" where
  "push_plan current target =
     \<lparr> plan_upserts = filter (\<lambda>(path, entry). map_of current path \<noteq> Some entry) target,
       plan_deletes = filter (\<lambda>path. map_of target path = None) (map fst current) \<rparr>"

definition plan_is_empty :: "PushPlan \<Rightarrow> bool" where
  "plan_is_empty plan = (plan_upserts plan = [] \<and> plan_deletes plan = [])"

text \<open>The byte offsets of \<open>match_indices('/')\<close>, and the first ancestor found in a manifest.\<close>

definition separators :: "string \<Rightarrow> nat list" where
  "separators path = filter (\<lambda>i. path ! i = CHR ''/'') [0..<length path]"

definition file_ancestor :: "string list \<Rightarrow> string \<Rightarrow> string option" where
  "file_ancestor keys path =
     find (\<lambda>ancestor. ancestor \<in> set keys) (map (\<lambda>i. take i path) (separators path))"

fun shape_loop :: "string list \<Rightarrow> string list \<Rightarrow> (string \<times> string, unit) outcome" where
  "shape_loop keys [] = Ok ()"
| "shape_loop keys (path # paths) =
     (case file_ancestor keys path of
        Some ancestor \<Rightarrow> Err (ancestor, path)
      | None \<Rightarrow> shape_loop keys paths)"

definition validate_manifest_shape :: "SyncManifest \<Rightarrow> (string \<times> string, unit) outcome" where
  "validate_manifest_shape manifest = shape_loop (map fst manifest) (map fst manifest)"

section \<open>Deltas returned by a remote sandbox\<close>

record SyncedFile =
  file_path :: string
  file_contents :: string
  file_mode :: u32

record WorkspaceDelta =
  delta_upserts :: "SyncedFile list"
  delta_deletes :: "string list"

datatype DeltaRefusal =
    NotSyncable string PathError
  | NotCanonical string string
  | OutsidePrefixes string
  | MentionedTwice string
  | WritesFileAncestor string string

definition check_delta_path :: "string list \<Rightarrow> string \<Rightarrow> (DeltaRefusal, string) outcome" where
  "check_delta_path writable raw =
     (case syncable_path raw of
        Err e \<Rightarrow> Err (NotSyncable raw e)
      | Ok path \<Rightarrow>
          if path \<noteq> raw then Err (NotCanonical raw path)
          else if \<not> matches_prefixes path writable then Err (OutsidePrefixes raw)
          else Ok path)"

text \<open>The loops over the written and the deleted paths, with the set of paths seen so far.\<close>

fun delta_paths_loop ::
  "string list \<Rightarrow> string list \<Rightarrow> string list \<Rightarrow> (DeltaRefusal, string list) outcome" where
  "delta_paths_loop writable touched [] = Ok touched"
| "delta_paths_loop writable touched (raw # raws) =
     (case check_delta_path writable raw of
        Err e \<Rightarrow> Err e
      | Ok path \<Rightarrow>
          if path \<in> set touched then Err (MentionedTwice raw)
          else delta_paths_loop writable (path # touched) raws)"

text \<open>The non-empty proper ancestors of a path, nearest first, as \<open>Path::parent\<close> walks them.\<close>

definition path_ancestors :: "string \<Rightarrow> string list" where
  "path_ancestors path =
     (let cs = map component_str (components path) in
      map (\<lambda>k. join_path (take k cs)) (rev [1..<length cs]))"

fun delta_shape_loop :: "string list \<Rightarrow> string list \<Rightarrow> (DeltaRefusal, unit) outcome" where
  "delta_shape_loop ups [] = Ok ()"
| "delta_shape_loop ups (path # paths) =
     (case find (\<lambda>a. a \<in> set ups) (path_ancestors path) of
        Some a \<Rightarrow> Err (WritesFileAncestor path a)
      | None \<Rightarrow> delta_shape_loop ups paths)"

definition validate_workspace_delta ::
  "WorkspaceDelta \<Rightarrow> string list \<Rightarrow> (DeltaRefusal, unit) outcome" where
  "validate_workspace_delta delta writable =
     (let ups = map file_path (delta_upserts delta) in
      case delta_paths_loop writable [] ups of
        Err e \<Rightarrow> Err e
      | Ok touched \<Rightarrow>
          (case delta_paths_loop writable touched (delta_deletes delta) of
             Err e \<Rightarrow> Err e
           | Ok _ \<Rightarrow> delta_shape_loop ups (sort ups)))"

section \<open>The plan reaches its target\<close>

text \<open>What executing a plan does to the remote tree.\<close>

definition apply_plan :: "PushPlan \<Rightarrow> (string \<rightharpoonup> SyncEntry) \<Rightarrow> string \<rightharpoonup> SyncEntry" where
  "apply_plan plan tree =
     (\<lambda>p. if p \<in> set (plan_deletes plan) then None else tree p) ++ map_of (plan_upserts plan)"

lemma map_of_filter_changed:
  assumes "distinct (map fst target)"
  shows "map_of (filter (\<lambda>(p, e). current p \<noteq> Some e) target) p =
    (if map_of target p = current p then None else map_of target p)"
  using assms
proof (induction target)
  case (Cons kv t)
  obtain k e where kv: "kv = (k, e)"
    by (cases kv)
  have "map_of t k = None"
    using Cons.prems by (simp add: kv map_of_eq_None_iff)
  then show ?case
    using Cons by (cases "p = k") (simp_all add: kv)
qed simp

lemma deletes_iff:
  "p \<in> set (plan_deletes (push_plan current target))
     \<longleftrightarrow> map_of current p \<noteq> None \<and> map_of target p = None"
  by (auto simp: push_plan_def map_of_eq_None_iff)

lemma upserts_iff:
  assumes "distinct (map fst target)"
  shows "(p, e) \<in> set (plan_upserts (push_plan current target))
     \<longleftrightarrow> map_of target p = Some e \<and> map_of current p \<noteq> Some e"
  using assms by (auto simp: push_plan_def)

lemma apply_push_plan:
  assumes "distinct (map fst target)"
  shows "apply_plan (push_plan current target) (map_of current) p = map_of target p"
proof -
  have ups: "map_of (plan_upserts (push_plan current target)) p =
      (if map_of target p = map_of current p then None else map_of target p)"
    using map_of_filter_changed [OF assms] by (simp add: push_plan_def)
  show ?thesis
    unfolding apply_plan_def map_add_def ups deletes_iff
    by (cases "map_of target p"; cases "map_of current p") auto
qed

lemma plan_empty_iff:
  assumes "distinct (map fst target)"
  shows "plan_is_empty (push_plan current target) \<longleftrightarrow> map_of current = map_of target"
proof
  assume "plan_is_empty (push_plan current target)"
  then have "apply_plan (push_plan current target) (map_of current) = map_of current"
    by (auto simp: plan_is_empty_def apply_plan_def)
  then show "map_of current = map_of target"
    using apply_push_plan [OF assms] by (metis ext)
next
  assume eq: "map_of current = map_of target"
  have "set (plan_deletes (push_plan current target)) = {}"
    unfolding set_eq_iff deletes_iff eq by blast
  moreover have "set (plan_upserts (push_plan current target)) = {}"
    using upserts_iff [OF assms, of _ _ current] unfolding eq set_eq_iff by fast
  ultimately show "plan_is_empty (push_plan current target)"
    by (simp add: plan_is_empty_def)
qed

text \<open>
  A push plan is exact and minimal: executing the plan turns any remote tree equal to the
  current manifest into the target manifest, it writes only paths whose entry differs and
  deletes only paths absent from the target, and it is empty exactly when the two manifests
  describe the same tree.
\<close>

theorem push_plan_exact:
  assumes "distinct (map fst target)"
  shows "apply_plan (push_plan current target) (map_of current) = map_of target
    \<and> (\<forall>(p, e) \<in> set (plan_upserts (push_plan current target)).
         map_of target p = Some e \<and> map_of current p \<noteq> Some e)
    \<and> (\<forall>p \<in> set (plan_deletes (push_plan current target)).
         map_of target p = None \<and> map_of current p \<noteq> None)
    \<and> (plan_is_empty (push_plan current target) \<longleftrightarrow> map_of current = map_of target)"
proof (intro conjI)
  show "apply_plan (push_plan current target) (map_of current) = map_of target"
    using apply_push_plan [OF assms] by (rule ext)
  show "\<forall>(p, e) \<in> set (plan_upserts (push_plan current target)).
      map_of target p = Some e \<and> map_of current p \<noteq> Some e"
    using upserts_iff [OF assms] by blast
  show "\<forall>p \<in> set (plan_deletes (push_plan current target)).
      map_of target p = None \<and> map_of current p \<noteq> None"
    using deletes_iff by blast
qed (rule plan_empty_iff [OF assms])

theorem push_plan_exact_witness:
  "apply_plan (push_plan [(''a'', \<lparr>sync_blob = ''x'', sync_mode = 420\<rparr>)]
      [(''b'', \<lparr>sync_blob = ''y'', sync_mode = 420\<rparr>)])
      (map_of [(''a'', \<lparr>sync_blob = ''x'', sync_mode = 420\<rparr>)])
    = map_of [(''b'', \<lparr>sync_blob = ''y'', sync_mode = 420\<rparr>)]"
  using push_plan_exact [of "[(''b'', \<lparr>sync_blob = ''y'', sync_mode = 420\<rparr>)]"
      "[(''a'', \<lparr>sync_blob = ''x'', sync_mode = 420\<rparr>)]"]
  by simp

section \<open>The shape check\<close>

lemma shape_loop_Ok: "shape_loop keys paths = Ok () \<longleftrightarrow> (\<forall>p \<in> set paths. file_ancestor keys p = None)"
  by (induction paths) (auto split: option.splits)

lemma shape_loop_Err:
  "shape_loop keys paths = Err (a, p) \<Longrightarrow> p \<in> set paths \<and> file_ancestor keys p = Some a"
  by (induction paths) (auto split: option.splits)

lemma separator_iff: "i \<in> set (separators path) \<longleftrightarrow> (\<exists>rest. path = take i path @ ''/'' @ rest)"
proof
  assume "i \<in> set (separators path)"
  then have "i < length path" "path ! i = CHR ''/''"
    by (simp_all add: separators_def)
  then have "path = take i path @ ''/'' @ drop (Suc i) path"
    using id_take_nth_drop [of i path] by simp
  then show "\<exists>rest. path = take i path @ ''/'' @ rest"
    by blast
next
  assume "\<exists>rest. path = take i path @ ''/'' @ rest"
  then obtain rest where r: "path = take i path @ ''/'' @ rest"
    by blast
  have "length (take i path) < length path"
    by (subst (2) r) simp
  then have "i < length path"
    by simp
  moreover have "path ! length (take i path) = CHR ''/''"
    by (subst r) (metis append_Cons nth_append_length)
  ultimately show "i \<in> set (separators path)"
    by (simp add: separators_def)
qed

lemma file_ancestor_Some:
  "file_ancestor keys path = Some a \<Longrightarrow> a \<in> set keys \<and> (\<exists>rest. path = a @ ''/'' @ rest)"
proof -
  assume "file_ancestor keys path = Some a"
  from find_SomeD [OF this [unfolded file_ancestor_def]]
  obtain i where "i \<in> set (separators path)" "a = take i path" "a \<in> set keys"
    by auto
  then show ?thesis
    using separator_iff [of i path] by blast
qed

lemma file_ancestor_None:
  "file_ancestor keys path = None \<longleftrightarrow> (\<forall>a rest. a \<in> set keys \<longrightarrow> path \<noteq> a @ ''/'' @ rest)"
proof
  assume "file_ancestor keys path = None"
  then have none: "take i path \<notin> set keys" if "i \<in> set (separators path)" for i
    using that by (auto simp: file_ancestor_def find_None_iff)
  show "\<forall>a rest. a \<in> set keys \<longrightarrow> path \<noteq> a @ ''/'' @ rest"
  proof (intro allI impI notI)
    fix a rest
    assume a: "a \<in> set keys" "path = a @ ''/'' @ rest"
    then have "take (length a) path = a" "length a \<in> set (separators path)"
      by (auto simp: separator_iff)
    with none a(1) show False
      by metis
  qed
next
  assume "\<forall>a rest. a \<in> set keys \<longrightarrow> path \<noteq> a @ ''/'' @ rest"
  then show "file_ancestor keys path = None"
    using file_ancestor_Some by (cases "file_ancestor keys path") blast+
qed

text \<open>
  The manifest shape check accepts exactly the manifests of possible trees: it fails iff
  some listed file is also a directory prefix of another listed path, and the pair it reports
  is such a conflict.
\<close>

theorem validate_manifest_shape_decides:
  "(validate_manifest_shape m = Ok () \<longleftrightarrow>
      \<not> (\<exists>a rest. a \<in> fst ` set m \<and> a @ ''/'' @ rest \<in> fst ` set m))
   \<and> (\<forall>a p. validate_manifest_shape m = Err (a, p) \<longrightarrow>
        a \<in> fst ` set m \<and> p \<in> fst ` set m \<and> (\<exists>rest. p = a @ ''/'' @ rest))"
proof (intro conjI allI impI)
  show "validate_manifest_shape m = Ok () \<longleftrightarrow>
      \<not> (\<exists>a rest. a \<in> fst ` set m \<and> a @ ''/'' @ rest \<in> fst ` set m)"
    unfolding validate_manifest_shape_def shape_loop_Ok file_ancestor_None set_map by blast
next
  fix a p
  assume "validate_manifest_shape m = Err (a, p)"
  then have "p \<in> set (map fst m)" "file_ancestor (map fst m) p = Some a"
    unfolding validate_manifest_shape_def by (blast dest: shape_loop_Err)+
  then show "a \<in> fst ` set m" "p \<in> fst ` set m" "\<exists>rest. p = a @ ''/'' @ rest"
    using file_ancestor_Some by force+
qed

theorem validate_manifest_shape_decides_witness:
  "validate_manifest_shape [(''a'', \<lparr>sync_blob = ''x'', sync_mode = 420\<rparr>),
      (''a/b'', \<lparr>sync_blob = ''y'', sync_mode = 420\<rparr>)] = Err (''a'', ''a/b'')
   \<and> (\<exists>rest. ''a/b'' = ''a'' @ ''/'' @ rest)"
proof -
  have v: "validate_manifest_shape [(''a'', \<lparr>sync_blob = ''x'', sync_mode = 420\<rparr>),
      (''a/b'', \<lparr>sync_blob = ''y'', sync_mode = 420\<rparr>)] = Err (''a'', ''a/b'')"
    by (simp add: validate_manifest_shape_def file_ancestor_def separators_def upt_rec)
  then show ?thesis
    using validate_manifest_shape_decides
      [of "[(''a'', \<lparr>sync_blob = ''x'', sync_mode = 420\<rparr>),
        (''a/b'', \<lparr>sync_blob = ''y'', sync_mode = 420\<rparr>)]"] by blast
qed

section \<open>Accepted deltas\<close>

lemma check_delta_path_Ok:
  "check_delta_path writable raw = Ok p \<longleftrightarrow>
     p = raw \<and> syncable_path raw = Ok raw \<and> matches_prefixes raw writable"
  by (auto simp: check_delta_path_def split: sum.splits)

lemma delta_paths_loop_Ok:
  "delta_paths_loop writable touched raws = Ok t \<longleftrightarrow>
     t = rev raws @ touched
   \<and> (\<forall>p \<in> set raws. syncable_path p = Ok p \<and> matches_prefixes p writable)
   \<and> distinct raws \<and> set raws \<inter> set touched = {}"
proof (induction raws arbitrary: touched)
  case (Cons raw raws)
  show ?case
  proof (cases "check_delta_path writable raw")
    case (Inl e)
    then have "\<not> (syncable_path raw = Ok raw \<and> matches_prefixes raw writable)"
      using check_delta_path_Ok [of writable raw raw] by auto
    with Inl show ?thesis
      by auto
  next
    case (Inr p)
    then have "p = raw" "syncable_path raw = Ok raw" "matches_prefixes raw writable"
      unfolding check_delta_path_Ok by simp_all
    with Inr Cons.IH [of "raw # touched"] show ?thesis
      by auto
  qed
qed auto

lemma delta_shape_loop_Ok:
  "delta_shape_loop ups paths = Ok () \<longleftrightarrow>
     (\<forall>p \<in> set paths. \<forall>a \<in> set (path_ancestors p). a \<notin> set ups)"
  by (induction paths) (auto simp: find_None_iff dest: find_SomeD split: option.splits)

lemma path_ancestors_join:
  assumes "list_all clean_name names"
  shows "set (path_ancestors (join_path names))
    = {join_path (take k names) |k. 0 < k \<and> k < length names}"
  using assms by (auto simp: path_ancestors_def components_join comp_def)

lemma map_Normal_inj: "map Normal xs = map Normal ys \<longleftrightarrow> xs = ys"
  by (simp add: inj_map_eq_map inj_def)

lemma join_path_inj:
  "list_all clean_name xs \<Longrightarrow> list_all clean_name ys \<Longrightarrow> join_path xs = join_path ys \<longleftrightarrow> xs = ys"
  using components_join [of xs] components_join [of ys] map_Normal_inj by metis

lemma prefix_map_Normal: "prefix (map Normal xs) (map Normal ys) \<longleftrightarrow> prefix xs ys"
  by (induction xs arbitrary: ys; case_tac ys) auto

lemma strict_prefix_take:
  "xs \<noteq> [] \<Longrightarrow> strict_prefix xs ys \<longleftrightarrow> (\<exists>k. 0 < k \<and> k < length ys \<and> xs = take k ys)"
proof
  assume "xs \<noteq> []" "strict_prefix xs ys"
  then show "\<exists>k. 0 < k \<and> k < length ys \<and> xs = take k ys"
    by (intro exI [of _ "length xs"]) (auto simp: strict_prefix_def prefix_def)
next
  assume "\<exists>k. 0 < k \<and> k < length ys \<and> xs = take k ys"
  then obtain k where "k < length ys" "xs = take k ys"
    by blast
  then show "strict_prefix xs ys"
    using take_is_prefix [of k ys] by (auto simp: strict_prefix_def dest: arg_cong [of _ _ length])
qed

lemma ancestor_components:
  assumes "syncable_path p = Ok p" "syncable_path a = Ok a"
  shows "a \<in> set (path_ancestors p) \<longleftrightarrow> strict_prefix (components a) (components p)"
proof -
  obtain ns ms where ns: "p = join_path ns" "list_all clean_name ns"
    and ms: "a = join_path ms" "list_all clean_name ms" "ms \<noteq> []"
    using assms unfolding syncable_path_Ok by metis
  have clean: "list_all clean_name (take k ns)" for k
    using ns(2) by (metis append_take_drop_id list_all_append)
  have "a \<in> set (path_ancestors p) \<longleftrightarrow> (\<exists>k. 0 < k \<and> k < length ns \<and> ms = take k ns)"
    unfolding ns(1) path_ancestors_join [OF ns(2)] ms(1)
    using join_path_inj [OF ms(2) clean] by blast
  also have "\<dots> \<longleftrightarrow> strict_prefix ms ns"
    using strict_prefix_take [OF ms(3)] by blast
  also have "\<dots> \<longleftrightarrow> strict_prefix (components a) (components p)"
    unfolding ns(1) ms(1) components_join [OF ns(2)] components_join [OF ms(2)]
    by (simp add: strict_prefix_def prefix_map_Normal map_Normal_inj)
  finally show ?thesis .
qed



end
