(* ===== verification/Budget.thy ===== *)
theory Budget
  imports Prelude
begin

text \<open>
  Resource budgets (kernel/core/src/budget.rs): the six accounted dimensions at their
  machine widths, the dimension-wise order used by attenuation, clamping, saturating
  arithmetic and the charge operation, and the contract of a budget account that the
  step scheduler relies on.
\<close>

section \<open>The budget record and its operations\<close>

record ResourceBudget =
  cpu_ms :: u64
  memory_bytes :: u64
  network_bytes :: u64
  tokens :: u64
  cost_micro_usd :: u64
  risk_units :: u32

definition budget_zero :: ResourceBudget where
  "budget_zero = \<lparr> cpu_ms = 0, memory_bytes = 0, network_bytes = 0, tokens = 0,
     cost_micro_usd = 0, risk_units = 0 \<rparr>"

definition step_default :: ResourceBudget where
  "step_default = \<lparr> cpu_ms = 60000, memory_bytes = push_bit 30 2,
     network_bytes = push_bit 20 256, tokens = 200000, cost_micro_usd = 0, risk_units = 10 \<rparr>"

definition fits_within :: "ResourceBudget \<Rightarrow> ResourceBudget \<Rightarrow> bool" where
  "fits_within b outer \<longleftrightarrow>
     cpu_ms b \<le> cpu_ms outer
   \<and> memory_bytes b \<le> memory_bytes outer
   \<and> network_bytes b \<le> network_bytes outer
   \<and> tokens b \<le> tokens outer
   \<and> cost_micro_usd b \<le> cost_micro_usd outer
   \<and> risk_units b \<le> risk_units outer"

definition exceeding_dimensions :: "ResourceBudget \<Rightarrow> ResourceBudget \<Rightarrow> string list" where
  "exceeding_dimensions b outer =
     (if cpu_ms b > cpu_ms outer then [''cpu_ms''] else [])
   @ (if memory_bytes b > memory_bytes outer then [''memory_bytes''] else [])
   @ (if network_bytes b > network_bytes outer then [''network_bytes''] else [])
   @ (if tokens b > tokens outer then [''tokens''] else [])
   @ (if cost_micro_usd b > cost_micro_usd outer then [''cost_micro_usd''] else [])
   @ (if risk_units b > risk_units outer then [''risk_units''] else [])"

definition clamped_to :: "ResourceBudget \<Rightarrow> ResourceBudget \<Rightarrow> ResourceBudget" where
  "clamped_to b outer = \<lparr>
     cpu_ms = min (cpu_ms b) (cpu_ms outer),
     memory_bytes = min (memory_bytes b) (memory_bytes outer),
     network_bytes = min (network_bytes b) (network_bytes outer),
     tokens = min (tokens b) (tokens outer),
     cost_micro_usd = min (cost_micro_usd b) (cost_micro_usd outer),
     risk_units = min (risk_units b) (risk_units outer) \<rparr>"

definition saturating_sub :: "ResourceBudget \<Rightarrow> ResourceBudget \<Rightarrow> ResourceBudget" where
  "saturating_sub b other = \<lparr>
     cpu_ms = sat_sub (cpu_ms b) (cpu_ms other),
     memory_bytes = sat_sub (memory_bytes b) (memory_bytes other),
     network_bytes = sat_sub (network_bytes b) (network_bytes other),
     tokens = sat_sub (tokens b) (tokens other),
     cost_micro_usd = sat_sub (cost_micro_usd b) (cost_micro_usd other),
     risk_units = sat_sub (risk_units b) (risk_units other) \<rparr>"

definition saturating_add :: "ResourceBudget \<Rightarrow> ResourceBudget \<Rightarrow> ResourceBudget" where
  "saturating_add b other = \<lparr>
     cpu_ms = sat_add (cpu_ms b) (cpu_ms other),
     memory_bytes = sat_add (memory_bytes b) (memory_bytes other),
     network_bytes = sat_add (network_bytes b) (network_bytes other),
     tokens = sat_add (tokens b) (tokens other),
     cost_micro_usd = sat_add (cost_micro_usd b) (cost_micro_usd other),
     risk_units = sat_add (risk_units b) (risk_units other) \<rparr>"

text \<open>
  One expansion of the \<open>dim!\<close> macro of \<open>charge\<close>: the name of the dimension is pushed and
  the field zeroed when the usage exceeds it, and the field is decremented otherwise.
\<close>

definition charge_dim :: "string \<Rightarrow> 'a::len word \<Rightarrow> 'a word \<Rightarrow> string list \<times> 'a word" where
  "charge_dim name have_now usage =
     (if usage > have_now then ([name], 0) else ([], have_now - usage))"

definition charge :: "ResourceBudget \<Rightarrow> ResourceBudget \<Rightarrow> string list \<times> ResourceBudget" where
  "charge b usage =
     (let (e1, c1) = charge_dim ''cpu_ms'' (cpu_ms b) (cpu_ms usage);
          (e2, c2) = charge_dim ''memory_bytes'' (memory_bytes b) (memory_bytes usage);
          (e3, c3) = charge_dim ''network_bytes'' (network_bytes b) (network_bytes usage);
          (e4, c4) = charge_dim ''tokens'' (tokens b) (tokens usage);
          (e5, c5) = charge_dim ''cost_micro_usd'' (cost_micro_usd b) (cost_micro_usd usage);
          (e6, c6) = charge_dim ''risk_units'' (risk_units b) (risk_units usage)
      in (e1 @ e2 @ e3 @ e4 @ e5 @ e6,
          \<lparr> cpu_ms = c1, memory_bytes = c2, network_bytes = c3, tokens = c4,
            cost_micro_usd = c5, risk_units = c6 \<rparr>))"

section \<open>The order, clamping and charging\<close>

lemmas budget_ops [budget_simps] =
  fits_within_def clamped_to_def saturating_sub_def saturating_add_def budget_zero_def

lemma fits_within_refl [simp]: "fits_within b b"
  by (simp add: budget_simps)

lemma fits_within_trans: "fits_within a b \<Longrightarrow> fits_within b c \<Longrightarrow> fits_within a c"
  by (auto simp: budget_simps intro: order.trans)

lemma fits_within_antisym: "fits_within a b \<Longrightarrow> fits_within b a \<Longrightarrow> a = b"
  by (cases a; cases b) (auto simp: budget_simps)

lemma zero_fits [simp]: "fits_within budget_zero b"
  by (simp add: budget_simps)

lemma exceeding_dimensions_empty: "exceeding_dimensions b outer = [] \<longleftrightarrow> fits_within b outer"
  by (auto simp: exceeding_dimensions_def budget_simps not_less)

lemma clamped_to_greatest:
  "fits_within c (clamped_to b outer) \<longleftrightarrow> fits_within c b \<and> fits_within c outer"
  by (auto simp: budget_simps)

lemma clamped_to_id: "fits_within b outer \<Longrightarrow> clamped_to b outer = b"
  by (cases b) (simp add: budget_simps min_absorb1)

lemma charge_dim_sat: "charge_dim n h u = (if u > h then [n] else [], sat_sub h u)"
  by (simp add: charge_dim_def sat_sub_def)

lemma charge_eq: "charge b usage = (exceeding_dimensions usage b, saturating_sub b usage)"
  by (simp add: charge_def charge_dim_sat exceeding_dimensions_def saturating_sub_def)

lemma saturating_sub_fits: "fits_within (saturating_sub b u) b"
  by (simp add: budget_simps sat_sub_le)

lemma saturating_add_sub_cancel:
  "fits_within u b \<Longrightarrow> saturating_add (saturating_sub b u) u = b"
  by (cases b) (simp add: budget_simps sat_add_sub_cancel)

lemma saturating_sub_zero [simp]: "saturating_sub b budget_zero = b"
  by (cases b) (simp add: budget_simps)

lemma saturating_sub_antimono:
  "fits_within u v \<Longrightarrow> fits_within (saturating_sub b v) (saturating_sub b u)"
  by (simp add: budget_simps sat_sub_mono)

section \<open>One dimension of a budget account\<close>

text \<open>
  The contract the accounting of the step scheduler relies on, for one dimension: subtraction
  saturates at zero, addition at the width's largest value, and the admission order is
  pointwise. Reserving, refunding and settling are then exact on every account whose
  reservations stay inside its envelope.
\<close>

locale budget_dimension =
  fixes dim :: "ResourceBudget \<Rightarrow> nat" and top :: nat
  assumes dim_sub: "dim (saturating_sub a b) = dim a - dim b"
    and dim_add: "dim (saturating_add a b) = min (dim a + dim b) top"
    and dim_top: "dim a \<le> top"
    and dim_fits: "fits_within a b \<Longrightarrow> dim a \<le> dim b"
    and dim_zero: "dim budget_zero = 0"
begin

lemma dim_reserve: "fits_within u b \<Longrightarrow> dim (saturating_sub b u) + dim u = dim b"
  using dim_fits [of u b] by (simp add: dim_sub)

lemma dim_refund: "dim r + dim u \<le> dim v \<Longrightarrow> dim (saturating_add r u) = dim r + dim u"
  using dim_top [of v] by (simp add: dim_add)

lemma dim_settle:
  assumes "dim r + dim u \<le> dim v"
  shows "dim (saturating_sub (saturating_add r (saturating_sub u x)) (saturating_sub x u))
    = dim r + (dim u - dim x) - (dim x - dim u)"
  using assms dim_top [of v] by (simp add: dim_sub dim_add)

lemma dim_spend: "dim v \<le> k + dim s \<Longrightarrow> dim v \<le> k + dim (saturating_add s x)"
  using dim_top [of v] dim_add [of s x] by linarith

lemma dim_spend_exact: "dim s + dim x \<le> dim v \<Longrightarrow> dim (saturating_add s x) = dim s + dim x"
  using dim_top [of v] by (simp add: dim_add)

end

lemma unat_top: "unat (w :: 'a::len word) \<le> 2 ^ LENGTH('a) - 1"
  using unsigned_less [of w, where ?'a = nat] by linarith

lemma budget_dimension_field:
  fixes f :: "ResourceBudget \<Rightarrow> 'a::len word"
  assumes "\<And>a b. f (saturating_sub a b) = sat_sub (f a) (f b)"
    and "\<And>a b. f (saturating_add a b) = sat_add (f a) (f b)"
    and "\<And>a b. fits_within a b \<Longrightarrow> f a \<le> f b"
    and "f budget_zero = 0"
  shows "budget_dimension (\<lambda>b. unat (f b)) (2 ^ LENGTH('a) - 1)"
proof
  show "unat (f (saturating_sub a b)) = unat (f a) - unat (f b)" for a b
    by (simp only: assms(1) unat_sat_sub)
  show "unat (f (saturating_add a b)) = min (unat (f a) + unat (f b)) (2 ^ LENGTH('a) - 1)" for a b
    by (simp only: assms(2) unat_sat_add)
  show "unat (f a) \<le> 2 ^ LENGTH('a) - 1" for a
    by (rule unat_top)
  show "unat (f a) \<le> unat (f b)" if "fits_within a b" for a b
    using assms(3) [OF that] by (simp add: word_le_nat_alt)
  show "unat (f budget_zero) = 0"
    by (simp add: assms(4))
qed

interpretation cpu: budget_dimension "\<lambda>b. unat (cpu_ms b)" "2 ^ LENGTH(64) - 1"
  by (rule budget_dimension_field) (simp_all add: budget_simps)

interpretation memory: budget_dimension "\<lambda>b. unat (memory_bytes b)" "2 ^ LENGTH(64) - 1"
  by (rule budget_dimension_field) (simp_all add: budget_simps)

interpretation network: budget_dimension "\<lambda>b. unat (network_bytes b)" "2 ^ LENGTH(64) - 1"
  by (rule budget_dimension_field) (simp_all add: budget_simps)

interpretation token: budget_dimension "\<lambda>b. unat (tokens b)" "2 ^ LENGTH(64) - 1"
  by (rule budget_dimension_field) (simp_all add: budget_simps)

interpretation money: budget_dimension "\<lambda>b. unat (cost_micro_usd b)" "2 ^ LENGTH(64) - 1"
  by (rule budget_dimension_field) (simp_all add: budget_simps)

interpretation risk: budget_dimension "\<lambda>b. unat (risk_units b)" "2 ^ LENGTH(32) - 1"
  by (rule budget_dimension_field) (simp_all add: budget_simps)

end
