(* ===== verification/Json_Value.thy ===== *)
theory Json_Value
  imports Prelude Complex_Main "HOL-Library.Char_ord" "HOL-Library.List_Lexorder" "HOL-Library.Multiset"
begin

text \<open>
  JSON values as the source sees them through \<open>serde_json::Value\<close>, the floating-point
  comparisons the constraints use, and the canonical encoding of
  kernel/core/src/hash.rs: recursively sorted keys, compact separators. The printer of
  scalars and of object keys is \<open>serde_json::to_string\<close>, a parameter; the canonical
  encoding identifies exactly the values that differ in key order only.
\<close>

section \<open>Values and accessors\<close>

text \<open>
  The finite \<open>f64\<close> values are rationals; \<open>f64_le\<close> and \<open>f64_eq\<close> are the IEEE comparisons,
  false whenever an operand is not a number.
\<close>

datatype f64 = F64_NaN | F64_NegInf | F64_Fin rat | F64_PosInf

fun f64_le :: "f64 \<Rightarrow> f64 \<Rightarrow> bool" where
  "f64_le F64_NaN _ = False"
| "f64_le _ F64_NaN = False"
| "f64_le F64_NegInf _ = True"
| "f64_le _ F64_PosInf = True"
| "f64_le (F64_Fin a) (F64_Fin b) = (a \<le> b)"
| "f64_le F64_PosInf _ = False"
| "f64_le (F64_Fin _) F64_NegInf = False"

definition f64_eq :: "f64 \<Rightarrow> f64 \<Rightarrow> bool" where
  "f64_eq a b = (a \<noteq> F64_NaN \<and> a = b)"

text \<open>
  \<open>n as f64\<close>: an integer of at most 53 significant bits is exact, a longer one is
  rounded to the nearest multiple of its last kept bit, ties to even.
\<close>

fun bit_length :: "nat \<Rightarrow> nat" where
  "bit_length n = (if n = 0 then 0 else Suc (bit_length (n div 2)))"

declare bit_length.simps [simp del]

definition round_f64_nat :: "nat \<Rightarrow> nat" where
  "round_f64_nat n =
     (let s = bit_length n - 53; q = n div 2 ^ s; r = n mod 2 ^ s in
      if 2 * r < 2 ^ s \<or> (2 * r = 2 ^ s \<and> even q) then q * 2 ^ s else (q + 1) * 2 ^ s)"

definition int_as_f64 :: "int \<Rightarrow> f64" where
  "int_as_f64 n = F64_Fin (if n < 0 then - of_nat (round_f64_nat (nat (- n)))
                           else of_nat (round_f64_nat (nat n)))"

datatype json =
    JNull
  | JBool bool
  | JInt int
  | JFloat f64
  | JStr string
  | JArr "json list"
  | JObj "(string \<times> json) list"

fun json_as_str :: "json \<Rightarrow> string option" where
  "json_as_str (JStr s) = Some s"
| "json_as_str _ = None"

fun json_as_f64 :: "json \<Rightarrow> f64 option" where
  "json_as_f64 (JInt n) = Some (int_as_f64 n)"
| "json_as_f64 (JFloat x) = Some x"
| "json_as_f64 _ = None"

fun json_get :: "json \<Rightarrow> string \<Rightarrow> json option" where
  "json_get (JObj kvs) k = map_of kvs k"
| "json_get _ _ = None"

text \<open>Objects have distinct keys at every depth, and the numbers of a document are finite.\<close>

fun f64_finite :: "f64 \<Rightarrow> bool" where
  "f64_finite (F64_Fin _) = True"
| "f64_finite _ = False"

fun json_ok :: "json \<Rightarrow> bool" where
  "json_ok (JFloat x) = f64_finite x"
| "json_ok (JArr vs) = (\<forall>v \<in> set vs. json_ok v)"
| "json_ok (JObj kvs) = (distinct (map fst kvs) \<and> (\<forall>kv \<in> set kvs. json_ok (snd kv)))"
| "json_ok _ = True"

section \<open>Canonical encoding\<close>

fun comma_sep :: "string list \<Rightarrow> string" where
  "comma_sep [] = []"
| "comma_sep [s] = s"
| "comma_sep (s # t # ss) = s @ '','' @ comma_sep (t # ss)"

fun write_canonical :: "(json \<Rightarrow> string) \<Rightarrow> json \<Rightarrow> string" where
  "write_canonical ser (JObj kvs) =
     (let written = map (\<lambda>(k, v). (k, write_canonical ser v)) kvs in
      ''{'' @ comma_sep (map (\<lambda>k. ser (JStr k) @ '':'' @ the (map_of written k))
                            (sort (map fst kvs))) @ ''}'')"
| "write_canonical ser (JArr items) =
     ''['' @ comma_sep (map (write_canonical ser) items) @ '']''"
| "write_canonical ser other = ser other"

text \<open>\<open>hash_bytes\<close> is the digest, a parameter; \<open>hash_canonical\<close> composes it with the encoding.\<close>

definition hash_canonical :: "(string \<Rightarrow> string) \<Rightarrow> (json \<Rightarrow> string) \<Rightarrow> json \<Rightarrow> string" where
  "hash_canonical hash_bytes ser v = hash_bytes (write_canonical ser v)"

section \<open>The normal form under key order\<close>

fun json_norm :: "json \<Rightarrow> json" where
  "json_norm (JObj kvs) =
     (let normed = map (\<lambda>(k, v). (k, json_norm v)) kvs in
      JObj (map (\<lambda>k. (k, the (map_of normed k))) (sort (map fst kvs))))"
| "json_norm (JArr vs) = JArr (map json_norm vs)"
| "json_norm v = v"

text \<open>
  What the encoding relies on from the scalar printer: its output is self-delimiting
  (a scalar followed by a delimiter or the end determines the scalar), and never starts
  like a container or a separator.
\<close>

fun scalar :: "json \<Rightarrow> bool" where
  "scalar (JArr _) = False"
| "scalar (JObj _) = False"
| "scalar (JFloat x) = f64_finite x"
| "scalar _ = True"

definition delimited :: "string \<Rightarrow> bool" where
  "delimited r \<longleftrightarrow> r = [] \<or> hd r \<in> set '',:]}''"

definition printer_ok :: "(json \<Rightarrow> string) \<Rightarrow> bool" where
  "printer_ok ser \<longleftrightarrow>
     (\<forall>a b r1 r2. scalar a \<and> scalar b \<and> delimited r1 \<and> delimited r2
        \<and> ser a @ r1 = ser b @ r2 \<longrightarrow> a = b)
   \<and> (\<forall>a. scalar a \<longrightarrow> ser a \<noteq> [] \<and> hd (ser a) \<notin> set '',:[]{}'')"

lemma printer_okD:
  assumes "printer_ok ser" "scalar a" "scalar b" "delimited r1" "delimited r2"
    and "ser a @ r1 = ser b @ r2"
  shows "a = b \<and> r1 = r2"
proof -
  have "a = b"
    using assms unfolding printer_ok_def by blast
  with assms(6) show ?thesis
    by simp
qed

lemma printer_ok_head:
  "printer_ok ser \<Longrightarrow> scalar a \<Longrightarrow> ser a \<noteq> [] \<and> hd (ser a) \<notin> set '',:[]{}''"
  unfolding printer_ok_def by blast

lemma sorted_pairs:
  fixes kvs :: "(string \<times> 'a) list"
  assumes "distinct (map fst kvs)"
  shows "map (\<lambda>k. h k (the (map_of kvs k))) (sort (map fst kvs))
       = map (\<lambda>kv. h (fst kv) (snd kv)) (sort_key fst kvs)"
proof -
  have keys: "sort (map fst kvs) = map fst (sort_key fst kvs)"
    by (rule properties_for_sort) simp_all
  have "map (\<lambda>k. h k (the (map_of kvs k))) (map fst (sort_key fst kvs))
      = map (\<lambda>kv. h (fst kv) (snd kv)) (sort_key fst kvs)"
    using assms by (auto simp: comp_def)
  with keys show ?thesis
    by simp
qed

lemma map_of_map_snd: "map_of (map (\<lambda>(k, v). (k, f v)) kvs) k = map_option f (map_of kvs k)"
  by (induction kvs) auto

lemma map_key_cong:
  "(\<And>k. k \<in> fst ` set kvs \<Longrightarrow> g k = h k) \<Longrightarrow> map g (sort (map fst kvs)) = map h (sort (map fst kvs))"
  by (rule map_cong) auto

lemma write_obj:
  assumes "distinct (map fst kvs)"
  shows "write_canonical ser (JObj kvs) =
    ''{'' @ comma_sep (map (\<lambda>kv. ser (JStr (fst kv)) @ '':'' @ write_canonical ser (snd kv))
                          (sort_key fst kvs)) @ ''}''"
proof -
  have "map (\<lambda>k. ser (JStr k) @ '':'' @ the (map_option (write_canonical ser) (map_of kvs k)))
            (sort (map fst kvs))
      = map (\<lambda>k. ser (JStr k) @ '':'' @ write_canonical ser (the (map_of kvs k)))
            (sort (map fst kvs))"
    by (rule map_key_cong) (auto simp: option.map_sel map_of_eq_None_iff)
  note eq = trans [OF this sorted_pairs
    [OF assms, where h = "\<lambda>k v. ser (JStr k) @ '':'' @ write_canonical ser v"]]
  show ?thesis
    by (simp only: write_canonical.simps Let_def map_of_map_snd eq)
qed

lemma norm_obj:
  assumes "distinct (map fst kvs)"
  shows "json_norm (JObj kvs) = JObj (map (\<lambda>kv. (fst kv, json_norm (snd kv))) (sort_key fst kvs))"
proof -
  have "map (\<lambda>k. (k, the (map_option json_norm (map_of kvs k)))) (sort (map fst kvs))
      = map (\<lambda>k. (k, json_norm (the (map_of kvs k)))) (sort (map fst kvs))"
    by (rule map_key_cong) (auto simp: option.map_sel map_of_eq_None_iff)
  note eq = trans [OF this sorted_pairs [OF assms, where h = "\<lambda>k v. (k, json_norm v)"]]
  show ?thesis
    by (simp only: json_norm.simps Let_def map_of_map_snd eq)
qed

section \<open>The encoding is injective up to key order\<close>

definition self_delimiting :: "('a \<Rightarrow> string) \<Rightarrow> ('a \<Rightarrow> 'a \<Rightarrow> bool) \<Rightarrow> 'a \<Rightarrow> 'a \<Rightarrow> bool" where
  "self_delimiting f P x y \<longleftrightarrow>
     (\<forall>r1 r2. delimited r1 \<longrightarrow> delimited r2 \<longrightarrow> f x @ r1 = f y @ r2 \<longrightarrow> P x y \<and> r1 = r2)"

lemma self_delimitingD:
  "self_delimiting f P x y \<Longrightarrow> delimited r1 \<Longrightarrow> delimited r2 \<Longrightarrow> f x @ r1 = f y @ r2
    \<Longrightarrow> P x y \<and> r1 = r2"
  unfolding self_delimiting_def by blast

lemma comma_sep_Cons: "comma_sep (s # ss) = s @ (if ss = [] then [] else CHR '','' # comma_sep ss)"
  by (cases ss) simp_all

lemma comma_sep_inj:
  assumes "c \<in> set '']}''"
    and "\<And>x y. x \<in> set xs \<Longrightarrow> y \<in> set ys \<Longrightarrow> self_delimiting f P x y"
    and "\<And>z. z \<in> set xs \<union> set ys \<Longrightarrow> f z \<noteq> [] \<and> hd (f z) \<notin> set '']}''"
    and "comma_sep (map f xs) @ c # r1 = comma_sep (map f ys) @ c # r2"
  shows "list_all2 P xs ys \<and> r1 = r2"
  using assms(2-4)
proof (induction xs arbitrary: ys)
  case Nil
  show ?case
  proof (cases ys)
    case (Cons y ys')
    then have "f y \<noteq> []" "hd (f y) \<notin> set '']}''"
      using Nil(2) [of y] by simp_all
    moreover have "c = hd (f y)"
      using Nil(3) Cons \<open>f y \<noteq> []\<close> by (cases "f y") (simp_all add: comma_sep_Cons)
    ultimately show ?thesis
      using assms(1) by simp
  qed (use Nil in simp)
next
  case (Cons x xs)
  show ?case
  proof (cases ys)
    case Nil
    have "f x \<noteq> []" "hd (f x) \<notin> set '']}''"
      using Cons.prems(2) [of x] by simp_all
    moreover have "c = hd (f x)"
      using Cons.prems(3) Nil \<open>f x \<noteq> []\<close> by (cases "f x") (simp_all add: comma_sep_Cons)
    ultimately show ?thesis
      using assms(1) by simp
  next
    case ys: (Cons y ys')
    let ?t = "\<lambda>zs r. (if zs = [] then [] else CHR '','' # comma_sep (map f zs)) @ c # r"
    have delim: "delimited (?t zs r)" for zs r
      using assms(1) by (auto simp: delimited_def)
    have "f x @ ?t xs r1 = f y @ ?t ys' r2"
      using Cons.prems(3) ys by (simp add: comma_sep_Cons)
    then have xy: "P x y" and tl: "?t xs r1 = ?t ys' r2"
      using self_delimitingD [OF Cons.prems(1) [of x y] delim delim] ys by auto
    have "comma_sep (map f xs) @ c # r1 = comma_sep (map f ys') @ c # r2"
      using tl assms(1) by (auto split: if_splits)
    then have "list_all2 P xs ys' \<and> r1 = r2"
      by (intro Cons.IH) (use Cons.prems ys in auto)
    with xy ys show ?thesis
      by simp
  qed
qed

abbreviation same_norm :: "json \<Rightarrow> json \<Rightarrow> bool" where
  "same_norm v w \<equiv> json_norm v = json_norm w"

lemma same_norm_arr: "list_all2 same_norm xs ys \<Longrightarrow> same_norm (JArr xs) (JArr ys)"
  by (simp add: list_all2_conv_all_nth list_eq_iff_nth_eq)

lemma write_head:
  assumes "printer_ok ser" "json_ok v"
  shows "write_canonical ser v \<noteq> [] \<and> hd (write_canonical ser v) \<notin> set '']}''"
  using printer_ok_head [OF assms(1), of v] assms(2) by (cases v) auto

lemma write_scalar: "scalar v \<Longrightarrow> write_canonical ser v = ser v"
  by (cases v) auto

lemma ok_cases: "json_ok v \<Longrightarrow> scalar v \<or> (\<exists>xs. v = JArr xs) \<or> (\<exists>kvs. v = JObj kvs)"
  by (cases v) auto

abbreviation write_pair :: "(json \<Rightarrow> string) \<Rightarrow> string \<times> json \<Rightarrow> string" where
  "write_pair ser kv \<equiv> ser (JStr (fst kv)) @ '':'' @ write_canonical ser (snd kv)"

abbreviation same_pair :: "string \<times> json \<Rightarrow> string \<times> json \<Rightarrow> bool" where
  "same_pair p q \<equiv> fst p = fst q \<and> same_norm (snd p) (snd q)"

lemma pair_self_delimiting:
  assumes "printer_ok ser"
    and "self_delimiting (write_canonical ser) same_norm (snd p) (snd q)"
  shows "self_delimiting (write_pair ser) same_pair p q"
  unfolding self_delimiting_def
proof (intro allI impI)
  fix r1 r2
  assume "delimited r1" "delimited r2" and eq: "write_pair ser p @ r1 = write_pair ser q @ r2"
  have "delimited ('':'' @ s)" for s
    by (simp add: delimited_def)
  moreover have "ser (JStr (fst p)) @ '':'' @ write_canonical ser (snd p) @ r1
               = ser (JStr (fst q)) @ '':'' @ write_canonical ser (snd q) @ r2"
    using eq by simp
  ultimately have "JStr (fst p) = JStr (fst q)
      \<and> '':'' @ write_canonical ser (snd p) @ r1 = '':'' @ write_canonical ser (snd q) @ r2"
    by (intro printer_okD [OF assms(1)]) simp_all
  then show "same_pair p q \<and> r1 = r2"
    using self_delimitingD [OF assms(2) \<open>delimited r1\<close> \<open>delimited r2\<close>] by simp
qed

lemma same_norm_obj:
  assumes "distinct (map fst kvs)" "distinct (map fst kvs')"
    and "list_all2 same_pair (sort_key fst kvs) (sort_key fst kvs')"
  shows "same_norm (JObj kvs) (JObj kvs')"
proof -
  have "map (\<lambda>kv. (fst kv, json_norm (snd kv))) (sort_key fst kvs)
      = map (\<lambda>kv. (fst kv, json_norm (snd kv))) (sort_key fst kvs')"
    using assms(3) by (simp add: list_all2_conv_all_nth list_eq_iff_nth_eq)
  then show ?thesis
    unfolding norm_obj [OF assms(1)] norm_obj [OF assms(2)] by simp
qed

lemma write_obj_delimiting:
  assumes "printer_ok ser" "json_ok (JObj kvs)" "json_ok (JObj kvs')"
    and sd: "\<And>p q. p \<in> set kvs \<Longrightarrow> q \<in> set kvs'
      \<Longrightarrow> self_delimiting (write_canonical ser) same_norm (snd p) (snd q)"
    and eq: "write_canonical ser (JObj kvs) @ r1 = write_canonical ser (JObj kvs') @ r2"
  shows "same_norm (JObj kvs) (JObj kvs') \<and> r1 = r2"
proof -
  have dist: "distinct (map fst kvs)" "distinct (map fst kvs')"
    using assms(2,3) by simp_all
  have "list_all2 same_pair (sort_key fst kvs) (sort_key fst kvs') \<and> r1 = r2"
  proof (rule comma_sep_inj)
    show "CHR ''}'' \<in> set '']}''"
      by simp
    show "comma_sep (map (write_pair ser) (sort_key fst kvs)) @ CHR ''}'' # r1
        = comma_sep (map (write_pair ser) (sort_key fst kvs')) @ CHR ''}'' # r2"
      using eq unfolding write_obj [OF dist(1)] write_obj [OF dist(2)] by simp
    show "write_pair ser z \<noteq> [] \<and> hd (write_pair ser z) \<notin> set '']}''" for z
      using printer_ok_head [OF assms(1), of "JStr (fst z)"] by simp
    show "self_delimiting (write_pair ser) same_pair p q"
      if "p \<in> set (sort_key fst kvs)" "q \<in> set (sort_key fst kvs')" for p q
      using that by (intro pair_self_delimiting [OF assms(1)] sd) simp_all
  qed
  with same_norm_obj [OF dist] show ?thesis
    by blast
qed

lemma write_arr_delimiting:
  assumes "printer_ok ser" "json_ok (JArr vs)" "json_ok (JArr ws)"
    and sd: "\<And>v w. v \<in> set vs \<Longrightarrow> w \<in> set ws
      \<Longrightarrow> self_delimiting (write_canonical ser) same_norm v w"
    and eq: "write_canonical ser (JArr vs) @ r1 = write_canonical ser (JArr ws) @ r2"
  shows "same_norm (JArr vs) (JArr ws) \<and> r1 = r2"
proof -
  have "list_all2 same_norm vs ws \<and> r1 = r2"
  proof (rule comma_sep_inj)
    show "CHR '']'' \<in> set '']}''"
      by simp
    show "comma_sep (map (write_canonical ser) vs) @ CHR '']'' # r1
        = comma_sep (map (write_canonical ser) ws) @ CHR '']'' # r2"
      using eq by simp
    show "write_canonical ser z \<noteq> [] \<and> hd (write_canonical ser z) \<notin> set '']}''"
      if "z \<in> set vs \<union> set ws" for z
      using that assms(2,3) by (intro write_head [OF assms(1)]) auto
  qed (rule sd)
  with same_norm_arr show ?thesis
    by blast
qed

lemma container_head:
  "scalar v \<Longrightarrow> printer_ok ser \<Longrightarrow> hd (write_canonical ser v @ r) \<notin> set '',:[]{}''"
  "hd (write_canonical ser (JArr vs) @ r) = CHR ''[''"
  "hd (write_canonical ser (JObj kvs) @ r) = CHR ''{''"
  using printer_ok_head [of ser v] by (simp_all add: write_scalar Let_def)

lemma write_self_delimiting:
  assumes "printer_ok ser" "json_ok v" "json_ok w"
  shows "self_delimiting (write_canonical ser) same_norm v w"
  using assms(2,3)
proof (induction v arbitrary: w rule: measure_induct_rule [where f = size])
  case (less v)
  show ?case
    unfolding self_delimiting_def
  proof (intro allI impI)
    fix r1 r2
    assume r: "delimited r1" "delimited r2"
      and eq: "write_canonical ser v @ r1 = write_canonical ser w @ r2"
    note heads = container_head [where ser = ser]
    have hd_eq: "hd (write_canonical ser v @ r1) = hd (write_canonical ser w @ r2)"
      using eq by simp
    consider "scalar v" "scalar w" | vs ws where "v = JArr vs" "w = JArr ws"
      | kvs kvs' where "v = JObj kvs" "w = JObj kvs'"
      using ok_cases [OF less.prems(1)] ok_cases [OF less.prems(2)] hd_eq
        heads(1) [OF _ assms(1), of v r1] heads(1) [OF _ assms(1), of w r2]
      by (elim disjE exE) (simp_all add: heads(2,3) del: write_canonical.simps)
    then show "same_norm v w \<and> r1 = r2"
    proof cases
      case 1
      then show ?thesis
        using printer_okD [OF assms(1) 1 r] eq by (simp add: write_scalar)
    next
      case 2
      show ?thesis
        unfolding 2
      proof (rule write_arr_delimiting [OF assms(1)])
        show "self_delimiting (write_canonical ser) same_norm x y"
          if "x \<in> set vs" "y \<in> set ws" for x y
          using that less.prems 2 by (intro less.IH) (auto simp: size_list_estimation' less_Suc_eq_le)
      qed (use less.prems eq 2 in simp_all)
    next
      case 3
      show ?thesis
        unfolding 3
      proof (rule write_obj_delimiting [OF assms(1)])
        show "self_delimiting (write_canonical ser) same_norm (snd p) (snd q)"
          if "p \<in> set kvs" "q \<in> set kvs'" for p q
        proof (rule less.IH)
          have "size (snd p) \<le> size_prod (\<lambda>_. 0) size p"
            by (cases p) simp
          also have "\<dots> \<le> size_list (size_prod (\<lambda>_. 0) size) kvs"
            using that(1) by (simp add: size_list_estimation')
          finally show "size (snd p) < size v"
            using 3 by simp
        qed (use that less.prems 3 in auto)
      qed (use less.prems eq 3 in simp_all)
    qed
  qed
qed

lemma sort_key_map_pair:
  fixes kvs :: "(string \<times> 'a) list"
  shows "sort_key fst (map (\<lambda>kv. (fst kv, f (snd kv))) (sort_key fst kvs))
       = map (\<lambda>kv. (fst kv, f (snd kv))) (sort_key fst kvs)"
  by (rule sort_key_id_if_sorted) (simp add: comp_def)

lemma write_norm: "json_ok v \<Longrightarrow> write_canonical ser (json_norm v) = write_canonical ser v"
proof (induction v)
  case (JObj kvs)
  let ?ns = "map (\<lambda>kv. (fst kv, json_norm (snd kv))) (sort_key fst kvs)"
  have dist: "distinct (map fst kvs)" and dist': "distinct (map fst ?ns)"
    using JObj.prems by (simp_all add: comp_def distinct_map)
  have "map (write_pair ser) ?ns = map (write_pair ser) (sort_key fst kvs)"
    using JObj by (auto simp: snds.simps)
  then show ?case
    unfolding norm_obj [OF dist] write_obj [OF dist] write_obj [OF dist'] sort_key_map_pair
    by (simp only:)
next
  case (JArr vs)
  then have "map (write_canonical ser) (map json_norm vs) = map (write_canonical ser) vs"
    by simp
  then show ?case
    by (simp only: json_norm.simps write_canonical.simps)
qed simp_all

lemma write_canonical_eq_iff:
  assumes "printer_ok ser" "json_ok v" "json_ok w"
  shows "write_canonical ser v = write_canonical ser w \<longleftrightarrow> json_norm v = json_norm w"
proof
  assume "write_canonical ser v = write_canonical ser w"
  then have "write_canonical ser v @ [] = write_canonical ser w @ []"
    by simp
  moreover have "delimited []"
    by (simp add: delimited_def)
  ultimately show "json_norm v = json_norm w"
    using self_delimitingD [OF write_self_delimiting [OF assms]] by blast
next
  assume "json_norm v = json_norm w"
  then show "write_canonical ser v = write_canonical ser w"
    using write_norm [OF assms(2)] write_norm [OF assms(3)] by metis
qed

lemma json_get_norm:
  assumes "json_ok (JObj kvs)"
  shows "json_get (json_norm (JObj kvs)) k = map_option json_norm (json_get (JObj kvs) k)"
proof -
  have dist: "distinct (map fst kvs)"
    using assms by simp
  moreover from dist have "distinct (map fst (sort_key fst kvs))"
    by (simp add: distinct_map)
  ultimately have "map_of (sort_key fst kvs) = map_of kvs"
    by (simp add: map_of_inject_set)
  then have "map_of (map (\<lambda>kv. (fst kv, json_norm (snd kv))) (sort_key fst kvs)) k = map_option json_norm (map_of kvs k)"
    using map_of_map_snd [of json_norm "sort_key fst kvs" k] by (simp add: split_def)
  then show ?thesis
    by (simp only: norm_obj [OF dist] json_get.simps)
qed

text \<open>
  C39. Canonical encoding is injective up to key order: given a self-delimiting scalar
  printer, two documents have the same canonical JSON exactly when they are equal after
  sorting the keys of every object. So the canonical hash of a contract, receipt or ledger
  event commits to its whole content, and never depends on the order of its keys.
\<close>

theorem canonical_json_injective:
  assumes "printer_ok ser" "json_ok v" "json_ok w"
  shows "write_canonical ser v = write_canonical ser w \<longleftrightarrow> json_norm v = json_norm w"
  by (rule write_canonical_eq_iff [OF assms])

text \<open>A concrete self-delimiting printer, with unary numbers and every character escaped.\<close>

definition unary :: "int \<Rightarrow> string" where
  "unary i = (if i < 0 then CHR ''-'' else CHR ''+'') # replicate (nat \<bar>i\<bar>) CHR ''1''"

fun escape_all :: "string \<Rightarrow> string" where
  "escape_all [] = ''.''"
| "escape_all (c # cs) = CHR ''/'' # c # escape_all cs"

fun unary_printer :: "json \<Rightarrow> string" where
  "unary_printer JNull = ''n''"
| "unary_printer (JBool b) = (if b then ''t'' else ''f'')"
| "unary_printer (JInt i) = CHR ''i'' # unary i"
| "unary_printer (JFloat (F64_Fin q)) =
     CHR ''q'' # unary (fst (quotient_of q)) @ unary (snd (quotient_of q))"
| "unary_printer (JStr s) = CHR ''s'' # escape_all s"
| "unary_printer _ = ''x''"

lemma replicate_append_inj:
  assumes "replicate m c @ r1 = replicate n c @ r2"
    and "r1 = [] \<or> hd r1 \<noteq> c" "r2 = [] \<or> hd r2 \<noteq> c"
  shows "m = n \<and> r1 = r2"
  using assms
proof (induction m arbitrary: n)
  case 0
  then show ?case
    by (cases n) auto
next
  case (Suc m)
  then show ?case
    by (cases n) auto
qed

lemma unary_inj:
  assumes "unary i @ r1 = unary j @ r2"
    and "r1 = [] \<or> hd r1 \<noteq> CHR ''1''" "r2 = [] \<or> hd r2 \<noteq> CHR ''1''"
  shows "i = j \<and> r1 = r2"
  using assms replicate_append_inj [of "nat \<bar>i\<bar>" "CHR ''1''" r1 "nat \<bar>j\<bar>" r2]
  by (auto simp: unary_def split: if_splits)

lemma escape_all_inj: "escape_all s @ r1 = escape_all t @ r2 \<Longrightarrow> s = t \<and> r1 = r2"
  by (induction s arbitrary: t; case_tac t) auto

lemma quotient_of_inj:
  "fst (quotient_of p) = fst (quotient_of q) \<Longrightarrow> snd (quotient_of p) = snd (quotient_of q) \<Longrightarrow> p = q"
  by (metis prod.collapse quotient_of_div)

lemma delimited_not_one: "delimited r \<Longrightarrow> r = [] \<or> hd r \<noteq> CHR ''1''"
  by (auto simp: delimited_def)

lemma unary_not_one: "unary i @ r = [] \<or> hd (unary i @ r) \<noteq> CHR ''1''"
  by (simp add: unary_def)

lemma unary_printer_inj:
  assumes "scalar a" "scalar b" "delimited r1" "delimited r2"
    and "unary_printer a @ r1 = unary_printer b @ r2"
  shows "a = b"
proof -
  note unary_end = unary_inj [OF _ delimited_not_one [OF assms(3)] delimited_not_one [OF assms(4)]]
  note unary_mid = unary_inj [OF _ unary_not_one unary_not_one]
  show ?thesis
    using assms(1,2,5)
    by (cases a rule: unary_printer.cases; cases b rule: unary_printer.cases)
       (auto dest!: unary_end unary_mid escape_all_inj intro: quotient_of_inj split: if_splits)
qed

lemma unary_printer_ok: "printer_ok unary_printer"
  unfolding printer_ok_def
proof (intro conjI allI impI)
  fix a b r1 r2
  assume "scalar a \<and> scalar b \<and> delimited r1 \<and> delimited r2
    \<and> unary_printer a @ r1 = unary_printer b @ r2"
  then show "a = b"
    using unary_printer_inj by blast
next
  fix a
  assume "scalar a"
  then show "unary_printer a \<noteq> []" "hd (unary_printer a) \<notin> set '',:[]{}''"
    by (cases a rule: unary_printer.cases; simp)+
qed

theorem canonical_json_injective_witness:
  "(write_canonical unary_printer (JObj [(''b'', JInt 1), (''a'', JNull)])
      = write_canonical unary_printer (JObj [(''a'', JNull), (''b'', JInt 1)]))
   \<longleftrightarrow> json_norm (JObj [(''b'', JInt 1), (''a'', JNull)])
       = json_norm (JObj [(''a'', JNull), (''b'', JInt 1)])"
  by (rule canonical_json_injective [OF unary_printer_ok]) simp_all

end
