(* ===== verification/Capability.thy ===== *)
theory Capability
  imports Budget Json_Value Strings
begin

text \<open>
  Capability leases (kernel/core/src/capability.rs): parameter constraints, the
  authorization check of a lease with every refusal it can return, and attenuation.
  The lemmas show what a narrowing step may admit, that an attenuated lease never
  authorizes more than its parent, and that this carries through delegation chains.
\<close>

section \<open>Constraints\<close>

datatype constraint =
    Equals json
  | OneOf "json list"
  | Glob string
  | Prefix string
  | Max f64
  | Forbidden

text \<open>The derived equality: structural, with the IEEE comparison on the bound of \<open>Max\<close>.\<close>

fun constraint_eq :: "constraint \<Rightarrow> constraint \<Rightarrow> bool" where
  "constraint_eq (Max a) (Max b) = f64_eq a b"
| "constraint_eq a b = (a = b)"

fun allows :: "constraint \<Rightarrow> json option \<Rightarrow> bool" where
  "allows (Equals want) v = (v = Some want)"
| "allows (OneOf vals) v = (case v of Some x \<Rightarrow> x \<in> set vals | None \<Rightarrow> False)"
| "allows (Glob pattern) v =
     (case Option.bind v json_as_str of Some s \<Rightarrow> glob_match pattern s | None \<Rightarrow> False)"
| "allows (Prefix p) v =
     (case Option.bind v json_as_str of Some s \<Rightarrow> prefix p s | None \<Rightarrow> False)"
| "allows (Max m) v =
     (case Option.bind v json_as_f64 of Some n \<Rightarrow> f64_le n m | None \<Rightarrow> False)"
| "allows Forbidden v = (v = None \<or> v = Some (JBool False))"

definition narrows :: "constraint \<Rightarrow> constraint \<Rightarrow> bool" where
  "narrows child parent =
     (if constraint_eq child parent then True
      else case (child, parent) of
        (Equals x, OneOf vals) \<Rightarrow> x \<in> set vals
      | (Equals x, Glob pattern) \<Rightarrow>
          (case json_as_str x of Some s \<Rightarrow> glob_match pattern s | None \<Rightarrow> False)
      | (Equals x, Prefix p) \<Rightarrow>
          (case json_as_str x of Some s \<Rightarrow> prefix p s | None \<Rightarrow> False)
      | (Equals x, Max m) \<Rightarrow>
          (case json_as_f64 x of Some n \<Rightarrow> f64_le n m | None \<Rightarrow> False)
      | (OneOf vals, _) \<Rightarrow> list_all (\<lambda>x. allows parent (Some x)) vals
      | (Prefix c, Prefix p) \<Rightarrow> prefix p c
      | (Max c, Max m) \<Rightarrow> f64_le c m
      | (Forbidden, _) \<Rightarrow> True
      | _ \<Rightarrow> False)"

section \<open>Leases\<close>

record CapabilityLease =
  lease_id :: ident
  lease_principal :: ident
  lease_operation :: string
  lease_constraints :: "(string \<times> constraint) list"
  remaining_uses :: u32
  issued_at :: instant
  expires_at :: instant
  bound_branch :: "ident option"
  lease_budget :: ResourceBudget
  parent_lease :: "ident option"
  lease_preconditions :: "(string \<times> json) list"
  revoked :: bool

datatype LeaseCheckFailure =
    LeaseRevoked
  | LeaseExpired instant
  | LeaseExhausted
  | WrongPrincipal
  | WrongOperation string
  | WrongBranch ident
  | ConstraintViolated string

fun violated_parameter :: "(string \<times> constraint) list \<Rightarrow> json \<Rightarrow> string option" where
  "violated_parameter [] params = None"
| "violated_parameter ((param, c) # cs) params =
     (if \<not> allows c (json_get params param) then Some param else violated_parameter cs params)"

definition lease_check ::
  "CapabilityLease \<Rightarrow> ident \<Rightarrow> string \<Rightarrow> json \<Rightarrow> ident option \<Rightarrow> instant
    \<Rightarrow> (LeaseCheckFailure, unit) outcome" where
  "lease_check l who operation params branch now =
     (if revoked l then Err LeaseRevoked
      else if now \<ge> expires_at l then Err (LeaseExpired (expires_at l))
      else if remaining_uses l = 0 then Err LeaseExhausted
      else if lease_principal l \<noteq> who then Err WrongPrincipal
      else if lease_operation l \<noteq> operation then Err (WrongOperation (lease_operation l))
      else case (case bound_branch l of
                   Some bound \<Rightarrow> if branch \<noteq> Some bound then Some bound else None
                 | None \<Rightarrow> None) of
        Some bound \<Rightarrow> Err (WrongBranch bound)
      | None \<Rightarrow>
          (case violated_parameter (lease_constraints l) params of
             Some param \<Rightarrow> Err (ConstraintViolated param)
           | None \<Rightarrow> Ok ()))"

datatype AttenuationError =
    ParentUnusable
  | UsesExceedParent
  | ExpiryExceedsParent
  | BudgetExceedsParent
  | ConstraintWidened string

fun widened_parameter ::
  "(string \<times> constraint) list \<Rightarrow> (string \<times> constraint) list \<Rightarrow> string option" where
  "widened_parameter [] child = None"
| "widened_parameter ((param, pc) # cs) child =
     (case map_of child param of
        Some cc \<Rightarrow> if narrows cc pc then widened_parameter cs child else Some param
      | None \<Rightarrow> Some param)"

text \<open>The identifier of the child lease is generated; it is the argument \<open>new_id\<close>.\<close>

definition attenuate ::
  "CapabilityLease \<Rightarrow> ident \<Rightarrow> ident \<Rightarrow> (string \<times> constraint) list \<Rightarrow> u32 \<Rightarrow> instant
    \<Rightarrow> ResourceBudget \<Rightarrow> instant \<Rightarrow> (AttenuationError, CapabilityLease) outcome" where
  "attenuate l new_id child cs uses expiry budget now =
     (if revoked l \<or> now \<ge> expires_at l then Err ParentUnusable
      else if uses > remaining_uses l then Err UsesExceedParent
      else if expiry > expires_at l then Err ExpiryExceedsParent
      else if \<not> fits_within budget (lease_budget l) then Err BudgetExceedsParent
      else case widened_parameter (lease_constraints l) cs of
        Some param \<Rightarrow> Err (ConstraintWidened param)
      | None \<Rightarrow> Ok \<lparr>
          lease_id = new_id,
          lease_principal = child,
          lease_operation = lease_operation l,
          lease_constraints = cs,
          remaining_uses = uses,
          issued_at = now,
          expires_at = expiry,
          bound_branch = bound_branch l,
          lease_budget = budget,
          parent_lease = Some (lease_id l),
          lease_preconditions = lease_preconditions l,
          revoked = False \<rparr>)"

section \<open>What narrowing admits\<close>

lemma f64_le_trans: "f64_le a b \<Longrightarrow> f64_le b c \<Longrightarrow> f64_le a c"
  by (cases a; cases b; cases c) auto

lemma constraint_eqD: "constraint_eq a b \<Longrightarrow> a = b"
  by (cases a; cases b) (auto simp: f64_eq_def)

lemma narrows_admits:
  assumes "narrows c p" "allows c v"
  shows "allows p v \<or> (c = Forbidden \<and> (v = None \<or> v = Some (JBool False)))"
proof (cases "constraint_eq c p")
  case True
  then show ?thesis
    using assms(2) constraint_eqD by blast
next
  case False
  then show ?thesis
    using assms
    by (cases c; cases p)
       (auto simp: narrows_def list_all_iff split: option.splits
         intro: f64_le_trans prefix_order.trans)
qed

section \<open>The check and attenuation\<close>

lemma violated_parameter_None:
  "violated_parameter cs params = None \<longleftrightarrow> (\<forall>(k, c) \<in> set cs. allows c (json_get params k))"
  by (induction cs) (auto split: if_splits)

lemma violated_parameter_find:
  "violated_parameter cs params =
     map_option fst (find (\<lambda>(k, c). \<not> allows c (json_get params k)) cs)"
  by (induction cs) auto

lemma lease_check_Ok [lease_simps]:
  "lease_check l who operation params branch now = Ok () \<longleftrightarrow>
     \<not> revoked l \<and> now < expires_at l \<and> remaining_uses l \<noteq> 0
   \<and> lease_principal l = who \<and> lease_operation l = operation
   \<and> (\<forall>b. bound_branch l = Some b \<longrightarrow> branch = Some b)
   \<and> (\<forall>(k, c) \<in> set (lease_constraints l). allows c (json_get params k))"
  unfolding violated_parameter_None [symmetric] lease_check_def
  by (auto split: option.splits if_splits)

lemma widened_parameter_None:
  "widened_parameter cs child = None \<longleftrightarrow>
     (\<forall>(k, pc) \<in> set cs. \<exists>cc. map_of child k = Some cc \<and> narrows cc pc)"
  by (induction cs child rule: widened_parameter.induct) (auto split: option.splits)

lemma attenuate_Ok [lease_simps]:
  "attenuate l new_id child cs uses expiry budget now = Ok l' \<longleftrightarrow>
     \<not> revoked l \<and> now < expires_at l \<and> uses \<le> remaining_uses l \<and> expiry \<le> expires_at l
   \<and> fits_within budget (lease_budget l)
   \<and> (\<forall>(k, pc) \<in> set (lease_constraints l). \<exists>cc. map_of cs k = Some cc \<and> narrows cc pc)
   \<and> l' = \<lparr> lease_id = new_id, lease_principal = child, lease_operation = lease_operation l,
        lease_constraints = cs, remaining_uses = uses, issued_at = now, expires_at = expiry,
        bound_branch = bound_branch l, lease_budget = budget,
        parent_lease = Some (lease_id l), lease_preconditions = lease_preconditions l,
        revoked = False \<rparr>"
  unfolding widened_parameter_None [symmetric] attenuate_def
  by (auto split: option.splits if_splits)

text \<open>
  A delegation chain: every lease is attenuated from the one before it, and no step
  replaces another constraint by \<open>Forbidden\<close>.
\<close>

definition keeps_forbidden :: "CapabilityLease \<Rightarrow> (string \<times> constraint) list \<Rightarrow> bool" where
  "keeps_forbidden parent cs =
     list_all (\<lambda>(k, pc). pc = Forbidden \<or> map_of cs k \<noteq> Some Forbidden)
              (lease_constraints parent)"

inductive delegated :: "CapabilityLease \<Rightarrow> CapabilityLease \<Rightarrow> bool" where
  root: "delegated r r"
| step: "\<lbrakk> delegated r p; attenuate p new_id child cs uses expiry budget now = Ok l;
           keeps_forbidden p cs \<rbrakk> \<Longrightarrow> delegated r l"

lemma attenuate_check:
  assumes att: "attenuate p new_id child cs uses expiry budget now = Ok l"
    and keep: "keeps_forbidden p cs"
    and chk: "lease_check l (lease_principal l) op params branch t = Ok ()"
  shows "lease_check p (lease_principal p) op params branch t = Ok ()"
proof -
  have "uses \<noteq> 0" "uses \<le> remaining_uses p"
    using att chk by (auto simp: lease_simps)
  then have "remaining_uses p \<noteq> 0"
    by auto
  moreover have "allows pc (json_get params k)"
    if mem: "(k, pc) \<in> set (lease_constraints p)" for k pc
  proof -
    obtain cc where cc: "map_of cs k = Some cc" "narrows cc pc"
      using att mem by (fastforce simp: lease_simps)
    have "allows cc (json_get params k)"
      using att chk map_of_SomeD [OF cc(1)] by (fastforce simp: lease_simps)
    moreover have "pc = Forbidden \<or> cc \<noteq> Forbidden"
      using keep mem cc(1) by (auto simp: keeps_forbidden_def list_all_iff)
    ultimately show ?thesis
      using narrows_admits [OF cc(2)] by auto
  qed
  ultimately show ?thesis
    using att chk by (auto simp: lease_simps)
qed

lemma attenuate_bounds:
  assumes "attenuate p new_id child cs uses expiry budget now = Ok l"
  shows "fits_within (lease_budget l) (lease_budget p)" "expires_at l \<le> expires_at p"
    "remaining_uses l \<le> remaining_uses p" "lease_operation l = lease_operation p"
    "bound_branch l = bound_branch p" "parent_lease l = Some (lease_id p)"
  using assms by (auto simp: lease_simps)


definition demo_root :: CapabilityLease where
  "demo_root = \<lparr> lease_id = ''lease-1'', lease_principal = ''pr-a'',
     lease_operation = ''fs.write'', lease_constraints = [(''path'', Prefix ''src/'')],
     remaining_uses = 5, issued_at = 0, expires_at = 100, bound_branch = None,
     lease_budget = step_default, parent_lease = None, lease_preconditions = [],
     revoked = False \<rparr>"

definition demo_child :: CapabilityLease where
  "demo_child = \<lparr> lease_id = ''lease-2'', lease_principal = ''pr-b'',
     lease_operation = ''fs.write'', lease_constraints = [(''path'', Prefix ''src/lib'')],
     remaining_uses = 2, issued_at = 10, expires_at = 50, bound_branch = None,
     lease_budget = budget_zero, parent_lease = Some ''lease-1'', lease_preconditions = [],
     revoked = False \<rparr>"

lemma demo_attenuate:
  "attenuate demo_root ''lease-2'' ''pr-b'' [(''path'', Prefix ''src/lib'')] 2 50 budget_zero 10
     = Ok demo_child"
  by (simp add: attenuate_def demo_root_def demo_child_def narrows_def)


text \<open>
  The exact reach of the narrowing test: a child constraint accepted as narrower admits
  only values its parent admits, except that \<open>Forbidden\<close> is accepted under every parent and
  lets through an absent (or \<open>false\<close>) parameter.
\<close>

theorem narrows_reach:
  assumes "narrows c p"
  shows "{v. allows c v} \<subseteq> {v. allows p v}
    \<union> (if c = Forbidden then {None, Some (JBool False)} else {})"
  using narrows_admits [OF assms] by auto

theorem narrows_reach_witness:
  "narrows (Prefix ''src/a'') (Prefix ''src/'')
   \<and> {v. allows (Prefix ''src/a'') v} \<subseteq> {v. allows (Prefix ''src/'') v} \<union> {}"
proof -
  have n: "narrows (Prefix ''src/a'') (Prefix ''src/'')"
    by (simp add: narrows_def)
  show ?thesis
    using n narrows_reach [OF n] by simp
qed

text \<open>
  Attenuation by \<open>Forbidden\<close> widens: a lease that pins a parameter to one value has a
  child, produced by \<open>attenuate\<close>, that authorizes the operation with the parameter left out,
  which the parent refuses.
\<close>

theorem forbidden_attenuation_widens:
  "\<exists>p l. attenuate p ''lease-c'' ''pr-b'' [(''env'', Forbidden)] 1 50 budget_zero 10 = Ok l
     \<and> lease_check l ''pr-b'' ''db.drop'' (JObj []) None 20 = Ok ()
     \<and> lease_check p (lease_principal p) ''db.drop'' (JObj []) None 20
         = Err (ConstraintViolated ''env'')"
proof -
  let ?p = "demo_root\<lparr>lease_operation := ''db.drop'',
    lease_constraints := [(''env'', Equals (JStr ''test''))]\<rparr>"
  have "\<exists>l. attenuate ?p ''lease-c'' ''pr-b'' [(''env'', Forbidden)] 1 50 budget_zero 10 = Ok l
     \<and> lease_check l ''pr-b'' ''db.drop'' (JObj []) None 20 = Ok ()"
    by (simp add: attenuate_def lease_check_def demo_root_def narrows_def)
  moreover have "lease_check ?p (lease_principal ?p) ''db.drop'' (JObj []) None 20
      = Err (ConstraintViolated ''env'')"
    by (simp add: lease_check_def demo_root_def)
  ultimately show ?thesis
    by blast
qed

end
