(* ===== verification/KernelTypes.thy ===== *)
theory KernelTypes
  imports Capability
begin

text \<open>
  The protocol types of kernel/core shared by the services: identifiers (ids.rs),
  principals and trust (principal.rs), replay classes (replay.rs), denials and their
  redaction (denial.rs), the kernel error type (error.rs), actions with the operation and
  parameters they are authorized by (action.rs), and effect contracts (effect.rs).
\<close>

section \<open>Principals\<close>

datatype PrincipalKind = Agent | SubAgent | Tool | Human | KernelPrincipal

datatype TrustLevel = Quarantined | Untrusted | Limited | Standard | Elevated

fun trust_rank :: "TrustLevel \<Rightarrow> nat" where
  "trust_rank Quarantined = 0"
| "trust_rank Untrusted = 1"
| "trust_rank Limited = 2"
| "trust_rank Standard = 3"
| "trust_rank Elevated = 4"

lemma trust_rank_inj: "trust_rank a = trust_rank b \<longleftrightarrow> a = b"
  by (cases a; cases b) simp_all

instantiation TrustLevel :: linorder
begin

definition less_eq_TrustLevel :: "TrustLevel \<Rightarrow> TrustLevel \<Rightarrow> bool" where
  "less_eq_TrustLevel a b = (trust_rank a \<le> trust_rank b)"

definition less_TrustLevel :: "TrustLevel \<Rightarrow> TrustLevel \<Rightarrow> bool" where
  "less_TrustLevel a b = (trust_rank a < trust_rank b)"

instance
  by standard (auto simp: less_eq_TrustLevel_def less_TrustLevel_def trust_rank_inj)

end

record Principal =
  pr_id :: ident
  pr_kind :: PrincipalKind
  display_name :: string
  pr_parent :: "ident option"
  trust :: TrustLevel

definition new_agent :: "ident \<Rightarrow> string \<Rightarrow> Principal" where
  "new_agent new_id name =
     \<lparr> pr_id = new_id, pr_kind = Agent, display_name = name, pr_parent = None, trust = Standard \<rparr>"

definition spawn_child :: "Principal \<Rightarrow> ident \<Rightarrow> PrincipalKind \<Rightarrow> string \<Rightarrow> Principal" where
  "spawn_child p new_id kind name =
     \<lparr> pr_id = new_id, pr_kind = kind, display_name = name, pr_parent = Some (pr_id p),
       trust = min (trust p) Limited \<rparr>"

section \<open>Replay classes\<close>

datatype ReplayClass =
    AuditOnly | FilesystemOnly | ProcessAndFilesystem | FrameworkHostCalls | BrowserProfile

datatype ReplayMode = Audit | Sandbox | Live

fun replay_rank :: "ReplayClass \<Rightarrow> nat" where
  "replay_rank AuditOnly = 0"
| "replay_rank FilesystemOnly = 1"
| "replay_rank ProcessAndFilesystem = 2"
| "replay_rank FrameworkHostCalls = 3"
| "replay_rank BrowserProfile = 4"

lemma replay_rank_inj: "replay_rank a = replay_rank b \<longleftrightarrow> a = b"
  by (cases a; cases b) simp_all

instantiation ReplayClass :: linorder
begin

definition less_eq_ReplayClass :: "ReplayClass \<Rightarrow> ReplayClass \<Rightarrow> bool" where
  "less_eq_ReplayClass a b = (replay_rank a \<le> replay_rank b)"

definition less_ReplayClass :: "ReplayClass \<Rightarrow> ReplayClass \<Rightarrow> bool" where
  "less_ReplayClass a b = (replay_rank a < replay_rank b)"

instance
  by standard (auto simp: less_eq_ReplayClass_def less_ReplayClass_def replay_rank_inj)

end

fun replay_supports :: "ReplayClass \<Rightarrow> ReplayMode \<Rightarrow> bool" where
  "replay_supports c Audit = True"
| "replay_supports c Sandbox = (c \<ge> FilesystemOnly)"
| "replay_supports c Live = (c \<ge> FilesystemOnly)"

section \<open>Denials and errors\<close>

datatype DenialCode =
    CapabilityDenied
  | CapabilityExpired
  | CapabilityExhausted
  | BudgetExhausted
  | ConstraintViolation
  | BranchMismatch
  | EffectRequiresApproval
  | StaleAuthorizationCode
  | PreconditionFailed
  | DuplicateCommitCode
  | BackendUnavailableCode
  | PolicyForbidden

record RequestableScope =
  scope_operation :: string
  scope_constraints :: json
  requires_human :: bool

record Denial =
  denial_code :: DenialCode
  attempted_operation :: string
  denial_reason :: string
  safe_alternatives :: "string list"
  requestable_scopes :: "RequestableScope list"
  escalation_allowed :: bool

definition redact_for :: "Denial \<Rightarrow> TrustLevel \<Rightarrow> Denial" where
  "redact_for d t =
     (if t \<ge> Limited then d
      else \<lparr> denial_code = denial_code d,
             attempted_operation = attempted_operation d,
             denial_reason = ''operation not permitted for this principal'',
             safe_alternatives = safe_alternatives d,
             requestable_scopes = [],
             escalation_allowed = False \<rparr>)"

datatype KernelError =
    InvalidId string string
  | NotFound string string
  | Denied Denial
  | WrongEffectPhase string string string
  | StaleAuthorization string
  | DuplicateCommit string string
  | CommitInDoubt string string
  | BackendUnavailable string string
  | BranchDiscarded string
  | MergeConflict "string list"
  | Storage string
  | ConnectorError string
  | Serde string
  | Io string
  | OtherError string

type_synonym 'a KernelResult = "(KernelError, 'a) outcome"

fun error_code :: "KernelError \<Rightarrow> string" where
  "error_code (InvalidId _ _) = ''INVALID_ID''"
| "error_code (NotFound _ _) = ''NOT_FOUND''"
| "error_code (Denied _) = ''DENIED''"
| "error_code (WrongEffectPhase _ _ _) = ''WRONG_EFFECT_PHASE''"
| "error_code (StaleAuthorization _) = ''STALE_AUTHORIZATION''"
| "error_code (DuplicateCommit _ _) = ''DUPLICATE_COMMIT''"
| "error_code (CommitInDoubt _ _) = ''COMMIT_IN_DOUBT''"
| "error_code (BackendUnavailable _ _) = ''BACKEND_UNAVAILABLE''"
| "error_code (BranchDiscarded _) = ''BRANCH_DISCARDED''"
| "error_code (MergeConflict _) = ''MERGE_CONFLICT''"
| "error_code (Storage _) = ''STORAGE''"
| "error_code (ConnectorError _) = ''CONNECTOR''"
| "error_code (Serde _) = ''SERDE''"
| "error_code (Io _) = ''IO''"
| "error_code (OtherError _) = ''OTHER''"

text \<open>The wire envelope; the message is the error's \<open>Display\<close> text, the argument \<open>shown\<close>.\<close>

record ErrorEnvelope =
  env_code :: string
  env_message :: string
  env_denial :: "Denial option"

definition error_envelope :: "(KernelError \<Rightarrow> string) \<Rightarrow> KernelError \<Rightarrow> ErrorEnvelope" where
  "error_envelope shown e =
     \<lparr> env_code = error_code e, env_message = shown e,
       env_denial = (case e of Denied d \<Rightarrow> Some d | _ \<Rightarrow> None) \<rparr>"

text \<open>Identifier types share one parser that checks the type's prefix.\<close>

definition parse_id :: "string \<Rightarrow> string \<Rightarrow> ident KernelResult" where
  "parse_id pfx s = (if prefix (pfx @ ''-'') s then Ok s else Err (InvalidId pfx s))"

section \<open>Actions\<close>

datatype ActionKind =
    Shell string "string option" "(string \<times> string) list"
  | ReadFile string
  | WriteFile string string
  | DeletePath string
  | ProcessStart string "string option" "(string \<times> string) list" "string option"
  | ProcessStdin string string bool
  | ProcessLogs string u64 "u64 option"
  | ProcessSignal string string
  | ProcessStatus string
  | HttpRead string
  | McpInvoke string string json
  | ConnectorOp string string json
  | TraceQueryAction string
  | BranchDiffAction ident

fun required_operation :: "ActionKind \<Rightarrow> string" where
  "required_operation (Shell _ _ _) = ''proc.shell''"
| "required_operation (ReadFile _) = ''fs.read''"
| "required_operation (WriteFile _ _) = ''fs.write''"
| "required_operation (DeletePath _) = ''fs.delete''"
| "required_operation (ProcessStart _ _ _ _) = ''proc.start''"
| "required_operation (ProcessStdin _ _ _) = ''proc.stdin''"
| "required_operation (ProcessLogs _ _ _) = ''proc.logs''"
| "required_operation (ProcessSignal _ _) = ''proc.signal''"
| "required_operation (ProcessStatus _) = ''proc.status''"
| "required_operation (HttpRead _) = ''net.http_read''"
| "required_operation (McpInvoke _ _ _) = ''mcp.invoke''"
| "required_operation (ConnectorOp connector operation _) = connector @ ''.'' @ operation"
| "required_operation (TraceQueryAction _) = ''trace.query''"
| "required_operation (BranchDiffAction _) = ''state.diff''"

definition json_of_option :: "string option \<Rightarrow> json" where
  "json_of_option s = (case s of Some x \<Rightarrow> JStr x | None \<Rightarrow> JNull)"

fun action_params :: "ActionKind \<Rightarrow> json" where
  "action_params (Shell command cwd _) =
     JObj [(''command'', JStr command), (''cwd'', json_of_option cwd)]"
| "action_params (ReadFile path) = JObj [(''path'', JStr path)]"
| "action_params (DeletePath path) = JObj [(''path'', JStr path)]"
| "action_params (WriteFile path _) = JObj [(''path'', JStr path)]"
| "action_params (ProcessStart command cwd _ _) =
     JObj [(''command'', JStr command), (''cwd'', json_of_option cwd)]"
| "action_params (ProcessStdin process _ _) = JObj [(''process'', JStr process)]"
| "action_params (ProcessLogs process _ _) = JObj [(''process'', JStr process)]"
| "action_params (ProcessStatus process) = JObj [(''process'', JStr process)]"
| "action_params (ProcessSignal process signal) =
     JObj [(''process'', JStr process), (''signal'', JStr signal)]"
| "action_params (HttpRead url) = JObj [(''url'', JStr url)]"
| "action_params (McpInvoke server tool arguments) =
     JObj [(''arguments'', arguments), (''server'', JStr server), (''tool'', JStr tool)]"
| "action_params (ConnectorOp _ _ params) = params"
| "action_params (TraceQueryAction q) = JObj [(''query'', JStr q)]"
| "action_params (BranchDiffAction since) = JObj [(''since'', JStr since)]"

record Action =
  act_kind :: ActionKind
  act_lease :: ident
  intent_hint :: "string option"
  act_budget :: ResourceBudget

section \<open>Effects\<close>

datatype EffectClass =
    Pure | LocalReversible | RemoteReversible | Compensatable | Irreversible | OpaqueExternal

datatype EffectPhase =
    Proposed
  | Prepared json
  | Approved ident instant u64
  | Committing instant
  | Committed ident
  | Aborted string
  | Compensated ident

record EffectContract =
  operation :: string
  resource :: string
  arguments :: json
  preconditions :: json
  idempotency_key :: string
  effect_class :: EffectClass

record PendingEffect =
  fx_id :: ident
  contract :: EffectContract
  fx_contract_hash :: string
  proposer :: ident
  fx_branch :: ident
  fx_step :: ident
  fx_lease :: ident
  phase :: EffectPhase
  proposed_at :: instant

fun class_name :: "EffectClass \<Rightarrow> string" where
  "class_name Pure = ''pure''"
| "class_name LocalReversible = ''local_reversible''"
| "class_name RemoteReversible = ''remote_reversible''"
| "class_name Compensatable = ''compensatable''"
| "class_name Irreversible = ''irreversible''"
| "class_name OpaqueExternal = ''opaque_external''"

text \<open>The derived serialization of a contract: its fields in declaration order.\<close>

definition contract_json :: "EffectContract \<Rightarrow> json" where
  "contract_json c = JObj
     [(''operation'', JStr (operation c)), (''resource'', JStr (resource c)),
      (''arguments'', arguments c), (''preconditions'', preconditions c),
      (''idempotency_key'', JStr (idempotency_key c)),
      (''class'', JStr (class_name (effect_class c)))]"

definition contract_hash :: "(json \<Rightarrow> string) \<Rightarrow> EffectContract \<Rightarrow> string" where
  "contract_hash hash_json c = hash_json (contract_json c)"

definition new_pending_effect ::
  "(json \<Rightarrow> string) \<Rightarrow> ident \<Rightarrow> EffectContract \<Rightarrow> ident \<Rightarrow> ident \<Rightarrow> ident \<Rightarrow> ident \<Rightarrow> instant
    \<Rightarrow> PendingEffect" where
  "new_pending_effect hash_json new_id c who branch step lease now =
     \<lparr> fx_id = new_id, contract = c, fx_contract_hash = contract_hash hash_json c,
       proposer = who, fx_branch = branch, fx_step = step, fx_lease = lease,
       phase = Proposed, proposed_at = now \<rparr>"

record ReceiptBody =
  rb_effect :: ident
  rb_who :: ident
  rb_operation :: string
  rb_resource :: string
  rb_contract_hash :: string
  rb_branch :: ident
  rb_step :: ident
  rb_policy_epoch :: u64
  authorization_witness :: string
  external_response_digest :: string
  committed_at :: instant

record Receipt =
  rcpt_id :: ident
  rcpt_body :: ReceiptBody
  signature :: string
  key_id :: string

section \<open>Trust and redaction\<close>

lemma spawn_child_trust: "trust (spawn_child p i k n) \<le> trust p \<and> trust (spawn_child p i k n) \<le> Limited"
  by (simp add: spawn_child_def)

lemma low_trust_iff: "\<not> t \<ge> Limited \<longleftrightarrow> t = Quarantined \<or> t = Untrusted"
  by (cases t) (simp_all add: less_eq_TrustLevel_def)

lemma error_code_inj_DENIED: "error_code e = ''DENIED'' \<longleftrightarrow> (\<exists>d. e = Denied d)"
  by (cases e) simp_all

text \<open>
  C38. Redaction hides the policy surface: for a principal below \<open>Limited\<close>, what two denials
  look like after redaction depends on nothing but their code, the attempted operation and
  the safe alternatives, and redaction never changes a denial shown at \<open>Limited\<close> or above.
\<close>

theorem redaction_noninterference:
  "(t < Limited \<longrightarrow> (redact_for d t = redact_for d' t \<longleftrightarrow>
      denial_code d = denial_code d' \<and> attempted_operation d = attempted_operation d'
    \<and> safe_alternatives d = safe_alternatives d'))
   \<and> (Limited \<le> t \<longrightarrow> redact_for d t = d)"
  by (auto simp: redact_for_def not_le)

definition demo_denial :: "string \<Rightarrow> Denial" where
  "demo_denial reason = \<lparr> denial_code = PolicyForbidden, attempted_operation = ''fs.write'',
     denial_reason = reason, safe_alternatives = [], requestable_scopes = [],
     escalation_allowed = True \<rparr>"

theorem redaction_noninterference_witness:
  "Quarantined < Limited
   \<and> redact_for (demo_denial ''rule r1'') Quarantined = redact_for (demo_denial ''rule r2'') Quarantined"
  using redaction_noninterference [of Quarantined "demo_denial ''rule r1''" "demo_denial ''rule r2''"]
  by (simp add: less_TrustLevel_def demo_denial_def)

end
