(* ===== verification/Registry.thy ===== *)
theory Registry
  imports KernelTypes
begin

text \<open>
  The principal registry of kernel/identity (registry.rs, error.rs): registration under an
  existing parent, trust updates, ancestor chains with their length bound, and the
  descendant test that delegation relies on.
\<close>

section \<open>Operations\<close>

datatype IdentityError =
    UnknownPrincipal ident
  | UnknownLease ident
  | DuplicatePrincipal ident
  | UnknownParent ident
  | LeaseUnusable ident string
  | DelegationRejected string
  | Attenuation AttenuationError
  | IdStorage string
  | IdSerde string
  | IdKey string
  | IdIo string

type_synonym 'a IdentityResult = "(IdentityError, 'a) outcome"

fun identity_to_kernel_error :: "(IdentityError \<Rightarrow> string) \<Rightarrow> IdentityError \<Rightarrow> KernelError" where
  "identity_to_kernel_error shown (UnknownPrincipal i) = NotFound ''principal'' i"
| "identity_to_kernel_error shown (UnknownLease i) = NotFound ''lease'' i"
| "identity_to_kernel_error shown (IdStorage e) = Storage e"
| "identity_to_kernel_error shown (IdSerde e) = Serde e"
| "identity_to_kernel_error shown (IdIo e) = Io e"
| "identity_to_kernel_error shown other = OtherError (shown other)"

type_synonym registry = "(ident, Principal) table"

definition register :: "registry \<Rightarrow> Principal \<Rightarrow> registry IdentityResult" where
  "register reg p =
     (case (case pr_parent p of
              Some parent \<Rightarrow> if tbl_get reg parent = None then Some parent else None
            | None \<Rightarrow> None) of
        Some parent \<Rightarrow> Err (UnknownParent parent)
      | None \<Rightarrow>
          if tbl_get reg (pr_id p) \<noteq> None then Err (DuplicatePrincipal (pr_id p))
          else Ok (reg @ [(pr_id p, p)]))"

definition registry_get :: "registry \<Rightarrow> ident \<Rightarrow> Principal IdentityResult" where
  "registry_get reg i = (case tbl_get reg i of Some p \<Rightarrow> Ok p | None \<Rightarrow> Err (UnknownPrincipal i))"

definition registry_exists :: "registry \<Rightarrow> ident \<Rightarrow> bool IdentityResult" where
  "registry_exists reg i =
     (case registry_get reg i of
        Ok _ \<Rightarrow> Ok True
      | Err (UnknownPrincipal _) \<Rightarrow> Ok False
      | Err e \<Rightarrow> Err e)"

definition set_trust :: "registry \<Rightarrow> ident \<Rightarrow> TrustLevel \<Rightarrow> registry IdentityResult" where
  "set_trust reg i t =
     (case registry_get reg i of
        Err e \<Rightarrow> Err e
      | Ok p \<Rightarrow> Ok (tbl_update i (\<lambda>_. p\<lparr>trust := t\<rparr>) reg))"

definition registry_children :: "registry \<Rightarrow> ident \<Rightarrow> Principal list" where
  "registry_children reg i =
     map snd (sort_key fst (filter (\<lambda>(_, p). pr_parent p = Some i) reg))"

definition registry_list :: "registry \<Rightarrow> Principal list" where
  "registry_list reg = map snd (sort_key fst reg)"

text \<open>The walk up the parent links stops with an error past 4096 ancestors.\<close>

definition lineage_bound :: nat where
  "lineage_bound = 4096"

function lineage_loop :: "registry \<Rightarrow> Principal \<Rightarrow> Principal list \<Rightarrow> Principal list IdentityResult" where
  "lineage_loop reg current out =
     (case pr_parent current of
        None \<Rightarrow> Ok out
      | Some parent_id \<Rightarrow>
          (case registry_get reg parent_id of
             Err e \<Rightarrow> Err e
           | Ok parent \<Rightarrow>
               (let out' = out @ [parent] in
                if length out' > lineage_bound
                then Err (DelegationRejected ''principal lineage contains a cycle'')
                else lineage_loop reg parent out')))"
  by auto
termination
  by (relation "measure (\<lambda>(reg, current, out). Suc lineage_bound - length out)") auto

declare lineage_loop.simps [simp del]

definition lineage :: "registry \<Rightarrow> ident \<Rightarrow> Principal list IdentityResult" where
  "lineage reg i = (case registry_get reg i of Err e \<Rightarrow> Err e | Ok p \<Rightarrow> lineage_loop reg p [])"

definition is_self_or_descendant :: "registry \<Rightarrow> ident \<Rightarrow> ident \<Rightarrow> bool IdentityResult" where
  "is_self_or_descendant reg descendant ancestor =
     (if descendant = ancestor then Ok True
      else case lineage reg descendant of
        Err e \<Rightarrow> Err e
      | Ok chain \<Rightarrow> Ok (list_ex (\<lambda>p. pr_id p = ancestor) chain))"

section \<open>Registered states\<close>

text \<open>
  A registry is well formed when keys are unique and name their principal, and every parent is
  registered before its child. Registration and trust updates keep this.
\<close>

definition parents_first :: "registry \<Rightarrow> bool" where
  "parents_first reg \<longleftrightarrow>
     (\<forall>i < length reg. \<forall>parent. pr_parent (snd (reg ! i)) = Some parent
        \<longrightarrow> (\<exists>j < i. fst (reg ! j) = parent))"

definition registry_ok :: "registry \<Rightarrow> bool" where
  "registry_ok reg \<longleftrightarrow> tbl_ok reg \<and> (\<forall>(i, p) \<in> set reg. pr_id p = i) \<and> parents_first reg"

inductive registry_reachable :: "registry \<Rightarrow> bool" where
  empty: "registry_reachable []"
| register: "registry_reachable reg \<Longrightarrow> register reg p = Ok reg' \<Longrightarrow> registry_reachable reg'"
| set_trust: "registry_reachable reg \<Longrightarrow> set_trust reg i t = Ok reg' \<Longrightarrow> registry_reachable reg'"

text \<open>The ancestor chain, specified by the parent links alone.\<close>

inductive ancestry :: "registry \<Rightarrow> Principal \<Rightarrow> Principal list \<Rightarrow> bool" for reg where
  top: "pr_parent p = None \<Longrightarrow> ancestry reg p []"
| up: "pr_parent p = Some i \<Longrightarrow> tbl_get reg i = Some q \<Longrightarrow> ancestry reg q qs
        \<Longrightarrow> ancestry reg p (q # qs)"

lemma register_Ok:
  "register reg p = Ok reg' \<longleftrightarrow>
     (\<forall>parent. pr_parent p = Some parent \<longrightarrow> tbl_get reg parent \<noteq> None)
   \<and> tbl_get reg (pr_id p) = None \<and> reg' = reg @ [(pr_id p, p)]"
  by (auto simp: register_def split: option.splits if_splits)

lemma registry_get_Ok: "registry_get reg i = Ok p \<longleftrightarrow> tbl_get reg i = Some p"
  by (auto simp: registry_get_def split: option.splits)

lemma registry_exists_eq: "registry_exists reg i = Ok (tbl_get reg i \<noteq> None)"
  by (auto simp: registry_exists_def registry_get_def split: option.splits)

lemma parents_firstD:
  "registry_ok reg \<Longrightarrow> i < length reg \<Longrightarrow> pr_parent (snd (reg ! i)) = Some q
    \<Longrightarrow> \<exists>j < i. fst (reg ! j) = q"
  unfolding registry_ok_def parents_first_def by blast

lemma registry_ok_register:
  assumes "registry_ok reg" "register reg p = Ok reg'"
  shows "registry_ok reg'"
proof -
  from assms(2) have p: "tbl_get reg (pr_id p) = None" "reg' = reg @ [(pr_id p, p)]"
    and parent: "\<And>q. pr_parent p = Some q \<Longrightarrow> tbl_get reg q \<noteq> None"
    unfolding register_Ok by auto
  have "tbl_ok reg'"
    using assms(1) p by (auto simp: registry_ok_def tbl_ok_def tbl_get_None_iff)
  moreover have "parents_first reg'"
    unfolding parents_first_def
  proof (intro allI impI)
    fix i q
    assume i: "i < length reg'" "pr_parent (snd (reg' ! i)) = Some q"
    show "\<exists>j < i. fst (reg' ! j) = q"
    proof (cases "i < length reg")
      case True
      with i have "pr_parent (snd (reg ! i)) = Some q"
        by (simp add: p(2) nth_append)
      with True parents_firstD [OF assms(1)] obtain j where "j < i" "fst (reg ! j) = q"
        by blast
      with True show ?thesis
        by (intro exI [of _ j]) (simp add: p(2) nth_append)
    next
      case False
      with i have last: "i = length reg" "pr_parent p = Some q"
        by (simp_all add: p(2) nth_append)
      then obtain j where "j < length reg" "fst (reg ! j) = q"
        using parent [of q] by (auto simp: tbl_get_None_iff in_set_conv_nth)
      with last(1) show ?thesis
        by (intro exI [of _ j]) (simp add: p(2) nth_append)
    qed
  qed
  ultimately show ?thesis
    using assms(1) p(2) by (auto simp: registry_ok_def)
qed

lemma registry_ok_set_trust:
  assumes "registry_ok reg" "set_trust reg i t = Ok reg'"
  shows "registry_ok reg'"
proof -
  obtain p where p: "tbl_get reg i = Some p" "reg' = tbl_update i (\<lambda>_. p\<lparr>trust := t\<rparr>) reg"
    using assms(2) by (auto simp: set_trust_def registry_get_Ok split: sum.splits)
  have same: "pr_parent (snd (reg' ! k)) = pr_parent (snd (reg ! k)) \<and> fst (reg' ! k) = fst (reg ! k)"
    if "k < length reg" for k
  proof -
    have "(fst (reg ! k), snd (reg ! k)) \<in> set reg"
      using that by simp
    then have "fst (reg ! k) = i \<Longrightarrow> snd (reg ! k) = p"
      using assms(1) p(1) tbl_in_set_iff [of reg] by (auto simp: registry_ok_def)
    with that show ?thesis
      by (auto simp: p(2) tbl_update_def case_prod_beta)
  qed
  have len: "length reg' = length reg"
    by (simp add: p(2) tbl_update_def)
  have "parents_first reg'"
    using assms(1) same unfolding registry_ok_def parents_first_def len
    by (metis less_trans)
  moreover have keyed: "\<And>k q. (k, q) \<in> set reg \<Longrightarrow> pr_id q = k"
    using assms(1) unfolding registry_ok_def by blast
  have "\<forall>(k, q) \<in> set reg'. pr_id q = k"
    using keyed keyed [OF tbl_get_in_set [OF p(1)]] by (auto simp: p(2) tbl_update_def)
  ultimately show ?thesis
    using assms(1) p(2) by (simp add: registry_ok_def)
qed

lemma reachable_registry_ok: "registry_reachable reg \<Longrightarrow> registry_ok reg"
proof (induction rule: registry_reachable.induct)
  case empty
  show ?case
    by (simp add: registry_ok_def parents_first_def)
qed (auto intro: registry_ok_register registry_ok_set_trust)

lemma ancestry_exists:
  assumes "registry_ok reg"
  shows "k < length reg \<Longrightarrow> \<exists>qs. ancestry reg (snd (reg ! k)) qs \<and> length qs \<le> k"
proof (induction k rule: less_induct)
  case (less k)
  show ?case
  proof (cases "pr_parent (snd (reg ! k))")
    case None
    then show ?thesis
      by (intro exI [of _ "[]"]) (simp add: ancestry.top)
  next
    case (Some parent)
    then obtain j where j: "j < k" "fst (reg ! j) = parent"
      using parents_firstD [OF assms less.prems] by blast
    then obtain qs where qs: "ancestry reg (snd (reg ! j)) qs" "length qs \<le> j"
      using less by (meson less_trans)
    have "(parent, snd (reg ! j)) \<in> set reg"
      using j less.prems by (metis less_trans nth_mem prod.collapse)
    then have "tbl_get reg parent = Some (snd (reg ! j))"
      using assms by (simp add: registry_ok_def tbl_in_set_iff)
    then have "ancestry reg (snd (reg ! k)) (snd (reg ! j) # qs)"
      using Some qs(1) by (intro ancestry.up)
    with j qs(2) show ?thesis
      by (intro exI [of _ "snd (reg ! j) # qs"]) simp
  qed
qed

lemma lineage_loop_ancestry:
  assumes "ancestry reg p qs" "length out \<le> lineage_bound"
  shows "lineage_loop reg p out =
    (if length out + length qs \<le> lineage_bound then Ok (out @ qs)
     else Err (DelegationRejected ''principal lineage contains a cycle''))"
  using assms
proof (induction arbitrary: out rule: ancestry.induct)
  case (top p)
  then show ?case
    by (subst lineage_loop.simps) simp
next
  case (up p i q qs)
  show ?case
    using up.hyps up.prems up.IH [of "out @ [q]"]
    by (subst lineage_loop.simps) (auto simp: registry_get_def Let_def)
qed

text \<open>
  The lineage of a registered principal is its ancestor chain: in every registry built by
  registrations and trust updates the parent links of a registered principal end at a root
  after fewer steps than there are principals, and \<open>lineage\<close> returns exactly that chain. Its
  cycle error is raised only for a chain of more than 4096 ancestors.
\<close>

theorem lineage_exact:
  assumes "registry_reachable reg" "tbl_get reg i = Some p"
  shows "\<exists>chain. ancestry reg p chain \<and> length chain < length reg
    \<and> lineage reg i = (if length chain \<le> 4096 then Ok chain
        else Err (DelegationRejected ''principal lineage contains a cycle''))"
proof -
  note ok = reachable_registry_ok [OF assms(1)]
  obtain k where k: "k < length reg" "reg ! k = (i, p)"
    using tbl_get_in_set [OF assms(2)] by (auto simp: in_set_conv_nth)
  then obtain chain where chain: "ancestry reg p chain" "length chain \<le> k"
    using ancestry_exists [OF ok k(1)] by auto
  have "lineage reg i = lineage_loop reg p []"
    using assms(2) by (simp add: lineage_def registry_get_def)
  then show ?thesis
    using chain k(1) lineage_loop_ancestry [OF chain(1), of "[]"]
    by (intro exI [of _ chain]) (simp add: lineage_bound_def)
qed

definition demo_agent :: Principal where
  "demo_agent = new_agent ''pr-a'' ''root''"

definition demo_sub :: Principal where
  "demo_sub = spawn_child demo_agent ''pr-b'' SubAgent ''child''"

lemma demo_registry_reachable:
  "registry_reachable [(''pr-a'', demo_agent), (''pr-b'', demo_sub)]"
proof -
  have a: "register [] demo_agent = Ok [(''pr-a'', demo_agent)]"
    by (simp add: register_def demo_agent_def new_agent_def)
  have b: "register [(''pr-a'', demo_agent)] demo_sub
      = Ok [(''pr-a'', demo_agent), (''pr-b'', demo_sub)]"
    by (simp add: register_def demo_sub_def demo_agent_def new_agent_def spawn_child_def tbl_get_def)
  show ?thesis
    by (rule registry_reachable.register [OF registry_reachable.register
          [OF registry_reachable.empty a] b])
qed

theorem lineage_exact_witness:
  "\<exists>chain. ancestry [(''pr-a'', demo_agent), (''pr-b'', demo_sub)] demo_sub chain
    \<and> length chain < 2"
  using lineage_exact [OF demo_registry_reachable, of "''pr-b''" demo_sub]
  by (auto simp: tbl_get_def)

end
