(* ===== verification/LeaseStore.thy ===== *)
theory LeaseStore
  imports Registry
begin

text \<open>
  The durable lease store and the delegation service of kernel/identity (lease_store.rs,
  delegation.rs). Leases are rows keyed by id; revocation walks the \<open>parent_lease\<close> links with
  an explicit stack inside one transaction, consumption is one conditional update, and
  delegation reads, attenuates and then stores the child in a second statement.
\<close>

section \<open>Operations\<close>

type_synonym leases = "(ident, CapabilityLease) table"

record DelegationRecord =
  dr_parent_lease :: ident
  dr_child_lease :: ident
  dr_delegator :: ident
  dr_delegatee :: ident
  delegated_at :: instant

record IdentityDb =
  db_principals :: registry
  db_leases :: leases
  db_delegations :: "DelegationRecord list"

definition lease_issue :: "CapabilityLease \<Rightarrow> leases \<Rightarrow> leases" where
  "lease_issue l t = tbl_put (lease_id l) l t"

definition lease_get :: "leases \<Rightarrow> ident \<Rightarrow> CapabilityLease IdentityResult" where
  "lease_get t i = (case tbl_get t i of Some l \<Rightarrow> Ok l | None \<Rightarrow> Err (UnknownLease i))"

definition list_for_principal :: "leases \<Rightarrow> ident \<Rightarrow> CapabilityLease list" where
  "list_for_principal t who =
     map snd (sort_key fst (filter (\<lambda>(_, l). lease_principal l = who) t))"

definition active_for_principal :: "leases \<Rightarrow> ident \<Rightarrow> instant \<Rightarrow> CapabilityLease list" where
  "active_for_principal t who now =
     filter (\<lambda>l. \<not> revoked l \<and> expires_at l > now \<and> remaining_uses l > 0)
            (list_for_principal t who)"

definition child_ids :: "leases \<Rightarrow> ident \<Rightarrow> ident list" where
  "child_ids t i = map fst (filter (\<lambda>(_, l). parent_lease l = Some i) t)"

text \<open>
  One iteration pops the last pushed lease, flips its \<open>revoked\<close> flag (recording it when it was
  not revoked before) and pushes its children in row order. The stack's top is the head of the
  list. The loop ends only if the parent links have no cycle below the start.
\<close>

partial_function (option) revoke_loop ::
  "leases \<Rightarrow> ident list \<Rightarrow> ident list \<Rightarrow> (leases \<times> ident list) option" where
  "revoke_loop t frontier done_ids =
     (case frontier of
        [] \<Rightarrow> Some (t, done_ids)
      | current # rest \<Rightarrow>
          (case tbl_get t current of
             Some l \<Rightarrow>
               revoke_loop (tbl_update current (\<lambda>l. l\<lparr>revoked := True\<rparr>) t)
                 (rev (child_ids t current) @ rest)
                 (if revoked l then done_ids else done_ids @ [current])
           | None \<Rightarrow> revoke_loop t (rev (child_ids t current) @ rest) done_ids))"

definition revoke_cascading :: "leases \<Rightarrow> ident \<Rightarrow> (leases \<times> ident list) IdentityResult option" where
  "revoke_cascading t i =
     (if tbl_get t i = None then Some (Err (UnknownLease i))
      else map_option Ok (revoke_loop t [i] []))"

definition lease_usable :: "CapabilityLease \<Rightarrow> instant \<Rightarrow> bool" where
  "lease_usable l now = (\<not> revoked l \<and> remaining_uses l > 0 \<and> expires_at l > now)"

definition consume_use :: "leases \<Rightarrow> ident \<Rightarrow> instant \<Rightarrow> (leases \<times> CapabilityLease) IdentityResult" where
  "consume_use t i now =
     (case tbl_get t i of
        None \<Rightarrow> Err (UnknownLease i)
      | Some l \<Rightarrow>
          if lease_usable l now then
            (let l' = l\<lparr>remaining_uses := remaining_uses l - 1\<rparr>
             in Ok (tbl_update i (\<lambda>_. l') t, l'))
          else Err (LeaseUnusable i
            (if revoked l then ''revoked''
             else if now \<ge> expires_at l then ''expired'' else ''exhausted'')))"

definition sweep_expired :: "leases \<Rightarrow> instant \<Rightarrow> leases \<times> ident list" where
  "sweep_expired t now =
     (map (\<lambda>(i, l). (i, if \<not> revoked l \<and> expires_at l \<le> now then l\<lparr>revoked := True\<rparr> else l)) t,
      map fst (filter (\<lambda>(_, l). \<not> revoked l \<and> expires_at l \<le> now) t))"

text \<open>
  Delegation in its two database steps: the checks with the read and attenuation of the
  parent lease, and the insertion of the child with its audit record.
\<close>

definition delegate_prepare ::
  "IdentityDb \<Rightarrow> ident \<Rightarrow> ident \<Rightarrow> ident \<Rightarrow> ident \<Rightarrow> (string \<times> constraint) list \<Rightarrow> u32 \<Rightarrow> instant
    \<Rightarrow> ResourceBudget \<Rightarrow> instant \<Rightarrow> CapabilityLease IdentityResult" where
  "delegate_prepare db new_id delegator parent_id delegatee cs uses expiry budget now =
     (case registry_exists (db_principals db) delegator of
        Err e \<Rightarrow> Err e
      | Ok False \<Rightarrow> Err (UnknownPrincipal delegator)
      | Ok True \<Rightarrow>
     (case registry_exists (db_principals db) delegatee of
        Err e \<Rightarrow> Err e
      | Ok False \<Rightarrow> Err (DelegationRejected ''delegatee is not a registered principal'')
      | Ok True \<Rightarrow>
     (case is_self_or_descendant (db_principals db) delegatee delegator of
        Err e \<Rightarrow> Err e
      | Ok False \<Rightarrow> Err (DelegationRejected
          ''delegatee is not the delegator or one of its descendants'')
      | Ok True \<Rightarrow>
     (case lease_get (db_leases db) parent_id of
        Err e \<Rightarrow> Err e
      | Ok parent \<Rightarrow>
          if lease_principal parent \<noteq> delegator
          then Err (DelegationRejected ''parent lease is not held by the delegator'')
          else (case attenuate parent new_id delegatee cs uses expiry budget now of
                  Err e \<Rightarrow> Err (Attenuation e)
                | Ok child \<Rightarrow> Ok child)))))"

definition delegate_store ::
  "IdentityDb \<Rightarrow> ident \<Rightarrow> ident \<Rightarrow> ident \<Rightarrow> CapabilityLease \<Rightarrow> instant \<Rightarrow> IdentityDb" where
  "delegate_store db delegator parent_id delegatee child now =
     db\<lparr> db_leases := lease_issue child (db_leases db),
         db_delegations := db_delegations db @
           [\<lparr> dr_parent_lease = parent_id, dr_child_lease = lease_id child,
              dr_delegator = delegator, dr_delegatee = delegatee, delegated_at = now \<rparr>] \<rparr>"

definition delegate ::
  "IdentityDb \<Rightarrow> ident \<Rightarrow> ident \<Rightarrow> ident \<Rightarrow> ident \<Rightarrow> (string \<times> constraint) list \<Rightarrow> u32 \<Rightarrow> instant
    \<Rightarrow> ResourceBudget \<Rightarrow> instant \<Rightarrow> (IdentityDb \<times> CapabilityLease) IdentityResult" where
  "delegate db new_id delegator parent_id delegatee cs uses expiry budget now =
     (case delegate_prepare db new_id delegator parent_id delegatee cs uses expiry budget now of
        Err e \<Rightarrow> Err e
      | Ok child \<Rightarrow> Ok (delegate_store db delegator parent_id delegatee child now, child))"

definition audit_log :: "IdentityDb \<Rightarrow> DelegationRecord list" where
  "audit_log db = db_delegations db"

section \<open>The forest of leases\<close>

definition child_rel :: "leases \<Rightarrow> (ident \<times> ident) set" where
  "child_rel t = {(c, p). Option.bind (tbl_get t c) parent_lease = Some p}"

definition below :: "leases \<Rightarrow> ident \<Rightarrow> ident set" where
  "below t i = {c. (c, i) \<in> (child_rel t)\<^sup>*}"

definition revoke_all :: "ident set \<Rightarrow> leases \<Rightarrow> leases" where
  "revoke_all S t = map (\<lambda>(i, l). (i, if i \<in> S then l\<lparr>revoked := True\<rparr> else l)) t"

lemma finite_child_rel: "finite (child_rel t)"
proof -
  have "child_rel t \<subseteq> (\<lambda>(c, l). (c, the (parent_lease l))) ` set t"
    by (force simp: child_rel_def bind_eq_Some_conv dest: tbl_get_in_set)
  then show ?thesis
    by (rule finite_subset) simp
qed

lemma set_child_ids: "tbl_ok t \<Longrightarrow> set (child_ids t i) = {c. (c, i) \<in> child_rel t}"
  by (force simp: child_ids_def child_rel_def tbl_in_set_iff bind_eq_Some_conv)

lemma tbl_get_revoke_all:
  "tbl_get (revoke_all S t) i =
     map_option (\<lambda>l. if i \<in> S then l\<lparr>revoked := True\<rparr> else l) (tbl_get t i)"
  by (induction t) (auto simp: tbl_get_def revoke_all_def)

lemma revoke_all_revoke_all: "revoke_all S (revoke_all T t) = revoke_all (S \<union> T) t"
  by (auto simp: revoke_all_def)

lemma revoke_all_empty [simp]: "revoke_all {} t = t"
  by (simp add: revoke_all_def)

lemma revoke_all_single: "revoke_all {i} t = tbl_update i (\<lambda>l. l\<lparr>revoked := True\<rparr>) t"
  by (simp add: revoke_all_def tbl_update_def)

lemma tbl_ok_revoke_all [simp]: "tbl_ok (revoke_all S t) = tbl_ok t"
proof -
  have "map fst (revoke_all S t) = map fst t"
    by (simp add: revoke_all_def comp_def case_prod_beta)
  then show ?thesis
    by (simp add: tbl_ok_def)
qed

lemma child_rel_revoke_all [simp]: "child_rel (revoke_all S t) = child_rel t"
proof -
  have "Option.bind (tbl_get (revoke_all S t) c) parent_lease = Option.bind (tbl_get t c) parent_lease"
    for c
    by (cases "tbl_get t c") (simp_all add: tbl_get_revoke_all)
  then show ?thesis
    by (simp add: child_rel_def)
qed

lemma child_ids_revoke_all [simp]: "child_ids (revoke_all S t) i = child_ids t i"
  by (induction t) (auto simp: child_ids_def revoke_all_def split: if_splits)

lemma below_revoke_all [simp]: "below (revoke_all S t) i = below t i"
  by (simp add: below_def)

lemma below_children: "tbl_ok t \<Longrightarrow> below t i = insert i (\<Union>c \<in> set (child_ids t i). below t c)"
  unfolding below_def set_child_ids
  by (auto intro: rtrancl_into_rtrancl converse_rtrancl_into_rtrancl elim: rtranclE)

text \<open>The leases of a set that are stored and not yet revoked.\<close>

definition live_in :: "leases \<Rightarrow> ident set \<Rightarrow> ident set" where
  "live_in t S = {i \<in> S. case tbl_get t i of Some l \<Rightarrow> \<not> revoked l | None \<Rightarrow> False}"

lemma live_in_revoke_all: "live_in (revoke_all S t) T = live_in t (T - S)"
  by (auto simp: live_in_def tbl_get_revoke_all split: option.splits)

lemma revoke_loop_Nil: "revoke_loop t [] acc = Some (t, acc)"
  by (subst revoke_loop.simps) simp

lemma revoke_loop_Cons:
  "revoke_loop t (i # rest) acc =
     revoke_loop (revoke_all {i} t) (rev (child_ids t i) @ rest)
       (if i \<in> live_in t {i} then acc @ [i] else acc)"
proof (cases "tbl_get t i")
  case None
  have "tbl_update i (\<lambda>l. l\<lparr>revoked := True\<rparr>) t = t"
    using None unfolding tbl_update_def
    by (intro map_idI) (auto simp: tbl_get_None_iff image_iff)
  with None show ?thesis
    by (subst revoke_loop.simps) (simp add: live_in_def revoke_all_single)
qed (subst revoke_loop.simps, auto simp: live_in_def revoke_all_single)

text \<open>
  What the loop does to a list of subtrees on top of the stack: it consumes them, revokes
  everything below them, and records each lease that was live exactly once.
\<close>

definition visits :: "leases \<Rightarrow> ident list \<Rightarrow> bool" where
  "visits t is \<longleftrightarrow> (\<forall>S acc rest. \<exists>new.
      revoke_loop (revoke_all S t) (is @ rest) acc
        = revoke_loop (revoke_all ((\<Union>i \<in> set is. below t i) \<union> S) t) rest (acc @ new)
    \<and> set new = live_in t ((\<Union>i \<in> set is. below t i) - S) \<and> distinct new)"

lemma visitsD:
  "visits t is \<Longrightarrow> \<exists>new.
      revoke_loop (revoke_all S t) (is @ rest) acc
        = revoke_loop (revoke_all ((\<Union>i \<in> set is. below t i) \<union> S) t) rest (acc @ new)
    \<and> set new = live_in t ((\<Union>i \<in> set is. below t i) - S) \<and> distinct new"
  unfolding visits_def by blast

lemma visits_Nil: "visits t []"
  by (auto simp: visits_def live_in_def intro: exI [of _ "[]"])

lemma visits_append:
  assumes "visits t is" "visits t js"
  shows "visits t (is @ js)"
  unfolding visits_def
proof (intro allI)
  fix S acc rest
  let ?I = "\<Union>i \<in> set is. below t i" and ?J = "\<Union>i \<in> set js. below t i"
  obtain n1 where n1: "revoke_loop (revoke_all S t) (is @ js @ rest) acc
      = revoke_loop (revoke_all (?I \<union> S) t) (js @ rest) (acc @ n1)"
    "set n1 = live_in t (?I - S)" "distinct n1"
    using visitsD [OF assms(1), of S "js @ rest" acc] by blast
  obtain n2 where n2: "revoke_loop (revoke_all (?I \<union> S) t) (js @ rest) (acc @ n1)
      = revoke_loop (revoke_all (?J \<union> (?I \<union> S)) t) rest ((acc @ n1) @ n2)"
    "set n2 = live_in t (?J - (?I \<union> S))" "distinct n2"
    using visitsD [OF assms(2), of "?I \<union> S" rest "acc @ n1"] by blast
  have "set (n1 @ n2) = live_in t (?I \<union> ?J - S)" "distinct (n1 @ n2)"
    using n1(2,3) n2(2,3) by (auto simp: live_in_def)
  moreover have "?J \<union> (?I \<union> S) = (\<Union>i \<in> set (is @ js). below t i) \<union> S"
    by auto
  ultimately show "\<exists>new. revoke_loop (revoke_all S t) ((is @ js) @ rest) acc
        = revoke_loop (revoke_all ((\<Union>i \<in> set (is @ js). below t i) \<union> S) t) rest (acc @ new)
      \<and> set new = live_in t ((\<Union>i \<in> set (is @ js). below t i) - S) \<and> distinct new"
    using n1(1) n2(1) by (intro exI [of _ "n1 @ n2"]) (simp add: Un_ac)
qed

lemma visits_all: "(\<And>i. i \<in> set is \<Longrightarrow> visits t [i]) \<Longrightarrow> visits t is"
proof (induction "is")
  case Nil
  show ?case
    by (rule visits_Nil)
next
  case (Cons i "is")
  have "visits t [i]" "visits t is"
    using Cons.prems Cons.IH by simp_all
  then have "visits t ([i] @ is)"
    by (rule visits_append)
  then show ?case
    by (simp only: append.simps)
qed

lemma visits_node:
  assumes "tbl_ok t" "\<And>c. c \<in> set (child_ids t i) \<Longrightarrow> visits t [c]"
    and fresh: "i \<notin> (\<Union>c \<in> set (child_ids t i). below t c)"
  shows "visits t [i]"
  unfolding visits_def
proof (intro allI)
  fix S acc rest
  let ?C = "\<Union>c \<in> set (child_ids t i). below t c"
  let ?acc = "if i \<in> live_in (revoke_all S t) {i} then acc @ [i] else acc"
  have v: "visits t (rev (child_ids t i))"
    by (rule visits_all) (use assms(2) in simp)
  obtain n where n: "revoke_loop (revoke_all (insert i S) t) (rev (child_ids t i) @ rest) ?acc
      = revoke_loop (revoke_all (?C \<union> insert i S) t) rest (?acc @ n)"
    "set n = live_in t (?C - insert i S)" "distinct n"
    using visitsD [OF v, of "insert i S" rest ?acc] unfolding set_rev by blast
  have step: "revoke_loop (revoke_all S t) ([i] @ rest) acc
      = revoke_loop (revoke_all (insert i S) t) (rev (child_ids t i) @ rest) ?acc"
    by (simp add: revoke_loop_Cons revoke_all_revoke_all)
  have b: "below t i = insert i ?C"
    using below_children [OF assms(1)] .
  show "\<exists>new. revoke_loop (revoke_all S t) ([i] @ rest) acc
        = revoke_loop (revoke_all ((\<Union>j \<in> set [i]. below t j) \<union> S) t) rest (acc @ new)
      \<and> set new = live_in t ((\<Union>j \<in> set [i]. below t j) - S) \<and> distinct new"
  proof (cases "i \<in> live_in (revoke_all S t) {i}")
    case True
    then have "i \<notin> S" "i \<in> live_in t {i}"
      unfolding live_in_revoke_all by (auto simp: live_in_def)
    then show ?thesis
      using True n step b by (intro exI [of _ "i # n"]) (auto simp: live_in_def insert_commute)
  next
    case False
    then have "live_in t (insert i ?C - S) = live_in t (?C - insert i S)"
      unfolding live_in_revoke_all using fresh by (auto simp: live_in_def)
    then show ?thesis
      using False n step b by (intro exI [of _ n]) simp
  qed
qed

lemma visits_every:
  assumes "tbl_ok t" "acyclic (child_rel t)"
  shows "visits t [i]"
proof (induction i rule: wf_induct [OF finite_acyclic_wf [OF finite_child_rel assms(2)]])
  case (1 i)
  show ?case
  proof (rule visits_node [OF assms(1)])
    show "visits t [c]" if "c \<in> set (child_ids t i)" for c
      using 1 that set_child_ids [OF assms(1)] by blast
    show "i \<notin> (\<Union>c \<in> set (child_ids t i). below t c)"
    proof
      assume "i \<in> (\<Union>c \<in> set (child_ids t i). below t c)"
      then obtain c where "(c, i) \<in> child_rel t" "(i, c) \<in> (child_rel t)\<^sup>*"
        by (auto simp: set_child_ids [OF assms(1)] below_def)
      then have "(i, i) \<in> (child_rel t)\<^sup>+"
        by (rule rtrancl_into_trancl1 [rotated])
      with assms(2) show False
        by (simp add: acyclic_def)
    qed
  qed
qed

lemma revoke_cascading_ends:
  assumes "tbl_ok t" "acyclic (child_rel t)" "tbl_get t i \<noteq> None"
  shows "\<exists>ids. revoke_cascading t i = Some (Ok (revoke_all (below t i) t, ids))
    \<and> distinct ids \<and> set ids = live_in t (below t i)"
proof -
  have "visits t [i]"
    by (rule visits_every [OF assms(1,2)])
  then obtain new where "revoke_loop (revoke_all {} t) ([i] @ []) []
      = revoke_loop (revoke_all ((\<Union>j \<in> set [i]. below t j) \<union> {}) t) [] ([] @ new)"
    "set new = live_in t ((\<Union>j \<in> set [i]. below t j) - {})" "distinct new"
    using visitsD [of t "[i]" "{}" "[]" "[]"] by blast
  with assms(3) show ?thesis
    by (intro exI [of _ new]) (auto simp: revoke_cascading_def revoke_loop_Nil)
qed

section \<open>Reachable stores\<close>

definition lease_inv :: "leases \<Rightarrow> bool" where
  "lease_inv t \<longleftrightarrow> tbl_ok t \<and> (\<forall>i l. tbl_get t i = Some l \<longrightarrow> lease_id l = i)
   \<and> acyclic (child_rel t)
   \<and> (\<forall>i l p. tbl_get t i = Some l \<and> parent_lease l = Some p \<longrightarrow>
        (\<exists>m. tbl_get t p = Some m \<and> expires_at l \<le> expires_at m \<and> (revoked m \<longrightarrow> revoked l)))"

inductive identity_reachable :: "IdentityDb \<Rightarrow> bool" where
  init: "identity_reachable \<lparr> db_principals = [], db_leases = [], db_delegations = [] \<rparr>"
| register: "\<lbrakk> identity_reachable db; register (db_principals db) p = Ok reg \<rbrakk>
    \<Longrightarrow> identity_reachable (db\<lparr> db_principals := reg \<rparr>)"
| set_trust: "\<lbrakk> identity_reachable db; set_trust (db_principals db) i tr = Ok reg \<rbrakk>
    \<Longrightarrow> identity_reachable (db\<lparr> db_principals := reg \<rparr>)"
| issue: "\<lbrakk> identity_reachable db; tbl_get (db_leases db) (lease_id l) = None;
            parent_lease l = None \<rbrakk>
    \<Longrightarrow> identity_reachable (db\<lparr> db_leases := lease_issue l (db_leases db) \<rparr>)"
| delegate: "\<lbrakk> identity_reachable db; tbl_get (db_leases db) new_id = None;
    delegate db new_id delegator parent_id delegatee cs uses expiry budget now = Ok (db', child) \<rbrakk>
    \<Longrightarrow> identity_reachable db'"
| revoke: "\<lbrakk> identity_reachable db; revoke_cascading (db_leases db) i = Some (Ok (t, ids)) \<rbrakk>
    \<Longrightarrow> identity_reachable (db\<lparr> db_leases := t \<rparr>)"
| consume: "\<lbrakk> identity_reachable db; consume_use (db_leases db) i now = Ok (t, l) \<rbrakk>
    \<Longrightarrow> identity_reachable (db\<lparr> db_leases := t \<rparr>)"
| sweep: "\<lbrakk> identity_reachable db; sweep_expired (db_leases db) now = (t, ids) \<rbrakk>
    \<Longrightarrow> identity_reachable (db\<lparr> db_leases := t \<rparr>)"

lemma lease_invD:
  "lease_inv t \<Longrightarrow> tbl_get t i = Some l \<Longrightarrow> parent_lease l = Some p \<Longrightarrow>
     \<exists>m. tbl_get t p = Some m \<and> expires_at l \<le> expires_at m \<and> (revoked m \<longrightarrow> revoked l)"
  unfolding lease_inv_def by blast

lemma lease_inv_rewrite:
  assumes "lease_inv t" "tbl_ok t'"
    and get: "\<And>i. tbl_get t' i = map_option (g i) (tbl_get t i)"
    and keep: "\<And>i l. parent_lease (g i l) = parent_lease l \<and> expires_at (g i l) = expires_at l
      \<and> lease_id (g i l) = lease_id l"
    and mono: "\<And>i l p m. tbl_get t i = Some l \<Longrightarrow> parent_lease l = Some p
      \<Longrightarrow> tbl_get t p = Some m \<Longrightarrow> expires_at l \<le> expires_at m \<Longrightarrow> (revoked m \<longrightarrow> revoked l)
      \<Longrightarrow> revoked (g p m) \<Longrightarrow> revoked (g i l)"
  shows "lease_inv t'"
proof -
  have "Option.bind (tbl_get t' c) parent_lease = Option.bind (tbl_get t c) parent_lease" for c
    using get keep by (cases "tbl_get t c") simp_all
  then have rel: "child_rel t' = child_rel t"
    by (simp add: child_rel_def)
  show ?thesis
    unfolding lease_inv_def
  proof (intro conjI allI impI)
    fix i l' p
    assume "tbl_get t' i = Some l' \<and> parent_lease l' = Some p"
    then obtain l where l: "tbl_get t i = Some l" "l' = g i l" "parent_lease l = Some p"
      using get keep by auto
    then obtain m where "tbl_get t p = Some m" "expires_at l \<le> expires_at m" "revoked m \<longrightarrow> revoked l"
      using lease_invD [OF assms(1)] by blast
    with l get keep mono show "\<exists>m. tbl_get t' p = Some m \<and> expires_at l' \<le> expires_at m
        \<and> (revoked m \<longrightarrow> revoked l')"
      by (intro exI [of _ "g p m"]) auto
  next
    show "lease_id l = i" if "tbl_get t' i = Some l" for i l
      using that assms(1) get keep by (auto simp: lease_inv_def)
  qed (use assms(1,2) rel in \<open>simp_all add: lease_inv_def\<close>)
qed

lemma lease_inv_revoke: "lease_inv t \<Longrightarrow> lease_inv (revoke_all (below t i) t)"
proof (rule lease_inv_rewrite [where g = "\<lambda>j l. if j \<in> below t i then l\<lparr>revoked := True\<rparr> else l"])
  fix j l p m
  assume "tbl_get t j = Some l" "parent_lease l = Some p"
  then have "(j, p) \<in> child_rel t"
    by (simp add: child_rel_def)
  then have "p \<in> below t i \<Longrightarrow> j \<in> below t i"
    by (auto simp: below_def intro: converse_rtrancl_into_rtrancl)
  moreover assume "revoked m \<longrightarrow> revoked l"
    "revoked (if p \<in> below t i then m\<lparr>revoked := True\<rparr> else m)"
  ultimately show "revoked (if j \<in> below t i then l\<lparr>revoked := True\<rparr> else l)"
    by (auto split: if_splits)
qed (auto simp: lease_inv_def tbl_get_revoke_all)

lemma lease_inv_consume:
  assumes "lease_inv t" "consume_use t i now = Ok (t', l)"
  shows "lease_inv t'"
proof -
  obtain m where m: "tbl_get t i = Some m"
    "t' = tbl_update i (\<lambda>_. m\<lparr>remaining_uses := remaining_uses m - 1\<rparr>) t"
    using assms(2) by (auto simp: consume_use_def Let_def split: option.splits if_splits)
  show ?thesis
  proof (rule lease_inv_rewrite
      [where t = t and g = "\<lambda>j l. if j = i then l\<lparr>remaining_uses := remaining_uses l - 1\<rparr> else l"])
    show "tbl_get t' j = map_option
        (\<lambda>l. if j = i then l\<lparr>remaining_uses := remaining_uses l - 1\<rparr> else l) (tbl_get t j)" for j
      using m by (simp add: option.map_ident)
  qed (use assms(1) m(2) in \<open>auto simp: lease_inv_def split: if_splits\<close>)
qed

lemma tbl_get_sweep:
  "sweep_expired t now = (t', ids) \<Longrightarrow> tbl_get t' j = map_option
     (\<lambda>l. if \<not> revoked l \<and> expires_at l \<le> now then l\<lparr>revoked := True\<rparr> else l) (tbl_get t j)"
  unfolding sweep_expired_def
  by (induction t arbitrary: t' ids) (auto simp: tbl_get_def)

lemma lease_inv_sweep:
  assumes "lease_inv t" "sweep_expired t now = (t', ids)"
  shows "lease_inv t'"
proof (rule lease_inv_rewrite [OF assms(1) _ tbl_get_sweep [OF assms(2)]])
  have "map fst t' = map fst t"
    using assms(2) by (auto simp: sweep_expired_def)
  with assms(1) show "tbl_ok t'"
    by (simp add: lease_inv_def tbl_ok_def)
qed (auto split: if_splits)

lemma lease_inv_issue:
  assumes "lease_inv t" "tbl_get t (lease_id l) = None"
    and parent: "\<And>p. parent_lease l = Some p \<Longrightarrow>
      \<exists>m. tbl_get t p = Some m \<and> expires_at l \<le> expires_at m \<and> (revoked m \<longrightarrow> revoked l)"
  shows "lease_inv (lease_issue l t)"
  unfolding lease_inv_def
proof (intro conjI allI impI)
  show "tbl_ok (lease_issue l t)"
    using assms(1) by (simp add: lease_issue_def lease_inv_def)
  have range: "(c, p) \<in> child_rel t \<Longrightarrow> p \<noteq> lease_id l" for c p
    using lease_invD [OF assms(1)] assms(2) by (fastforce simp: child_rel_def bind_eq_Some_conv)
  have rel: "child_rel (lease_issue l t)
      = (case parent_lease l of None \<Rightarrow> child_rel t | Some p \<Rightarrow> insert (lease_id l, p) (child_rel t))"
    using assms(2) by (auto simp: child_rel_def lease_issue_def split: option.splits if_splits)
  have "(p, lease_id l) \<notin> (child_rel t)\<^sup>*" if "parent_lease l = Some p" for p
    using parent [OF that] assms(2) range by (metis option.distinct(1) rtranclE)
  then show "acyclic (child_rel (lease_issue l t))"
    using assms(1) unfolding rel by (cases "parent_lease l") (simp_all add: lease_inv_def)
next
  fix i k
  assume "tbl_get (lease_issue l t) i = Some k"
  then show "lease_id k = i"
    using assms(1) by (auto simp: lease_issue_def lease_inv_def split: if_splits)
next
  fix i k p
  assume "tbl_get (lease_issue l t) i = Some k \<and> parent_lease k = Some p"
  then have "\<exists>m. tbl_get t p = Some m \<and> expires_at k \<le> expires_at m \<and> (revoked m \<longrightarrow> revoked k)"
    using parent lease_invD [OF assms(1)] by (auto simp: lease_issue_def split: if_splits)
  then show "\<exists>m. tbl_get (lease_issue l t) p = Some m \<and> expires_at k \<le> expires_at m
      \<and> (revoked m \<longrightarrow> revoked k)"
    using assms(2) by (auto simp: lease_issue_def)
qed

lemma delegate_Ok:
  assumes "delegate db new_id delegator parent_id delegatee cs uses expiry budget now = Ok (db', child)"
  obtains parent where "tbl_get (db_leases db) parent_id = Some parent"
    "lease_principal parent = delegator"
    "attenuate parent new_id delegatee cs uses expiry budget now = Ok child"
    "is_self_or_descendant (db_principals db) delegatee delegator = Ok True"
    "db' = delegate_store db delegator parent_id delegatee child now"
  using assms
  by (auto simp: delegate_def delegate_prepare_def lease_get_def
      split: sum.splits bool.splits option.splits if_splits)

lemma lease_inv_delegate:
  assumes "lease_inv (db_leases db)" "tbl_get (db_leases db) new_id = None"
    and "delegate db new_id delegator parent_id delegatee cs uses expiry budget now = Ok (db', child)"
  shows "lease_inv (db_leases db')"
proof -
  obtain parent where p: "tbl_get (db_leases db) parent_id = Some parent"
    "attenuate parent new_id delegatee cs uses expiry budget now = Ok child"
    "db' = delegate_store db delegator parent_id delegatee child now"
    using delegate_Ok [OF assms(3)] by blast
  have "lease_id parent = parent_id"
    using assms(1) p(1) by (simp add: lease_inv_def)
  then show ?thesis
    using p assms(1,2) unfolding p(3) delegate_store_def
    by (auto simp: lease_simps intro!: lease_inv_issue)
qed

lemma reachable_lease_inv: "identity_reachable db \<Longrightarrow> lease_inv (db_leases db)"
proof (induction rule: identity_reachable.induct)
  case init
  show ?case
    by (simp add: lease_inv_def child_rel_def acyclic_def)
next
  case (issue db l)
  then show ?case
    using lease_inv_issue [of "db_leases db" l] by simp
next
  case (revoke db i t ids)
  then have "tbl_get (db_leases db) i \<noteq> None"
    by (auto simp: revoke_cascading_def split: if_splits)
  with revoke obtain ids' where
    "revoke_cascading (db_leases db) i = Some (Ok (revoke_all (below (db_leases db) i) (db_leases db), ids'))"
    using revoke_cascading_ends by (metis lease_inv_def)
  with revoke show ?case
    using lease_inv_revoke [of "db_leases db" i] by simp
qed (auto intro: lease_inv_delegate lease_inv_consume lease_inv_sweep)

text \<open>
  C18. Cascading revocation terminates and is exact: in every reachable store, revoking a stored
  lease returns; afterwards the lease and everything transitively attenuated from it is revoked
  and nothing else has changed; and the returned ids are, without repetition, the leases that
  were live before.
\<close>

theorem revoke_cascading_exact:
  assumes "identity_reachable db" "tbl_get (db_leases db) i \<noteq> None"
  shows "\<exists>t ids. revoke_cascading (db_leases db) i = Some (Ok (t, ids))
    \<and> (\<forall>j. tbl_get t j = map_option
         (\<lambda>l. if (j, i) \<in> (child_rel (db_leases db))\<^sup>* then l\<lparr>revoked := True\<rparr> else l)
         (tbl_get (db_leases db) j))
    \<and> distinct ids
    \<and> set ids = {j. (j, i) \<in> (child_rel (db_leases db))\<^sup>*
        \<and> (\<exists>l. tbl_get (db_leases db) j = Some l \<and> \<not> revoked l)}"
proof -
  let ?t = "db_leases db"
  have inv: "tbl_ok ?t" "acyclic (child_rel ?t)"
    using reachable_lease_inv [OF assms(1)] by (simp_all add: lease_inv_def)
  obtain ids where ids: "revoke_cascading ?t i = Some (Ok (revoke_all (below ?t i) ?t, ids))"
    "distinct ids" "set ids = live_in ?t (below ?t i)"
    using revoke_cascading_ends [OF inv assms(2)] by blast
  have "live_in ?t (below ?t i) = {j. (j, i) \<in> (child_rel ?t)\<^sup>*
        \<and> (\<exists>l. tbl_get ?t j = Some l \<and> \<not> revoked l)}"
    by (auto simp: live_in_def below_def split: option.splits)
  with ids show ?thesis
    by (intro exI [of _ "revoke_all (below ?t i) ?t"] exI [of _ ids])
       (simp add: tbl_get_revoke_all below_def)
qed

definition demo_db :: IdentityDb where
  "demo_db = \<lparr> db_principals = [], db_leases = [(''lease-1'', demo_root)], db_delegations = [] \<rparr>"

lemma demo_db_reachable: "identity_reachable demo_db"
  using identity_reachable.issue [OF identity_reachable.init, of demo_root]
  by (simp add: demo_db_def lease_issue_def tbl_put_def tbl_delete_def demo_root_def)

theorem revoke_cascading_exact_witness:
  "\<exists>t ids. revoke_cascading (db_leases demo_db) ''lease-1'' = Some (Ok (t, ids)) \<and> distinct ids"
proof -
  have "tbl_get (db_leases demo_db) ''lease-1'' \<noteq> None"
    by (simp add: demo_db_def tbl_get_def)
  then show ?thesis
    using revoke_cascading_exact [OF demo_db_reachable] by blast
qed

text \<open>
  No authority survives under a revoked grant: in every state reached by registrations,
  grants, delegations, revocations, uses and sweeps (each run to completion before the next),
  a lease attenuated from a revoked lease, through any number of steps, is revoked, and
  consuming it is refused as revoked.
\<close>

theorem revoked_subtree_dead:
  assumes "identity_reachable db"
    and "tbl_get (db_leases db) a = Some m" "revoked m"
    and "(d, a) \<in> (child_rel (db_leases db))\<^sup>*" "tbl_get (db_leases db) d = Some l"
  shows "revoked l \<and> consume_use (db_leases db) d now = Err (LeaseUnusable d ''revoked'')"
proof -
  have "\<forall>l. tbl_get (db_leases db) d = Some l \<longrightarrow> revoked l"
    using assms(4)
  proof (induction rule: converse_rtrancl_induct)
    case base
    show ?case
      using assms(2,3) by simp
  next
    case (step c p)
    then show ?case
      using lease_invD [OF reachable_lease_inv [OF assms(1)], of c]
      by (fastforce simp: child_rel_def)
  qed
  with assms(5) show ?thesis
    by (simp add: consume_use_def lease_usable_def)
qed

text \<open>A delegation, and a revocation of its parent, in a concrete store.\<close>

definition demo_registry :: registry where
  "demo_registry = [(''pr-a'', demo_agent), (''pr-b'', demo_sub)]"

definition demo_db2 :: IdentityDb where
  "demo_db2 = \<lparr> db_principals = demo_registry, db_leases = [(''lease-1'', demo_root)],
     db_delegations = [] \<rparr>"

abbreviation demo_cs :: "(string \<times> constraint) list" where
  "demo_cs \<equiv> [(''path'', Prefix ''src/lib'')]"

lemma demo_descendant: "is_self_or_descendant demo_registry ''pr-b'' ''pr-a'' = Ok True"
proof -
  have "lineage demo_registry ''pr-b'' = Ok [demo_agent]"
    unfolding lineage_def demo_registry_def
    by (simp add: registry_get_def tbl_get_def lineage_loop.simps demo_sub_def spawn_child_def
        demo_agent_def new_agent_def lineage_bound_def Let_def)
  then show ?thesis
    by (simp add: is_self_or_descendant_def demo_agent_def new_agent_def)
qed

lemma demo_delegate_prepare:
  "delegate_prepare demo_db2 ''lease-2'' ''pr-a'' ''lease-1'' ''pr-b'' demo_cs 2 50 budget_zero 10
     = Ok demo_child"
proof -
  have "registry_exists demo_registry ''pr-a'' = Ok True" "registry_exists demo_registry ''pr-b'' = Ok True"
    by (simp_all add: registry_exists_eq demo_registry_def tbl_get_def)
  moreover have "lease_get (db_leases demo_db2) ''lease-1'' = Ok demo_root"
    by (simp add: lease_get_def demo_db2_def tbl_get_def)
  moreover have "lease_principal demo_root = ''pr-a''"
    by (simp add: demo_root_def)
  ultimately show ?thesis
    by (simp add: delegate_prepare_def demo_descendant demo_attenuate demo_db2_def)
qed

definition demo_db3 :: IdentityDb where
  "demo_db3 = delegate_store demo_db2 ''pr-a'' ''lease-1'' ''pr-b'' demo_child 10"

lemma demo_delegate:
  "delegate demo_db2 ''lease-2'' ''pr-a'' ''lease-1'' ''pr-b'' demo_cs 2 50 budget_zero 10
     = Ok (demo_db3, demo_child)"
  by (simp add: delegate_def demo_delegate_prepare demo_db3_def)

lemma demo_db2_reachable: "identity_reachable demo_db2"
proof -
  have a: "register [] demo_agent = Ok [(''pr-a'', demo_agent)]"
    by (simp add: register_def demo_agent_def new_agent_def)
  have b: "register [(''pr-a'', demo_agent)] demo_sub = Ok demo_registry"
    by (simp add: register_def demo_sub_def demo_agent_def new_agent_def spawn_child_def
        tbl_get_def demo_registry_def)
  note one = identity_reachable.register [OF identity_reachable.init, simplified, OF a]
  note two = identity_reachable.register [OF one, simplified, OF b]
  show ?thesis
    using identity_reachable.issue [OF two, of demo_root]
    by (simp add: demo_db2_def lease_issue_def tbl_put_def tbl_delete_def demo_root_def)
qed

lemma demo_db3_reachable: "identity_reachable demo_db3"
  by (rule identity_reachable.delegate [OF demo_db2_reachable _ demo_delegate])
     (simp add: demo_db2_def tbl_get_def)

lemma demo_db3_leases: "db_leases demo_db3 = [(''lease-1'', demo_root), (''lease-2'', demo_child)]"
  by (simp add: demo_db3_def delegate_store_def demo_db2_def lease_issue_def tbl_put_def
      tbl_delete_def demo_child_def)

lemma demo_revoke3:
  "revoke_cascading (db_leases demo_db3) ''lease-1'' =
     Some (Ok ([(''lease-1'', demo_root\<lparr>revoked := True\<rparr>), (''lease-2'', demo_child\<lparr>revoked := True\<rparr>)],
               [''lease-1'', ''lease-2'']))"
  by (simp add: demo_db3_leases revoke_cascading_def revoke_loop_Cons revoke_loop_Nil revoke_all_def
      child_ids_def live_in_def tbl_get_def demo_root_def demo_child_def)

theorem revoked_subtree_dead_witness:
  "consume_use (db_leases (demo_db3\<lparr>db_leases :=
     [(''lease-1'', demo_root\<lparr>revoked := True\<rparr>), (''lease-2'', demo_child\<lparr>revoked := True\<rparr>)]\<rparr>))
     ''lease-2'' 20 = Err (LeaseUnusable ''lease-2'' ''revoked'')"
proof -
  let ?db = "demo_db3\<lparr>db_leases :=
    [(''lease-1'', demo_root\<lparr>revoked := True\<rparr>), (''lease-2'', demo_child\<lparr>revoked := True\<rparr>)]\<rparr>"
  have r: "identity_reachable ?db"
    by (rule identity_reachable.revoke [OF demo_db3_reachable demo_revoke3])
  have "(''lease-2'', ''lease-1'') \<in> child_rel (db_leases ?db)"
    by (simp add: child_rel_def tbl_get_def demo_child_def)
  then show ?thesis
    using revoked_subtree_dead [OF r, of "''lease-1''" "demo_root\<lparr>revoked := True\<rparr>" "''lease-2''"
        "demo_child\<lparr>revoked := True\<rparr>" 20]
    by (simp add: tbl_get_def r_into_rtrancl)
qed

text \<open>
  A revocation that runs between the two database steps of a delegation misses the child:
  starting from a reachable store, the delegation reads and attenuates the parent lease, the
  cascading revocation of that parent completes, the delegation then stores its child, and the
  child of the revoked lease can be consumed.
\<close>

theorem delegation_escapes_revocation:
  "\<exists>db child t ids db' used.
     identity_reachable db
   \<and> delegate_prepare db ''lease-2'' ''pr-a'' ''lease-1'' ''pr-b'' [(''path'', Prefix ''src/lib'')]
       2 50 budget_zero 10 = Ok child
   \<and> revoke_cascading (db_leases db) ''lease-1'' = Some (Ok (t, ids))
   \<and> db' = delegate_store (db\<lparr>db_leases := t\<rparr>) ''pr-a'' ''lease-1'' ''pr-b'' child 10
   \<and> parent_lease child = Some ''lease-1''
   \<and> map_option revoked (tbl_get (db_leases db') ''lease-1'') = Some True
   \<and> consume_use (db_leases db') ''lease-2'' 20 = Ok used"
proof -
  let ?t = "[(''lease-1'', demo_root\<lparr>revoked := True\<rparr>)]"
  let ?db' = "delegate_store (demo_db2\<lparr>db_leases := ?t\<rparr>) ''pr-a'' ''lease-1'' ''pr-b'' demo_child 10"
  have rev: "revoke_cascading (db_leases demo_db2) ''lease-1'' = Some (Ok (?t, [''lease-1'']))"
    by (simp add: demo_db2_def revoke_cascading_def revoke_loop_Cons revoke_loop_Nil revoke_all_def
        child_ids_def live_in_def tbl_get_def demo_root_def)
  have leases: "db_leases ?db' = [(''lease-1'', demo_root\<lparr>revoked := True\<rparr>), (''lease-2'', demo_child)]"
    by (simp add: delegate_store_def lease_issue_def tbl_put_def tbl_delete_def demo_child_def)
  have "\<exists>used. consume_use (db_leases ?db') ''lease-2'' 20 = Ok used"
    unfolding leases
    by (simp add: consume_use_def lease_usable_def tbl_get_def demo_child_def Let_def)
  moreover have "map_option revoked (tbl_get (db_leases ?db') ''lease-1'') = Some True"
    unfolding leases by (simp add: tbl_get_def)
  moreover have "parent_lease demo_child = Some ''lease-1''"
    by (simp add: demo_child_def)
  ultimately show ?thesis
    using demo_db2_reachable demo_delegate_prepare rev by blast
qed

section \<open>Uses are conserved\<close>

text \<open>
  An interleaving of the store's operations, with the list of leases whose uses were
  successfully consumed.
\<close>

inductive lease_run :: "leases \<Rightarrow> ident list \<Rightarrow> leases \<Rightarrow> bool" for t where
  start: "lease_run t [] t"
| consume: "\<lbrakk> lease_run t used t'; consume_use t' i now = Ok (t'', l) \<rbrakk>
    \<Longrightarrow> lease_run t (used @ [i]) t''"
| refuse: "\<lbrakk> lease_run t used t'; consume_use t' i now = Err e \<rbrakk> \<Longrightarrow> lease_run t used t'"
| revoke: "\<lbrakk> lease_run t used t'; revoke_cascading t' i = Some (Ok (t'', ids)) \<rbrakk>
    \<Longrightarrow> lease_run t used t''"
| sweep: "\<lbrakk> lease_run t used t'; sweep_expired t' now = (t'', ids) \<rbrakk> \<Longrightarrow> lease_run t used t''"
| issue: "\<lbrakk> lease_run t used t'; tbl_get t' (lease_id l) = None \<rbrakk>
    \<Longrightarrow> lease_run t used (lease_issue l t')"

text \<open>Revocation, even on a store whose parent links are arbitrary, only sets \<open>revoked\<close>.\<close>

lemma revoke_loop_rows:
  assumes "revoke_loop t frontier acc = Some r"
  shows "\<exists>S. fst r = revoke_all S t"
proof (rule revoke_loop.raw_induct [where P = "\<lambda>t f a r. \<exists>S. fst r = revoke_all S t", OF _ assms])
  fix loop t frontier acc r
  assume IH: "\<And>t f a r. loop t f a = Some r \<Longrightarrow> \<exists>S. fst r = revoke_all S t"
    and run: "(case frontier of
        [] \<Rightarrow> Some (t, acc)
      | current # rest \<Rightarrow>
          (case tbl_get t current of
             Some l \<Rightarrow>
               loop (tbl_update current (\<lambda>l. l\<lparr>revoked := True\<rparr>) t)
                 (rev (child_ids t current) @ rest)
                 (if revoked l then acc else acc @ [current])
           | None \<Rightarrow> loop t (rev (child_ids t current) @ rest) acc)) = Some r"
  show "\<exists>S. fst r = revoke_all S t"
  proof (cases frontier)
    case Nil
    with run show ?thesis
      by (auto intro: exI [of _ "{}"])
  next
    case (Cons c rest)
    show ?thesis
    proof (cases "tbl_get t c")
      case None
      with Cons run show ?thesis
        using IH by auto
    next
      case (Some l)
      with Cons run obtain S where "fst r = revoke_all S (revoke_all {c} t)"
        using IH unfolding revoke_all_single by fastforce
      then show ?thesis
        unfolding revoke_all_revoke_all by blast
    qed
  qed
qed

lemma revoke_cascading_rows:
  assumes "revoke_cascading t i = Some (Ok (t', ids))"
  obtains S where "t' = revoke_all S t"
proof -
  obtain acc where "revoke_loop t [i] [] = Some (t', acc)"
    using assms by (auto simp: revoke_cascading_def split: if_splits)
  from revoke_loop_rows [OF this] show ?thesis
    using that by auto
qed

lemma consume_use_Ok:
  assumes "consume_use t i now = Ok (t', l')"
  obtains l where "tbl_get t i = Some l" "\<not> revoked l" "remaining_uses l > 0" "expires_at l > now"
    "l' = l\<lparr>remaining_uses := remaining_uses l - 1\<rparr>" "t' = tbl_update i (\<lambda>_. l') t"
  using assms by (auto simp: consume_use_def lease_usable_def Let_def split: option.splits if_splits)

lemma unat_uses_step: "(0 :: u32) < u \<Longrightarrow> Suc (unat (u - 1)) = unat u"
proof -
  assume "0 < u"
  then have "u \<noteq> 0" "0 < unat u"
    by (auto simp: word_less_nat_alt)
  then show ?thesis
    using unat_minus_one [of u] by simp
qed

text \<open>
  C19. A lease's uses are conserved under every interleaving: however uses, refused uses,
  revocations, sweeps and new grants are ordered, the uses that remain plus the successful
  consumptions equal the uses at the start, so no more calls succeed than were granted; and
  from a revoked lease none succeeds.
\<close>

theorem uses_conserved:
  assumes "lease_run t used t'" "tbl_get t i = Some l"
  shows "\<exists>l'. tbl_get t' i = Some l'
    \<and> unat (remaining_uses l') + count_list used i = unat (remaining_uses l)
    \<and> (revoked l \<longrightarrow> revoked l' \<and> count_list used i = 0)"
  using assms
proof (induction rule: lease_run.induct)
  case (consume used t' j now t'' k)
  then obtain l' where l': "tbl_get t' i = Some l'"
    "unat (remaining_uses l') + count_list used i = unat (remaining_uses l)"
    "revoked l \<longrightarrow> revoked l' \<and> count_list used i = 0"
    by blast
  from consume.hyps(2) obtain m where m: "tbl_get t' j = Some m" "\<not> revoked m"
    "remaining_uses m > 0" "t'' = tbl_update j (\<lambda>_. m\<lparr>remaining_uses := remaining_uses m - 1\<rparr>) t'"
    by (rule consume_use_Ok) blast
  show ?case
  proof (cases "i = j")
    case True
    then have "l' = m"
      using l'(1) m(1) by simp
    then show ?thesis
      using True l' m unat_uses_step [OF m(3)] by auto
  next
    case False
    then show ?thesis
      using l' m(4) by auto
  qed
next
  case (revoke used t' j t'' ids)
  then obtain l' where l': "tbl_get t' i = Some l'"
    "unat (remaining_uses l') + count_list used i = unat (remaining_uses l)"
    "revoked l \<longrightarrow> revoked l' \<and> count_list used i = 0"
    by blast
  obtain S where "t'' = revoke_all S t'"
    using revoke.hyps(2) by (rule revoke_cascading_rows)
  with l' show ?case
    by (cases "i \<in> S") (simp_all add: tbl_get_revoke_all)
next
  case (sweep used t' now t'' ids)
  then obtain l' where l': "tbl_get t' i = Some l'"
    "unat (remaining_uses l') + count_list used i = unat (remaining_uses l)"
    "revoked l \<longrightarrow> revoked l' \<and> count_list used i = 0"
    by blast
  then show ?case
    using tbl_get_sweep [OF sweep.hyps(2), of i]
    by (cases "\<not> revoked l' \<and> expires_at l' \<le> now") simp_all
qed (auto simp: lease_issue_def)

theorem uses_conserved_witness:
  "\<exists>t l'. lease_run [(''lease-2'', demo_child)] [''lease-2''] t \<and> tbl_get t ''lease-2'' = Some l'
    \<and> unat (remaining_uses l') + 1 = 2"
proof -
  have c: "consume_use [(''lease-2'', demo_child)] ''lease-2'' 20 =
      Ok ([(''lease-2'', demo_child\<lparr>remaining_uses := 1\<rparr>)], demo_child\<lparr>remaining_uses := 1\<rparr>)"
    by (simp add: consume_use_def lease_usable_def tbl_get_def tbl_update_def demo_child_def Let_def)
  have r: "lease_run [(''lease-2'', demo_child)] ([] @ [''lease-2''])
      [(''lease-2'', demo_child\<lparr>remaining_uses := 1\<rparr>)]"
    by (rule lease_run.consume [OF lease_run.start c])
  show ?thesis
    using uses_conserved [OF r, of "''lease-2''" demo_child] r
    by (auto simp: tbl_get_def demo_child_def)
qed

end
