(* ===== verification/Policy.thy ===== *)
theory Policy
  imports KernelTypes
begin

text \<open>
  The policy crate (kernel/policy): documents with ordered rules and a mutation epoch
  (document.rs), the deterministic engine (engine.rs), the compiler from grants to leases and
  confinements (compiler.rs), and autonomy envelopes (envelope.rs). Generated lease ids are
  arguments. Instant arithmetic is the argument \<open>add_seconds\<close>, which has no value where the
  date library panics, so a panicking evaluation has no value either.
\<close>

section \<open>Documents\<close>

record PrincipalSelector =
  sel_ids :: "ident list"
  sel_kinds :: "PrincipalKind list"
  min_trust :: "TrustLevel option"
  max_trust :: "TrustLevel option"

definition selector_matches :: "PrincipalSelector \<Rightarrow> Principal \<Rightarrow> bool" where
  "selector_matches sel p =
     (if sel_ids sel \<noteq> [] \<and> pr_id p \<notin> set (sel_ids sel) then False
      else if sel_kinds sel \<noteq> [] \<and> pr_kind p \<notin> set (sel_kinds sel) then False
      else if (case min_trust sel of Some m \<Rightarrow> trust p < m | None \<Rightarrow> False) then False
      else if (case max_trust sel of Some m \<Rightarrow> trust p > m | None \<Rightarrow> False) then False
      else True)"

datatype RuleEffect = EffectAllow | EffectDeny | EffectRequireApproval

record PolicyRule =
  rule_id :: string
  rule_principals :: PrincipalSelector
  rule_operations :: "string list"
  rule_effect :: RuleEffect
  rule_constraints :: "(string \<times> constraint) list"
  max_uses :: u32
  ttl_seconds :: u64
  rule_budget :: "ResourceBudget option"
  risk_weight :: u32
  rule_note :: "string option"

definition default_max_uses :: u32 where
  "default_max_uses = 1"

definition default_ttl_seconds :: u64 where
  "default_ttl_seconds = 600"

definition matches_operation :: "PolicyRule \<Rightarrow> string \<Rightarrow> bool" where
  "matches_operation rule op = list_ex (\<lambda>g. glob_match g op) (rule_operations rule)"

record PathPolicy =
  readable_prefixes :: "string list"
  writable_prefixes :: "string list"

record ToolPolicy =
  allowed_servers :: "string list"
  allowed_tools :: "string list"

record RequestableScopeSpec =
  spec_operation :: string
  spec_constraints :: json
  spec_requires_human :: bool

record EscalationPolicy =
  allow_requests :: bool
  requestable :: "RequestableScopeSpec list"

record PolicyDocument =
  policy_epoch :: u64
  doc_rules :: "PolicyRule list"
  doc_paths :: PathPolicy
  egress_domains :: "string list"
  doc_tools :: ToolPolicy
  escalation :: EscalationPolicy

datatype PolicyError =
    InvalidYaml string
  | InvalidDocument string
  | GrantRejected string
  | EnvelopeRejected string
  | PolicyIo string
  | PolicySerde string

type_synonym 'a PolicyResult = "(PolicyError, 'a) outcome"

fun policy_to_kernel_error :: "(PolicyError \<Rightarrow> string) \<Rightarrow> PolicyError \<Rightarrow> KernelError" where
  "policy_to_kernel_error shown (PolicyIo e) = Io e"
| "policy_to_kernel_error shown (PolicySerde e) = Serde e"
| "policy_to_kernel_error shown other = OtherError (shown other)"

fun validate_rules :: "string list \<Rightarrow> PolicyRule list \<Rightarrow> unit PolicyResult" where
  "validate_rules seen [] = Ok ()"
| "validate_rules seen (r # rs) =
     (if rule_operations r = [] then
        Err (InvalidDocument (''rule `'' @ rule_id r @ ''` has no operation globs''))
      else if rule_id r \<in> set seen then
        Err (InvalidDocument (''duplicate rule id `'' @ rule_id r @ ''`''))
      else validate_rules (rule_id r # seen) rs)"

definition validate_document :: "PolicyDocument \<Rightarrow> unit PolicyResult" where
  "validate_document doc = validate_rules [] (doc_rules doc)"

definition bump_epoch :: "PolicyDocument \<Rightarrow> PolicyDocument" where
  "bump_epoch doc = doc\<lparr>policy_epoch := policy_epoch doc + 1\<rparr>"

definition add_rule :: "PolicyDocument \<Rightarrow> PolicyRule \<Rightarrow> PolicyDocument PolicyResult" where
  "add_rule doc rule =
     (if list_ex (\<lambda>r. rule_id r = rule_id rule) (doc_rules doc) then
        Err (InvalidDocument (''duplicate rule id `'' @ rule_id rule @ ''`''))
      else Ok (bump_epoch (doc\<lparr>doc_rules := doc_rules doc @ [rule]\<rparr>)))"

definition remove_rule :: "PolicyDocument \<Rightarrow> string \<Rightarrow> PolicyDocument \<times> bool" where
  "remove_rule doc i =
     (let kept = filter (\<lambda>r. rule_id r \<noteq> i) (doc_rules doc);
          removed = (length kept \<noteq> length (doc_rules doc));
          doc' = doc\<lparr>doc_rules := kept\<rparr>
      in (if removed then bump_epoch doc' else doc', removed))"

definition set_paths :: "PolicyDocument \<Rightarrow> PathPolicy \<Rightarrow> PolicyDocument" where
  "set_paths doc paths = bump_epoch (doc\<lparr>doc_paths := paths\<rparr>)"

definition set_egress_domains :: "PolicyDocument \<Rightarrow> string list \<Rightarrow> PolicyDocument" where
  "set_egress_domains doc domains = bump_epoch (doc\<lparr>egress_domains := domains\<rparr>)"

definition set_escalation :: "PolicyDocument \<Rightarrow> EscalationPolicy \<Rightarrow> PolicyDocument" where
  "set_escalation doc e = bump_epoch (doc\<lparr>escalation := e\<rparr>)"

definition egress_allows :: "PolicyDocument \<Rightarrow> string \<Rightarrow> bool" where
  "egress_allows doc domain = list_ex (\<lambda>g. glob_match g domain) (egress_domains doc)"

section \<open>The compiler\<close>

datatype SyscallProfile = StandardProfile | RestrictedProfile | NetworklessProfile

record CompiledConfinement =
  cc_writable_prefixes :: "string list"
  cc_readable_prefixes :: "string list"
  cc_egress_domains :: "string list"
  env_scrub :: bool
  syscall_profile :: SyscallProfile
  cc_risk_weight :: u32

record CompiledGrant =
  grant_lease :: CapabilityLease
  confinement :: CompiledConfinement

definition compile_confinement :: "PolicyDocument \<Rightarrow> Principal \<Rightarrow> CompiledConfinement" where
  "compile_confinement doc p =
     (let egress = (if trust p \<le> Quarantined then [] else egress_domains doc);
          profile = (if egress = [] then NetworklessProfile
                     else if trust p < Standard then RestrictedProfile
                     else StandardProfile)
      in \<lparr> cc_writable_prefixes = writable_prefixes (doc_paths doc),
           cc_readable_prefixes = readable_prefixes (doc_paths doc),
           cc_egress_domains = egress,
           env_scrub = (trust p < Elevated),
           syscall_profile = profile,
           cc_risk_weight = 0 \<rparr>)"

text \<open>\<open>IndexMap::insert\<close>: an existing key keeps its position, a new one is appended.\<close>

fun index_insert :: "string \<Rightarrow> 'a \<Rightarrow> (string \<times> 'a) list \<Rightarrow> (string \<times> 'a) list" where
  "index_insert k v [] = [(k, v)]"
| "index_insert k v ((k', v') # kvs) =
     (if k' = k then (k, v) # kvs else (k', v') # index_insert k v kvs)"

fun merge_constraints ::
  "(string \<times> constraint) list \<Rightarrow> (string \<times> constraint) list \<Rightarrow> (string \<times> constraint) list
    \<Rightarrow> (string \<times> constraint) list PolicyResult" where
  "merge_constraints rule_cs acc [] = Ok acc"
| "merge_constraints rule_cs acc ((param, c) # extra) =
     (case map_of rule_cs param of
        Some parent \<Rightarrow>
          if \<not> narrows c parent then
            Err (GrantRejected (''extra constraint on `'' @ param @ ''` widens the rule constraint''))
          else merge_constraints rule_cs (index_insert param c acc) extra
      | None \<Rightarrow> merge_constraints rule_cs (index_insert param c acc) extra)"

definition ttl_as_i64 :: "u64 \<Rightarrow> int" where
  "ttl_as_i64 ttl = (if unat ttl < 2 ^ 63 then int (unat ttl) else 2 ^ 63 - 1)"

definition grant_budget :: "PolicyRule \<Rightarrow> ResourceBudget" where
  "grant_budget rule =
     (let b = (case rule_budget rule of Some b \<Rightarrow> b | None \<Rightarrow> step_default)
      in b\<lparr>risk_units := max (risk_units b) (risk_weight rule)\<rparr>)"

definition compile_grant ::
  "(instant \<Rightarrow> int \<Rightarrow> instant option) \<Rightarrow> ident \<Rightarrow> PolicyDocument \<Rightarrow> Principal \<Rightarrow> string \<Rightarrow> PolicyRule
    \<Rightarrow> (string \<times> constraint) list \<Rightarrow> ident option \<Rightarrow> instant
    \<Rightarrow> CompiledGrant PolicyResult option" where
  "compile_grant add_seconds new_id doc p op rule extra branch now =
     (if rule_effect rule = EffectDeny then
        Some (Err (GrantRejected (''rule `'' @ rule_id rule
          @ ''` is a deny rule and cannot be compiled into a grant'')))
      else if \<not> matches_operation rule op then
        Some (Err (GrantRejected (''rule `'' @ rule_id rule
          @ ''` does not cover operation `'' @ op @ ''`'')))
      else case merge_constraints (rule_constraints rule) (rule_constraints rule) extra of
        Err e \<Rightarrow> Some (Err e)
      | Ok cs \<Rightarrow>
          (case add_seconds now (ttl_as_i64 (ttl_seconds rule)) of
             None \<Rightarrow> None
           | Some expiry \<Rightarrow>
               Some (Ok \<lparr>
                 grant_lease = \<lparr>
                   lease_id = new_id, lease_principal = pr_id p, lease_operation = op,
                   lease_constraints = cs, remaining_uses = max_uses rule, issued_at = now,
                   expires_at = expiry, bound_branch = branch, lease_budget = grant_budget rule,
                   parent_lease = None, lease_preconditions = [], revoked = False \<rparr>,
                 confinement = (compile_confinement doc p)\<lparr>cc_risk_weight := risk_weight rule\<rparr> \<rparr>)))"

section \<open>The engine\<close>

datatype Decision =
    Allow string CompiledGrant
  | RequireApproval string string json u64
  | Deny Denial

fun add_alternatives :: "string \<Rightarrow> string list \<Rightarrow> string list \<Rightarrow> string list" where
  "add_alternatives attempted out [] = out"
| "add_alternatives attempted out (g # gs) =
     add_alternatives attempted
       (if g \<noteq> attempted \<and> g \<notin> set out then out @ [g] else out) gs"

fun alternatives_loop :: "Principal \<Rightarrow> string \<Rightarrow> string list \<Rightarrow> PolicyRule list \<Rightarrow> string list" where
  "alternatives_loop p attempted out [] = out"
| "alternatives_loop p attempted out (r # rs) =
     (if rule_effect r \<noteq> EffectAllow \<or> \<not> selector_matches (rule_principals r) p
      then alternatives_loop p attempted out rs
      else alternatives_loop p attempted (add_alternatives attempted out (rule_operations r)) rs)"

definition engine_safe_alternatives :: "PolicyDocument \<Rightarrow> Principal \<Rightarrow> string \<Rightarrow> string list" where
  "engine_safe_alternatives doc p attempted = alternatives_loop p attempted [] (doc_rules doc)"

definition to_scope :: "RequestableScopeSpec \<Rightarrow> RequestableScope" where
  "to_scope spec = \<lparr> scope_operation = spec_operation spec,
     scope_constraints = spec_constraints spec, requires_human = spec_requires_human spec \<rparr>"

definition engine_requestable_scopes :: "PolicyDocument \<Rightarrow> string \<Rightarrow> RequestableScope list" where
  "engine_requestable_scopes doc attempted =
     (if \<not> allow_requests (escalation doc) then []
      else
        let specs = requestable (escalation doc);
            matching = map to_scope (filter (\<lambda>s. glob_match (spec_operation s) attempted
                                                \<or> glob_match attempted (spec_operation s)) specs)
        in if matching = [] then map to_scope specs else matching)"

definition engine_deny ::
  "PolicyDocument \<Rightarrow> Principal \<Rightarrow> string \<Rightarrow> DenialCode \<Rightarrow> string \<Rightarrow> Decision" where
  "engine_deny doc p op code reason =
     Deny (redact_for
       \<lparr> denial_code = code, attempted_operation = op, denial_reason = reason,
         safe_alternatives = engine_safe_alternatives doc p op,
         requestable_scopes = engine_requestable_scopes doc op,
         escalation_allowed = allow_requests (escalation doc) \<rparr> (trust p))"

text \<open>
  The scan of the rules in document order. The JSON form of a rule's constraints, shown to an
  approver, is the argument \<open>constraints_value\<close>.
\<close>

fun evaluate_rules ::
  "(instant \<Rightarrow> int \<Rightarrow> instant option) \<Rightarrow> ((string \<times> constraint) list \<Rightarrow> json) \<Rightarrow> ident
    \<Rightarrow> PolicyDocument \<Rightarrow> Principal \<Rightarrow> string \<Rightarrow> json \<Rightarrow> ident option \<Rightarrow> instant \<Rightarrow> PolicyRule list
    \<Rightarrow> Decision option" where
  "evaluate_rules add_seconds constraints_value new_id doc p op params branch now [] =
     Some (engine_deny doc p op CapabilityDenied
       ''no policy rule grants this operation to this principal'')"
| "evaluate_rules add_seconds constraints_value new_id doc p op params branch now (rule # rules) =
     (if \<not> selector_matches (rule_principals rule) p \<or> \<not> matches_operation rule op
      then evaluate_rules add_seconds constraints_value new_id doc p op params branch now rules
      else case rule_effect rule of
        EffectDeny \<Rightarrow>
          Some (engine_deny doc p op PolicyForbidden
            ''this operation is explicitly forbidden for this principal'')
      | EffectRequireApproval \<Rightarrow>
          Some (RequireApproval (rule_id rule) op (constraints_value (rule_constraints rule))
            (policy_epoch doc))
      | EffectAllow \<Rightarrow>
          (case violated_parameter (rule_constraints rule) params of
             Some param \<Rightarrow>
               Some (engine_deny doc p op ConstraintViolation
                 (''parameter `'' @ param @ ''` violates the constraint on this operation''))
           | None \<Rightarrow>
               (case compile_grant add_seconds new_id doc p op rule [] branch now of
                  None \<Rightarrow> None
                | Some (Ok grant) \<Rightarrow> Some (Allow (rule_id rule) grant)
                | Some (Err _) \<Rightarrow>
                    Some (engine_deny doc p op PolicyForbidden
                      ''the matching grant could not be compiled''))))"

definition evaluate ::
  "(instant \<Rightarrow> int \<Rightarrow> instant option) \<Rightarrow> ((string \<times> constraint) list \<Rightarrow> json) \<Rightarrow> ident
    \<Rightarrow> PolicyDocument \<Rightarrow> Principal \<Rightarrow> string \<Rightarrow> json \<Rightarrow> ident option \<Rightarrow> instant
    \<Rightarrow> Decision option" where
  "evaluate add_seconds constraints_value new_id doc p op params branch now =
     evaluate_rules add_seconds constraints_value new_id doc p op params branch now (doc_rules doc)"

section \<open>Autonomy envelopes\<close>

record EnvelopeGrant =
  eg_operation :: string
  eg_constraints :: "(string \<times> constraint) list"
  eg_max_uses :: u32
  eg_ttl_seconds :: "u64 option"
  eg_budget :: "ResourceBudget option"

record AutonomyEnvelope =
  env_name :: string
  env_allow :: "EnvelopeGrant list"
  env_forbid :: "string list"
  env_ttl_seconds :: u64
  env_budget :: "ResourceBudget option"

definition default_envelope_ttl :: u64 where
  "default_envelope_ttl = 3600"

fun validate_grants :: "string list \<Rightarrow> EnvelopeGrant list \<Rightarrow> unit PolicyResult" where
  "validate_grants forbid [] = Ok ()"
| "validate_grants forbid (g # gs) =
     (if CHR ''*'' \<in> set (eg_operation g) then
        Err (EnvelopeRejected (''allow entry `'' @ eg_operation g
          @ ''` uses a glob; envelopes grant concrete operations''))
      else case find (\<lambda>f. glob_match f (eg_operation g)) forbid of
        Some f \<Rightarrow> Err (EnvelopeRejected (''allow entry `'' @ eg_operation g
          @ ''` collides with forbid pattern `'' @ f @ ''`''))
      | None \<Rightarrow> validate_grants forbid gs)"

definition validate_envelope :: "AutonomyEnvelope \<Rightarrow> unit PolicyResult" where
  "validate_envelope env =
     (if env_allow env = [] then Err (EnvelopeRejected ''envelope allows nothing'')
      else validate_grants (env_forbid env) (env_allow env))"

text \<open>The generated ids of the leases are the stream \<open>new_ids\<close>, by position.\<close>

fun envelope_loop ::
  "(instant \<Rightarrow> int \<Rightarrow> instant option) \<Rightarrow> (nat \<Rightarrow> ident) \<Rightarrow> AutonomyEnvelope \<Rightarrow> ident \<Rightarrow> instant \<Rightarrow> nat
    \<Rightarrow> EnvelopeGrant list \<Rightarrow> CapabilityLease list option" where
  "envelope_loop add_seconds new_ids env who now k [] = Some []"
| "envelope_loop add_seconds new_ids env who now k (g # gs) =
     (let ttl = (case eg_ttl_seconds g of Some t \<Rightarrow> t | None \<Rightarrow> env_ttl_seconds env);
          default_budget = (case env_budget env of Some b \<Rightarrow> b | None \<Rightarrow> step_default)
      in case add_seconds now (ttl_as_i64 ttl) of
           None \<Rightarrow> None
         | Some expiry \<Rightarrow>
             map_option ((#) \<lparr>
               lease_id = new_ids k, lease_principal = who, lease_operation = eg_operation g,
               lease_constraints = eg_constraints g, remaining_uses = eg_max_uses g,
               issued_at = now, expires_at = expiry, bound_branch = None,
               lease_budget = (case eg_budget g of Some b \<Rightarrow> b | None \<Rightarrow> default_budget),
               parent_lease = None, lease_preconditions = [], revoked = False \<rparr>)
             (envelope_loop add_seconds new_ids env who now (k + 1) gs))"

definition into_leases ::
  "(instant \<Rightarrow> int \<Rightarrow> instant option) \<Rightarrow> (nat \<Rightarrow> ident) \<Rightarrow> AutonomyEnvelope \<Rightarrow> ident \<Rightarrow> instant
    \<Rightarrow> CapabilityLease list PolicyResult option" where
  "into_leases add_seconds new_ids env who now =
     (case validate_envelope env of
        Err e \<Rightarrow> Some (Err e)
      | Ok _ \<Rightarrow> map_option Ok (envelope_loop add_seconds new_ids env who now 0 (env_allow env)))"

section \<open>Evaluation\<close>

definition rule_applies :: "PolicyRule \<Rightarrow> Principal \<Rightarrow> string \<Rightarrow> bool" where
  "rule_applies rule p op \<longleftrightarrow> selector_matches (rule_principals rule) p \<and> matches_operation rule op"

text \<open>What the deciding rule, if any, prescribes.\<close>

definition decide_by ::
  "(instant \<Rightarrow> int \<Rightarrow> instant option) \<Rightarrow> ((string \<times> constraint) list \<Rightarrow> json) \<Rightarrow> ident
    \<Rightarrow> PolicyDocument \<Rightarrow> Principal \<Rightarrow> string \<Rightarrow> json \<Rightarrow> ident option \<Rightarrow> instant
    \<Rightarrow> PolicyRule option \<Rightarrow> Decision option" where
  "decide_by add_seconds constraints_value new_id doc p op params branch now r =
     evaluate_rules add_seconds constraints_value new_id doc p op params branch now
       (case r of Some rule \<Rightarrow> [rule] | None \<Rightarrow> [])"

lemma evaluate_first_match:
  "evaluate add_seconds cv new_id doc p op params branch now =
     decide_by add_seconds cv new_id doc p op params branch now
       (find (\<lambda>r. rule_applies r p op) (doc_rules doc))"
proof -
  have "evaluate_rules add_seconds cv new_id doc p op params branch now rules =
      decide_by add_seconds cv new_id doc p op params branch now
        (find (\<lambda>r. rule_applies r p op) rules)" for rules
  proof (induction rules)
    case (Cons r rs)
    show ?case
    proof (cases "rule_applies r p op")
      case True
      then show ?thesis
        by (simp add: decide_by_def rule_applies_def)
    next
      case False
      then have "evaluate_rules add_seconds cv new_id doc p op params branch now (r # rs)
          = evaluate_rules add_seconds cv new_id doc p op params branch now rs"
        by (simp add: rule_applies_def)
      with False Cons.IH show ?thesis
        by simp
    qed
  qed (simp add: decide_by_def)
  then show ?thesis
    by (simp add: evaluate_def)
qed

lemma compile_grant_plain:
  assumes "rule_effect rule \<noteq> EffectDeny" "matches_operation rule op"
  shows "compile_grant add_seconds new_id doc p op rule [] branch now =
    map_option (\<lambda>expiry. Ok \<lparr>
        grant_lease = \<lparr> lease_id = new_id, lease_principal = pr_id p, lease_operation = op,
          lease_constraints = rule_constraints rule, remaining_uses = max_uses rule,
          issued_at = now, expires_at = expiry, bound_branch = branch,
          lease_budget = grant_budget rule, parent_lease = None, lease_preconditions = [],
          revoked = False \<rparr>,
        confinement = (compile_confinement doc p)\<lparr>cc_risk_weight := risk_weight rule\<rparr> \<rparr>)
      (add_seconds now (ttl_as_i64 (ttl_seconds rule)))"
  using assms by (simp add: compile_grant_def split: option.split)

lemma find_applies:
  "find (\<lambda>r. rule_applies r p op) rules = Some rule \<Longrightarrow>
     selector_matches (rule_principals rule) p \<and> matches_operation rule op"
  by (drule find_SomeD) (simp add: rule_applies_def)

lemma evaluate_Allow:
  "evaluate add_seconds cv new_id doc p op params branch now = Some (Allow rid grant) \<longleftrightarrow>
     (\<exists>rule expiry. find (\<lambda>r. rule_applies r p op) (doc_rules doc) = Some rule
        \<and> rule_effect rule = EffectAllow \<and> rid = rule_id rule
        \<and> violated_parameter (rule_constraints rule) params = None
        \<and> add_seconds now (ttl_as_i64 (ttl_seconds rule)) = Some expiry
        \<and> compile_grant add_seconds new_id doc p op rule [] branch now = Some (Ok grant))"
proof (cases "find (\<lambda>r. rule_applies r p op) (doc_rules doc)")
  case None
  then show ?thesis
    unfolding evaluate_first_match by (simp add: decide_by_def engine_deny_def)
next
  case (Some rule)
  then have applies: "selector_matches (rule_principals rule) p" "matches_operation rule op"
    using find_applies by blast+
  with Some show ?thesis
    unfolding evaluate_first_match
    by (cases "rule_effect rule"; cases "add_seconds now (ttl_as_i64 (ttl_seconds rule))")
       (auto simp: decide_by_def engine_deny_def compile_grant_plain split: option.splits)
qed

text \<open>
  C34. A request is granted exactly when the first rule that applies to the principal and the
  operation is an allow rule whose constraints all admit the parameters, and the lease that
  evaluation compiles authorizes this very request at this instant (given that the rule grants
  a use and its expiry lies in the future). No later rule can override an earlier one.
\<close>

theorem evaluate_allows_iff:
  "((\<exists>rid grant. evaluate add_seconds cv new_id doc p op params branch now
        = Some (Allow rid grant)) \<longleftrightarrow>
      (\<exists>pre rule post. doc_rules doc = pre @ rule # post
         \<and> (\<forall>r \<in> set pre. \<not> rule_applies r p op) \<and> rule_applies rule p op
         \<and> rule_effect rule = EffectAllow
         \<and> (\<forall>(k, c) \<in> set (rule_constraints rule). allows c (json_get params k))
         \<and> add_seconds now (ttl_as_i64 (ttl_seconds rule)) \<noteq> None))
   \<and> (\<forall>rid grant. evaluate add_seconds cv new_id doc p op params branch now
        = Some (Allow rid grant)
      \<and> remaining_uses (grant_lease grant) \<noteq> 0 \<and> now < expires_at (grant_lease grant)
      \<longrightarrow> lease_check (grant_lease grant) (pr_id p) op params branch now = Ok ())"
proof (intro conjI allI impI)
  show "(\<exists>rid grant. evaluate add_seconds cv new_id doc p op params branch now
        = Some (Allow rid grant)) \<longleftrightarrow>
      (\<exists>pre rule post. doc_rules doc = pre @ rule # post
         \<and> (\<forall>r \<in> set pre. \<not> rule_applies r p op) \<and> rule_applies rule p op
         \<and> rule_effect rule = EffectAllow
         \<and> (\<forall>(k, c) \<in> set (rule_constraints rule). allows c (json_get params k))
         \<and> add_seconds now (ttl_as_i64 (ttl_seconds rule)) \<noteq> None)" (is "?L \<longleftrightarrow> ?R")
  proof -
    have "?L \<longleftrightarrow> (\<exists>rule. find (\<lambda>r. rule_applies r p op) (doc_rules doc) = Some rule
        \<and> rule_effect rule = EffectAllow
        \<and> violated_parameter (rule_constraints rule) params = None
        \<and> add_seconds now (ttl_as_i64 (ttl_seconds rule)) \<noteq> None)"
      unfolding evaluate_Allow by (fastforce simp: compile_grant_plain dest: find_applies)
    then show ?thesis
      unfolding find_split violated_parameter_None by blast
  qed
next
  fix rid grant
  assume a: "evaluate add_seconds cv new_id doc p op params branch now = Some (Allow rid grant)
      \<and> remaining_uses (grant_lease grant) \<noteq> 0 \<and> now < expires_at (grant_lease grant)"
  then obtain rule expiry where "find (\<lambda>r. rule_applies r p op) (doc_rules doc) = Some rule"
    "violated_parameter (rule_constraints rule) params = None" "rule_effect rule = EffectAllow"
    "compile_grant add_seconds new_id doc p op rule [] branch now = Some (Ok grant)"
    unfolding evaluate_Allow by blast
  with a show "lease_check (grant_lease grant) (pr_id p) op params branch now = Ok ()"
    unfolding lease_check_Ok violated_parameter_None [symmetric]
    by (auto simp: compile_grant_plain dest!: find_applies)
qed

definition demo_rule :: PolicyRule where
  "demo_rule = \<lparr> rule_id = ''r1'',
     rule_principals = \<lparr> sel_ids = [], sel_kinds = [], min_trust = None, max_trust = None \<rparr>,
     rule_operations = [''fs.*''], rule_effect = EffectAllow,
     rule_constraints = [(''path'', Prefix ''src/'')], max_uses = 3, ttl_seconds = 600,
     rule_budget = None, risk_weight = 2, rule_note = None \<rparr>"

definition demo_doc :: PolicyDocument where
  "demo_doc = \<lparr> policy_epoch = 1, doc_rules = [demo_rule],
     doc_paths = \<lparr> readable_prefixes = [], writable_prefixes = [''src''] \<rparr>,
     egress_domains = [], doc_tools = \<lparr> allowed_servers = [], allowed_tools = [] \<rparr>,
     escalation = \<lparr> allow_requests = False, requestable = [] \<rparr> \<rparr>"

abbreviation demo_params :: json where
  "demo_params \<equiv> JObj [(''path'', JStr ''src/x'')]"

definition demo_add_seconds :: "instant \<Rightarrow> int \<Rightarrow> instant option" where
  "demo_add_seconds t s = Some (t + s * 1000000000)"

lemma demo_rule_applies: "rule_applies demo_rule (new_agent ''pr-a'' ''a'') ''fs.write''"
  by (simp add: rule_applies_def selector_matches_def matches_operation_def demo_rule_def
      glob_match_def)

theorem evaluate_allows_iff_witness:
  "\<exists>rid grant. evaluate demo_add_seconds (\<lambda>_. JNull) ''lease-9'' demo_doc (new_agent ''pr-a'' ''a'')
     ''fs.write'' demo_params None 5 = Some (Allow rid grant)
   \<and> lease_check (grant_lease grant) ''pr-a'' ''fs.write'' demo_params None 5 = Ok ()"
proof -
  note holds = evaluate_allows_iff [of demo_add_seconds "\<lambda>_. JNull" "''lease-9''" demo_doc
      "new_agent ''pr-a'' ''a''" "''fs.write''" demo_params None 5]
  have "doc_rules demo_doc = [] @ demo_rule # []"
    "\<forall>(k, c) \<in> set (rule_constraints demo_rule). allows c (json_get demo_params k)"
    "rule_effect demo_rule = EffectAllow"
    by (simp_all add: demo_doc_def demo_rule_def)
  then obtain rid grant where g: "evaluate demo_add_seconds (\<lambda>_. JNull) ''lease-9'' demo_doc
      (new_agent ''pr-a'' ''a'') ''fs.write'' demo_params None 5 = Some (Allow rid grant)"
    using holds demo_rule_applies by (fastforce simp: demo_add_seconds_def)
  then have "grant_lease grant = \<lparr> lease_id = ''lease-9'', lease_principal = ''pr-a'',
      lease_operation = ''fs.write'', lease_constraints = rule_constraints demo_rule,
      remaining_uses = 3, issued_at = 5, expires_at = 5 + 600000000000, bound_branch = None,
      lease_budget = grant_budget demo_rule, parent_lease = None, lease_preconditions = [],
      revoked = False \<rparr>"
    unfolding evaluate_Allow
    using demo_rule_applies
    by (auto simp: demo_doc_def compile_grant_plain rule_applies_def demo_add_seconds_def
        new_agent_def demo_rule_def ttl_as_i64_def)
  then show ?thesis
    using holds g by (auto simp: new_agent_def)
qed

text \<open>
  Default deny: a request that no rule covers is denied, with code \<open>CapabilityDenied\<close>;
  and for a principal below \<open>Limited\<close> the denial carries no scopes and no escalation.
\<close>

theorem default_deny:
  assumes "\<forall>r \<in> set (doc_rules doc). \<not> rule_applies r p op"
  shows "\<exists>d. evaluate add_seconds cv new_id doc p op params branch now = Some (Deny d)
    \<and> denial_code d = CapabilityDenied \<and> attempted_operation d = op
    \<and> (trust p < Limited \<longrightarrow> requestable_scopes d = [] \<and> \<not> escalation_allowed d)"
proof -
  have "find (\<lambda>r. rule_applies r p op) (doc_rules doc) = None"
    using assms by (auto simp: find_None_iff)
  then show ?thesis
    unfolding evaluate_first_match by (auto simp: decide_by_def engine_deny_def redact_for_def)
qed

theorem default_deny_witness:
  "\<exists>d. evaluate demo_add_seconds (\<lambda>_. JNull) ''lease-9'' (demo_doc\<lparr>doc_rules := []\<rparr>)
       (new_agent ''pr-a'' ''a'') ''fs.write'' demo_params None 5 = Some (Deny d)
     \<and> denial_code d = CapabilityDenied"
  using default_deny [of "demo_doc\<lparr>doc_rules := []\<rparr>" "new_agent ''pr-a'' ''a''" "''fs.write''"
      demo_add_seconds "\<lambda>_. JNull" "''lease-9''" demo_params None 5]
  by auto

section \<open>The policy epoch\<close>

datatype doc_op =
    AddRule PolicyRule
  | RemoveRule string
  | SetPaths PathPolicy
  | SetEgressDomains "string list"
  | SetEscalation EscalationPolicy

fun doc_apply :: "doc_op \<Rightarrow> PolicyDocument \<Rightarrow> PolicyDocument" where
  "doc_apply (AddRule r) doc = (case add_rule doc r of Ok doc' \<Rightarrow> doc' | Err _ \<Rightarrow> doc)"
| "doc_apply (RemoveRule i) doc = fst (remove_rule doc i)"
| "doc_apply (SetPaths ps) doc = set_paths doc ps"
| "doc_apply (SetEgressDomains ds) doc = set_egress_domains doc ds"
| "doc_apply (SetEscalation e) doc = set_escalation doc e"

lemma doc_apply_epoch:
  "doc_apply op doc = doc \<or> policy_epoch (doc_apply op doc) = policy_epoch doc + 1"
proof (cases op)
  case (RemoveRule i)
  have "length (filter (\<lambda>r. rule_id r \<noteq> i) (doc_rules doc)) = length (doc_rules doc)
      \<Longrightarrow> filter (\<lambda>r. rule_id r \<noteq> i) (doc_rules doc) = doc_rules doc"
    by (metis filter_True length_filter_less less_irrefl)
  with RemoveRule show ?thesis
    by (simp add: remove_rule_def Let_def bump_epoch_def)
qed (simp_all add: add_rule_def set_paths_def set_egress_domains_def set_escalation_def bump_epoch_def)

lemma doc_run_epoch:
  "\<exists>n \<le> length ops. policy_epoch (fold doc_apply ops doc) = policy_epoch doc + of_nat n
     \<and> (n = 0 \<longrightarrow> fold doc_apply ops doc = doc)"
proof (induction ops arbitrary: doc)
  case (Cons op ops)
  obtain n where n: "n \<le> length ops"
    "policy_epoch (fold doc_apply ops (doc_apply op doc)) = policy_epoch (doc_apply op doc) + of_nat n"
    "n = 0 \<longrightarrow> fold doc_apply ops (doc_apply op doc) = doc_apply op doc"
    using Cons.IH [of "doc_apply op doc"] by blast
  show ?case
  proof (cases "doc_apply op doc = doc")
    case True
    with n show ?thesis
      by (intro exI [of _ n]) auto
  next
    case False
    then have "policy_epoch (doc_apply op doc) = policy_epoch doc + 1"
      using doc_apply_epoch by blast
    with n show ?thesis
      by (intro exI [of _ "Suc n"]) simp
  qed
qed simp

text \<open>
  Any policy change shows in the epoch: after fewer than \<open>2 ^ 64\<close> mutating calls, an
  unchanged epoch means an unchanged document, so an approval pinned to an epoch cannot be used
  under a different policy.
\<close>

theorem epoch_pins_document:
  assumes "length ops < 2 ^ 64"
    and "policy_epoch (fold doc_apply ops doc) = policy_epoch doc"
  shows "fold doc_apply ops doc = doc"
proof -
  obtain n where n: "n \<le> length ops"
    "policy_epoch (fold doc_apply ops doc) = policy_epoch doc + of_nat n"
    "n = 0 \<longrightarrow> fold doc_apply ops doc = doc"
    using doc_run_epoch by blast
  have "(of_nat n :: u64) = 0"
    using n(2) assms(2) by simp
  moreover have "n < 2 ^ 64"
    using n(1) assms(1) by linarith
  ultimately have "n = 0"
    by (cases "n = 0") (auto simp: word_of_nat_eq_0_iff dest: dvd_imp_le)
  with n(3) show ?thesis
    by blast
qed

theorem epoch_pins_document_witness:
  "fold doc_apply [RemoveRule ''absent''] demo_doc = demo_doc"
  by (rule epoch_pins_document)
     (simp_all add: remove_rule_def demo_doc_def demo_rule_def)

section \<open>Grants, confinements and envelopes\<close>

lemma map_of_index_insert: "map_of (index_insert k v kvs) = (map_of kvs)(k \<mapsto> v)"
  by (induction kvs) (auto simp: fun_upd_twist)

lemma merge_constraints_narrow:
  assumes "merge_constraints rcs acc extra = Ok cs"
    and "\<And>k pc. map_of rcs k = Some pc \<Longrightarrow> \<exists>c. map_of acc k = Some c \<and> (c = pc \<or> narrows c pc)"
  shows "map_of rcs k = Some pc \<Longrightarrow> \<exists>c. map_of cs k = Some c \<and> (c = pc \<or> narrows c pc)"
  using assms
proof (induction rcs acc extra arbitrary: pc k rule: merge_constraints.induct)
  case (2 rcs acc param c extra)
  have ok: "merge_constraints rcs (index_insert param c acc) extra = Ok cs"
    and nar: "\<And>parent. map_of rcs param = Some parent \<Longrightarrow> narrows c parent"
    using 2(4) by (auto split: option.splits if_splits)
  have "\<exists>c'. map_of (index_insert param c acc) k = Some c' \<and> (c' = pc \<or> narrows c' pc)"
    if "map_of rcs k = Some pc" for k pc
    using that 2(5) [OF that] nar by (auto simp: map_of_index_insert)
  with 2 ok nar show ?case
    by (cases "map_of rcs param") auto
qed auto

text \<open>
  A compiled grant stays inside its rule: it exists only for a rule that is not a deny rule
  and covers the operation, and its lease carries, for every constrained parameter of the rule,
  the rule's constraint or one accepted as narrower; the lease is bound to the requesting
  principal, the operation and the branch, with the rule's number of uses.
\<close>

theorem compile_grant_inside_rule:
  assumes "compile_grant add_seconds new_id doc p op rule extra branch now = Some (Ok grant)"
  shows "rule_effect rule \<noteq> EffectDeny \<and> matches_operation rule op
    \<and> (\<forall>k pc. map_of (rule_constraints rule) k = Some pc \<longrightarrow>
         (\<exists>c. map_of (lease_constraints (grant_lease grant)) k = Some c \<and> (c = pc \<or> narrows c pc)))
    \<and> lease_principal (grant_lease grant) = pr_id p
    \<and> lease_operation (grant_lease grant) = op
    \<and> bound_branch (grant_lease grant) = branch
    \<and> remaining_uses (grant_lease grant) = max_uses rule
    \<and> cc_risk_weight (confinement grant) = risk_weight rule"
proof -
  obtain cs where cs: "merge_constraints (rule_constraints rule) (rule_constraints rule) extra = Ok cs"
    "lease_constraints (grant_lease grant) = cs"
    using assms by (auto simp: compile_grant_def split: if_splits sum.splits option.splits)
  have "\<exists>c. map_of cs k = Some c \<and> (c = pc \<or> narrows c pc)"
    if "map_of (rule_constraints rule) k = Some pc" for k pc
    using merge_constraints_narrow [OF cs(1) _ that] by blast
  then show ?thesis
    using assms cs(2)
    by (auto simp: compile_grant_def split: if_splits sum.splits option.splits)
qed

theorem compile_grant_inside_rule_witness:
  "\<exists>grant. compile_grant demo_add_seconds ''lease-9'' demo_doc (new_agent ''pr-a'' ''a'') ''fs.write''
      demo_rule [(''path'', Prefix ''src/lib'')] None 5 = Some (Ok grant)
    \<and> lease_operation (grant_lease grant) = ''fs.write''"
proof -
  have "matches_operation demo_rule ''fs.write''"
    using demo_rule_applies by (simp add: rule_applies_def)
  then have "\<exists>grant. compile_grant demo_add_seconds ''lease-9'' demo_doc (new_agent ''pr-a'' ''a'')
      ''fs.write'' demo_rule [(''path'', Prefix ''src/lib'')] None 5 = Some (Ok grant)"
    by (simp add: compile_grant_def demo_add_seconds_def demo_rule_def narrows_def)
  then show ?thesis
    using compile_grant_inside_rule by blast
qed

text \<open>
  Confinement never loosens as trust falls: under one document, a principal of lower trust
  gets no egress domain that a more trusted one lacks, has its environment scrubbed whenever
  the other has, and a quarantined principal, like any principal without egress, runs under the
  networkless syscall profile.
\<close>

theorem confinement_monotone:
  assumes "trust p \<le> trust q"
  shows "set (cc_egress_domains (compile_confinement doc p))
      \<subseteq> set (cc_egress_domains (compile_confinement doc q))
    \<and> (env_scrub (compile_confinement doc q) \<longrightarrow> env_scrub (compile_confinement doc p))
    \<and> (syscall_profile (compile_confinement doc p) = StandardProfile
         \<longrightarrow> syscall_profile (compile_confinement doc q) = StandardProfile)
    \<and> (syscall_profile (compile_confinement doc p) = NetworklessProfile
         \<longleftrightarrow> cc_egress_domains (compile_confinement doc p) = [])
    \<and> (trust p = Quarantined \<longrightarrow> cc_egress_domains (compile_confinement doc p) = [])"
  using assms by (auto simp: compile_confinement_def Let_def)

theorem confinement_monotone_witness:
  "syscall_profile (compile_confinement demo_doc
      (spawn_child (new_agent ''pr-a'' ''a'') ''pr-b'' SubAgent ''b'')) = NetworklessProfile"
  using confinement_monotone [of "spawn_child (new_agent ''pr-a'' ''a'') ''pr-b'' SubAgent ''b''"
      "new_agent ''pr-a'' ''a''" demo_doc]
  by (simp add: spawn_child_def compile_confinement_def demo_doc_def Let_def)

lemma validate_grants_Ok:
  "validate_grants forbid gs = Ok () \<longleftrightarrow>
     (\<forall>g \<in> set gs. CHR ''*'' \<notin> set (eg_operation g)
        \<and> (\<forall>f \<in> set forbid. \<not> glob_match f (eg_operation g)))"
  by (induction gs) (auto simp: find_None_iff dest: find_SomeD split: option.splits)

lemma envelope_loop_ops:
  "envelope_loop add_seconds new_ids env who now k gs = Some ls \<Longrightarrow>
     map lease_operation ls = map eg_operation gs
   \<and> map remaining_uses ls = map eg_max_uses gs
   \<and> map lease_constraints ls = map eg_constraints gs
   \<and> map lease_id ls = map new_ids [k..<k + length gs]
   \<and> (\<forall>l \<in> set ls. lease_principal l = who \<and> parent_lease l = None \<and> \<not> revoked l)"
proof (induction gs arbitrary: k ls)
  case (Cons g gs)
  then obtain ls' l where "ls = l # ls'"
    "envelope_loop add_seconds new_ids env who now (k + 1) gs = Some ls'"
    "lease_operation l = eg_operation g" "remaining_uses l = eg_max_uses g"
    "lease_constraints l = eg_constraints g" "lease_id l = new_ids k" "lease_principal l = who"
    "parent_lease l = None" "\<not> revoked l"
    by (auto simp: Let_def split: option.splits)
  moreover have "[k..<k + length (g # gs)] = k # [k + 1..<k + 1 + length gs]"
    by (simp add: upt_conv_Cons del: upt_Suc)
  ultimately show ?case
    using Cons.IH [of "k + 1" ls'] by (simp del: upt_Suc)
qed simp

text \<open>
  An envelope grants exactly its allow list and nothing it forbids: when an envelope
  compiles, its leases correspond one to one and in order to the allow entries, are held by the
  named principal, and none of their operations is described by a forbid pattern.
\<close>

theorem envelope_leases:
  assumes "into_leases add_seconds new_ids env who now = Some (Ok leases)"
  shows "leases \<noteq> []
    \<and> map lease_operation leases = map eg_operation (env_allow env)
    \<and> map lease_constraints leases = map eg_constraints (env_allow env)
    \<and> map remaining_uses leases = map eg_max_uses (env_allow env)
    \<and> map lease_id leases = map new_ids [0..<length (env_allow env)]
    \<and> (\<forall>l \<in> set leases. lease_principal l = who
         \<and> (\<forall>f \<in> set (env_forbid env). \<not> glob_accepts f (lease_operation l)))"
proof -
  have v: "env_allow env \<noteq> []" "validate_grants (env_forbid env) (env_allow env) = Ok ()"
    and loop: "envelope_loop add_seconds new_ids env who now 0 (env_allow env) = Some leases"
    using assms
    by (auto simp: into_leases_def validate_envelope_def split: sum.splits if_splits)
  note ops = envelope_loop_ops [OF loop]
  have allowed: "\<forall>f \<in> set (env_forbid env). \<not> glob_accepts f (lease_operation l)"
    if "l \<in> set leases" for l
  proof -
    have "lease_operation l \<in> eg_operation ` set (env_allow env)"
      using that ops by (metis image_eqI list.set_map)
    then show ?thesis
      using v(2) unfolding validate_grants_Ok glob_match_meaning by fastforce
  qed
  with v(1) ops show ?thesis
    by auto
qed

definition demo_envelope :: AutonomyEnvelope where
  "demo_envelope = \<lparr> env_name = ''t'',
     env_allow = [\<lparr> eg_operation = ''fs.read'', eg_constraints = [], eg_max_uses = 2,
       eg_ttl_seconds = None, eg_budget = None \<rparr>],
     env_forbid = [''net.*''], env_ttl_seconds = 60, env_budget = None \<rparr>"

theorem envelope_leases_witness:
  "\<exists>leases. into_leases demo_add_seconds (\<lambda>k. ''lease-'' @ replicate k CHR ''x'') demo_envelope
      ''pr-a'' 5 = Some (Ok leases) \<and> map lease_operation leases = [''fs.read'']"
proof -
  have "\<exists>leases. into_leases demo_add_seconds (\<lambda>k. ''lease-'' @ replicate k CHR ''x'') demo_envelope
      ''pr-a'' 5 = Some (Ok leases)"
    by (simp add: into_leases_def validate_envelope_def demo_envelope_def demo_add_seconds_def
        glob_match_def)
  then obtain leases where l: "into_leases demo_add_seconds (\<lambda>k. ''lease-'' @ replicate k CHR ''x'')
      demo_envelope ''pr-a'' 5 = Some (Ok leases)"
    by blast
  then show ?thesis
    using envelope_leases [OF l] by (simp add: demo_envelope_def)
qed

end
