(* ===== verification/Broker.thy ===== *)
theory Broker
  imports KernelTypes Strings
begin

text \<open>
  The effect broker of kernel/effect_broker/src/broker.rs: the durable store of effects,
  receipts and commit claims, every operation on it, and the system in which any number of
  commits interleave. A connector is code outside the broker: its \<open>prepare\<close>, \<open>commit\<close>,
  \<open>probe_commit\<close> and \<open>compensate\<close> act on an external world that the operations thread.
  The JSON columns of the store hold the values they were serialized from.
\<close>

section \<open>Connectors and the broker's environment\<close>

record PreparedEffect =
  preview :: json
  observed_preconditions :: json

record CommitResult =
  response :: json

datatype CommitProbe = ProbeCommitted CommitResult | ProbeNotCommitted | ProbeUnknown

record 'w Connector =
  conn_canonicalize :: "string \<Rightarrow> json \<Rightarrow> json KernelResult"
  conn_prepare :: "'w \<Rightarrow> EffectContract \<Rightarrow> 'w \<times> PreparedEffect KernelResult"
  conn_commit :: "'w \<Rightarrow> EffectContract \<Rightarrow> 'w \<times> CommitResult KernelResult"
  conn_probe_commit :: "'w \<Rightarrow> EffectContract \<Rightarrow> 'w \<times> CommitProbe KernelResult"
  conn_compensate :: "'w \<Rightarrow> EffectContract \<Rightarrow> 'w \<times> CommitResult KernelResult"

text \<open>
  \<open>hash_json\<close> is \<open>hash_canonical\<close>, \<open>canon\<close> is \<open>canonical_json\<close>, \<open>sign\<close> the receipt signer;
  \<open>show_json\<close>, \<open>show_time\<close> and \<open>show_error\<close> print values into messages and records.
\<close>

record 'w BrokerEnv =
  connectors :: "string \<Rightarrow> 'w Connector option"
  hash_json :: "json \<Rightarrow> string"
  canon :: "json \<Rightarrow> string"
  sign :: "string \<Rightarrow> string \<times> string"
  show_json :: "json \<Rightarrow> string"
  show_time :: "instant \<Rightarrow> string"
  show_error :: "KernelError \<Rightarrow> string"

definition register_connector :: "string \<Rightarrow> 'w Connector \<Rightarrow> 'w BrokerEnv \<Rightarrow> 'w BrokerEnv" where
  "register_connector name c env = env\<lparr> connectors := (connectors env)(name \<mapsto> c) \<rparr>"

definition connector_for :: "'w BrokerEnv \<Rightarrow> string \<Rightarrow> 'w Connector KernelResult" where
  "connector_for env op =
     (let pfx = hd (split_on CHR ''.'' op) in
      case connectors env pfx of Some c \<Rightarrow> Ok c | None \<Rightarrow> Err (NotFound ''connector'' pfx))"

section \<open>The store\<close>

record ApprovalRecord =
  approver :: ident
  approved_at :: instant
  ap_policy_epoch :: u64
  ap_contract_hash :: string

record EffectRow =
  row_key :: string
  row_phase :: string
  row_effect :: PendingEffect
  row_observed :: "json option"
  row_approval :: "ApprovalRecord option"

record ReceiptRow =
  rr_effect :: ident
  rr_key :: string
  rr_compensating :: bool
  rr_receipt :: Receipt

record ClaimRow =
  claim_effect :: ident
  claimed_at :: instant

record Broker =
  effects :: "(ident, EffectRow) table"
  receipts :: "(ident, ReceiptRow) table"
  commit_claims :: "(string, ClaimRow) table"

fun phase_name :: "EffectPhase \<Rightarrow> string" where
  "phase_name Proposed = ''proposed''"
| "phase_name (Prepared _) = ''prepared''"
| "phase_name (Approved _ _ _) = ''approved''"
| "phase_name (Committing _) = ''committing''"
| "phase_name (Committed _) = ''committed''"
| "phase_name (Aborted _) = ''aborted''"
| "phase_name (Compensated _) = ''compensated''"

definition wrong_phase :: "PendingEffect \<Rightarrow> string \<Rightarrow> KernelError" where
  "wrong_phase fx expected = WrongEffectPhase (fx_id fx) (phase_name (phase fx)) expected"

definition load_effect :: "Broker \<Rightarrow> ident \<Rightarrow> PendingEffect KernelResult" where
  "load_effect b i =
     (case tbl_get (effects b) i of
        None \<Rightarrow> Err (NotFound ''effect'' i)
      | Some r \<Rightarrow> Ok (row_effect r))"

definition save_effect :: "PendingEffect \<Rightarrow> Broker \<Rightarrow> Broker" where
  "save_effect fx b = b\<lparr> effects := tbl_update (fx_id fx)
     (\<lambda>r. r\<lparr> row_effect := fx, row_phase := phase_name (phase fx) \<rparr>) (effects b) \<rparr>"

definition load_column :: "(EffectRow \<Rightarrow> 'a option) \<Rightarrow> Broker \<Rightarrow> ident \<Rightarrow> 'a option KernelResult" where
  "load_column column b i =
     (case tbl_get (effects b) i of
        None \<Rightarrow> Err (NotFound ''effect'' i)
      | Some r \<Rightarrow> Ok (column r))"

definition set_column :: "(EffectRow \<Rightarrow> EffectRow) \<Rightarrow> ident \<Rightarrow> Broker \<Rightarrow> Broker" where
  "set_column assign i b = b\<lparr> effects := tbl_update i assign (effects b) \<rparr>"

definition committed_receipt_for_key :: "Broker \<Rightarrow> string \<Rightarrow> ident option" where
  "committed_receipt_for_key b key =
     map_option fst (find (\<lambda>(_, r). rr_key r = key \<and> \<not> rr_compensating r) (receipts b))"

definition get_receipt_row :: "Broker \<Rightarrow> ident \<Rightarrow> Receipt KernelResult" where
  "get_receipt_row b i =
     (case tbl_get (receipts b) i of
        None \<Rightarrow> Err (NotFound ''receipt'' i)
      | Some r \<Rightarrow> Ok (rr_receipt r))"

definition ascii_lower :: "char \<Rightarrow> char" where
  "ascii_lower c =
     (let n = of_char c :: nat in if 65 \<le> n \<and> n \<le> 90 then char_of (n + 32) else c)"

definition eq_ignore_ascii_case :: "string \<Rightarrow> string \<Rightarrow> bool" where
  "eq_ignore_ascii_case s t = (map ascii_lower s = map ascii_lower t)"

definition list_effects :: "Broker \<Rightarrow> string option \<Rightarrow> PendingEffect list" where
  "list_effects b want =
     filter (\<lambda>fx. case want of None \<Rightarrow> True | Some w \<Rightarrow> eq_ignore_ascii_case (phase_name (phase fx)) w)
       (map row_effect (tbl_vals (rev (effects b))))"

text \<open>A row rewritten through \<open>json_set(json, '$.phase', ..)\<close>: only the phase changes.\<close>

definition with_phase :: "EffectPhase \<Rightarrow> EffectRow \<Rightarrow> EffectRow" where
  "with_phase p r = r\<lparr> row_effect := (row_effect r)\<lparr> phase := p \<rparr>, row_phase := phase_name p \<rparr>"

section \<open>Proposing, preparing and approving\<close>

definition propose ::
  "'w BrokerEnv \<Rightarrow> Broker \<Rightarrow> EffectContract \<Rightarrow> ident \<Rightarrow> ident \<Rightarrow> ident \<Rightarrow> ident \<Rightarrow> instant \<Rightarrow> ident
    \<Rightarrow> Broker \<times> PendingEffect KernelResult" where
  "propose env b c who branch step lease now new_id =
     (case connector_for env (operation c) of Err e \<Rightarrow> (b, Err e) | Ok conn \<Rightarrow>
      case conn_canonicalize conn (operation c) (arguments c) of Err e \<Rightarrow> (b, Err e) | Ok args \<Rightarrow>
      let c' = c\<lparr> arguments := args \<rparr> in
      case committed_receipt_for_key b (idempotency_key c') of
        Some receipt \<Rightarrow> (b, Err (DuplicateCommit (idempotency_key c') receipt))
      | None \<Rightarrow>
        let fx = new_pending_effect (hash_json env) new_id c' who branch step lease now in
        if tbl_get (effects b) new_id \<noteq> None
        then (b, Err (Storage ''UNIQUE constraint failed: effects.id''))
        else (b\<lparr> effects := effects b @
                [(new_id, \<lparr> row_key = idempotency_key c', row_phase = phase_name (phase fx),
                   row_effect = fx, row_observed = None, row_approval = None \<rparr>)] \<rparr>, Ok fx))"

text \<open>
  \<open>prepare\<close> loads the effect, leaves the store while the connector runs and then writes the
  effect it had loaded: the two halves are separate so that they can interleave.
\<close>

definition prepare_begin :: "'w BrokerEnv \<Rightarrow> Broker \<Rightarrow> ident \<Rightarrow> (PendingEffect \<times> 'w Connector) KernelResult" where
  "prepare_begin env b i =
     (case load_effect b i of Err e \<Rightarrow> Err e | Ok fx \<Rightarrow>
      if phase fx \<noteq> Proposed then Err (wrong_phase fx ''proposed'')
      else case connector_for env (operation (contract fx)) of
             Err e \<Rightarrow> Err e
           | Ok conn \<Rightarrow> Ok (fx, conn))"

definition prepare_finish :: "ident \<Rightarrow> PendingEffect \<Rightarrow> PreparedEffect \<Rightarrow> Broker \<Rightarrow> Broker" where
  "prepare_finish i fx prepared b =
     set_column (\<lambda>r. r\<lparr> row_observed := Some (observed_preconditions prepared) \<rparr>) i
       (save_effect (fx\<lparr> phase := Prepared (preview prepared) \<rparr>) b)"

definition prepare ::
  "'w BrokerEnv \<Rightarrow> 'w \<Rightarrow> Broker \<Rightarrow> ident \<Rightarrow> 'w \<times> Broker \<times> PreparedEffect KernelResult" where
  "prepare env w b i =
     (case prepare_begin env b i of Err e \<Rightarrow> (w, b, Err e) | Ok (fx, conn) \<Rightarrow>
      case conn_prepare conn w (contract fx) of
        (w', Err e) \<Rightarrow> (w', b, Err e)
      | (w', Ok prepared) \<Rightarrow> (w', prepare_finish i fx prepared b, Ok prepared))"

definition approve :: "Broker \<Rightarrow> ident \<Rightarrow> ident \<Rightarrow> u64 \<Rightarrow> instant \<Rightarrow> Broker \<times> unit KernelResult" where
  "approve b i who epoch now =
     (case load_effect b i of Err e \<Rightarrow> (b, Err e) | Ok fx \<Rightarrow>
      case phase fx of
        Prepared _ \<Rightarrow>
          let record = \<lparr> approver = who, approved_at = now, ap_policy_epoch = epoch,
                         ap_contract_hash = fx_contract_hash fx \<rparr> in
          (save_effect (fx\<lparr> phase := Approved who now epoch \<rparr>)
             (set_column (\<lambda>r. r\<lparr> row_approval := Some record \<rparr>) i b), Ok ())
      | _ \<Rightarrow> (b, Err (wrong_phase fx ''prepared'')))"

definition abort :: "Broker \<Rightarrow> ident \<Rightarrow> string \<Rightarrow> Broker \<times> unit KernelResult" where
  "abort b i reason =
     (case load_effect b i of Err e \<Rightarrow> (b, Err e) | Ok fx \<Rightarrow>
      let refused = (b, Err (wrong_phase fx ''proposed|prepared|approved'')) in
      case phase fx of
        Committed _ \<Rightarrow> refused
      | Compensated _ \<Rightarrow> refused
      | Committing _ \<Rightarrow> refused
      | _ \<Rightarrow> (save_effect (fx\<lparr> phase := Aborted reason \<rparr>) b, Ok ()))"

definition stale :: "Broker \<Rightarrow> ident \<Rightarrow> string \<Rightarrow> Broker \<times> 'a KernelResult" where
  "stale b i reason =
     (case abort b i reason of
        (b', Err e) \<Rightarrow> (b', Err e)
      | (b', Ok _) \<Rightarrow> (b', Err (StaleAuthorization reason)))"

section \<open>Committing\<close>

fun show_nat :: "nat \<Rightarrow> string" where
  "show_nat n = (if n < 10 then [char_of (48 + n)] else show_nat (n div 10) @ [char_of (48 + n mod 10)])"

declare show_nat.simps [simp del]

fun preconditions_loop :: "(json \<Rightarrow> string) \<Rightarrow> json \<Rightarrow> (string \<times> json) list \<Rightarrow> (string, unit) outcome" where
  "preconditions_loop shown observed [] = Ok ()"
| "preconditions_loop shown observed ((k, v) # kvs) =
     (case json_get observed k of
        Some x \<Rightarrow>
          if x = v then preconditions_loop shown observed kvs
          else Err (''precondition `'' @ k @ ''` drifted: expected '' @ shown v @ '', observed '' @ shown x)
      | None \<Rightarrow> Err (''precondition `'' @ k @ ''` is no longer observable''))"

fun preconditions_hold :: "(json \<Rightarrow> string) \<Rightarrow> json \<Rightarrow> json \<Rightarrow> (string, unit) outcome" where
  "preconditions_hold shown (JObj kvs) observed = preconditions_loop shown observed kvs"
| "preconditions_hold shown _ observed = Ok ()"

text \<open>
  The checks of \<open>commit\<close> before it first calls the connector: a final answer, a failed
  revalidation, or the loaded effect with the approval it commits under.
\<close>

datatype CommitGate =
    GateDone "Receipt KernelResult"
  | GateStale string
  | GateProceed PendingEffect "ApprovalRecord option"

definition commit_authority :: "Broker \<Rightarrow> ident \<Rightarrow> PendingEffect \<Rightarrow> ApprovalRecord option KernelResult" where
  "commit_authority b i fx =
     (case phase fx of
        Approved _ _ _ \<Rightarrow>
          (case load_column row_approval b i of
             Err e \<Rightarrow> Err e
           | Ok None \<Rightarrow> Err (Storage ''approved effect missing approval record'')
           | Ok (Some a) \<Rightarrow> Ok (Some a))
      | Prepared _ \<Rightarrow>
          if effect_class (contract fx) \<in> {Irreversible, OpaqueExternal}
          then Err (wrong_phase fx ''approved'') else Ok None
      | _ \<Rightarrow> Err (wrong_phase fx ''approved''))"

definition commit_gate ::
  "'w BrokerEnv \<Rightarrow> Broker \<Rightarrow> ident \<Rightarrow> u64 \<Rightarrow> (ident \<Rightarrow> bool) \<Rightarrow> CommitGate" where
  "commit_gate env b i epoch lease_valid =
     (case load_effect b i of Err e \<Rightarrow> GateDone (Err e) | Ok fx \<Rightarrow>
      case phase fx of
        Committed receipt \<Rightarrow> GateDone (get_receipt_row b receipt)
      | Committing _ \<Rightarrow> GateDone (Err (CommitInDoubt (fx_id fx)
          ''a previous commit attempt is in flight or unresolved''))
      | _ \<Rightarrow>
        (case commit_authority b i fx of Err e \<Rightarrow> GateDone (Err e) | Ok approval \<Rightarrow>
         let live_hash = contract_hash (hash_json env) (contract fx) in
         if live_hash \<noteq> fx_contract_hash fx
         then GateStale ''contract content no longer matches its recorded hash''
         else case approval of
           Some a \<Rightarrow>
             if ap_contract_hash a \<noteq> live_hash
             then GateStale ''contract hash changed since approval''
             else if ap_policy_epoch a \<noteq> epoch
             then GateStale (''policy epoch advanced from '' @ show_nat (unat (ap_policy_epoch a))
                    @ '' to '' @ show_nat (unat epoch) @ '' since approval'')
             else if \<not> lease_valid (fx_lease fx)
             then GateStale (''lease `'' @ fx_lease fx @ ''` is no longer valid'')
             else GateProceed fx approval
         | None \<Rightarrow>
             if \<not> lease_valid (fx_lease fx)
             then GateStale (''lease `'' @ fx_lease fx @ ''` is no longer valid'')
             else GateProceed fx approval))"

text \<open>The comparison of the re-observed world with the declared and the prepared preconditions.\<close>

definition commit_recheck ::
  "'w BrokerEnv \<Rightarrow> Broker \<Rightarrow> ident \<Rightarrow> PendingEffect \<Rightarrow> PreparedEffect \<Rightarrow> (string, unit) outcome KernelResult" where
  "commit_recheck env b i fx reprepared =
     (case preconditions_hold (show_json env) (preconditions (contract fx))
             (observed_preconditions reprepared) of
        Err reason \<Rightarrow> Ok (Err reason)
      | Ok _ \<Rightarrow>
        (case load_column row_observed b i of
           Err e \<Rightarrow> Err e
         | Ok None \<Rightarrow> Ok (Ok ())
         | Ok (Some obs) \<Rightarrow>
             Ok (preconditions_hold (show_json env) obs (observed_preconditions reprepared))))"

text \<open>
  The claim: one transaction that inserts or verifies the claim on the idempotency key and
  moves the effect row to \<open>committing\<close>; any early return rolls both back.
\<close>

definition claim_commit :: "Broker \<Rightarrow> PendingEffect \<Rightarrow> instant \<Rightarrow> Broker \<times> unit KernelResult" where
  "claim_commit b fx now =
     (let key = idempotency_key (contract fx);
          claims = (if tbl_get (commit_claims b) key = None
                    then commit_claims b @ [(key, \<lparr> claim_effect = fx_id fx, claimed_at = now \<rparr>)]
                    else commit_claims b);
          owner = (case tbl_get claims key of Some c \<Rightarrow> claim_effect c | None \<Rightarrow> []) in
      if owner \<noteq> fx_id fx
      then (b, Err (case committed_receipt_for_key b key of
                      Some receipt \<Rightarrow> DuplicateCommit key receipt
                    | None \<Rightarrow> WrongEffectPhase (fx_id fx)
                        (''blocked: effect `'' @ owner @ ''` holds the commit claim'') ''approved''))
      else case tbl_get (effects b) (fx_id fx) of
             None \<Rightarrow> (b, Err (Storage ''Query returned no rows''))
           | Some r \<Rightarrow>
             if row_phase r \<in> {''approved'', ''prepared''}
             then (b\<lparr> commit_claims := claims,
                      effects := tbl_update (fx_id fx) (with_phase (Committing now)) (effects b) \<rparr>,
                   Ok ())
             else (b, Err (WrongEffectPhase (fx_id fx) (row_phase r) ''approved'')))"

definition approval_json :: "'w BrokerEnv \<Rightarrow> ApprovalRecord \<Rightarrow> json" where
  "approval_json env a = JObj
     [(''approver'', JStr (approver a)), (''approved_at'', JStr (show_time env (approved_at a))),
      (''policy_epoch'', JInt (uint (ap_policy_epoch a))),
      (''contract_hash'', JStr (ap_contract_hash a))]"

definition body_json :: "'w BrokerEnv \<Rightarrow> ReceiptBody \<Rightarrow> json" where
  "body_json env body = JObj
     [(''effect'', JStr (rb_effect body)), (''who'', JStr (rb_who body)),
      (''operation'', JStr (rb_operation body)), (''resource'', JStr (rb_resource body)),
      (''contract_hash'', JStr (rb_contract_hash body)), (''branch'', JStr (rb_branch body)),
      (''step'', JStr (rb_step body)), (''policy_epoch'', JInt (uint (rb_policy_epoch body))),
      (''authorization_witness'', JStr (authorization_witness body)),
      (''external_response_digest'', JStr (external_response_digest body)),
      (''committed_at'', JStr (show_time env (committed_at body)))]"

definition signed_receipt :: "'w BrokerEnv \<Rightarrow> ReceiptBody \<Rightarrow> ident \<Rightarrow> Receipt" where
  "signed_receipt env body new_id =
     (let (sig, kid) = sign env (canon env (body_json env body)) in
      \<lparr> rcpt_id = new_id, rcpt_body = body, signature = sig, key_id = kid \<rparr>)"

text \<open>Inserting a receipt row: the primary key, and at most one committed receipt per key.\<close>

definition insert_receipt :: "ident \<Rightarrow> ReceiptRow \<Rightarrow> Broker \<Rightarrow> Broker KernelResult" where
  "insert_receipt i r b =
     (if tbl_get (receipts b) i \<noteq> None
      then Err (Storage ''UNIQUE constraint failed: receipts.id'')
      else if \<not> rr_compensating r \<and> committed_receipt_for_key b (rr_key r) \<noteq> None
      then Err (Storage ''UNIQUE constraint failed: receipts.idempotency_key'')
      else Ok (b\<lparr> receipts := receipts b @ [(i, r)] \<rparr>))"

definition committed_receipt ::
  "'w BrokerEnv \<Rightarrow> PendingEffect \<Rightarrow> ApprovalRecord option \<Rightarrow> u64 \<Rightarrow> CommitResult \<Rightarrow> instant \<Rightarrow> ident
    \<Rightarrow> Receipt" where
  "committed_receipt env fx approval epoch result now new_id =
     (let witness_source = (case approval of
            Some a \<Rightarrow> approval_json env a
          | None \<Rightarrow> JObj [(''auto_commit'', JBool True), (''contract_hash'', JStr (fx_contract_hash fx))]);
          body = \<lparr> rb_effect = fx_id fx, rb_who = proposer fx, rb_operation = operation (contract fx),
                   rb_resource = resource (contract fx), rb_contract_hash = fx_contract_hash fx,
                   rb_branch = fx_branch fx, rb_step = fx_step fx, rb_policy_epoch = epoch,
                   authorization_witness = hash_json env witness_source,
                   external_response_digest = hash_json env (response result),
                   committed_at = now \<rparr> in
      signed_receipt env body new_id)"

definition finalize_commit ::
  "'w BrokerEnv \<Rightarrow> Broker \<Rightarrow> PendingEffect \<Rightarrow> ApprovalRecord option \<Rightarrow> u64 \<Rightarrow> CommitResult \<Rightarrow> instant \<Rightarrow> ident
    \<Rightarrow> Broker \<times> Receipt KernelResult" where
  "finalize_commit env b fx approval epoch result now new_id =
     (let receipt = committed_receipt env fx approval epoch result now new_id;
          key = idempotency_key (contract fx) in
      case insert_receipt new_id \<lparr> rr_effect = fx_id fx, rr_key = key, rr_compensating = False,
             rr_receipt = receipt \<rparr> b of
        Err e \<Rightarrow> (b, Err e)
      | Ok b' \<Rightarrow>
          (b'\<lparr> effects := tbl_update (fx_id fx) (with_phase (Committed new_id)) (effects b'),
               commit_claims := tbl_delete key (commit_claims b') \<rparr>, Ok receipt))"

definition release_claim :: "Broker \<Rightarrow> PendingEffect \<Rightarrow> EffectPhase \<Rightarrow> Broker" where
  "release_claim b fx restore =
     b\<lparr> effects := tbl_update (fx_id fx)
          (\<lambda>r. if row_phase r = ''committing'' then with_phase restore r else r) (effects b),
        commit_claims := filter (\<lambda>(k, c). \<not> (k = idempotency_key (contract fx) \<and> claim_effect c = fx_id fx))
          (commit_claims b) \<rparr>"

definition resolve_failed_commit ::
  "'w BrokerEnv \<Rightarrow> 'w \<Rightarrow> Broker \<Rightarrow> PendingEffect \<Rightarrow> 'w Connector \<Rightarrow> ApprovalRecord option \<Rightarrow> u64 \<Rightarrow> EffectPhase
    \<Rightarrow> KernelError \<Rightarrow> instant \<Rightarrow> ident \<Rightarrow> 'w \<times> Broker \<times> Receipt KernelResult" where
  "resolve_failed_commit env w b fx conn approval epoch prior err now new_id =
     (case conn_probe_commit conn w (contract fx) of
        (w', Ok (ProbeCommitted result)) \<Rightarrow>
          (w', finalize_commit env b fx approval epoch result now new_id)
      | (w', Ok ProbeNotCommitted) \<Rightarrow> (w', release_claim b fx prior, Err err)
      | (w', _) \<Rightarrow> (w', b, Err (CommitInDoubt (fx_id fx) (show_error env err))))"

text \<open>What happens once the claim is held: the external call and the record of its outcome.\<close>

definition commit_call ::
  "'w BrokerEnv \<Rightarrow> 'w \<Rightarrow> Broker \<Rightarrow> PendingEffect \<Rightarrow> 'w Connector \<Rightarrow> ApprovalRecord option \<Rightarrow> u64 \<Rightarrow> instant \<Rightarrow> ident
    \<Rightarrow> 'w \<times> Broker \<times> Receipt KernelResult" where
  "commit_call env w b fx conn approval epoch now new_id =
     (case conn_commit conn w (contract fx) of
        (w', Ok result) \<Rightarrow> (w', finalize_commit env b fx approval epoch result now new_id)
      | (w', Err err) \<Rightarrow>
          resolve_failed_commit env w' b fx conn approval epoch (phase fx) err now new_id)"

text \<open>The revalidation against the re-observed world, and the claim if it holds.\<close>

definition commit_enter ::
  "'w BrokerEnv \<Rightarrow> Broker \<Rightarrow> ident \<Rightarrow> PendingEffect \<Rightarrow> PreparedEffect \<Rightarrow> instant \<Rightarrow> Broker \<times> unit KernelResult" where
  "commit_enter env b i fx reprepared now =
     (case commit_recheck env b i fx reprepared of
        Err e \<Rightarrow> (b, Err e)
      | Ok (Err reason) \<Rightarrow> stale b i reason
      | Ok (Ok _) \<Rightarrow> claim_commit b fx now)"

definition commit ::
  "'w BrokerEnv \<Rightarrow> 'w \<Rightarrow> Broker \<Rightarrow> ident \<Rightarrow> u64 \<Rightarrow> (ident \<Rightarrow> bool) \<Rightarrow> instant \<Rightarrow> instant \<Rightarrow> ident
    \<Rightarrow> 'w \<times> Broker \<times> Receipt KernelResult" where
  "commit env w b i epoch lease_valid claim_time now new_id =
     (case commit_gate env b i epoch lease_valid of
        GateDone r \<Rightarrow> (w, b, r)
      | GateStale reason \<Rightarrow> (w, stale b i reason)
      | GateProceed fx approval \<Rightarrow>
        (case connector_for env (operation (contract fx)) of Err e \<Rightarrow> (w, b, Err e) | Ok conn \<Rightarrow>
         case conn_prepare conn w (contract fx) of
           (w', Err e) \<Rightarrow> (w', b, Err e)
         | (w', Ok reprepared) \<Rightarrow>
             (case commit_enter env b i fx reprepared claim_time of
                (b', Err e) \<Rightarrow> (w', b', Err e)
              | (b', Ok _) \<Rightarrow> commit_call env w' b' fx conn approval epoch now new_id)))"

section \<open>Recovery and compensation\<close>

datatype InDoubtResolution = ResolvedCommitted ident | ResolvedAborted | StillInDoubt

datatype OperatorResolution = OperatorCommitted json | OperatorAborted string

definition in_doubt_effects :: "Broker \<Rightarrow> PendingEffect list" where
  "in_doubt_effects b = list_effects b (Some ''committing'')"

definition recovery_reason :: string where
  "recovery_reason = ''crash recovery: connector confirmed the external effect never executed''"

definition stored_approval :: "Broker \<Rightarrow> ident \<Rightarrow> ApprovalRecord option" where
  "stored_approval b i = (case load_column row_approval b i of Ok a \<Rightarrow> a | Err _ \<Rightarrow> None)"

definition approval_epoch :: "ApprovalRecord option \<Rightarrow> u64" where
  "approval_epoch approval = (case approval of Some a \<Rightarrow> ap_policy_epoch a | None \<Rightarrow> 0)"

definition recover_one ::
  "'w BrokerEnv \<Rightarrow> 'w \<Rightarrow> Broker \<Rightarrow> PendingEffect \<Rightarrow> instant \<Rightarrow> ident \<Rightarrow> 'w \<times> Broker \<times> InDoubtResolution" where
  "recover_one env w b fx now new_id =
     (case connector_for env (operation (contract fx)) of
        Err _ \<Rightarrow> (w, b, StillInDoubt)
      | Ok conn \<Rightarrow>
        let approval = stored_approval b (fx_id fx) in
        (case conn_probe_commit conn w (contract fx) of
           (w', Ok (ProbeCommitted result)) \<Rightarrow>
             (case finalize_commit env b fx approval (approval_epoch approval) result now new_id of
                (b', Ok receipt) \<Rightarrow> (w', b', ResolvedCommitted (rcpt_id receipt))
              | (b', Err _) \<Rightarrow> (w', b', StillInDoubt))
         | (w', Ok ProbeNotCommitted) \<Rightarrow>
             (w', release_claim b fx (Aborted recovery_reason), ResolvedAborted)
         | (w', _) \<Rightarrow> (w', b, StillInDoubt)))"

fun recover_loop ::
  "'w BrokerEnv \<Rightarrow> 'w \<Rightarrow> Broker \<Rightarrow> (nat \<Rightarrow> instant) \<Rightarrow> (nat \<Rightarrow> ident) \<Rightarrow> nat \<Rightarrow> PendingEffect list
    \<Rightarrow> 'w \<times> Broker \<times> (ident \<times> InDoubtResolution) list" where
  "recover_loop env w b clock new_ids k [] = (w, b, [])"
| "recover_loop env w b clock new_ids k (fx # fxs) =
     (let (w', b', r) = recover_one env w b fx (clock k) (new_ids k);
          (w'', b'', rs) = recover_loop env w' b' clock new_ids (Suc k) fxs in
      (w'', b'', (fx_id fx, r) # rs))"

definition recover_in_doubt ::
  "'w BrokerEnv \<Rightarrow> 'w \<Rightarrow> Broker \<Rightarrow> (nat \<Rightarrow> instant) \<Rightarrow> (nat \<Rightarrow> ident)
    \<Rightarrow> 'w \<times> Broker \<times> (ident \<times> InDoubtResolution) list" where
  "recover_in_doubt env w b clock new_ids = recover_loop env w b clock new_ids 0 (in_doubt_effects b)"

definition resolve_in_doubt ::
  "'w BrokerEnv \<Rightarrow> Broker \<Rightarrow> ident \<Rightarrow> OperatorResolution \<Rightarrow> instant \<Rightarrow> ident
    \<Rightarrow> Broker \<times> Receipt option KernelResult" where
  "resolve_in_doubt env b i outcome now new_id =
     (case load_effect b i of Err e \<Rightarrow> (b, Err e) | Ok fx \<Rightarrow>
      case phase fx of
        Committing _ \<Rightarrow>
          let approval = stored_approval b i in
          (case outcome of
             OperatorCommitted resp \<Rightarrow>
               (case finalize_commit env b fx approval (approval_epoch approval)
                       \<lparr> response = resp \<rparr> now new_id of
                  (b', Ok receipt) \<Rightarrow> (b', Ok (Some receipt))
                | (b', Err e) \<Rightarrow> (b', Err e))
           | OperatorAborted reason \<Rightarrow> (release_claim b fx (Aborted reason), Ok None))
      | _ \<Rightarrow> (b, Err (wrong_phase fx ''committing'')))"

definition sign_and_store ::
  "'w BrokerEnv \<Rightarrow> Broker \<Rightarrow> PendingEffect \<Rightarrow> ReceiptBody \<Rightarrow> bool \<Rightarrow> ident \<Rightarrow> Broker \<times> Receipt KernelResult" where
  "sign_and_store env b fx body compensating new_id =
     (let receipt = signed_receipt env body new_id in
      case insert_receipt new_id \<lparr> rr_effect = fx_id fx, rr_key = idempotency_key (contract fx),
             rr_compensating = compensating, rr_receipt = receipt \<rparr> b of
        Err e \<Rightarrow> (b, Err e)
      | Ok b' \<Rightarrow> (b', Ok receipt))"

definition compensate ::
  "'w BrokerEnv \<Rightarrow> 'w \<Rightarrow> Broker \<Rightarrow> ident \<Rightarrow> instant \<Rightarrow> ident \<Rightarrow> 'w \<times> Broker \<times> Receipt KernelResult" where
  "compensate env w b i now new_id =
     (case load_effect b i of Err e \<Rightarrow> (w, b, Err e) | Ok fx \<Rightarrow>
      case phase fx of
        Committed _ \<Rightarrow>
          (case connector_for env (operation (contract fx)) of Err e \<Rightarrow> (w, b, Err e) | Ok conn \<Rightarrow>
           case conn_compensate conn w (contract fx) of
             (w', Err e) \<Rightarrow> (w', b, Err e)
           | (w', Ok result) \<Rightarrow>
             let body = \<lparr> rb_effect = fx_id fx, rb_who = proposer fx,
                   rb_operation = operation (contract fx) @ ''.compensate'',
                   rb_resource = resource (contract fx), rb_contract_hash = fx_contract_hash fx,
                   rb_branch = fx_branch fx, rb_step = fx_step fx, rb_policy_epoch = 0,
                   authorization_witness = hash_json env (JObj [(''compensation_for'', JStr (fx_id fx))]),
                   external_response_digest = hash_json env (response result),
                   committed_at = now \<rparr> in
             (case sign_and_store env b fx body True new_id of
                (b', Err e) \<Rightarrow> (w', b', Err e)
              | (b', Ok receipt) \<Rightarrow>
                  (w', save_effect (fx\<lparr> phase := Compensated (rcpt_id receipt) \<rparr>) b', Ok receipt)))
      | _ \<Rightarrow> (w, b, Err (wrong_phase fx ''committed'')))"

end
