(* ===== verification/BrokerProtocol.thy ===== *)
theory BrokerProtocol
  imports Broker
begin

text \<open>
  What the broker promises of its store. The abstract protocol \<open>broker_proto\<close> has one rule per
  permitted change of an effect: it is proposed, edited before commitment, claimed, finalized
  with its receipt, released, or compensated. Every operation of the broker refines the
  protocol, and the rules keep the store invariant: a claim and an effect in \<open>committing\<close> stand
  for each other, and no key has two committed receipts.
\<close>

section \<open>The protocol\<close>

fun committing :: "EffectPhase \<Rightarrow> bool" where
  "committing (Committing _) = True"
| "committing _ = False"

fun settled :: "EffectPhase \<Rightarrow> bool" where
  "settled (Committed _) = True"
| "settled (Compensated _) = True"
| "settled _ = False"

abbreviation row_state :: "EffectRow \<Rightarrow> EffectPhase" where
  "row_state r \<equiv> phase (row_effect r)"

definition active :: "EffectRow \<Rightarrow> bool" where
  "active r = (committing (row_state r) \<or> settled (row_state r))"

definition core :: "PendingEffect \<Rightarrow> PendingEffect" where
  "core fx = fx\<lparr> phase := Proposed \<rparr>"

type_synonym approval_log = "(ident \<times> ApprovalRecord) list"

definition row_ok :: "'w BrokerEnv \<Rightarrow> approval_log \<Rightarrow> ident \<Rightarrow> EffectRow \<Rightarrow> bool" where
  "row_ok env aps i r =
     (fx_id (row_effect r) = i
      \<and> row_key r = idempotency_key (contract (row_effect r))
      \<and> row_phase r = phase_name (row_state r)
      \<and> fx_contract_hash (row_effect r) = contract_hash (hash_json env) (contract (row_effect r))
      \<and> (\<forall>a. row_approval r = Some a \<longrightarrow> (i, a) \<in> set aps))"

definition stores_ok :: "Broker \<Rightarrow> bool" where
  "stores_ok b = (tbl_ok (effects b) \<and> tbl_ok (receipts b) \<and> tbl_ok (commit_claims b))"

text \<open>A claim and an effect in \<open>committing\<close> stand for each other.\<close>

definition holds_claim :: "Broker \<Rightarrow> string \<Rightarrow> ident \<Rightarrow> bool" where
  "holds_claim b k i = (\<exists>c. tbl_get (commit_claims b) k = Some c \<and> claim_effect c = i)"

definition is_committing :: "Broker \<Rightarrow> string \<Rightarrow> ident \<Rightarrow> bool" where
  "is_committing b k i =
     (\<exists>r. tbl_get (effects b) i = Some r \<and> committing (row_state r) \<and> row_key r = k)"

definition claims_ok :: "Broker \<Rightarrow> bool" where
  "claims_ok b = (\<forall>k i. holds_claim b k i = is_committing b k i)"

text \<open>A committed receipt belongs to a settled effect, and no key has two of them.\<close>

definition receipts_ok :: "Broker \<Rightarrow> bool" where
  "receipts_ok b =
     ((\<forall>j rr. tbl_get (receipts b) j = Some rr \<and> \<not> rr_compensating rr \<longrightarrow>
         (\<exists>r. tbl_get (effects b) (rr_effect rr) = Some r \<and> settled (row_state r)
            \<and> row_key r = rr_key rr))
      \<and> (\<forall>j j' rr rr'. tbl_get (receipts b) j = Some rr \<and> tbl_get (receipts b) j' = Some rr'
           \<and> \<not> rr_compensating rr \<and> \<not> rr_compensating rr' \<and> rr_key rr = rr_key rr' \<longrightarrow> j = j')
      \<and> (\<forall>i r j. tbl_get (effects b) i = Some r \<and> row_state r = Committed j \<longrightarrow>
           (\<exists>rr. tbl_get (receipts b) j = Some rr \<and> \<not> rr_compensating rr \<and> rr_effect rr = i)))"

definition broker_inv :: "'w BrokerEnv \<Rightarrow> approval_log \<Rightarrow> Broker \<Rightarrow> bool" where
  "broker_inv env aps b =
     (stores_ok b \<and> claims_ok b \<and> receipts_ok b
      \<and> (\<forall>i r. tbl_get (effects b) i = Some r \<longrightarrow> row_ok env aps i r))"

datatype label =
    LIdle | LNew ident | LQuiet ident | LClaim ident | LFinal ident | LRelease ident | LComp ident

inductive broker_proto ::
  "'w BrokerEnv \<Rightarrow> approval_log \<Rightarrow> label \<Rightarrow> Broker \<Rightarrow> Broker \<Rightarrow> bool" for env aps where
  proto_idle: "broker_proto env aps LIdle b b"
| proto_new:
    "\<lbrakk> tbl_get (effects b) i = None; row_ok env aps i r; row_state r = Proposed;
       tbl_get (effects b') = (tbl_get (effects b))(i \<mapsto> r); stores_ok b';
       receipts b' = receipts b; commit_claims b' = commit_claims b \<rbrakk>
     \<Longrightarrow> broker_proto env aps (LNew i) b b'"
| proto_quiet:
    "\<lbrakk> tbl_get (effects b) i = Some r; \<not> active r; \<not> active r'; row_ok env aps i r';
       core (row_effect r') = core (row_effect r);
       tbl_get (effects b') = (tbl_get (effects b))(i \<mapsto> r'); stores_ok b';
       receipts b' = receipts b; commit_claims b' = commit_claims b \<rbrakk>
     \<Longrightarrow> broker_proto env aps (LQuiet i) b b'"
| proto_claim:
    "\<lbrakk> tbl_get (effects b) i = Some r; \<not> active r; tbl_get (commit_claims b) (row_key r) = None;
       tbl_get (effects b') = (tbl_get (effects b))(i \<mapsto> with_phase (Committing t) r); stores_ok b';
       tbl_get (commit_claims b') = (tbl_get (commit_claims b))(row_key r \<mapsto> c); claim_effect c = i;
       receipts b' = receipts b \<rbrakk>
     \<Longrightarrow> broker_proto env aps (LClaim i) b b'"
| proto_final:
    "\<lbrakk> tbl_get (effects b) i = Some r; committing (row_state r);
       \<forall>j' rr'. tbl_get (receipts b) j' = Some rr' \<and> \<not> rr_compensating rr' \<longrightarrow> rr_key rr' \<noteq> row_key r;
       tbl_get (receipts b) j = None; tbl_get (receipts b') = (tbl_get (receipts b))(j \<mapsto> rr);
       \<not> rr_compensating rr; rr_effect rr = i; rr_key rr = row_key r;
       tbl_get (effects b') = (tbl_get (effects b))(i \<mapsto> with_phase (Committed j) r); stores_ok b';
       tbl_get (commit_claims b') = (tbl_get (commit_claims b))(row_key r := None) \<rbrakk>
     \<Longrightarrow> broker_proto env aps (LFinal i) b b'"
| proto_release:
    "\<lbrakk> tbl_get (effects b) i = Some r; committing (row_state r); \<not> committing p; \<not> settled p;
       tbl_get (effects b') = (tbl_get (effects b))(i \<mapsto> with_phase p r); stores_ok b';
       tbl_get (commit_claims b') = (tbl_get (commit_claims b))(row_key r := None);
       receipts b' = receipts b \<rbrakk>
     \<Longrightarrow> broker_proto env aps (LRelease i) b b'"
| proto_comp:
    "\<lbrakk> tbl_get (effects b) i = Some r; row_state r = Committed j0;
       tbl_get (receipts b) j = None; tbl_get (receipts b') = (tbl_get (receipts b))(j \<mapsto> rr);
       rr_compensating rr;
       tbl_get (effects b') = (tbl_get (effects b))(i \<mapsto> with_phase (Compensated j) r); stores_ok b';
       commit_claims b' = commit_claims b \<rbrakk>
     \<Longrightarrow> broker_proto env aps (LComp i) b b'"

text \<open>The connector reports that a call returning an error did not execute.\<close>

definition call_refuted :: "'w Connector \<Rightarrow> 'w \<Rightarrow> EffectContract \<Rightarrow> bool" where
  "call_refuted conn w c =
     (case conn_commit conn w c of
        (w', Ok _) \<Rightarrow> False
      | (w', Err _) \<Rightarrow> snd (conn_probe_commit conn w' c) = Ok ProbeNotCommitted)"

section \<open>The operations refine the protocol\<close>

lemma broker_invD:
  assumes "broker_inv env aps b"
  shows "stores_ok b" and "claims_ok b" and "receipts_ok b"
    and "tbl_get (effects b) i = Some r \<Longrightarrow> row_ok env aps i r"
  using assms by (simp_all add: broker_inv_def)

lemma load_effect_Ok:
  "load_effect b i = Ok fx \<longleftrightarrow> (\<exists>r. tbl_get (effects b) i = Some r \<and> row_effect r = fx)"
  by (auto simp: load_effect_def split: option.splits)

lemma save_effect_simps [simp]:
  "receipts (save_effect fx b) = receipts b" "commit_claims (save_effect fx b) = commit_claims b"
  "tbl_ok (effects (save_effect fx b)) = tbl_ok (effects b)"
  by (simp_all add: save_effect_def)

lemma set_column_simps [simp]:
  "receipts (set_column f i b) = receipts b" "commit_claims (set_column f i b) = commit_claims b"
  "tbl_ok (effects (set_column f i b)) = tbl_ok (effects b)"
  by (simp_all add: set_column_def)

lemma get_save_effect:
  "tbl_get (effects b) (fx_id fx) = Some r \<Longrightarrow>
     tbl_get (effects (save_effect fx b))
       = (tbl_get (effects b))(fx_id fx \<mapsto> r\<lparr> row_effect := fx, row_phase := phase_name (phase fx) \<rparr>)"
  by (simp add: save_effect_def tbl_get_update_Some)

lemma get_set_column:
  "tbl_get (effects b) i = Some r \<Longrightarrow>
     tbl_get (effects (set_column f i b)) = (tbl_get (effects b))(i \<mapsto> f r)"
  by (simp add: set_column_def tbl_get_update_Some)

lemma core_simps [simp]:
  "core (fx\<lparr> phase := p \<rparr>) = core fx" "fx_id (core fx) = fx_id fx"
  "contract (core fx) = contract fx" "fx_contract_hash (core fx) = fx_contract_hash fx"
  by (simp_all add: core_def)

lemma core_eqD:
  assumes "core fx = core fx'"
  shows "fx_id fx = fx_id fx'" and "contract fx = contract fx'"
    and "fx_contract_hash fx = fx_contract_hash fx'" and "fx_lease fx = fx_lease fx'"
    and "proposer fx = proposer fx'"
  using arg_cong [OF assms, of fx_id] arg_cong [OF assms, of contract]
    arg_cong [OF assms, of fx_contract_hash] arg_cong [OF assms, of fx_lease]
    arg_cong [OF assms, of proposer]
  by (simp_all add: core_def)

lemma with_phase_simps [simp]:
  "row_state (with_phase p r) = p" "row_key (with_phase p r) = row_key r"
  "core (row_effect (with_phase p r)) = core (row_effect r)"
  "contract (row_effect (with_phase p r)) = contract (row_effect r)"
  by (simp_all add: with_phase_def)

lemma row_ok_with_phase [simp]: "row_ok env aps i (with_phase p r) \<longleftrightarrow>
    row_ok env aps i (r\<lparr> row_phase := phase_name (row_state r) \<rparr>)"
  by (simp add: row_ok_def with_phase_def)

text \<open>An edit of an effect that is not being committed, through \<open>save_effect\<close> and \<open>set_column\<close>.\<close>

lemma proto_quiet_edit:
  assumes inv: "broker_inv env aps b" and r: "tbl_get (effects b) i = Some r" and "\<not> active r"
    and p: "\<not> committing p" "\<not> settled p"
    and ap: "ap = row_approval r \<or> (\<exists>a. ap = Some a \<and> (i, a) \<in> set aps)"
    and b': "tbl_get (effects b') = (tbl_get (effects b))(i \<mapsto>
               \<lparr> row_key = row_key r, row_phase = phase_name p,
                 row_effect = (row_effect r)\<lparr> phase := p \<rparr>, row_observed = obs, row_approval = ap \<rparr>)"
      "tbl_ok (effects b') = tbl_ok (effects b)" "receipts b' = receipts b"
      "commit_claims b' = commit_claims b"
  shows "broker_proto env aps (LQuiet i) b b'"
proof (rule proto_quiet [OF r _ _ _ _ b'(1)])
  have ok: "row_ok env aps i r" "stores_ok b"
    using broker_invD [OF inv] r by auto
  then show "row_ok env aps i \<lparr> row_key = row_key r, row_phase = phase_name p,
                 row_effect = (row_effect r)\<lparr> phase := p \<rparr>, row_observed = obs, row_approval = ap \<rparr>"
    using ap by (auto simp: row_ok_def)
  show "stores_ok b'"
    using ok(2) b' by (simp add: stores_ok_def)
qed (use assms in \<open>simp_all add: active_def\<close>)

lemma record_update_eta:
  "r\<lparr> row_effect := fx, row_phase := ph \<rparr>
     = \<lparr> row_key = row_key r, row_phase = ph, row_effect = fx, row_observed = row_observed r,
         row_approval = row_approval r \<rparr>"
  by (cases r) simp

lemma prepare_refines:
  assumes inv: "broker_inv env aps b" and "prepare env w b i = (w', b', res)"
  shows "b' = b \<or> broker_proto env aps (LQuiet i) b b'"
proof -
  consider "b' = b" | fx conn p where "prepare_begin env b i = Ok (fx, conn)" "b' = prepare_finish i fx p b"
    using assms(2) by (auto simp: prepare_def split: sum.splits prod.splits)
  then show ?thesis
  proof cases
    case 2
    then obtain r where r: "tbl_get (effects b) i = Some r" "row_effect r = fx" "phase fx = Proposed"
      by (auto simp: prepare_begin_def load_effect_Ok split: sum.splits if_splits)
    then have "fx_id fx = i"
      using broker_invD(4) [OF inv] by (auto simp: row_ok_def)
    with r have "broker_proto env aps (LQuiet i) b b'"
      by (intro proto_quiet_edit [OF inv r(1), where p = "Prepared (preview p)" and ap = "row_approval r"
              and obs = "Some (observed_preconditions p)"])
         (simp_all add: active_def 2(2) prepare_finish_def get_set_column get_save_effect record_update_eta)
    then show ?thesis ..
  qed simp
qed

lemma approve_refines:
  assumes inv: "broker_inv env aps b" and "approve b i who epoch now = (b', Ok u)"
  shows "\<exists>a. stored_approval b' i = Some a \<and> broker_proto env (aps @ [(i, a)]) (LQuiet i) b b'"
proof -
  obtain r fx where r: "tbl_get (effects b) i = Some r" "row_effect r = fx"
    and ph: "\<not> active r" and b': "b' = save_effect (fx\<lparr> phase := Approved who now epoch \<rparr>)
      (set_column (\<lambda>r. r\<lparr> row_approval := Some \<lparr> approver = who, approved_at = now,
         ap_policy_epoch = epoch, ap_contract_hash = fx_contract_hash fx \<rparr> \<rparr>) i b)"
    using assms(2)
    by (auto simp: approve_def load_effect_Ok Let_def active_def split: sum.splits EffectPhase.splits)
  let ?a = "\<lparr> approver = who, approved_at = now, ap_policy_epoch = epoch, ap_contract_hash = fx_contract_hash fx \<rparr>"
  have i: "fx_id fx = i"
    using broker_invD(4) [OF inv r(1)] r(2) by (auto simp: row_ok_def)
  have E: "tbl_get (effects b') = (tbl_get (effects b))(i \<mapsto>
      \<lparr> row_key = row_key r, row_phase = phase_name (Approved who now epoch),
        row_effect = (row_effect r)\<lparr> phase := Approved who now epoch \<rparr>, row_observed = row_observed r,
        row_approval = Some ?a \<rparr>)"
    using r i by (simp add: b' get_set_column get_save_effect record_update_eta)
  have inv': "broker_inv env (aps @ [(i, ?a)]) b"
    using inv by (auto simp: broker_inv_def row_ok_def)
  have "stored_approval b' i = Some ?a"
    by (simp add: stored_approval_def load_column_def E)
  moreover have "broker_proto env (aps @ [(i, ?a)]) (LQuiet i) b b'"
    by (rule proto_quiet_edit [OF inv' r(1) ph _ _ _ E]) (simp_all add: b')
  ultimately show ?thesis
    by blast
qed

lemma abort_refines:
  assumes inv: "broker_inv env aps b" and "abort b i reason = (b', res)"
  shows "b' = b \<or> broker_proto env aps (LQuiet i) b b'"
proof (cases "b' = b")
  case False
  then obtain r where r: "tbl_get (effects b) i = Some r" "\<not> active r"
    and b': "b' = save_effect ((row_effect r)\<lparr> phase := Aborted reason \<rparr>) b"
    using assms(2)
    by (auto simp: abort_def load_effect_Ok Let_def active_def split: sum.splits EffectPhase.splits)
  then have "fx_id (row_effect r) = i"
    using broker_invD(4) [OF inv r(1)] by (auto simp: row_ok_def)
  with r have "broker_proto env aps (LQuiet i) b b'"
    by (intro proto_quiet_edit [OF inv r, where p = "Aborted reason" and ap = "row_approval r"
          and obs = "row_observed r"])
       (simp_all add: b' get_save_effect record_update_eta)
  then show ?thesis ..
qed simp

lemma stale_refines:
  assumes "broker_inv env aps b" and "stale b i reason = (b', res)"
  shows "b' = b \<or> broker_proto env aps (LQuiet i) b b'"
  using assms(2) abort_refines [OF assms(1)]
  by (auto simp: stale_def split: prod.splits sum.splits)

lemma no_receipt_for_key:
  "committed_receipt_for_key b key = None \<Longrightarrow>
     \<forall>j rr. tbl_get (receipts b) j = Some rr \<and> \<not> rr_compensating rr \<longrightarrow> rr_key rr \<noteq> key"
  by (auto simp: committed_receipt_for_key_def find_None_iff dest!: tbl_get_in_set)

lemma propose_refines:
  assumes inv: "broker_inv env aps b"
    and "propose env b c who branch step lease now new_id = (b', res)"
  shows "b' = b \<or> broker_proto env aps (LNew new_id) b b'"
proof (cases "b' = b")
  case False
  then obtain args where new: "tbl_get (effects b) new_id = None"
    and b': "b' = b\<lparr> effects := effects b @ [(new_id, \<lparr> row_key = idempotency_key c, row_phase = ''proposed'',
         row_effect = new_pending_effect (hash_json env) new_id (c\<lparr> arguments := args \<rparr>) who branch
           step lease now,
         row_observed = None, row_approval = None \<rparr>)] \<rparr>"
    using assms(2)
    by (auto simp: propose_def Let_def new_pending_effect_def split: sum.splits option.splits if_splits)
  then have "broker_proto env aps (LNew new_id) b b'"
    using broker_invD(1) [OF inv]
    by (intro proto_new) (auto simp: stores_ok_def row_ok_def new_pending_effect_def)
  then show ?thesis ..
qed simp

lemma claims_okD:
  assumes "claims_ok b"
  shows "tbl_get (commit_claims b) k = Some c \<Longrightarrow> tbl_get (effects b) (claim_effect c) = Some r
      \<Longrightarrow> committing (row_state r) \<and> row_key r = k"
    and "tbl_get (effects b) i = Some r \<Longrightarrow> committing (row_state r)
      \<Longrightarrow> \<exists>c. tbl_get (commit_claims b) (row_key r) = Some c \<and> claim_effect c = i"
  using assms unfolding claims_ok_def holds_claim_def is_committing_def by (metis option.inject)+

lemma claim_commit_refines:
  assumes inv: "broker_inv env aps b" and "claim_commit b fx now = (b', res)"
    and r: "tbl_get (effects b) (fx_id fx) = Some r" and core: "core (row_effect r) = core fx"
  shows "(b' = b \<and> res \<noteq> Ok ()) \<or> (res = Ok () \<and> broker_proto env aps (LClaim (fx_id fx)) b b')"
proof (cases "res = Ok ()")
  case False
  then show ?thesis
    using assms(2) by (auto simp: claim_commit_def Let_def split: if_splits option.splits)
next
  case True
  let ?key = "idempotency_key (contract fx)"
  let ?claim = "\<lparr> claim_effect = fx_id fx, claimed_at = now \<rparr>"
  have ok: "row_key r = ?key" "row_phase r = phase_name (row_state r)"
    using broker_invD(4) [OF inv r] core_eqD [OF core] by (auto simp: row_ok_def)
  have ready: "row_phase r \<in> {''approved'', ''prepared''}"
    using assms(2) True r by (auto simp: claim_commit_def Let_def split: if_splits option.splits)
  then have quiet: "\<not> active r"
    using ok(2) by (cases "row_state r") (auto simp: active_def)
  have free: "tbl_get (commit_claims b) ?key = None"
  proof (rule ccontr)
    assume "tbl_get (commit_claims b) ?key \<noteq> None"
    then obtain c where c: "tbl_get (commit_claims b) ?key = Some c"
      by blast
    then have "claim_effect c = fx_id fx"
      using assms(2) True by (auto simp: claim_commit_def Let_def split: if_splits)
    then have "committing (row_state r)"
      using claims_okD(1) [OF broker_invD(2) [OF inv] c] r by simp
    with quiet show False
      by (simp add: active_def)
  qed
  have b': "b' = b\<lparr> commit_claims := commit_claims b @ [(?key, ?claim)],
      effects := tbl_update (fx_id fx) (with_phase (Committing now)) (effects b) \<rparr>"
    using assms(2) True free r ready by (auto simp: claim_commit_def Let_def)
  have "broker_proto env aps (LClaim (fx_id fx)) b b'"
    by (rule proto_claim [OF r quiet, where t = now and c = ?claim])
       (use free broker_invD(1) [OF inv] r in \<open>simp_all add: b' ok stores_ok_def tbl_get_update_Some\<close>)
  with True show ?thesis
    by simp
qed

lemma insert_receipt_Ok:
  "insert_receipt j rr b = Ok b' \<longleftrightarrow> tbl_get (receipts b) j = None
     \<and> (rr_compensating rr \<or> committed_receipt_for_key b (rr_key rr) = None)
     \<and> b' = b\<lparr> receipts := receipts b @ [(j, rr)] \<rparr>"
  by (auto simp: insert_receipt_def)

lemma finalize_commit_Ok:
  assumes "finalize_commit env b fx approval epoch result now new_id = (b', Ok receipt)"
  shows "tbl_get (receipts b) new_id = None"
    and "committed_receipt_for_key b (idempotency_key (contract fx)) = None"
    and "receipt = committed_receipt env fx approval epoch result now new_id"
    and "b' = b\<lparr> receipts := receipts b @ [(new_id, \<lparr> rr_effect = fx_id fx,
            rr_key = idempotency_key (contract fx), rr_compensating = False, rr_receipt = receipt \<rparr>)],
        effects := tbl_update (fx_id fx) (with_phase (Committed new_id)) (effects b),
        commit_claims := tbl_delete (idempotency_key (contract fx)) (commit_claims b) \<rparr>"
  using assms by (auto simp: finalize_commit_def Let_def insert_receipt_Ok split: sum.splits)

lemma finalize_commit_Err: "finalize_commit env b fx approval epoch result now new_id = (b', Err e) \<Longrightarrow> b' = b"
  by (auto simp: finalize_commit_def Let_def split: sum.splits)

lemma finalize_commit_refines:
  assumes inv: "broker_inv env aps b"
    and fin: "finalize_commit env b fx approval epoch result now new_id = (b', res)"
    and r: "tbl_get (effects b) (fx_id fx) = Some r" and core: "core (row_effect r) = core fx"
    and "committing (row_state r)"
  shows "b' = b \<or> broker_proto env aps (LFinal (fx_id fx)) b b'"
proof (cases res)
  case (Inl e)
  then show ?thesis
    using fin finalize_commit_Err by blast
next
  case (Inr receipt)
  note ok = finalize_commit_Ok [OF fin [unfolded Inr]]
  have key: "row_key r = idempotency_key (contract fx)"
    using broker_invD(4) [OF inv r] core_eqD [OF core] by (auto simp: row_ok_def)
  have stores: "stores_ok b"
    by (rule broker_invD(1) [OF inv])
  have "broker_proto env aps (LFinal (fx_id fx)) b b'"
  proof (rule proto_final [OF r assms(5), where j = new_id and rr = "\<lparr> rr_effect = fx_id fx,
      rr_key = idempotency_key (contract fx), rr_compensating = False, rr_receipt = receipt \<rparr>"])
    show "\<forall>j' rr'. tbl_get (receipts b) j' = Some rr' \<and> \<not> rr_compensating rr' \<longrightarrow> rr_key rr' \<noteq> row_key r"
      unfolding key by (rule no_receipt_for_key [OF ok(2)])
    show "tbl_get (effects b') = (tbl_get (effects b))(fx_id fx \<mapsto> with_phase (Committed new_id) r)"
      using r by (simp add: ok(4) tbl_get_update_Some)
    show "stores_ok b'"
      using stores ok(1) by (simp add: ok(4) stores_ok_def)
  qed (simp_all add: ok key)
  then show ?thesis ..
qed

lemma release_claim_refines:
  assumes inv: "broker_inv env aps b"
    and r: "tbl_get (effects b) (fx_id fx) = Some r" and core: "core (row_effect r) = core fx"
    and "committing (row_state r)" and p: "\<not> committing p" "\<not> settled p"
  shows "broker_proto env aps (LRelease (fx_id fx)) b (release_claim b fx p)"
proof -
  let ?b = "release_claim b fx p"
  have ok: "row_key r = idempotency_key (contract fx)" "row_phase r = ''committing''" "stores_ok b"
    using broker_invD [OF inv] r core_eqD [OF core] assms(4)
    by (auto simp: row_ok_def elim: committing.elims)
  have "\<exists>c. tbl_get (commit_claims b) (row_key r) = Some c \<and> claim_effect c = fx_id fx"
    using claims_okD(2) [OF broker_invD(2) [OF inv] r assms(4)] .
  then have "tbl_get (commit_claims ?b) = (tbl_get (commit_claims b))(row_key r := None)"
    using ok(1,3) by (auto simp: release_claim_def stores_ok_def tbl_get_filter fun_eq_iff split: option.splits)
  moreover have "tbl_get (effects ?b) = (tbl_get (effects b))(fx_id fx \<mapsto> with_phase p r)"
    using r ok(2) by (simp add: release_claim_def tbl_get_update_Some)
  moreover have "stores_ok ?b" "receipts ?b = receipts b"
    using ok(3) by (simp_all add: release_claim_def stores_ok_def)
  ultimately show ?thesis
    using r assms(4) p by (intro proto_release)
qed

lemma rcpt_id_signed [simp]: "rcpt_id (signed_receipt env body j) = j"
  by (simp add: signed_receipt_def split: prod.splits)

lemma sign_and_store_Ok:
  assumes "sign_and_store env b fx body cp j = (b', Ok receipt)"
  shows "rcpt_id receipt = j" and "tbl_get (receipts b) j = None"
    and "b' = b\<lparr> receipts := receipts b @ [(j, \<lparr> rr_effect = fx_id fx,
           rr_key = idempotency_key (contract fx), rr_compensating = cp, rr_receipt = receipt \<rparr>)] \<rparr>"
  using assms by (auto simp: sign_and_store_def Let_def insert_receipt_Ok split: sum.splits)

lemma sign_and_store_Err: "sign_and_store env b fx body cp j = (b', Err e) \<Longrightarrow> b' = b"
  by (auto simp: sign_and_store_def Let_def split: sum.splits)

lemma compensate_refines:
  assumes inv: "broker_inv env aps b" and "compensate env w b i now new_id = (w', b', res)"
  shows "b' = b \<or> broker_proto env aps (LComp i) b b'"
proof (cases "b' = b")
  case False
  then obtain fx j0 body b1 receipt where fx: "load_effect b i = Ok fx" "phase fx = Committed j0"
    and store: "sign_and_store env b fx body True new_id = (b1, Ok receipt)"
    and b'1: "b' = save_effect (fx\<lparr> phase := Compensated (rcpt_id receipt) \<rparr>) b1"
    using assms(2)
    by (auto simp: compensate_def Let_def split: sum.splits prod.splits EffectPhase.splits
        dest: sign_and_store_Err)
  from fx obtain r where r: "tbl_get (effects b) i = Some r" "row_state r = Committed j0" "row_effect r = fx"
    by (auto simp: load_effect_Ok)
  obtain rr where rr: "rr_compensating rr" "tbl_get (receipts b) new_id = None"
    and b': "b' = save_effect ((row_effect r)\<lparr> phase := Compensated new_id \<rparr>)
                   (b\<lparr> receipts := receipts b @ [(new_id, rr)] \<rparr>)"
  proof
    show "b' = save_effect ((row_effect r)\<lparr> phase := Compensated new_id \<rparr>)
        (b\<lparr> receipts := receipts b @ [(new_id, \<lparr> rr_effect = fx_id fx,
           rr_key = idempotency_key (contract fx), rr_compensating = True, rr_receipt = receipt \<rparr>)] \<rparr>)"
      using sign_and_store_Ok(1,3) [OF store] b'1 r(3) by simp
  qed (use sign_and_store_Ok [OF store] in simp_all)
  have i: "fx_id (row_effect r) = i"
    using broker_invD(4) [OF inv r(1)] by (simp add: row_ok_def)
  have "broker_proto env aps (LComp i) b b'"
  proof (rule proto_comp [OF r(1,2) rr(2) _ rr(1)])
    show "tbl_get (effects b') = (tbl_get (effects b))(i \<mapsto> with_phase (Compensated new_id) r)"
      using r i get_save_effect [of "b\<lparr> receipts := receipts b @ [(new_id, rr)] \<rparr>"
          "(row_effect r)\<lparr> phase := Compensated new_id \<rparr>" r]
      by (simp add: b' with_phase_def)
    show "stores_ok b'"
      using broker_invD(1) [OF inv] rr(2) by (simp add: b' stores_ok_def)
  qed (use rr in \<open>simp_all add: b'\<close>)
  then show ?thesis ..
qed simp

text \<open>A loaded effect is \<^emph>\<open>current\<close> when the store still holds it, up to its phase.\<close>

definition current :: "Broker \<Rightarrow> PendingEffect \<Rightarrow> bool" where
  "current b fx = (\<exists>r. tbl_get (effects b) (fx_id fx) = Some r \<and> core (row_effect r) = core fx)"

definition in_commit :: "Broker \<Rightarrow> PendingEffect \<Rightarrow> bool" where
  "in_commit b fx = (\<exists>r. tbl_get (effects b) (fx_id fx) = Some r \<and> core (row_effect r) = core fx
      \<and> committing (row_state r))"

lemma commit_enter_refines:
  assumes inv: "broker_inv env aps b" and "current b fx"
    and "commit_enter env b (fx_id fx) fx reprepared now = (b', res)"
  shows "(res = Ok () \<and> broker_proto env aps (LClaim (fx_id fx)) b b')
    \<or> (res \<noteq> Ok () \<and> (b' = b \<or> broker_proto env aps (LQuiet (fx_id fx)) b b'))"
proof -
  have stale: "res \<noteq> Ok () \<and> (b' = b \<or> broker_proto env aps (LQuiet (fx_id fx)) b b')"
    if "stale b (fx_id fx) reason = (b', res)" for reason
    using that stale_refines [OF inv that]
    by (auto simp: stale_def split: prod.splits sum.splits)
  from assms(2) obtain r where r: "tbl_get (effects b) (fx_id fx) = Some r" "core (row_effect r) = core fx"
    by (auto simp: current_def)
  show ?thesis
    using assms(3) stale claim_commit_refines [OF inv _ r]
    by (auto simp: commit_enter_def split: sum.splits)
qed

lemma commit_call_refines:
  assumes inv: "broker_inv env aps b" and fx: "in_commit b fx"
    and prior: "\<not> committing (phase fx)" "\<not> settled (phase fx)"
    and call: "commit_call env w b fx conn approval epoch now new_id = (w', b', res)"
  shows "if call_refuted conn w (contract fx) then broker_proto env aps (LRelease (fx_id fx)) b b'
    else b' = b \<or> broker_proto env aps (LFinal (fx_id fx)) b b'"
proof -
  from fx obtain r where r: "tbl_get (effects b) (fx_id fx) = Some r" "core (row_effect r) = core fx"
      "committing (row_state r)"
    by (auto simp: in_commit_def)
  have final: "b' = b \<or> broker_proto env aps (LFinal (fx_id fx)) b b'"
    if "finalize_commit env b fx approval epoch result now new_id = (b', res)" for result
    using finalize_commit_refines [OF inv that r] .
  have release: "broker_proto env aps (LRelease (fx_id fx)) b (release_claim b fx (phase fx))"
    by (rule release_claim_refines [OF inv r prior])
  show ?thesis
    using call final release
    by (auto simp: commit_call_def resolve_failed_commit_def call_refuted_def
        split: prod.splits sum.splits CommitProbe.splits)
qed

lemma recover_one_refines:
  assumes inv: "broker_inv env aps b" and fx: "in_commit b fx"
    and rec: "recover_one env w b fx now new_id = (w', b', res)"
  shows "if res = ResolvedAborted then broker_proto env aps (LRelease (fx_id fx)) b b'
    else b' = b \<or> broker_proto env aps (LFinal (fx_id fx)) b b'"
proof -
  from fx obtain r where r: "tbl_get (effects b) (fx_id fx) = Some r" "core (row_effect r) = core fx"
      "committing (row_state r)"
    by (auto simp: in_commit_def)
  have release: "broker_proto env aps (LRelease (fx_id fx)) b (release_claim b fx (Aborted recovery_reason))"
    by (rule release_claim_refines [OF inv r]) simp_all
  show ?thesis
    using rec release finalize_commit_refines [OF inv _ r]
    by (auto simp: recover_one_def Let_def split: prod.splits sum.splits CommitProbe.splits)
qed

lemma resolve_in_doubt_refines:
  assumes inv: "broker_inv env aps b"
    and res: "resolve_in_doubt env b i outcome now new_id = (b', res)"
  shows "if res = Ok None then broker_proto env aps (LRelease i) b b'
    else b' = b \<or> broker_proto env aps (LFinal i) b b'"
proof (cases "\<exists>fx t. load_effect b i = Ok fx \<and> phase fx = Committing t")
  case False
  then have "b' = b \<and> res \<noteq> Ok None"
    using res by (auto simp: resolve_in_doubt_def split: sum.splits EffectPhase.splits)
  then show ?thesis
    by simp
next
  case True
  then obtain fx t r where fx: "load_effect b i = Ok fx" "phase fx = Committing t"
    and r: "tbl_get (effects b) i = Some r" "row_effect r = fx"
    by (auto simp: load_effect_Ok)
  have i: "fx_id fx = i"
    using broker_invD(4) [OF inv r(1)] r(2) by (simp add: row_ok_def)
  have row: "tbl_get (effects b) (fx_id fx) = Some r" "core (row_effect r) = core fx" "committing (row_state r)"
    using r fx(2) i by simp_all
  have release: "broker_proto env aps (LRelease i) b (release_claim b fx (Aborted reason))" for reason
    using release_claim_refines [OF inv row, of "Aborted reason"] i by simp
  show ?thesis
    using res fx release finalize_commit_refines [OF inv _ row] i
    by (auto simp: resolve_in_doubt_def Let_def split: prod.splits sum.splits OperatorResolution.splits)
qed

section \<open>What the protocol keeps\<close>

definition active_at :: "Broker \<Rightarrow> ident \<Rightarrow> bool" where
  "active_at b i = (\<exists>r. tbl_get (effects b) i = Some r \<and> active r)"

lemma row_ok_phase:
  "row_ok env aps i r \<Longrightarrow> row_ok env aps i (with_phase p r)"
  by (simp add: row_ok_def with_phase_def)

lemma receipts_okD:
  assumes "receipts_ok b"
  shows "tbl_get (receipts b) j = Some rr \<Longrightarrow> \<not> rr_compensating rr \<Longrightarrow>
      \<exists>r. tbl_get (effects b) (rr_effect rr) = Some r \<and> settled (row_state r) \<and> row_key r = rr_key rr"
    and "tbl_get (receipts b) j = Some rr \<Longrightarrow> tbl_get (receipts b) j' = Some rr' \<Longrightarrow>
      \<not> rr_compensating rr \<Longrightarrow> \<not> rr_compensating rr' \<Longrightarrow> rr_key rr = rr_key rr' \<Longrightarrow> j = j'"
    and "tbl_get (effects b) i = Some r \<Longrightarrow> row_state r = Committed j \<Longrightarrow>
      \<exists>rr. tbl_get (receipts b) j = Some rr \<and> \<not> rr_compensating rr \<and> rr_effect rr = i"
  using assms unfolding receipts_ok_def by blast+

lemma settled_Committed: "settled p \<Longrightarrow> \<not> committing p"
  by (cases p) simp_all

lemma proto_rows:
  assumes "broker_proto env aps l b b'" and "\<And>i r. tbl_get (effects b) i = Some r \<Longrightarrow> row_ok env aps i r"
  shows "tbl_get (effects b') i = Some r \<Longrightarrow> row_ok env aps i r"
  using assms by cases (auto split: if_splits intro: row_ok_phase)

lemma claims_frame:
  assumes "claims_ok b" and "\<And>k i. holds_claim b' k i = holds_claim b k i"
    and "\<And>k i. is_committing b' k i = is_committing b k i"
  shows "claims_ok b'"
  using assms by (simp add: claims_ok_def)

lemma is_committing_put:
  assumes "tbl_get (effects b') = (tbl_get (effects b))(i \<mapsto> r)"
  shows "is_committing b' k i' = (if i' = i then committing (row_state r) \<and> row_key r = k
                                  else is_committing b k i')"
  using assms by (simp add: is_committing_def)

lemma is_committing_at:
  assumes "tbl_get (effects b) i = Some r"
  shows "is_committing b k i = (committing (row_state r) \<and> row_key r = k)"
  using assms by (simp add: is_committing_def)

lemma proto_claims:
  assumes "broker_proto env aps l b b'" and ok: "claims_ok b"
  shows "claims_ok b'"
  using assms(1)
proof cases
  case (proto_new i r)
  have "\<not> is_committing b k i" for k
    using proto_new(2) by (simp add: is_committing_def)
  with proto_new show ?thesis
    by (intro claims_frame [OF ok]) (auto simp: holds_claim_def is_committing_put [OF proto_new(5)])
next
  case (proto_quiet i r r')
  then show ?thesis
    by (intro claims_frame [OF ok])
       (auto simp: holds_claim_def is_committing_put [OF proto_quiet(7)] is_committing_at active_def)
next
  case (proto_claim i r t c)
  have free: "\<not> is_committing b (row_key r) i'" for i'
    using ok proto_claim(4) by (metis claims_ok_def holds_claim_def option.distinct(1))
  have "\<not> is_committing b k i" for k
    using proto_claim(2,3) by (simp add: is_committing_at active_def)
  with free ok show ?thesis
    by (auto simp: claims_ok_def is_committing_put [OF proto_claim(5)] holds_claim_def proto_claim(7,8))
next
  case (proto_final i r j rr)
  have "is_committing b k i' \<longleftrightarrow> i' = i" if "k = row_key r" for i' k
    using ok proto_final(2,3) that is_committing_at [OF proto_final(2)]
    unfolding claims_ok_def holds_claim_def by (metis option.inject)
  moreover have "k = row_key r" if "is_committing b k i" for k
    using that is_committing_at [OF proto_final(2)] by simp
  ultimately show ?thesis
    using ok by (auto simp: claims_ok_def is_committing_put [OF proto_final(10)] holds_claim_def proto_final(12))
next
  case (proto_release i r p)
  have "is_committing b k i' \<longleftrightarrow> i' = i" if "k = row_key r" for i' k
    using ok proto_release(2,3) that is_committing_at [OF proto_release(2)]
    unfolding claims_ok_def holds_claim_def by (metis option.inject)
  moreover have "k = row_key r" if "is_committing b k i" for k
    using that is_committing_at [OF proto_release(2)] by simp
  ultimately show ?thesis
    using ok proto_release(4)
    by (auto simp: claims_ok_def is_committing_put [OF proto_release(6)] holds_claim_def proto_release(8))
next
  case (proto_comp i r j0 j rr)
  then show ?thesis
    by (intro claims_frame [OF ok])
       (auto simp: holds_claim_def is_committing_put [OF proto_comp(7)] is_committing_at)
qed (use ok in simp)

lemma receipts_frame:
  assumes ok: "receipts_ok b" and same: "receipts b' = receipts b"
    and E: "tbl_get (effects b') = (tbl_get (effects b))(i \<mapsto> r')"
    and before: "\<And>r. tbl_get (effects b) i = Some r \<Longrightarrow> \<not> settled (row_state r)"
    and after: "\<not> settled (row_state r')"
  shows "receipts_ok b'"
  unfolding receipts_ok_def same
proof (intro conjI allI impI)
  fix j rr
  assume "tbl_get (receipts b) j = Some rr \<and> \<not> rr_compensating rr"
  then obtain r where r: "tbl_get (effects b) (rr_effect rr) = Some r" "settled (row_state r)" "row_key r = rr_key rr"
    using receipts_okD(1) [OF ok] by blast
  moreover have "rr_effect rr \<noteq> i"
    using before r by blast
  ultimately show "\<exists>r. tbl_get (effects b') (rr_effect rr) = Some r \<and> settled (row_state r) \<and> row_key r = rr_key rr"
    by (auto simp: E)
next
  fix j j' rr rr'
  assume "tbl_get (receipts b) j = Some rr \<and> tbl_get (receipts b) j' = Some rr' \<and> \<not> rr_compensating rr
    \<and> \<not> rr_compensating rr' \<and> rr_key rr = rr_key rr'"
  then show "j = j'"
    using receipts_okD(2) [OF ok] by blast
next
  fix k r j
  assume "tbl_get (effects b') k = Some r \<and> row_state r = Committed j"
  then have "tbl_get (effects b) k = Some r" "row_state r = Committed j"
    using after by (auto simp: E split: if_splits)
  then show "\<exists>rr. tbl_get (receipts b) j = Some rr \<and> \<not> rr_compensating rr \<and> rr_effect rr = k"
    by (rule receipts_okD(3) [OF ok])
qed

lemma receipts_final:
  assumes ok: "receipts_ok b" and r: "tbl_get (effects b) i = Some r" "committing (row_state r)"
    and free: "\<forall>j' rr'. tbl_get (receipts b) j' = Some rr' \<and> \<not> rr_compensating rr' \<longrightarrow> rr_key rr' \<noteq> row_key r"
    and j: "tbl_get (receipts b) j = None" "tbl_get (receipts b') = (tbl_get (receipts b))(j \<mapsto> rr)"
    and rr: "\<not> rr_compensating rr" "rr_effect rr = i" "rr_key rr = row_key r"
    and E: "tbl_get (effects b') = (tbl_get (effects b))(i \<mapsto> with_phase (Committed j) r)"
  shows "receipts_ok b'"
  unfolding receipts_ok_def
proof (intro conjI allI impI)
  fix k q
  assume "tbl_get (receipts b') k = Some q \<and> \<not> rr_compensating q"
  then have "k = j \<and> q = rr \<or> tbl_get (receipts b) k = Some q \<and> \<not> rr_compensating q"
    by (cases "k = j") (simp_all add: j(2))
  then consider "k = j" "q = rr" | "tbl_get (receipts b) k = Some q" "\<not> rr_compensating q"
    by blast
  then show "\<exists>r. tbl_get (effects b') (rr_effect q) = Some r \<and> settled (row_state r) \<and> row_key r = rr_key q"
  proof cases
    case 1
    then show ?thesis
      by (simp add: E rr)
  next
    case 2
    then obtain r' where r': "tbl_get (effects b) (rr_effect q) = Some r'" "settled (row_state r')" "row_key r' = rr_key q"
      using receipts_okD(1) [OF ok] by blast
    then have "rr_effect q \<noteq> i"
      using r settled_Committed [of "row_state r"] by auto
    with r' show ?thesis
      by (simp add: E)
  qed
next
  fix k k' q q'
  assume "tbl_get (receipts b') k = Some q \<and> tbl_get (receipts b') k' = Some q' \<and> \<not> rr_compensating q
    \<and> \<not> rr_compensating q' \<and> rr_key q = rr_key q'"
  then show "k = k'"
    using receipts_okD(2) [OF ok, of k q k' q'] free rr by (cases "k = j"; cases "k' = j") (auto simp: j)
next
  fix k q m
  assume "tbl_get (effects b') k = Some q \<and> row_state q = Committed m"
  then consider "k = i" "m = j" | "tbl_get (effects b) k = Some q" "row_state q = Committed m" "k \<noteq> i"
    by (auto simp: E split: if_splits)
  then show "\<exists>rr. tbl_get (receipts b') m = Some rr \<and> \<not> rr_compensating rr \<and> rr_effect rr = k"
  proof cases
    case 2
    obtain q' where "tbl_get (receipts b) m = Some q'" "\<not> rr_compensating q'" "rr_effect q' = k"
      using receipts_okD(3) [OF ok 2(1,2)] by blast
    with j(1) show ?thesis
      by (intro exI [of _ q']) (auto simp: j(2))
  qed (simp add: j(2) rr)
qed

lemma receipts_comp:
  assumes ok: "receipts_ok b" and r: "tbl_get (effects b) i = Some r" "row_state r = Committed j0"
    and j: "tbl_get (receipts b) j = None" "tbl_get (receipts b') = (tbl_get (receipts b))(j \<mapsto> rr)"
    and rr: "rr_compensating rr"
    and E: "tbl_get (effects b') = (tbl_get (effects b))(i \<mapsto> with_phase (Compensated j) r)"
  shows "receipts_ok b'"
  unfolding receipts_ok_def
proof (intro conjI allI impI)
  fix k q
  assume "tbl_get (receipts b') k = Some q \<and> \<not> rr_compensating q"
  then have "tbl_get (receipts b) k = Some q" "\<not> rr_compensating q"
    using rr by (auto simp: j split: if_splits)
  then obtain r' where "tbl_get (effects b) (rr_effect q) = Some r'" "settled (row_state r')" "row_key r' = rr_key q"
    using receipts_okD(1) [OF ok] by blast
  then show "\<exists>r. tbl_get (effects b') (rr_effect q) = Some r \<and> settled (row_state r) \<and> row_key r = rr_key q"
    using r by (cases "rr_effect q = i") (simp_all add: E)
next
  fix k k' q q'
  assume "tbl_get (receipts b') k = Some q \<and> tbl_get (receipts b') k' = Some q' \<and> \<not> rr_compensating q
    \<and> \<not> rr_compensating q' \<and> rr_key q = rr_key q'"
  then show "k = k'"
    using receipts_okD(2) [OF ok, of k q k' q'] rr by (cases "k = j"; cases "k' = j") (auto simp: j)
next
  fix k q m
  assume "tbl_get (effects b') k = Some q \<and> row_state q = Committed m"
  then have k: "tbl_get (effects b) k = Some q" "row_state q = Committed m"
    by (auto simp: E split: if_splits)
  obtain q' where "tbl_get (receipts b) m = Some q'" "\<not> rr_compensating q'" "rr_effect q' = k"
    using receipts_okD(3) [OF ok k] by blast
  with j(1) show "\<exists>rr. tbl_get (receipts b') m = Some rr \<and> \<not> rr_compensating rr \<and> rr_effect rr = k"
    by (intro exI [of _ q']) (auto simp: j(2))
qed

lemma proto_receipts:
  assumes "broker_proto env aps l b b'" and ok: "receipts_ok b"
  shows "receipts_ok b'"
  using assms(1)
proof cases
  case (proto_new i r)
  then show ?thesis
    by (intro receipts_frame [OF ok proto_new(7,5)]) auto
next
  case (proto_quiet i r r')
  then show ?thesis
    by (intro receipts_frame [OF ok proto_quiet(9,7)]) (auto simp: active_def)
next
  case (proto_claim i r t c)
  then show ?thesis
    by (intro receipts_frame [OF ok proto_claim(9,5)]) (auto simp: active_def)
next
  case (proto_final i r j rr)
  then show ?thesis
    by (intro receipts_final [OF ok proto_final(2-10)])
next
  case (proto_release i r p)
  then show ?thesis
    by (intro receipts_frame [OF ok proto_release(9,6)]) (auto dest: settled_Committed)
next
  case (proto_comp i r j0 j rr)
  then show ?thesis
    by (intro receipts_comp [OF ok proto_comp(2-7)])
qed (use ok in simp)

lemma proto_inv:
  assumes "broker_proto env aps l b b'" and inv: "broker_inv env aps b"
  shows "broker_inv env aps b'"
proof -
  have "stores_ok b'"
    using assms by cases (simp_all add: broker_inv_def)
  then show ?thesis
    using proto_rows [OF assms(1)] proto_claims [OF assms(1)] proto_receipts [OF assms(1)] inv
    by (simp add: broker_inv_def)
qed

end
