(* ===== verification/BrokerSystem.thy ===== *)
theory BrokerSystem
  imports BrokerProtocol
begin

text \<open>
  The broker under concurrency. The system \<open>broker_step\<close> interleaves any number of commits,
  split where \<open>commit\<close> awaits the connector, with all other operations, crashes and recovery;
  every step is a step of the protocol of \<open>BrokerProtocol\<close>. The theorems account for the external
  calls: none is issued twice for an effect, all are authorized, and two calls in flight never
  share an idempotency key. Two concrete runs show the limits of that guarantee.
\<close>

section \<open>The interleaved system\<close>

record CommitCall =
  call_effect :: PendingEffect
  call_approval :: "ApprovalRecord option"
  call_epoch :: u64
  call_lease_valid :: "ident \<Rightarrow> bool"

abbreviation call_id :: "CommitCall \<Rightarrow> ident" where
  "call_id c \<equiv> fx_id (call_effect c)"

text \<open>
  \<open>waiting\<close> holds the commits that await the connector's second \<open>prepare\<close>, \<open>calling\<close> those that
  hold the claim and await \<open>commit\<close>. \<open>calls\<close> logs every external commit call issued, \<open>undone\<close>
  the effects whose call was reported never to have executed, \<open>approvals\<close> every approval given.
\<close>

record 'w System =
  world :: 'w
  store :: Broker
  waiting :: "(CommitCall \<times> PreparedEffect) list"
  calling :: "CommitCall list"
  calls :: "CommitCall list"
  undone :: "ident list"
  approvals :: approval_log

definition empty_broker :: Broker where
  "empty_broker = \<lparr> effects = [], receipts = [], commit_claims = [] \<rparr>"

definition start_system :: "'w \<Rightarrow> 'w System" where
  "start_system w = \<lparr> world = w, store = empty_broker, waiting = [], calling = [], calls = [],
     undone = [], approvals = [] \<rparr>"

definition in_call :: "'w System \<Rightarrow> ident \<Rightarrow> bool" where
  "in_call s i = (i \<in> set (map call_id (calling s)))"

inductive broker_step :: "'w BrokerEnv \<Rightarrow> 'w System \<Rightarrow> 'w System \<Rightarrow> bool" for env where
  step_propose:
    "propose env (store s) c who branch step lease now new_id = (b', res)
     \<Longrightarrow> broker_step env s (s\<lparr> store := b' \<rparr>)"
| step_prepare:
    "prepare env (world s) (store s) i = (w', b', res)
     \<Longrightarrow> broker_step env s (s\<lparr> world := w', store := b' \<rparr>)"
| step_approve:
    "approve (store s) i who epoch now = (b', Ok u)
     \<Longrightarrow> broker_step env s (s\<lparr> store := b', approvals := approvals s @
          [(i, the (stored_approval b' i))] \<rparr>)"
| step_abort:
    "abort (store s) i reason = (b', res) \<Longrightarrow> broker_step env s (s\<lparr> store := b' \<rparr>)"
| step_compensate:
    "compensate env (world s) (store s) i now new_id = (w', b', res)
     \<Longrightarrow> broker_step env s (s\<lparr> world := w', store := b' \<rparr>)"
| step_commit_stale:
    "\<lbrakk> commit_gate env (store s) i epoch lease_valid = GateStale reason;
       stale (store s) i reason = (b', (res :: Receipt KernelResult)) \<rbrakk>
     \<Longrightarrow> broker_step env s (s\<lparr> store := b' \<rparr>)"
| step_commit_gate:
    "\<lbrakk> commit_gate env (store s) i epoch lease_valid = GateProceed fx approval;
       connector_for env (operation (contract fx)) = Ok conn;
       conn_prepare conn (world s) (contract fx) = (w', Ok reprepared) \<rbrakk>
     \<Longrightarrow> broker_step env s (s\<lparr> world := w', waiting := waiting s @
          [(\<lparr> call_effect = fx, call_approval = approval, call_epoch = epoch,
              call_lease_valid = lease_valid \<rparr>, reprepared)] \<rparr>)"
| step_commit_refused:
    "\<lbrakk> (c, reprepared) \<in> set (waiting s);
       commit_enter env (store s) (call_id c) (call_effect c) reprepared now = (b', Err e) \<rbrakk>
     \<Longrightarrow> broker_step env s (s\<lparr> store := b', waiting := remove1 (c, reprepared) (waiting s) \<rparr>)"
| step_commit_enter:
    "\<lbrakk> (c, reprepared) \<in> set (waiting s);
       commit_enter env (store s) (call_id c) (call_effect c) reprepared now = (b', Ok u) \<rbrakk>
     \<Longrightarrow> broker_step env s (s\<lparr> store := b', waiting := remove1 (c, reprepared) (waiting s),
          calling := c # calling s, calls := c # calls s \<rparr>)"
| step_commit_return:
    "\<lbrakk> c \<in> set (calling s); connector_for env (operation (contract (call_effect c))) = Ok conn;
       commit_call env (world s) (store s) (call_effect c) conn (call_approval c) (call_epoch c)
         now new_id = (w', b', res) \<rbrakk>
     \<Longrightarrow> broker_step env s (s\<lparr> world := w', store := b', calling := remove1 c (calling s),
          undone := (if call_refuted conn (world s) (contract (call_effect c))
                     then call_id c # undone s else undone s) \<rparr>)"
| step_recover:
    "\<lbrakk> fx \<in> set (in_doubt_effects (store s)); \<not> in_call s (fx_id fx);
       recover_one env (world s) (store s) fx now new_id = (w', b', res) \<rbrakk>
     \<Longrightarrow> broker_step env s (s\<lparr> world := w', store := b',
          undone := (if res = ResolvedAborted then fx_id fx # undone s else undone s) \<rparr>)"
| step_resolve:
    "\<lbrakk> \<not> in_call s i; resolve_in_doubt env (store s) i outcome now new_id = (b', res) \<rbrakk>
     \<Longrightarrow> broker_step env s (s\<lparr> store := b',
          undone := (if res = Ok None then i # undone s else undone s) \<rparr>)"
| step_crash: "broker_step env s (s\<lparr> waiting := [], calling := [] \<rparr>)"
| step_world: "broker_step env s (s\<lparr> world := w' \<rparr>)"

inductive broker_run :: "'w BrokerEnv \<Rightarrow> 'w System \<Rightarrow> bool" for env where
  run_start: "broker_run env (start_system w)"
| run_step: "broker_run env s \<Longrightarrow> broker_step env s s' \<Longrightarrow> broker_run env s'"

section \<open>A concrete connector\<close>

text \<open>
  The world is the list of keys the external system has executed; the connector accepts every
  call and answers a probe from that list.
\<close>

definition demo_connector :: "string list Connector" where
  "demo_connector = \<lparr>
     conn_canonicalize = (\<lambda>_ args. Ok args),
     conn_prepare = (\<lambda>w c. (w, Ok \<lparr> preview = JNull, observed_preconditions = JObj [] \<rparr>)),
     conn_commit = (\<lambda>w c. (w @ [idempotency_key c], Ok \<lparr> response = JNull \<rparr>)),
     conn_probe_commit = (\<lambda>w c. (w, Ok (if idempotency_key c \<in> set w
        then ProbeCommitted \<lparr> response = JNull \<rparr> else ProbeNotCommitted))),
     conn_compensate = (\<lambda>w c. (w, Ok \<lparr> response = JNull \<rparr>)) \<rparr>"

definition demo_env :: "string list BrokerEnv" where
  "demo_env = \<lparr> connectors = (\<lambda>name. if name = ''gh'' then Some demo_connector else None),
     hash_json = (\<lambda>_. ''h''), canon = (\<lambda>_. []), sign = (\<lambda>_. (''sig'', ''kid'')),
     show_json = (\<lambda>_. []), show_time = (\<lambda>_. []), show_error = error_code \<rparr>"

definition demo_contract :: "EffectClass \<Rightarrow> EffectContract" where
  "demo_contract cls = \<lparr> operation = ''gh.merge'', resource = ''repo'', arguments = JNull,
     preconditions = JNull, idempotency_key = ''k'', effect_class = cls \<rparr>"

definition demo_propose :: "EffectClass \<Rightarrow> ident \<Rightarrow> Broker \<Rightarrow> Broker" where
  "demo_propose cls i b = fst (propose demo_env b (demo_contract cls) ''who'' ''br'' ''st'' ''le'' 1 i)"

definition demo_prepare :: "ident \<Rightarrow> Broker \<Rightarrow> Broker" where
  "demo_prepare i b = fst (snd (prepare demo_env [] b i))"

section \<open>The system's invariant\<close>

definition authorized :: "'w BrokerEnv \<Rightarrow> approval_log \<Rightarrow> CommitCall \<Rightarrow> bool" where
  "authorized env aps c =
     (contract_hash (hash_json env) (contract (call_effect c)) = fx_contract_hash (call_effect c)
      \<and> call_lease_valid c (fx_lease (call_effect c))
      \<and> (case call_approval c of
           None \<Rightarrow> effect_class (contract (call_effect c)) \<notin> {Irreversible, OpaqueExternal}
         | Some a \<Rightarrow> ap_contract_hash a = fx_contract_hash (call_effect c)
             \<and> ap_policy_epoch a = call_epoch c \<and> (call_id c, a) \<in> set aps))"

definition calls_of :: "'w System \<Rightarrow> ident \<Rightarrow> nat" where
  "calls_of s i = length (filter (\<lambda>c. call_id c = i) (calls s))"

definition open_call :: "'w BrokerEnv \<Rightarrow> 'w System \<Rightarrow> CommitCall \<Rightarrow> bool" where
  "open_call env s c =
     (current (store s) (call_effect c) \<and> authorized env (approvals s) c
      \<and> \<not> committing (phase (call_effect c)) \<and> \<not> settled (phase (call_effect c)))"

definition system_inv :: "'w BrokerEnv \<Rightarrow> 'w System \<Rightarrow> bool" where
  "system_inv env s =
     (broker_inv env (approvals s) (store s)
      \<and> (\<forall>c \<in> fst ` set (waiting s) \<union> set (calling s) \<union> set (calls s). open_call env s c)
      \<and> (\<forall>c \<in> set (calling s). in_commit (store s) (call_effect c))
      \<and> distinct (map call_id (calling s))
      \<and> (\<forall>i. calls_of s i = count_list (undone s) i + (if active_at (store s) i then 1 else 0)))"

lemma proto_current:
  assumes "broker_proto env aps l b b'" and "current b fx"
  shows "current b' fx"
  using assms by cases (auto simp: current_def split: if_splits)

lemma proto_in_commit:
  assumes "broker_proto env aps l b b'" and "in_commit b fx"
    and "l \<noteq> LFinal (fx_id fx)" and "l \<noteq> LRelease (fx_id fx)"
  shows "in_commit b' fx"
  using assms
proof cases
  case (proto_comp i r j0 j rr)
  with assms(2) have "i \<noteq> fx_id fx"
    by (auto simp: in_commit_def)
  with assms(2) proto_comp show ?thesis
    by (auto simp: in_commit_def)
qed (auto simp: in_commit_def active_def split: if_splits)

lemma proto_active:
  assumes "broker_proto env aps l b b'"
  shows "active_at b' k = (case l of LClaim i \<Rightarrow> k = i \<or> active_at b k
                                   | LRelease i \<Rightarrow> k \<noteq> i \<and> active_at b k
                                   | _ \<Rightarrow> active_at b k)"
  using assms by cases (auto simp: active_at_def active_def)

lemma proto_claim_inactive: "broker_proto env aps (LClaim i) b b' \<Longrightarrow> \<not> active_at b i"
  by (erule broker_proto.cases) (auto simp: active_at_def)

lemma proto_release_active: "broker_proto env aps (LRelease i) b b' \<Longrightarrow> active_at b i"
  by (erule broker_proto.cases) (auto simp: active_at_def active_def)

lemma in_commit_active: "in_commit b fx \<Longrightarrow> active_at b (fx_id fx)"
  by (auto simp: in_commit_def active_at_def active_def)

lemma broker_inv_mono: "broker_inv env aps b \<Longrightarrow> set aps \<subseteq> set aps' \<Longrightarrow> broker_inv env aps' b"
  by (auto simp: broker_inv_def row_ok_def)

lemma authorized_mono: "authorized env aps c \<Longrightarrow> set aps \<subseteq> set aps' \<Longrightarrow> authorized env aps' c"
  by (auto simp: authorized_def split: option.splits)

lemma system_invD:
  assumes "system_inv env s"
  shows "broker_inv env (approvals s) (store s)"
    and "c \<in> fst ` set (waiting s) \<union> set (calling s) \<union> set (calls s) \<Longrightarrow> open_call env s c"
    and "c \<in> set (calling s) \<Longrightarrow> in_commit (store s) (call_effect c)"
    and "distinct (map call_id (calling s))"
    and "calls_of s i = count_list (undone s) i + (if active_at (store s) i then 1 else 0)"
  using assms unfolding system_inv_def by blast+

lemma open_call_move:
  assumes "open_call env s c" and "broker_proto env (approvals s') l (store s) (store s')"
    and "set (approvals s) \<subseteq> set (approvals s')"
  shows "open_call env s' c"
  using assms proto_current [OF assms(2)] authorized_mono [OF _ assms(3), of env c] by (simp add: open_call_def)

text \<open>A step that follows the protocol without claiming keeps the invariant.\<close>

lemma system_inv_move:
  assumes inv: "system_inv env s" and proto: "broker_proto env (approvals s') l (store s) (store s')"
    and l: "\<And>i. l \<noteq> LClaim i"
    and aps: "set (approvals s) \<subseteq> set (approvals s')"
    and calls: "calls s' = calls s"
    and waiting: "fst ` set (waiting s') \<subseteq> fst ` set (waiting s)"
    and calling: "\<And>c. c \<in> set (calling s') \<Longrightarrow>
        c \<in> set (calling s) \<and> l \<noteq> LFinal (call_id c) \<and> l \<noteq> LRelease (call_id c)"
    and dist: "distinct (map call_id (calling s'))"
    and undone: "undone s' = (case l of LRelease i \<Rightarrow> i # undone s | _ \<Rightarrow> undone s)"
  shows "system_inv env s'"
proof -
  note D = system_invD [OF inv]
  have "broker_inv env (approvals s') (store s')"
    by (rule proto_inv [OF proto broker_inv_mono [OF D(1) aps]])
  moreover have "open_call env s' c" if "c \<in> fst ` set (waiting s') \<union> set (calling s') \<union> set (calls s')" for c
    by (rule open_call_move [OF D(2) proto aps]) (use that waiting calling calls in auto)
  moreover have "in_commit (store s') (call_effect c)" if "c \<in> set (calling s')" for c
    using proto_in_commit [OF proto D(3)] calling [OF that] by blast
  moreover have "calls_of s' i = count_list (undone s') i + (if active_at (store s') i then 1 else 0)" for i
    using D(5) [of i] l proto_active [OF proto, of i] proto
    by (cases l) (auto simp: calls_of_def calls undone dest: proto_release_active)
  ultimately show ?thesis
    using dist by (auto simp: system_inv_def)
qed

lemma system_inv_claim:
  assumes inv: "system_inv env s" and c: "c \<in> fst ` set (waiting s)"
    and proto: "broker_proto env (approvals s) (LClaim (call_id c)) (store s) b'"
    and claimed: "in_commit b' (call_effect c)"
    and s': "store s' = b'" "approvals s' = approvals s" "calls s' = c # calls s"
      "calling s' = c # calling s" "undone s' = undone s" "set (waiting s') \<subseteq> set (waiting s)"
  shows "system_inv env s'"
proof -
  note D = system_invD [OF inv]
  have proto': "broker_proto env (approvals s') (LClaim (call_id c)) (store s) (store s')"
    using proto s' by simp
  have "broker_inv env (approvals s') (store s')"
    using proto_inv [OF proto D(1)] s' by simp
  moreover have "open_call env s' d" if "d \<in> fst ` set (waiting s') \<union> set (calling s') \<union> set (calls s')" for d
    by (rule open_call_move [OF D(2) proto']) (use that s' c in auto)
  moreover have "in_commit (store s') (call_effect d)" if "d \<in> set (calling s')" for d
    using that claimed proto_in_commit [OF proto D(3)] s' by auto
  moreover have "call_id c \<notin> set (map call_id (calling s))"
    using proto_claim_inactive [OF proto] in_commit_active [OF D(3)] by auto
  moreover have "calls_of s' i = count_list (undone s') i + (if active_at (store s') i then 1 else 0)" for i
    using D(5) [of i] proto_active [OF proto, of i] proto_claim_inactive [OF proto]
    by (auto simp: calls_of_def s')
  ultimately show ?thesis
    using D(4) s' by (auto simp: system_inv_def)
qed

lemma commit_gate_Proceed:
  assumes inv: "broker_inv env aps b" and "commit_gate env b i epoch lease_valid = GateProceed fx approval"
  shows "fx_id fx = i \<and> tbl_get (effects b) i \<noteq> None \<and> current b fx
    \<and> \<not> committing (phase fx) \<and> \<not> settled (phase fx)
    \<and> authorized env aps \<lparr> call_effect = fx, call_approval = approval, call_epoch = epoch,
                           call_lease_valid = lease_valid \<rparr>"
proof -
  from assms(2) obtain r where r: "tbl_get (effects b) i = Some r" "row_effect r = fx"
    and auth: "commit_authority b i fx = Ok approval"
    and hash: "contract_hash (hash_json env) (contract fx) = fx_contract_hash fx"
    and lease: "lease_valid (fx_lease fx)"
    and ap: "\<And>a. approval = Some a \<Longrightarrow> ap_contract_hash a = fx_contract_hash fx \<and> ap_policy_epoch a = epoch"
    by (auto simp: commit_gate_def load_effect_Ok Let_def
        split: sum.splits EffectPhase.splits option.splits if_splits)
  have row: "row_ok env aps i r"
    by (rule broker_invD(4) [OF inv r(1)])
  have ph: "\<not> committing (phase fx)" "\<not> settled (phase fx)"
    using auth by (cases "phase fx"; simp add: commit_authority_def)+
  have "(i, a) \<in> set aps" if "approval = Some a" for a
    using auth that row r
    by (auto simp: commit_authority_def load_column_def row_ok_def
        split: EffectPhase.splits option.splits if_splits)
  moreover have "effect_class (contract fx) \<notin> {Irreversible, OpaqueExternal}" if "approval = None"
    using auth that
    by (auto simp: commit_authority_def split: EffectPhase.splits sum.splits option.splits if_splits)
  ultimately show ?thesis
    using row r ph hash lease ap
    by (auto simp: authorized_def current_def row_ok_def split: option.splits)
qed

lemma claim_in_commit:
  assumes "broker_proto env aps (LClaim (fx_id fx)) b b'" and "current b fx"
  shows "in_commit b' fx"
  using assms(1) by cases (use assms(2) in \<open>auto simp: current_def in_commit_def\<close>)

lemma in_doubt_in_commit:
  assumes inv: "broker_inv env aps b" and "fx \<in> set (in_doubt_effects b)"
  shows "in_commit b fx"
proof -
  obtain i r where r: "(i, r) \<in> set (effects b)" "row_effect r = fx"
    and "eq_ignore_ascii_case (phase_name (phase fx)) ''committing''"
    using assms(2) by (auto simp: in_doubt_effects_def list_effects_def tbl_vals_def)
  then have "committing (phase fx)"
    by (cases "phase fx") (auto simp: eq_ignore_ascii_case_def ascii_lower_def)
  moreover have "tbl_get (effects b) i = Some r"
    using r(1) broker_invD(1) [OF inv] by (simp add: stores_ok_def tbl_in_set_iff)
  ultimately show ?thesis
    using broker_invD(4) [OF inv, of i r] r(2) by (auto simp: in_commit_def row_ok_def)
qed

text \<open>A step that leaves the calls in flight alone and changes the store by the protocol or not at all.\<close>

lemma system_inv_quiet:
  assumes inv: "system_inv env s"
    and "store s' = store s \<or> broker_proto env (approvals s') l (store s) (store s')"
    and l: "case l of LNew _ \<Rightarrow> True | LQuiet _ \<Rightarrow> True | LComp _ \<Rightarrow> True | _ \<Rightarrow> False"
    and s': "set (approvals s) \<subseteq> set (approvals s')" "calls s' = calls s" "undone s' = undone s"
      "fst ` set (waiting s') \<subseteq> fst ` set (waiting s)" "calling s' = calling s"
  shows "system_inv env s'"
proof -
  have "\<exists>l. broker_proto env (approvals s') l (store s) (store s') \<and>
      (case l of LIdle \<Rightarrow> True | LNew _ \<Rightarrow> True | LQuiet _ \<Rightarrow> True | LComp _ \<Rightarrow> True | _ \<Rightarrow> False)"
    using assms(2)
  proof
    assume "store s' = store s"
    then show ?thesis
      using proto_idle [of env "approvals s'" "store s"] by (intro exI [of _ LIdle]) simp
  next
    assume "broker_proto env (approvals s') l (store s) (store s')"
    with l show ?thesis
      by (intro exI [of _ l]) (cases l; simp)
  qed
  then obtain l' where l': "broker_proto env (approvals s') l' (store s) (store s')"
      "case l' of LIdle \<Rightarrow> True | LNew _ \<Rightarrow> True | LQuiet _ \<Rightarrow> True | LComp _ \<Rightarrow> True | _ \<Rightarrow> False"
    by blast
  show ?thesis
    by (rule system_inv_move [OF inv l'(1)])
       (use l'(2) s' system_invD(4) [OF inv] in \<open>auto split: label.splits\<close>)
qed

text \<open>A step that ends the commit of effect \<open>i\<close>, in flight or in doubt.\<close>

lemma system_inv_end:
  assumes inv: "system_inv env s"
    and proto: "if refuted then broker_proto env (approvals s) (LRelease i) (store s) (store s')
        else store s' = store s \<or> broker_proto env (approvals s) (LFinal i) (store s) (store s')"
    and s': "approvals s' = approvals s" "calls s' = calls s" "waiting s' = waiting s"
      "undone s' = (if refuted then i # undone s else undone s)"
    and calling: "set (calling s') \<subseteq> set (calling s)" "i \<notin> set (map call_id (calling s'))"
      "distinct (map call_id (calling s'))"
  shows "system_inv env s'"
proof -
  obtain l where l: "broker_proto env (approvals s') l (store s) (store s')"
    "l = (if refuted then LRelease i else if store s' = store s then LIdle else LFinal i)"
    using proto s'(1) proto_idle [of env "approvals s" "store s"] by (cases refuted) auto
  show ?thesis
    by (rule system_inv_move [OF inv l(1)]) (use l(2) s' calling in \<open>auto split: if_splits\<close>)
qed

lemma waiting_current:
  assumes "system_inv env s" and "(c, reprepared) \<in> set (waiting s)"
  shows "current (store s) (call_effect c)"
  using system_invD(2) [OF assms(1), of c] assms(2) by (force simp: open_call_def)

lemma enter_refused_inv:
  assumes inv: "system_inv env s" and c: "(c, reprepared) \<in> set (waiting s)"
    and enter: "commit_enter env (store s) (call_id c) (call_effect c) reprepared now = (b', Err e)"
  shows "system_inv env (s\<lparr> store := b', waiting := remove1 (c, reprepared) (waiting s) \<rparr>)"
  using commit_enter_refines [OF system_invD(1) [OF inv] waiting_current [OF inv c] enter]
    set_remove1_subset [of "(c, reprepared)" "waiting s"]
  by (intro system_inv_quiet [OF inv, where l = "LQuiet (call_id c)"]) auto

lemma enter_inv:
  assumes inv: "system_inv env s" and c: "(c, reprepared) \<in> set (waiting s)"
    and enter: "commit_enter env (store s) (call_id c) (call_effect c) reprepared now = (b', Ok u)"
  shows "system_inv env (s\<lparr> store := b', waiting := remove1 (c, reprepared) (waiting s),
          calling := c # calling s, calls := c # calls s \<rparr>)"
proof -
  have proto: "broker_proto env (approvals s) (LClaim (call_id c)) (store s) b'"
    using commit_enter_refines [OF system_invD(1) [OF inv] waiting_current [OF inv c] enter] by simp
  have "c \<in> fst ` set (waiting s)"
    using c by force
  then show ?thesis
    by (rule system_inv_claim [OF inv _ proto claim_in_commit [OF proto waiting_current [OF inv c]]])
       (simp_all add: set_remove1_subset)
qed

lemma return_inv:
  assumes inv: "system_inv env s" and c: "c \<in> set (calling s)"
    and call: "commit_call env (world s) (store s) (call_effect c) conn (call_approval c) (call_epoch c)
         now new_id = (w', b', res)"
  shows "system_inv env (s\<lparr> world := w', store := b', calling := remove1 c (calling s),
          undone := (if call_refuted conn (world s) (contract (call_effect c))
                     then call_id c # undone s else undone s) \<rparr>)"
proof -
  have prior: "\<not> committing (phase (call_effect c))" "\<not> settled (phase (call_effect c))"
    using system_invD(2) [OF inv, of c] c by (auto simp: open_call_def)
  have dist: "distinct (calling s)" "inj_on call_id (set (calling s))"
    using system_invD(4) [OF inv] by (simp_all add: distinct_map)
  have "set (remove1 c (calling s)) = set (calling s) - {c}"
    by (rule set_remove1_eq [OF dist(1)])
  moreover have "call_id c \<notin> call_id ` (set (calling s) - {c})"
    using dist(2) c by (auto simp: inj_on_def)
  moreover have "distinct (map call_id (remove1 c (calling s)))"
    using dist by (auto simp: distinct_map intro: inj_on_subset)
  ultimately show ?thesis
    using commit_call_refines [OF system_invD(1) [OF inv] system_invD(3) [OF inv c] prior call]
    by (intro system_inv_end [OF inv, where i = "call_id c" and
          refuted = "call_refuted conn (world s) (contract (call_effect c))"]) auto
qed

lemma step_inv:
  assumes "broker_step env s s'" and inv: "system_inv env s"
  shows "system_inv env s'"
  using assms(1)
proof cases
  case (step_propose c who branch step lease now new_id b' res)
  then show ?thesis
    using propose_refines [OF system_invD(1) [OF inv] step_propose(2)]
    by (intro system_inv_quiet [OF inv, where l = "LNew new_id"]) auto
next
  case (step_prepare i w' b' res)
  then show ?thesis
    using prepare_refines [OF system_invD(1) [OF inv] step_prepare(2)]
    by (intro system_inv_quiet [OF inv, where l = "LQuiet i"]) auto
next
  case (step_approve i who epoch now b' u)
  then obtain a where "stored_approval b' i = Some a"
      "broker_proto env (approvals s @ [(i, a)]) (LQuiet i) (store s) b'"
    using approve_refines [OF system_invD(1) [OF inv] step_approve(2)] by blast
  then show ?thesis
    by (intro system_inv_quiet [OF inv, where l = "LQuiet i"]) (auto simp: step_approve(1))
next
  case (step_abort i reason b' res)
  then show ?thesis
    using abort_refines [OF system_invD(1) [OF inv] step_abort(2)]
    by (intro system_inv_quiet [OF inv, where l = "LQuiet i"]) auto
next
  case (step_compensate i now new_id w' b' res)
  then show ?thesis
    using compensate_refines [OF system_invD(1) [OF inv] step_compensate(2)]
    by (intro system_inv_quiet [OF inv, where l = "LComp i"]) auto
next
  case (step_commit_stale i epoch lease_valid reason b' res)
  then show ?thesis
    using stale_refines [OF system_invD(1) [OF inv] step_commit_stale(3)]
    by (intro system_inv_quiet [OF inv, where l = "LQuiet i"]) auto
next
  case (step_commit_gate i epoch lease_valid fx approval conn w' reprepared)
  then show ?thesis
    using commit_gate_Proceed [OF system_invD(1) [OF inv] step_commit_gate(2)] system_invD [OF inv]
    by (auto simp: system_inv_def open_call_def calls_of_def)
next
  case (step_commit_refused c reprepared now b' e)
  then show ?thesis
    using enter_refused_inv [OF inv] by blast
next
  case (step_commit_enter c reprepared now b' u)
  then show ?thesis
    using enter_inv [OF inv] by blast
next
  case (step_commit_return c conn now new_id w' b' res)
  then show ?thesis
    using return_inv [OF inv step_commit_return(2,4)] by blast
next
  case (step_recover fx now new_id w' b' res)
  then show ?thesis
    using recover_one_refines [OF system_invD(1) [OF inv]
        in_doubt_in_commit [OF system_invD(1) [OF inv] step_recover(2)] step_recover(4)]
      system_invD(4) [OF inv]
    by (intro system_inv_end [OF inv, where i = "fx_id fx" and refuted = "res = ResolvedAborted"])
       (auto simp: in_call_def)
next
  case (step_resolve i outcome now new_id b' res)
  then show ?thesis
    using resolve_in_doubt_refines [OF system_invD(1) [OF inv] step_resolve(3)] system_invD(4) [OF inv]
    by (intro system_inv_end [OF inv, where i = i and refuted = "res = Ok None"])
       (auto simp: in_call_def)
next
  case step_crash
  then show ?thesis
    using inv by (auto simp: system_inv_def open_call_def calls_of_def)
next
  case (step_world w')
  then show ?thesis
    using inv by (simp add: system_inv_def open_call_def calls_of_def)
qed

lemma run_inv: "broker_run env s \<Longrightarrow> system_inv env s"
proof (induction rule: broker_run.induct)
  case (run_start w)
  then show ?case
    by (simp add: system_inv_def start_system_def empty_broker_def broker_inv_def stores_ok_def claims_ok_def
        holds_claim_def is_committing_def receipts_ok_def calls_of_def active_at_def)
next
  case (run_step s s')
  then show ?case
    using step_inv by blast
qed

section \<open>A concrete run\<close>

definition demo_prepared :: Broker where
  "demo_prepared = demo_prepare ''e1'' (demo_propose Irreversible ''e1'' empty_broker)"

definition demo_approved :: Broker where
  "demo_approved = fst (approve demo_prepared ''e1'' ''boss'' 7 2)"

definition demo_call :: CommitCall where
  "demo_call = (case commit_gate demo_env demo_approved ''e1'' 7 (\<lambda>i. i = ''le'') of
     GateProceed fx a \<Rightarrow> \<lparr> call_effect = fx, call_approval = a, call_epoch = 7,
                          call_lease_valid = (\<lambda>i. i = ''le'') \<rparr>)"

definition demo_claimed :: Broker where
  "demo_claimed = fst (commit_enter demo_env demo_approved ''e1'' (call_effect demo_call)
     \<lparr> preview = JNull, observed_preconditions = JObj [] \<rparr> 3)"

definition demo_committed :: Broker where
  "demo_committed = fst (snd (commit_call demo_env [] demo_claimed (call_effect demo_call) demo_connector
     (call_approval demo_call) (call_epoch demo_call) 4 ''r1''))"

definition demo_flying :: "string list System" where
  "demo_flying = (start_system [])\<lparr> store := demo_claimed, calling := [demo_call], calls := [demo_call],
     approvals := [(''e1'', the (stored_approval demo_approved ''e1''))] \<rparr>"

definition demo_done :: "string list System" where
  "demo_done = demo_flying\<lparr> world := [''k''], store := demo_committed, calling := [] \<rparr>"

lemma current_contract:
  assumes "current b fx" and "tbl_get (effects b) (fx_id fx) = Some r"
  shows "contract (row_effect r) = contract fx"
  using assms core_eqD(2) [of "row_effect r" fx] by (simp add: current_def)

lemma in_commit_key:
  assumes inv: "broker_inv env aps b" and fx: "in_commit b fx"
  shows "is_committing b (idempotency_key (contract fx)) (fx_id fx)"
proof -
  obtain r where r: "tbl_get (effects b) (fx_id fx) = Some r" "core (row_effect r) = core fx" "committing (row_state r)"
    using fx by (auto simp: in_commit_def)
  then show ?thesis
    using broker_invD(4) [OF inv r(1)] core_eqD(2) [OF r(2)] by (simp add: is_committing_def row_ok_def)
qed

lemma demo_gate:
  "commit_gate demo_env demo_approved ''e1'' 7 (\<lambda>i. i = ''le'')
     = GateProceed (call_effect demo_call) (call_approval demo_call)"
  by code_simp

lemma demo_call_facts:
  "call_epoch demo_call = 7" "call_id demo_call = ''e1''"
  "operation (contract (call_effect demo_call)) = ''gh.merge''"
  "phase (call_effect demo_call) = Approved ''boss'' 2 7"
  by code_simp+

lemma demo_call_lease: "call_lease_valid demo_call = (\<lambda>i. i = ''le'')"
proof -
  have "\<exists>fx a. commit_gate demo_env demo_approved ''e1'' 7 (\<lambda>i. i = ''le'') = GateProceed fx a"
    using demo_gate by blast
  then show ?thesis
    by (auto simp: demo_call_def)
qed

lemma demo_call_eta:
  "\<lparr> call_effect = call_effect demo_call, call_approval = call_approval demo_call, call_epoch = 7,
      call_lease_valid = (\<lambda>i. i = ''le'') \<rparr> = demo_call"
  by (rule CommitCall.equality) (simp_all add: demo_call_facts demo_call_lease)

lemma demo_connector_for: "connector_for demo_env ''gh.merge'' = Ok demo_connector"
  by (simp add: connector_for_def demo_env_def)

lemma demo_approve: "approve demo_prepared ''e1'' ''boss'' 7 2 = (demo_approved, Ok ())"
proof -
  have "snd (approve demo_prepared ''e1'' ''boss'' 7 2) = Ok ()"
    by code_simp
  then show ?thesis
    by (simp add: demo_approved_def prod_eq_iff)
qed

lemma demo_enter:
  "commit_enter demo_env demo_approved ''e1'' (call_effect demo_call)
     \<lparr> preview = JNull, observed_preconditions = JObj [] \<rparr> 3 = (demo_claimed, Ok ())"
proof -
  have "snd (commit_enter demo_env demo_approved ''e1'' (call_effect demo_call)
     \<lparr> preview = JNull, observed_preconditions = JObj [] \<rparr> 3) = Ok ()"
    by code_simp
  then show ?thesis
    by (simp add: demo_claimed_def prod_eq_iff)
qed

lemma demo_prepare_step:
  "\<exists>res. prepare demo_env [] (demo_propose Irreversible ''e1'' empty_broker) ''e1'' = ([], demo_prepared, res)"
proof -
  have "fst (prepare demo_env [] (demo_propose Irreversible ''e1'' empty_broker) ''e1'') = []"
    by code_simp
  then show ?thesis
    by (simp add: demo_prepared_def demo_prepare_def prod_eq_iff)
qed

lemma demo_flying_run: "broker_run demo_env demo_flying"
proof -
  let ?s1 = "(start_system [] :: string list System)\<lparr> store := demo_propose Irreversible ''e1'' empty_broker \<rparr>"
  let ?s2 = "(start_system [] :: string list System)\<lparr> store := demo_prepared \<rparr>"
  let ?s3 = "?s2\<lparr> store := demo_approved, approvals := [(''e1'', the (stored_approval demo_approved ''e1''))] \<rparr>"
  let ?rp = "\<lparr> preview = JNull, observed_preconditions = JObj [] \<rparr>"
  have "broker_step demo_env (start_system []) ?s1"
    using step_propose [of demo_env "start_system []" "demo_contract Irreversible" "''who''" "''br''" "''st''" "''le''" 1 "''e1''"]
    by (simp add: demo_propose_def start_system_def prod_eq_iff)
  then have "broker_run demo_env ?s1"
    by (rule run_step [OF run_start])
  moreover have "broker_step demo_env ?s1 ?s2"
    using step_prepare [of demo_env ?s1 "''e1''" "[]" demo_prepared] demo_prepare_step
    by (auto simp: start_system_def)
  ultimately have "broker_run demo_env ?s2"
    by (rule run_step)
  moreover have "broker_step demo_env ?s2 ?s3"
    using step_approve [of ?s2 "''e1''" "''boss''" 7 2 demo_approved "()" demo_env] demo_approve
    by (simp add: start_system_def)
  ultimately have "broker_run demo_env ?s3"
    by (rule run_step)
  moreover have "broker_step demo_env ?s3 (?s3\<lparr> waiting := [(demo_call, ?rp)] \<rparr>)"
    using step_commit_gate [of demo_env ?s3, simplified, OF demo_gate, of demo_connector "[]" ?rp]
      demo_connector_for demo_call_facts
    by (simp add: start_system_def demo_connector_def demo_call_eta)
  ultimately have "broker_run demo_env (?s3\<lparr> waiting := [(demo_call, ?rp)] \<rparr>)"
    by (rule run_step)
  moreover have "broker_step demo_env (?s3\<lparr> waiting := [(demo_call, ?rp)] \<rparr>) demo_flying"
    using step_commit_enter [of demo_call ?rp "?s3\<lparr> waiting := [(demo_call, ?rp)] \<rparr>" demo_env 3 demo_claimed "()"]
      demo_enter demo_call_facts
    by (simp add: start_system_def demo_flying_def)
  ultimately show ?thesis
    by (rule run_step)
qed

lemma demo_done_run: "broker_run demo_env demo_done"
proof -
  have refuted: "\<not> call_refuted demo_connector [] c" for c
    by (simp add: call_refuted_def demo_connector_def)
  have "fst (commit_call demo_env [] demo_claimed (call_effect demo_call) demo_connector
      (call_approval demo_call) (call_epoch demo_call) 4 ''r1'') = [''k'']"
    by code_simp
  then have "commit_call demo_env [] demo_claimed (call_effect demo_call) demo_connector
      (call_approval demo_call) (call_epoch demo_call) 4 ''r1'' = ([''k''], demo_committed,
      snd (snd (commit_call demo_env [] demo_claimed (call_effect demo_call) demo_connector
      (call_approval demo_call) (call_epoch demo_call) 4 ''r1'')))"
    by (simp add: demo_committed_def prod_eq_iff)
  then have "broker_step demo_env demo_flying demo_done"
    using step_commit_return [of demo_call demo_flying demo_env demo_connector 4 "''r1''" "[''k'']" demo_committed]
      demo_connector_for demo_call_facts
    by (simp add: demo_flying_def demo_done_def start_system_def refuted)
  then show ?thesis
    by (rule run_step [OF demo_flying_run])
qed

section \<open>Properties\<close>



text \<open>
  C17. Every external commit is authorized: the contract still hashes to what was proposed, the
  lease was valid, and an irreversible or opaque effect carries an approval that was given for
  this effect, for this contract hash and under the policy epoch of the commit.
\<close>

theorem external_commits_authorized:
  assumes "broker_run env s" and "c \<in> set (calls s)"
  shows "contract_hash (hash_json env) (contract (call_effect c)) = fx_contract_hash (call_effect c)
    \<and> call_lease_valid c (fx_lease (call_effect c))
    \<and> (case call_approval c of
         None \<Rightarrow> effect_class (contract (call_effect c)) \<notin> {Irreversible, OpaqueExternal}
       | Some a \<Rightarrow> ap_contract_hash a = fx_contract_hash (call_effect c)
           \<and> ap_policy_epoch a = call_epoch c \<and> (call_id c, a) \<in> set (approvals s))"
  using system_invD(2) [OF run_inv [OF assms(1)], of c] assms(2)
  by (simp add: open_call_def authorized_def)

theorem external_commits_authorized_witness:
  "broker_run demo_env demo_flying \<and> demo_call \<in> set (calls demo_flying)
   \<and> call_lease_valid demo_call (fx_lease (call_effect demo_call))"
  using external_commits_authorized [OF demo_flying_run, of demo_call] demo_flying_run
  by (simp add: demo_flying_def)



text \<open>
  Commits exclude each other per key: of all the external calls in flight at any moment, no
  two carry the same idempotency key.
\<close>

theorem calls_in_flight_exclusive:
  assumes "broker_run env s" and "c \<in> set (calling s)" and "c' \<in> set (calling s)"
    and "idempotency_key (contract (call_effect c)) = idempotency_key (contract (call_effect c'))"
  shows "c = c'"
proof -
  note inv = run_inv [OF assms(1)]
  note b = system_invD(1) [OF inv]
  have holds: "holds_claim (store s) (idempotency_key (contract (call_effect d))) (call_id d)"
    if "d \<in> set (calling s)" for d
    using in_commit_key [OF b system_invD(3) [OF inv that]] broker_invD(2) [OF b] by (simp add: claims_ok_def)
  have "call_id c = call_id c'"
    using holds [OF assms(2)] holds [OF assms(3)] assms(4) by (auto simp: holds_claim_def)
  then show ?thesis
    using system_invD(4) [OF inv] assms(2,3) by (auto simp: distinct_map inj_on_def)
qed

theorem calls_in_flight_exclusive_witness:
  "broker_run demo_env demo_flying \<and> hd (calling demo_flying) = demo_call"
  using calls_in_flight_exclusive [OF demo_flying_run, of "hd (calling demo_flying)" demo_call] demo_flying_run
  by (simp add: demo_flying_def)



text \<open>
  Retrying a commit is idempotent: once an effect is committed, a further commit changes
  neither the world nor the store and returns the receipt recorded for the effect, under any
  epoch and whatever became of the lease.
\<close>

theorem commit_retry_idempotent:
  assumes "broker_run env s" and "tbl_get (effects (store s)) i = Some r" and "row_state r = Committed j"
  shows "\<exists>rr. tbl_get (receipts (store s)) j = Some rr \<and> rr_effect rr = i
    \<and> commit env w (store s) i epoch lease_valid claim_time now new_id = (w, store s, Ok (rr_receipt rr))"
proof -
  obtain rr where rr: "tbl_get (receipts (store s)) j = Some rr" "rr_effect rr = i"
    using receipts_okD(3) [OF broker_invD(3) [OF system_invD(1) [OF run_inv [OF assms(1)]]] assms(2,3)] by blast
  then show ?thesis
    using assms(2,3) by (simp add: commit_def commit_gate_def load_effect_def get_receipt_row_def)
qed

theorem commit_retry_idempotent_witness:
  "\<exists>r. tbl_get (effects (store demo_done)) ''e1'' = Some r \<and> row_state r = Committed ''r1''
     \<and> fst (commit demo_env [''k''] (store demo_done) ''e1'' 9 (\<lambda>_. False) 5 6 ''r2'') = [''k'']"
proof -
  have "map_option row_state (tbl_get (effects demo_committed) ''e1'') = Some (Committed ''r1'')"
    by code_simp
  then obtain r where "tbl_get (effects (store demo_done)) ''e1'' = Some r" "row_state r = Committed ''r1''"
    by (auto simp: demo_done_def)
  then show ?thesis
    using commit_retry_idempotent [OF demo_done_run, of "''e1''" r "''r1''" "[''k'']" 9 "\<lambda>_. False" 5 6 "''r2''"] by auto
qed

text \<open>
  Sharing an idempotency key does not prevent a second external execution: two effects
  proposed under one key and committed one after the other both reach the external system; the
  second commit then fails on the receipt index and leaves its effect in \<open>committing\<close>.
\<close>

theorem shared_key_commits_twice:
  "let b = demo_prepare ''e2'' (demo_prepare ''e1'' (demo_propose RemoteReversible ''e2''
             (demo_propose RemoteReversible ''e1'' empty_broker)));
       (w1, b1, r1) = commit demo_env [] b ''e1'' 0 (\<lambda>_. True) 2 3 ''r1'';
       (w2, b2, r2) = commit demo_env w1 b1 ''e2'' 0 (\<lambda>_. True) 4 5 ''r2''
   in is_ok r1 \<and> \<not> is_ok r2 \<and> w2 = [''k'', ''k'']
      \<and> map_option row_phase (tbl_get (effects b2) ''e2'') = Some ''committing''"
  by code_simp

text \<open>
  Two overlapping \<open>prepare\<close> calls of one effect can execute it twice: the slower call
  writes back the effect it had loaded before the commit, which puts the committed effect back
  to \<open>prepared\<close>; committing it again reaches the external system a second time.
\<close>

theorem overlapping_prepare_commits_twice:
  "let b = demo_propose RemoteReversible ''e1'' empty_broker;
       slow = (case prepare_begin demo_env b ''e1'' of Ok (fx, _) \<Rightarrow> Some fx | Err _ \<Rightarrow> None);
       (w1, b1, r1) = commit demo_env [] (demo_prepare ''e1'' b) ''e1'' 0 (\<lambda>_. True) 2 3 ''r1'';
       b2 = prepare_finish ''e1'' (the slow) \<lparr> preview = JNull, observed_preconditions = JObj [] \<rparr> b1;
       (w3, b3, r3) = commit demo_env w1 b2 ''e1'' 0 (\<lambda>_. True) 4 5 ''r2''
   in is_ok r1 \<and> w3 = [''k'', ''k'']"
  by code_simp

end
