(* ===== verification/Cas.thy ===== *)
theory Cas
  imports KernelTypes Strings Base64
begin

text \<open>
  The content-addressed store of kernel/state_dag/src/cas.rs: a table from content hashes to
  blobs. \<open>sha\<close> is \<open>hash_bytes\<close>, a parameter. The interface \<open>content_store\<close> is what the state DAG
  relies on; the store provides it for every set of documents the digest does not confuse.
\<close>

section \<open>The store\<close>

type_synonym bytes = "byte list"
type_synonym cas = "(string, bytes) table"

definition ascii_hexdigit :: "char \<Rightarrow> bool" where
  "ascii_hexdigit c =
     (let n = of_char c :: nat in 48 \<le> n \<and> n \<le> 57 \<or> 65 \<le> n \<and> n \<le> 70 \<or> 97 \<le> n \<and> n \<le> 102)"

definition hex_of :: "string \<Rightarrow> string KernelResult" where
  "hex_of h =
     (case strip_prefix ''sha256:'' h of
        Some x \<Rightarrow> if length x = 64 \<and> list_all ascii_hexdigit x then Ok x
                  else Err (Storage (''malformed content hash `'' @ h @ ''`''))
      | None \<Rightarrow> Err (Storage (''malformed content hash `'' @ h @ ''`'')))"

definition cas_put :: "(bytes \<Rightarrow> string) \<Rightarrow> cas \<Rightarrow> bytes \<Rightarrow> cas \<times> string KernelResult" where
  "cas_put sha c b =
     (case hex_of (sha b) of
        Err e \<Rightarrow> (c, Err e)
      | Ok _ \<Rightarrow> (if tbl_get c (sha b) = None then c @ [(sha b, b)] else c, Ok (sha b)))"

definition cas_get :: "(bytes \<Rightarrow> string) \<Rightarrow> cas \<Rightarrow> string \<Rightarrow> bytes KernelResult" where
  "cas_get sha c h =
     (case hex_of h of
        Err e \<Rightarrow> Err e
      | Ok _ \<Rightarrow>
        (case tbl_get c h of
           None \<Rightarrow> Err (NotFound ''blob'' h)
         | Some b \<Rightarrow>
             if sha b \<noteq> h
             then Err (Storage (''corrupt CAS blob: expected '' @ h @ '', content hashes to '' @ sha b))
             else Ok b))"

definition cas_contains :: "cas \<Rightarrow> string \<Rightarrow> bool KernelResult" where
  "cas_contains c h = (case hex_of h of Err e \<Rightarrow> Err e | Ok _ \<Rightarrow> Ok (tbl_get c h \<noteq> None))"

definition cas_remove :: "cas \<Rightarrow> string \<Rightarrow> cas \<times> unit KernelResult" where
  "cas_remove c h = (case hex_of h of Err e \<Rightarrow> (c, Err e) | Ok _ \<Rightarrow> (tbl_delete h c, Ok ()))"

definition cas_list :: "cas \<Rightarrow> string list" where
  "cas_list c = map fst c"

section \<open>The interface\<close>

text \<open>
  A content store over the documents \<open>known\<close>: what was stored is fetched under its address,
  storing a document disturbs no other, and dropping one address affects that address alone.
\<close>

locale content_store =
  fixes addr :: "'b \<Rightarrow> 'h" and keep :: "'c \<Rightarrow> 'b \<Rightarrow> 'c" and fetch :: "'c \<Rightarrow> 'h \<Rightarrow> 'b option"
    and drop_at :: "'c \<Rightarrow> 'h \<Rightarrow> 'c" and ok :: "'c \<Rightarrow> bool" and known :: "'b \<Rightarrow> bool"
  assumes fetch_keep: "ok c \<Longrightarrow> known b \<Longrightarrow> fetch (keep c b) h = (if h = addr b then Some b else fetch c h)"
    and ok_keep: "ok c \<Longrightarrow> known b \<Longrightarrow> ok (keep c b)"
    and fetch_drop: "ok c \<Longrightarrow> fetch (drop_at c h) h' = (if h' = h then None else fetch c h')"
    and ok_drop: "ok c \<Longrightarrow> ok (drop_at c h)"
    and fetch_addr: "ok c \<Longrightarrow> fetch c h = Some b \<Longrightarrow> h = addr b"
begin

lemma fetch_stable:
  assumes "ok c" and "known b" and "fetch c h = Some d"
  shows "fetch (keep c b) h = Some d \<or> h = addr b"
  using assms by (simp add: fetch_keep)

lemma ok_keep_all: "ok c \<Longrightarrow> \<forall>b \<in> set bs. known b \<Longrightarrow> ok (foldl keep c bs)"
  by (induction bs arbitrary: c) (simp_all add: ok_keep)

lemma ok_drop_all: "ok c \<Longrightarrow> ok (foldl drop_at c hs)"
  by (induction hs arbitrary: c) (simp_all add: ok_drop)

lemma fetch_drop_all:
  "ok c \<Longrightarrow> fetch (foldl drop_at c hs) h = (if h \<in> set hs then None else fetch c h)"
  by (induction hs arbitrary: c) (auto simp: fetch_drop ok_drop)

end

definition wellformed_hash :: "(bytes \<Rightarrow> string) \<Rightarrow> bool" where
  "wellformed_hash sha = (\<forall>b. is_ok (hex_of (sha b)))"

definition cas_ok :: "(bytes \<Rightarrow> string) \<Rightarrow> bytes set \<Rightarrow> cas \<Rightarrow> bool" where
  "cas_ok sha docs c =
     (wellformed_hash sha \<and> inj_on sha docs \<and> tbl_ok c
      \<and> (\<forall>h b. tbl_get c h = Some b \<longrightarrow> sha b = h \<and> b \<in> docs))"

definition cas_fetch :: "(bytes \<Rightarrow> string) \<Rightarrow> cas \<Rightarrow> string \<Rightarrow> bytes option" where
  "cas_fetch sha c h = (case cas_get sha c h of Ok b \<Rightarrow> Some b | Err _ \<Rightarrow> None)"

lemma cas_ok_row:
  assumes "cas_ok sha docs c" and "tbl_get c h = Some b"
  shows "sha b = h" and "b \<in> docs" and "\<exists>x. hex_of h = Ok x"
proof -
  show "sha b = h" and "b \<in> docs"
    using assms by (auto simp: cas_ok_def)
  then show "\<exists>x. hex_of h = Ok x"
    using assms(1) by (auto simp: cas_ok_def wellformed_hash_def is_ok_iff)
qed

lemma cas_fetch_get: "cas_ok sha docs c \<Longrightarrow> cas_fetch sha c h = tbl_get c h"
  by (cases "tbl_get c h")
     (auto simp: cas_fetch_def cas_get_def dest: cas_ok_row split: sum.splits)

lemma cas_put_fst:
  "wellformed_hash sha \<Longrightarrow>
     cas_put sha c b = (if tbl_get c (sha b) = None then c @ [(sha b, b)] else c, Ok (sha b))"
  by (auto simp: cas_put_def wellformed_hash_def is_ok_iff split: sum.splits) (metis sum.distinct(1))+

interpretation cas: content_store sha "\<lambda>c b. fst (cas_put sha c b)" "cas_fetch sha"
    "\<lambda>c h. tbl_delete h c" "cas_ok sha docs" "\<lambda>b. b \<in> docs" for sha docs
proof
  fix c b h h'
  assume ok: "cas_ok sha docs c"
  then have wf: "wellformed_hash sha"
    by (simp add: cas_ok_def)
  show drop: "cas_ok sha docs (tbl_delete h c)"
    using ok by (auto simp: cas_ok_def split: if_splits)
  show "cas_fetch sha (tbl_delete h c) h' = (if h' = h then None else cas_fetch sha c h')"
    by (simp add: cas_fetch_get [OF ok] cas_fetch_get [OF drop])
  show "cas_fetch sha c h = Some b \<Longrightarrow> h = sha b"
    using ok by (auto simp: cas_fetch_get [OF ok] cas_ok_def)
  assume b: "b \<in> docs"
  show keep: "cas_ok sha docs (fst (cas_put sha c b))"
    using ok b by (auto simp: cas_put_fst [OF wf] cas_ok_def split: if_splits)
  show "cas_fetch sha (fst (cas_put sha c b)) h = (if h = sha b then Some b else cas_fetch sha c h)"
    unfolding cas_fetch_get [OF keep] cas_fetch_get [OF ok] using ok b
    by (auto simp: cas_put_fst [OF wf] cas_ok_def inj_on_def)
qed

end
