(* ===== verification/FileTree.thy ===== *)
theory FileTree
  imports Cas StateSync
begin

text \<open>
  Directory trees as \<open>std::fs\<close> presents them to the snapshot code: files with bytes, permission bits
  and modification time, directories, symbolic links. Lookup by path, \<open>create_dir_all\<close>, writing a
  file, and the leaves of a tree, which is the view the snapshot lemmas are stated in.
\<close>

section \<open>Trees\<close>

datatype fsnode = File bytes u32 instant | Dir "(string \<times> fsnode) list" | Link string

type_synonym forest = "(string \<times> fsnode) list"

fun lookup :: "string list \<Rightarrow> forest \<Rightarrow> fsnode option" where
  "lookup [] f = Some (Dir f)"
| "lookup (n # ns) f =
     (case map_of f n of
        None \<Rightarrow> None
      | Some (Dir g) \<Rightarrow> lookup ns g
      | Some x \<Rightarrow> (if ns = [] then Some x else None))"

text \<open>\<open>fs::create_dir_all\<close>: every missing component becomes a directory; anything else on the way is an error.\<close>

fun create_dir_all :: "string list \<Rightarrow> forest \<Rightarrow> forest KernelResult" where
  "create_dir_all [] f = Ok f"
| "create_dir_all (n # ns) f =
     (case map_of f n of
        None \<Rightarrow> (case create_dir_all ns [] of Err e \<Rightarrow> Err e | Ok g \<Rightarrow> Ok (f @ [(n, Dir g)]))
      | Some (Dir g) \<Rightarrow> (case create_dir_all ns g of Err e \<Rightarrow> Err e | Ok g' \<Rightarrow> Ok (tbl_update n (\<lambda>_. Dir g') f))
      | Some _ \<Rightarrow> Err (Io ''File exists''))"

text \<open>Replacing the node at a path whose parent is a directory.\<close>

fun put_node :: "string list \<Rightarrow> fsnode \<Rightarrow> forest \<Rightarrow> forest" where
  "put_node [] x f = f"
| "put_node [n] x f = (if map_of f n = None then f @ [(n, x)] else tbl_update n (\<lambda>_. x) f)"
| "put_node (n # m # ns) x f =
     (case map_of f n of Some (Dir g) \<Rightarrow> tbl_update n (\<lambda>_. Dir (put_node (m # ns) x g)) f | _ \<Rightarrow> f)"

section \<open>Leaves\<close>

fun is_dir :: "fsnode \<Rightarrow> bool" where
  "is_dir (Dir _) = True"
| "is_dir _ = False"

definition leaf_at :: "forest \<Rightarrow> string list \<Rightarrow> fsnode option" where
  "leaf_at f p = (case lookup p f of Some x \<Rightarrow> if is_dir x then None else Some x | None \<Rightarrow> None)"

definition dir_at :: "forest \<Rightarrow> string list \<Rightarrow> bool" where
  "dir_at f p = (case lookup p f of Some x \<Rightarrow> is_dir x | None \<Rightarrow> False)"

lemma leaf_at_Nil [simp]: "leaf_at f [] = None"
  by (simp add: leaf_at_def)

lemma leaf_at_Cons:
  "leaf_at f (n # ns) =
     (case map_of f n of
        None \<Rightarrow> None
      | Some (Dir g) \<Rightarrow> leaf_at g ns
      | Some x \<Rightarrow> (if ns = [] then Some x else None))"
  by (simp add: leaf_at_def split: option.splits fsnode.splits)

lemma dir_at_Nil [simp]: "dir_at f []"
  by (simp add: dir_at_def)

lemma dir_at_Cons:
  "dir_at f (n # ns) = (case map_of f n of Some (Dir g) \<Rightarrow> dir_at g ns | _ \<Rightarrow> False)"
  by (simp add: dir_at_def split: option.splits fsnode.splits)

lemma leaf_at_empty [simp]: "leaf_at [] p = None"
  by (cases p) (simp_all add: leaf_at_Cons)

lemma dir_at_empty [simp]: "dir_at [] p = (p = [])"
  by (cases p) (simp_all add: dir_at_Cons)

lemma map_of_tbl_update:
  "map_of (tbl_update k f t) k' = (if k' = k then map_option f (map_of t k') else map_of t k')"
  using tbl_get_update [of k f t k'] by (simp add: tbl_get_def)

lemma map_of_snoc: "map_of (t @ [(k, v)]) k' = (case map_of t k' of Some x \<Rightarrow> Some x | None \<Rightarrow> if k' = k then Some v else None)"
  by (auto simp: map_add_def split: option.splits)

lemma create_dir_all_ok:
  assumes "\<And>k. 0 < k \<Longrightarrow> k \<le> length p \<Longrightarrow> leaf_at f (take k p) = None"
  shows "\<exists>g. create_dir_all p f = Ok g"
  using assms
proof (induction p f rule: create_dir_all.induct)
  case (2 n ns f)
  show ?case
  proof (cases "map_of f n")
    case None
    then show ?thesis
      using 2(1) by auto
  next
    case (Some x)
    show ?thesis
    proof (cases x)
      case (Dir g)
      have "leaf_at g (take k ns) = None" if "0 < k" "k \<le> length ns" for k
        using 2(3) [of "Suc k"] that Some Dir by (simp add: leaf_at_Cons)
      then show ?thesis
        using 2(2) [OF Some Dir] Some Dir by auto
    qed (use 2(3) [of 1] Some in \<open>auto simp: leaf_at_Cons\<close>)
  qed
qed simp

lemma create_dir_all_view:
  assumes "create_dir_all p f = Ok g"
  shows "leaf_at g q = leaf_at f q" and "dir_at g q \<longleftrightarrow> dir_at f q \<or> prefix q p"
proof -
  have "leaf_at g q = leaf_at f q \<and> (dir_at g q \<longleftrightarrow> dir_at f q \<or> prefix q p)"
    using assms
  proof (induction p f arbitrary: g q rule: create_dir_all.induct)
    case (2 n ns f)
    show ?case
    proof (cases q)
      case (Cons a q')
      show ?thesis
        using 2 Cons
        by (auto simp: leaf_at_Cons dir_at_Cons map_of_tbl_update map_of_snoc
            split: option.splits fsnode.splits sum.splits if_splits)
    qed simp
  qed auto
  then show "leaf_at g q = leaf_at f q" and "dir_at g q \<longleftrightarrow> dir_at f q \<or> prefix q p"
    by auto
qed

lemma put_node_view:
  assumes "p \<noteq> []" and "dir_at f (butlast p)" and "\<not> dir_at f p" and "\<not> is_dir x"
  shows "leaf_at (put_node p x f) q = (if q = p then Some x else leaf_at f q)"
    and "dir_at (put_node p x f) q = dir_at f q"
proof -
  have "leaf_at (put_node p x f) q = (if q = p then Some x else leaf_at f q) \<and> dir_at (put_node p x f) q = dir_at f q"
    using assms
  proof (induction p x f arbitrary: q rule: put_node.induct)
    case (2 n x f)
    have put: "map_of (put_node [n] x f) = (map_of f)(n \<mapsto> x)"
      by (auto simp: fun_eq_iff map_of_tbl_update map_add_def split: option.splits)
    have "case map_of f n of Some (Dir g) \<Rightarrow> False | _ \<Rightarrow> True"
      using 2(3) by (auto simp: dir_at_Cons split: option.splits fsnode.splits)
    moreover have "x \<noteq> Dir g" for g
      using 2(4) by auto
    ultimately show ?case
      by (cases q) (auto simp: leaf_at_Cons dir_at_Cons put simp del: put_node.simps split: option.splits fsnode.splits)
  next
    case (3 n m ns x f)
    then obtain g where g: "map_of f n = Some (Dir g)"
      by (auto simp: dir_at_Cons split: option.splits fsnode.splits)
    have put: "map_of (put_node (n # m # ns) x f) = (map_of f)(n \<mapsto> Dir (put_node (m # ns) x g))"
      by (auto simp: fun_eq_iff map_of_tbl_update g)
    have ih: "leaf_at (put_node (m # ns) x g) q' = (if q' = m # ns then Some x else leaf_at g q')
        \<and> dir_at (put_node (m # ns) x g) q' = dir_at g q'" for q'
      using 3(1) [OF g refl, of q'] 3(3-5) by (simp add: dir_at_Cons g)
    show ?case
    proof (cases q)
      case (Cons a r)
      show ?thesis
        unfolding Cons leaf_at_Cons [of _ a r] dir_at_Cons [of _ a r] put
        using ih [of r] by (auto simp: g)
    qed simp
  qed simp
  then show "leaf_at (put_node p x f) q = (if q = p then Some x else leaf_at f q)"
    and "dir_at (put_node p x f) q = dir_at f q"
    by auto
qed

section \<open>Well-formed trees and their visible leaves\<close>

text \<open>
  Names in one directory are distinct and are single components. Snapshots see the leaves with no
  component in the ignore set; \<open>flatten\<close> lists them in the order of a depth-first walk.
\<close>

fun forest_ok :: "forest \<Rightarrow> bool" where
  "forest_ok [] = True"
| "forest_ok ((n, Dir g) # f) = (clean_name n \<and> n \<notin> fst ` set f \<and> forest_ok g \<and> forest_ok f)"
| "forest_ok ((n, x) # f) = (clean_name n \<and> n \<notin> fst ` set f \<and> forest_ok f)"

fun flatten :: "string list \<Rightarrow> forest \<Rightarrow> (string list \<times> fsnode) list" where
  "flatten pre [] = []"
| "flatten pre ((n, Dir g) # f) =
     (if is_ignored_component n then [] else flatten (pre @ [n]) g) @ flatten pre f"
| "flatten pre ((n, x) # f) = (if is_ignored_component n then [] else [(pre @ [n], x)]) @ flatten pre f"

definition visible :: "string list \<Rightarrow> bool" where
  "visible p = list_all (\<lambda>n. \<not> is_ignored_component n) p"

lemma visible_simps [simp]: "visible []" "visible (n # p) \<longleftrightarrow> \<not> is_ignored_component n \<and> visible p"
  "visible (p @ q) \<longleftrightarrow> visible p \<and> visible q"
  by (simp_all add: visible_def)

lemma leaf_at_skip: "n \<noteq> a \<Longrightarrow> leaf_at ((a, x) # f) (n # ns) = leaf_at f (n # ns)"
  by (simp add: leaf_at_Cons)

lemma leaf_at_fresh: "a \<notin> fst ` set f \<Longrightarrow> leaf_at f (a # ns) = None"
  using map_of_eq_None_iff [of f a] by (simp add: leaf_at_Cons)

text \<open>The leaves of a directory listing: those under its first entry and those of the rest.\<close>

lemma leaf_at_entry:
  assumes "n \<notin> fst ` set f"
  shows "leaf_at ((n, x) # f) q = Some y \<longleftrightarrow>
    (\<exists>r. q = n # r \<and> (case x of Dir g \<Rightarrow> leaf_at g r = Some y | _ \<Rightarrow> r = [] \<and> x = y)) \<or> leaf_at f q = Some y"
proof (cases q)
  case (Cons a r)
  show ?thesis
  proof (cases "a = n")
    case True
    with leaf_at_fresh [OF assms, of r] Cons show ?thesis
      by (cases x) (auto simp: leaf_at_Cons [of "(n, x) # f" for x f])
  next
    case False
    with Cons show ?thesis
      by (simp add: leaf_at_skip)
  qed
qed simp

lemma leaf_at_clean: "forest_ok f \<Longrightarrow> leaf_at f q = Some x \<Longrightarrow> list_all clean_name q \<and> q \<noteq> []"
  by (induction f arbitrary: q rule: forest_ok.induct) (force simp: leaf_at_entry)+

lemma flatten_iff:
  "forest_ok f \<Longrightarrow> (p, x) \<in> set (flatten pre f) \<longleftrightarrow> (\<exists>q. p = pre @ q \<and> visible q \<and> leaf_at f q = Some x)"
proof (induction pre f arbitrary: p rule: flatten.induct)
  case (2 pre n g f)
  then have "(\<exists>q. p = pre @ q \<and> visible q \<and> leaf_at ((n, Dir g) # f) q = Some x) \<longleftrightarrow>
      (\<not> is_ignored_component n \<and> (\<exists>r. p = (pre @ [n]) @ r \<and> visible r \<and> leaf_at g r = Some x))
      \<or> (\<exists>q. p = pre @ q \<and> visible q \<and> leaf_at f q = Some x)"
    by (simp add: leaf_at_entry) force
  with 2 show ?case
    by auto
qed (simp_all add: leaf_at_entry, (force)+)

end
