(* ===== verification/Worklist.thy ===== *)
theory Worklist
  imports Prelude
begin

text \<open>
  The queue-driven search the state DAG runs three times: pop an identifier, stop if it is
  wanted, skip it if it was visited, otherwise load it and enqueue its successors. A load may
  fail, and each load contributes outputs. The search ends on every finite graph, visits
  exactly what is reachable, and fails or stops only at a reachable identifier.
\<close>

section \<open>The search\<close>

datatype ('a, 'b) search = Found 'a | Exhausted "'a list" "'b list"

partial_function (option) explore ::
  "('a \<Rightarrow> bool) \<Rightarrow> ('a \<Rightarrow> ('e, 'a list \<times> 'b list) outcome) \<Rightarrow> 'a list \<Rightarrow> 'b list \<Rightarrow> 'a list
    \<Rightarrow> ('e, ('a, 'b) search) outcome option" where
  "explore stop load seen out queue =
     (case queue of
        [] \<Rightarrow> Some (Ok (Exhausted seen out))
      | x # q \<Rightarrow>
          if stop x then Some (Ok (Found x))
          else if x \<in> set seen then explore stop load seen out q
          else (case load x of
                  Err e \<Rightarrow> Some (Err e)
                | Ok (nexts, outs) \<Rightarrow> explore stop load (x # seen) (out @ outs) (q @ nexts)))"

definition edges :: "('a \<Rightarrow> ('e, 'a list \<times> 'b list) outcome) \<Rightarrow> ('a \<times> 'a) set" where
  "edges load = {(x, y). \<exists>nexts outs. load x = Ok (nexts, outs) \<and> y \<in> set nexts}"

definition reach :: "('a \<Rightarrow> ('e, 'a list \<times> 'b list) outcome) \<Rightarrow> 'a list \<Rightarrow> 'a set" where
  "reach load queue = (edges load)\<^sup>* `` set queue"

definition outputs :: "('a \<Rightarrow> ('e, 'a list \<times> 'b list) outcome) \<Rightarrow> 'a \<Rightarrow> 'b set" where
  "outputs load x = (case load x of Ok (nexts, outs) \<Rightarrow> set outs | Err _ \<Rightarrow> {})"

section \<open>Steps\<close>

lemma explore_Nil [simp]: "explore stop load seen out [] = Some (Ok (Exhausted seen out))"
  by (subst explore.simps) simp

lemma explore_Cons:
  "explore stop load seen out (x # q) =
     (if stop x then Some (Ok (Found x))
      else if x \<in> set seen then explore stop load seen out q
      else (case load x of
              Err e \<Rightarrow> Some (Err e)
            | Ok (nexts, outs) \<Rightarrow> explore stop load (x # seen) (out @ outs) (q @ nexts)))"
  by (subst explore.simps) simp

lemma explore_stop: "stop x \<Longrightarrow> explore stop load seen out (x # q) = Some (Ok (Found x))"
  by (subst explore.simps) simp

lemma explore_seen:
  "\<not> stop x \<Longrightarrow> x \<in> set seen \<Longrightarrow> explore stop load seen out (x # q) = explore stop load seen out q"
  by (subst explore.simps) simp

lemma explore_Err:
  "\<not> stop x \<Longrightarrow> x \<notin> set seen \<Longrightarrow> load x = Err e \<Longrightarrow> explore stop load seen out (x # q) = Some (Err e)"
  by (subst explore.simps) simp

lemma explore_visit:
  "\<not> stop x \<Longrightarrow> x \<notin> set seen \<Longrightarrow> load x = Ok (nexts, outs) \<Longrightarrow>
     explore stop load seen out (x # q) = explore stop load (x # seen) (out @ outs) (q @ nexts)"
  by (subst explore.simps) simp

lemmas explore_steps = explore_stop explore_seen explore_Err explore_visit

lemma edgesI: "load x = Ok (nexts, outs) \<Longrightarrow> y \<in> set nexts \<Longrightarrow> (x, y) \<in> edges load"
  by (auto simp: edges_def)

section \<open>The search ends with what is reachable\<close>

text \<open>The loop invariant: everything visited is expanded into what is visited or queued.\<close>

definition expanded :: "('a \<Rightarrow> bool) \<Rightarrow> ('a \<Rightarrow> ('e, 'a list \<times> 'b list) outcome) \<Rightarrow> 'a list \<Rightarrow> 'b list \<Rightarrow> 'a list \<Rightarrow> bool" where
  "expanded stop load seen out queue =
     ((\<forall>x \<in> set seen. \<not> stop x \<and> is_ok (load x) \<and> (edges load) `` {x} \<subseteq> set seen \<union> set queue)
      \<and> set out = (\<Union>x \<in> set seen. outputs load x))"

fun search_post ::
  "('a \<Rightarrow> bool) \<Rightarrow> ('a \<Rightarrow> ('e, 'a list \<times> 'b list) outcome) \<Rightarrow> 'a set \<Rightarrow> ('e, ('a, 'b) search) outcome \<Rightarrow> bool" where
  "search_post stop load A (Inr (Found x)) = (x \<in> A \<and> stop x)"
| "search_post stop load A (Inr (Exhausted seen out)) =
     (set seen = A \<and> (\<forall>x \<in> A. \<not> stop x \<and> is_ok (load x)) \<and> set out = (\<Union>x \<in> A. outputs load x))"
| "search_post stop load A (Inl e) = (\<exists>x \<in> A. load x = Err e)"

lemma expanded_seen: "x \<in> set seen \<Longrightarrow> expanded stop load seen out (x # q) \<Longrightarrow> expanded stop load seen out q"
  by (auto simp: expanded_def)

lemma expanded_visit:
  assumes "\<not> stop x" and "load x = Ok (nexts, outs)" and "expanded stop load seen out (x # q)"
  shows "expanded stop load (x # seen) (out @ outs) (q @ nexts)"
  using assms by (auto simp: expanded_def edges_def outputs_def)

lemma expanded_done:
  assumes "expanded stop load seen out []" and "set seen \<subseteq> A" and "A \<subseteq> (edges load)\<^sup>* `` set seen"
  shows "search_post stop load A (Ok (Exhausted seen out))"
proof -
  have "(edges load) `` set seen \<subseteq> set seen"
    using assms(1) by (auto simp: expanded_def)
  then have "(edges load)\<^sup>* `` set seen = set seen"
    by (simp add: Image_closed_trancl)
  with assms(2,3) have "A = set seen"
    by blast
  with assms(1) show ?thesis
    by (auto simp: expanded_def)
qed

lemma explore_total:
  assumes fin: "finite A" and closed: "(edges load) `` A \<subseteq> A"
    and "expanded stop load seen out queue" and "set seen \<union> set queue \<subseteq> A"
    and "A \<subseteq> (edges load)\<^sup>* `` (set seen \<union> set queue)"
  shows "\<exists>r. explore stop load seen out queue = Some r \<and> search_post stop load A r"
  using assms(3-5)
proof (induction "(card (A - set seen), length queue)" arbitrary: seen out queue
    rule: wf_induct_rule [OF wf_lex_prod [OF wf_less wf_less]])
  case 1
  show ?case
  proof (cases queue)
    case Nil
    then show ?thesis
      using 1(2-4) expanded_done [of stop load seen out A] by simp
  next
    case (Cons x q)
    consider "stop x" | "\<not> stop x" "x \<in> set seen" | e where "\<not> stop x" "x \<notin> set seen" "load x = Err e"
      | nexts outs where "\<not> stop x" "x \<notin> set seen" "load x = Ok (nexts, outs)"
      by (cases "load x") force+
    then show ?thesis
    proof cases
      case 2
      then have "set seen \<union> set queue = set seen \<union> set q"
        using Cons by auto
      then show ?thesis
        using 1 Cons 2 by (simp add: explore_seen expanded_seen)
    next
      case 4
      have "card (A - set (x # seen)) < card (A - set seen)"
        using 1(3) 4(2) Cons fin by (intro psubset_card_mono) auto
      moreover have "set nexts \<subseteq> A"
        using 1(3) Cons closed edgesI [of load x nexts outs] 4(3) by auto
      moreover have "(edges load)\<^sup>* `` (set seen \<union> set queue) \<subseteq> (edges load)\<^sup>* `` (set (x # seen) \<union> set (q @ nexts))"
        using Cons by (intro Image_mono) auto
      ultimately show ?thesis
        using 1(1) [of "x # seen" "q @ nexts" "out @ outs"] 1(2-4) Cons
          expanded_visit [of stop x load nexts outs, OF 4(1,3)] explore_visit [of stop x seen load nexts outs out q, OF 4]
        by auto
    qed (use 1(3) Cons in \<open>auto simp: explore_steps\<close>)
  qed
qed

lemma explore_search:
  assumes "finite (reach load queue)"
  shows "\<exists>r. explore stop load [] [] queue = Some r \<and> search_post stop load (reach load queue) r"
proof (rule explore_total [OF assms])
  show "(edges load) `` reach load queue \<subseteq> reach load queue"
    by (auto simp: reach_def intro: rtrancl_into_rtrancl)
qed (auto simp: expanded_def reach_def)

end
