(* ===== verification/StateDag.thy ===== *)
theory StateDag
  imports Cas Worklist Json_Value
begin

text \<open>
  The world-state DAG of kernel/state_dag/src/dag.rs: episodes, immutable state nodes and
  movable branch heads in tables, workspace manifests in the content store. Every operation
  is here except the ones that walk a directory (theory \<open>Snapshot\<close>). \<open>parse_manifest\<close> stands for
  \<open>serde_json::from_slice\<close>; identifiers and times are arguments.
\<close>

section \<open>Manifests\<close>

record ManifestEntry =
  blob :: string
  mode :: u32

type_synonym Manifest = "(string \<times> ManifestEntry) list"

record DagEnv =
  sha :: "bytes \<Rightarrow> string"
  ser :: "json \<Rightarrow> string"
  parse_manifest :: "bytes \<Rightarrow> Manifest option"

definition entry_json :: "ManifestEntry \<Rightarrow> json" where
  "entry_json e = JObj [(''blob'', JStr (blob e)), (''mode'', JInt (uint (mode e)))]"

definition manifest_json :: "Manifest \<Rightarrow> json" where
  "manifest_json m = JObj (map (\<lambda>(p, e). (p, entry_json e)) m)"

definition as_bytes :: "string \<Rightarrow> bytes" where
  "as_bytes s = map of_char s"

definition manifest_bytes :: "DagEnv \<Rightarrow> Manifest \<Rightarrow> bytes" where
  "manifest_bytes env m = as_bytes (write_canonical (ser env) (manifest_json m))"

definition manifest_store :: "DagEnv \<Rightarrow> cas \<Rightarrow> Manifest \<Rightarrow> cas \<times> string KernelResult" where
  "manifest_store env c m = cas_put (sha env) c (manifest_bytes env m)"

definition manifest_load :: "DagEnv \<Rightarrow> cas \<Rightarrow> string \<Rightarrow> Manifest KernelResult" where
  "manifest_load env c h =
     (case cas_get (sha env) c h of
        Err e \<Rightarrow> Err e
      | Ok bs \<Rightarrow>
        (case parse_manifest env bs of
           None \<Rightarrow> Err (Serde ''manifest'')
         | Some m \<Rightarrow> Ok m))"

datatype FileChange =
    FileAdded string string u32
  | FileModified string string string
  | FileDeleted string string

fun change_path :: "FileChange \<Rightarrow> string" where
  "change_path (FileAdded p _ _) = p"
| "change_path (FileModified p _ _) = p"
| "change_path (FileDeleted p _) = p"

definition changes_of_new :: "Manifest \<Rightarrow> string \<times> ManifestEntry \<Rightarrow> FileChange list" where
  "changes_of_new old pe =
     (case pe of (p, e) \<Rightarrow>
        (case map_of old p of
           None \<Rightarrow> [FileAdded p (blob e) (mode e)]
         | Some o' \<Rightarrow> if o' \<noteq> e then [FileModified p (blob o') (blob e)] else []))"

definition diff_manifests :: "Manifest \<Rightarrow> Manifest \<Rightarrow> FileChange list" where
  "diff_manifests old new =
     concat (map (changes_of_new old) new)
     @ map (\<lambda>(p, o'). FileDeleted p (blob o')) (filter (\<lambda>(p, _). map_of new p = None) old)"

section \<open>Nodes, branches and episodes\<close>

record StateDelta =
  delta_files :: "FileChange list"
  processes_started :: "string list"
  processes_exited :: "string list"
  tool_sessions :: "string list"
  delta_policy_epoch :: u64
  effects_proposed :: "ident list"
  effects_committed :: "ident list"

definition default_delta :: StateDelta where
  "default_delta = \<lparr> delta_files = [], processes_started = [], processes_exited = [], tool_sessions = [],
     delta_policy_epoch = 0, effects_proposed = [], effects_committed = [] \<rparr>"

definition delta_is_empty :: "StateDelta \<Rightarrow> bool" where
  "delta_is_empty d = (delta_files d = [] \<and> processes_started d = [] \<and> processes_exited d = []
     \<and> tool_sessions d = [] \<and> effects_proposed d = [] \<and> effects_committed d = [])"

record StateNode =
  st_id :: ident
  st_episode :: ident
  st_branch :: ident
  st_parent :: "ident option"
  produced_by :: "ident option"
  merge_parent :: "ident option"
  st_actor :: ident
  st_delta :: StateDelta
  workspace_root :: string
  st_replay :: ReplayClass
  st_created :: instant

datatype BranchStatus = BranchActive | BranchGone | BranchMerged

fun status_as_str :: "BranchStatus \<Rightarrow> string" where
  "status_as_str BranchActive = ''active''"
| "status_as_str BranchGone = ''discarded''"
| "status_as_str BranchMerged = ''merged''"

definition status_parse :: "string \<Rightarrow> BranchStatus KernelResult" where
  "status_parse s =
     (if s = ''active'' then Ok BranchActive
      else if s = ''discarded'' then Ok BranchGone
      else if s = ''merged'' then Ok BranchMerged
      else Err (Storage (''unknown branch status `'' @ s @ ''`'')))"

record Branch =
  br_id :: ident
  br_episode :: ident
  base_state :: ident
  br_head :: ident
  br_status :: BranchStatus

record BranchRow =
  brow_episode :: ident
  brow_base :: ident
  brow_head :: ident
  brow_status :: string
  brow_created :: instant

record EpisodeRecord =
  ep_id :: ident
  root_state :: ident
  root_branch :: ident
  created_by :: ident
  ep_objective :: string
  ep_created :: instant

record StateDag =
  dag_episodes :: "(ident, EpisodeRecord) table"
  dag_states :: "(ident, StateNode) table"
  dag_branches :: "(ident, BranchRow) table"
  dag_cas :: cas

record EpisodeHandle =
  handle_episode :: ident
  handle_branch :: ident
  handle_root :: StateNode

record BranchComparison =
  compare_base :: ident
  changed_in_a :: "FileChange list"
  changed_in_b :: "FileChange list"

record GcReport =
  blobs_removed :: nat
  states_removed :: nat

section \<open>Rows\<close>

definition load_state :: "StateDag \<Rightarrow> ident \<Rightarrow> StateNode KernelResult" where
  "load_state d i = (case tbl_get (dag_states d) i of None \<Rightarrow> Err (NotFound ''state'' i) | Some n \<Rightarrow> Ok n)"

definition load_branch :: "StateDag \<Rightarrow> ident \<Rightarrow> Branch KernelResult" where
  "load_branch d i =
     (case tbl_get (dag_branches d) i of
        None \<Rightarrow> Err (NotFound ''branch'' i)
      | Some r \<Rightarrow>
        (case status_parse (brow_status r) of
           Err e \<Rightarrow> Err e
         | Ok s \<Rightarrow> Ok \<lparr> br_id = i, br_episode = brow_episode r, base_state = brow_base r,
                        br_head = brow_head r, br_status = s \<rparr>))"

definition ensure_active :: "Branch \<Rightarrow> unit KernelResult" where
  "ensure_active b = (case br_status b of BranchActive \<Rightarrow> Ok () | _ \<Rightarrow> Err (BranchDiscarded (br_id b)))"

definition insert_state :: "StateNode \<Rightarrow> StateDag \<Rightarrow> StateDag KernelResult" where
  "insert_state n d =
     (if tbl_get (dag_states d) (st_id n) \<noteq> None
      then Err (Storage ''sqlite: UNIQUE constraint failed: states.id'')
      else Ok (d\<lparr> dag_states := dag_states d @ [(st_id n, n)] \<rparr>))"

definition set_head :: "ident \<Rightarrow> ident \<Rightarrow> StateDag \<Rightarrow> StateDag" where
  "set_head b h d = d\<lparr> dag_branches := tbl_update b (\<lambda>r. r\<lparr> brow_head := h \<rparr>) (dag_branches d) \<rparr>"

definition set_status :: "ident \<Rightarrow> BranchStatus \<Rightarrow> StateDag \<Rightarrow> StateDag" where
  "set_status b s d =
     d\<lparr> dag_branches := tbl_update b (\<lambda>r. r\<lparr> brow_status := status_as_str s \<rparr>) (dag_branches d) \<rparr>"

definition insert_branch :: "ident \<Rightarrow> BranchRow \<Rightarrow> StateDag \<Rightarrow> StateDag KernelResult" where
  "insert_branch i r d =
     (if tbl_get (dag_branches d) i \<noteq> None
      then Err (Storage ''sqlite: UNIQUE constraint failed: branches.id'')
      else Ok (d\<lparr> dag_branches := dag_branches d @ [(i, r)] \<rparr>))"

definition insert_episode :: "EpisodeRecord \<Rightarrow> StateDag \<Rightarrow> StateDag KernelResult" where
  "insert_episode r d =
     (if tbl_get (dag_episodes d) (ep_id r) \<noteq> None
      then Err (Storage ''sqlite: UNIQUE constraint failed: episodes.id'')
      else Ok (d\<lparr> dag_episodes := dag_episodes d @ [(ep_id r, r)] \<rparr>))"

section \<open>Episodes and steps\<close>

text \<open>The workspace of a new episode is the snapshot of a directory, or the empty manifest.\<close>

definition create_episode ::
  "DagEnv \<Rightarrow> StateDag \<Rightarrow> ident \<Rightarrow> (cas \<Rightarrow> cas \<times> (string \<times> Manifest) KernelResult) option \<Rightarrow> ReplayClass \<Rightarrow> string
    \<Rightarrow> ident \<Rightarrow> ident \<Rightarrow> ident \<Rightarrow> instant \<Rightarrow> StateDag \<times> EpisodeHandle KernelResult" where
  "create_episode env d actor snapshot replay objective new_ep new_br new_st now =
     (let (c, rooted) = (case snapshot of
            Some snap \<Rightarrow> (case snap (dag_cas d) of (c, r) \<Rightarrow> (c, map_sum id fst r))
          | None \<Rightarrow> manifest_store env (dag_cas d) []);
          d0 = d\<lparr> dag_cas := c \<rparr> in
      case rooted of Err e \<Rightarrow> (d0, Err e) | Ok wroot \<Rightarrow>
      let node = \<lparr> st_id = new_st, st_episode = new_ep, st_branch = new_br, st_parent = None,
            produced_by = None, merge_parent = None, st_actor = actor, st_delta = default_delta,
            workspace_root = wroot, st_replay = replay, st_created = now \<rparr> in
      case insert_episode \<lparr> ep_id = new_ep, root_state = new_st, root_branch = new_br,
             created_by = actor, ep_objective = objective, ep_created = now \<rparr> d0 of
        Err e \<Rightarrow> (d0, Err e) | Ok d1 \<Rightarrow>
      case insert_state node d1 of Err e \<Rightarrow> (d0, Err e) | Ok d2 \<Rightarrow>
      case insert_branch new_br \<lparr> brow_episode = new_ep, brow_base = new_st, brow_head = new_st,
             brow_status = status_as_str BranchActive, brow_created = now \<rparr> d2 of
        Err e \<Rightarrow> (d0, Err e)
      | Ok d3 \<Rightarrow> (d3, Ok \<lparr> handle_episode = new_ep, handle_branch = new_br, handle_root = node \<rparr>))"

definition list_episodes :: "StateDag \<Rightarrow> EpisodeRecord list" where
  "list_episodes d = sort_key ep_created (sort_key ep_id (tbl_vals (dag_episodes d)))"

definition branches_of :: "StateDag \<Rightarrow> ident \<Rightarrow> Branch list KernelResult" where
  "branches_of d ep =
     (let rows = sort_key (\<lambda>(i, r). brow_created r)
            (sort_key fst (filter (\<lambda>(i, r). brow_episode r = ep) (dag_branches d))) in
      foldr (\<lambda>(i, r) acc. case load_branch d i of Err e \<Rightarrow> Err e
               | Ok b \<Rightarrow> (case acc of Err e \<Rightarrow> Err e | Ok bs \<Rightarrow> Ok (b # bs))) rows (Ok []))"

definition dag_head :: "StateDag \<Rightarrow> ident \<Rightarrow> StateNode KernelResult" where
  "dag_head d branch =
     (case load_branch d branch of Err e \<Rightarrow> Err e | Ok b \<Rightarrow> load_state d (br_head b))"

definition append_step ::
  "StateDag \<Rightarrow> ident \<Rightarrow> ident \<Rightarrow> ident \<Rightarrow> StateDelta \<Rightarrow> string \<Rightarrow> ReplayClass \<Rightarrow> ident \<Rightarrow> instant
    \<Rightarrow> StateDag \<times> StateNode KernelResult" where
  "append_step d branch step actor delta wroot replay new_st now =
     (case cas_contains (dag_cas d) wroot of
        Err e \<Rightarrow> (d, Err e)
      | Ok False \<Rightarrow> (d, Err (Storage (''workspace root '' @ wroot @ '' is not in the CAS'')))
      | Ok True \<Rightarrow>
      (case load_branch d branch of Err e \<Rightarrow> (d, Err e) | Ok b \<Rightarrow>
       case ensure_active b of Err e \<Rightarrow> (d, Err e) | Ok _ \<Rightarrow>
       let node = \<lparr> st_id = new_st, st_episode = br_episode b, st_branch = branch,
             st_parent = Some (br_head b), produced_by = Some step, merge_parent = None,
             st_actor = actor, st_delta = delta, workspace_root = wroot, st_replay = replay,
             st_created = now \<rparr> in
       case insert_state node d of
         Err e \<Rightarrow> (d, Err e)
       | Ok d1 \<Rightarrow> (set_head branch new_st d1, Ok node)))"

section \<open>Branches\<close>

definition fork :: "StateDag \<Rightarrow> ident \<Rightarrow> ident \<Rightarrow> instant \<Rightarrow> StateDag \<times> Branch KernelResult" where
  "fork d from new_br now =
     (case load_state d from of Err e \<Rightarrow> (d, Err e) | Ok base \<Rightarrow>
      case insert_branch new_br \<lparr> brow_episode = st_episode base, brow_base = from, brow_head = from,
             brow_status = status_as_str BranchActive, brow_created = now \<rparr> d of
        Err e \<Rightarrow> (d, Err e)
      | Ok d1 \<Rightarrow> (d1, Ok \<lparr> br_id = new_br, br_episode = st_episode base, base_state = from,
                          br_head = from, br_status = BranchActive \<rparr>))"

definition discard_branch :: "StateDag \<Rightarrow> ident \<Rightarrow> StateDag \<times> unit KernelResult" where
  "discard_branch d branch =
     (case load_branch d branch of Err e \<Rightarrow> (d, Err e) | Ok b \<Rightarrow>
      if br_status b = BranchGone then (d, Err (BranchDiscarded branch))
      else (set_status branch BranchGone d, Ok ()))"

section \<open>Ancestry, comparison and merge\<close>

definition opt_list :: "'a option \<Rightarrow> 'a list" where
  "opt_list x = (case x of None \<Rightarrow> [] | Some y \<Rightarrow> [y])"

definition parents_of :: "StateDag \<Rightarrow> ident \<Rightarrow> (ident list \<times> unit list) KernelResult" where
  "parents_of d i =
     (case load_state d i of Err e \<Rightarrow> Err e
      | Ok n \<Rightarrow> Ok (opt_list (st_parent n) @ opt_list (merge_parent n), []))"

definition ancestors :: "StateDag \<Rightarrow> ident \<Rightarrow> ident list KernelResult option" where
  "ancestors d a =
     map_option (\<lambda>r. case r of Ok (Exhausted seen _) \<Rightarrow> Ok seen | Ok (Found x) \<Rightarrow> Ok [x] | Err e \<Rightarrow> Err e)
       (explore (\<lambda>_. False) (parents_of d) [] [] [a])"

definition lca :: "StateDag \<Rightarrow> ident \<Rightarrow> ident \<Rightarrow> ident KernelResult option" where
  "lca d a b =
     (case ancestors d a of None \<Rightarrow> None | Some (Err e) \<Rightarrow> Some (Err e) | Some (Ok anc) \<Rightarrow>
      map_option (\<lambda>r. case r of
          Ok (Found x) \<Rightarrow> Ok x
        | Ok (Exhausted _ _) \<Rightarrow> Err (Storage (''states '' @ a @ '' and '' @ b @ '' share no common ancestor''))
        | Err e \<Rightarrow> Err e)
        (explore (\<lambda>x. x \<in> set anc) (parents_of d) [] [] [b]))"

definition manifest_of :: "DagEnv \<Rightarrow> StateDag \<Rightarrow> ident \<Rightarrow> (StateNode \<times> Manifest) KernelResult" where
  "manifest_of env d i =
     (case load_state d i of Err e \<Rightarrow> Err e | Ok n \<Rightarrow>
      case manifest_load env (dag_cas d) (workspace_root n) of Err e \<Rightarrow> Err e | Ok m \<Rightarrow> Ok (n, m))"

definition dag_diff :: "DagEnv \<Rightarrow> StateDag \<Rightarrow> ident \<Rightarrow> ident \<Rightarrow> FileChange list KernelResult" where
  "dag_diff env d a b =
     (case load_state d a of Err e \<Rightarrow> Err e | Ok na \<Rightarrow>
      case load_state d b of Err e \<Rightarrow> Err e | Ok nb \<Rightarrow>
      case manifest_load env (dag_cas d) (workspace_root na) of Err e \<Rightarrow> Err e | Ok ma \<Rightarrow>
      case manifest_load env (dag_cas d) (workspace_root nb) of Err e \<Rightarrow> Err e | Ok mb \<Rightarrow>
      Ok (diff_manifests ma mb))"

definition branch_compare :: "DagEnv \<Rightarrow> StateDag \<Rightarrow> ident \<Rightarrow> ident \<Rightarrow> BranchComparison KernelResult option" where
  "branch_compare env d a b =
     (case load_branch d a of Err e \<Rightarrow> Some (Err e) | Ok ba \<Rightarrow>
      case load_branch d b of Err e \<Rightarrow> Some (Err e) | Ok bb \<Rightarrow>
      map_option (\<lambda>r. case r of Err e \<Rightarrow> Err e | Ok base \<Rightarrow>
        case dag_diff env d base (br_head ba) of Err e \<Rightarrow> Err e | Ok ca \<Rightarrow>
        case dag_diff env d base (br_head bb) of Err e \<Rightarrow> Err e | Ok cb \<Rightarrow>
        Ok \<lparr> compare_base = base, changed_in_a = ca, changed_in_b = cb \<rparr>)
        (lca d (br_head ba) (br_head bb)))"

text \<open>The paths of the three manifests in order, and the choice the merge makes for one path.\<close>

definition all_paths :: "Manifest \<Rightarrow> Manifest \<Rightarrow> Manifest \<Rightarrow> string list" where
  "all_paths b t s = sort (remdups (map fst b @ map fst t @ map fst s))"

definition merge_choice ::
  "ManifestEntry option \<Rightarrow> ManifestEntry option \<Rightarrow> ManifestEntry option \<Rightarrow> ManifestEntry option option" where
  "merge_choice b t s =
     (if t = s then Some t else if s = b then Some t else if t = b then Some s else None)"

fun merge_loop ::
  "Manifest \<Rightarrow> Manifest \<Rightarrow> Manifest \<Rightarrow> string list \<Rightarrow> Manifest \<times> string list" where
  "merge_loop b t s [] = ([], [])"
| "merge_loop b t s (p # ps) =
     (let (merged, conflicts) = merge_loop b t s ps in
      case merge_choice (map_of b p) (map_of t p) (map_of s p) of
        None \<Rightarrow> (merged, p # conflicts)
      | Some None \<Rightarrow> (merged, conflicts)
      | Some (Some e) \<Rightarrow> ((p, e) # merged, conflicts))"

definition merge_manifests :: "Manifest \<Rightarrow> Manifest \<Rightarrow> Manifest \<Rightarrow> Manifest KernelResult" where
  "merge_manifests b t s =
     (case merge_loop b t s (all_paths b t s) of (merged, conflicts) \<Rightarrow>
        if conflicts \<noteq> [] then Err (MergeConflict conflicts) else Ok merged)"

definition merge_node ::
  "Branch \<Rightarrow> ident \<Rightarrow> ident \<Rightarrow> ident \<Rightarrow> StateNode \<Rightarrow> StateNode \<Rightarrow> StateDelta \<Rightarrow> string \<Rightarrow> ident \<Rightarrow> instant \<Rightarrow> StateNode" where
  "merge_node tb target source_head actor tgt src delta wroot new_st now =
     \<lparr> st_id = new_st, st_episode = br_episode tb, st_branch = target, st_parent = Some (br_head tb),
       produced_by = None, merge_parent = Some source_head, st_actor = actor, st_delta = delta,
       workspace_root = wroot, st_replay = min (st_replay tgt) (st_replay src), st_created = now \<rparr>"

definition merge_plan ::
  "DagEnv \<Rightarrow> StateDag \<Rightarrow> Branch \<Rightarrow> Branch \<Rightarrow> ident \<Rightarrow> (StateNode \<times> StateNode \<times> Manifest \<times> Manifest) KernelResult" where
  "merge_plan env d tb sb base =
     (case manifest_of env d base of Err e \<Rightarrow> Err e | Ok (_, base_m) \<Rightarrow>
      case load_state d (br_head tb) of Err e \<Rightarrow> Err e | Ok tgt \<Rightarrow>
      case load_state d (br_head sb) of Err e \<Rightarrow> Err e | Ok src \<Rightarrow>
      case manifest_load env (dag_cas d) (workspace_root tgt) of Err e \<Rightarrow> Err e | Ok tgt_m \<Rightarrow>
      case manifest_load env (dag_cas d) (workspace_root src) of Err e \<Rightarrow> Err e | Ok src_m \<Rightarrow>
      case merge_manifests base_m tgt_m src_m of Err e \<Rightarrow> Err e | Ok merged \<Rightarrow>
      Ok (tgt, src, tgt_m, merged))"

definition merge_into ::
  "DagEnv \<Rightarrow> StateDag \<Rightarrow> Branch \<Rightarrow> Branch \<Rightarrow> ident \<Rightarrow> ident \<Rightarrow> ident \<Rightarrow> instant \<Rightarrow> StateDag \<times> StateNode KernelResult" where
  "merge_into env d tb sb base actor new_st now =
     (case merge_plan env d tb sb base of Err e \<Rightarrow> (d, Err e) | Ok (tgt, src, tgt_m, merged) \<Rightarrow>
      case manifest_store env (dag_cas d) merged of
        (c, Err e) \<Rightarrow> (d\<lparr> dag_cas := c \<rparr>, Err e)
      | (c, Ok wroot) \<Rightarrow>
        let d0 = d\<lparr> dag_cas := c \<rparr>;
            delta = default_delta\<lparr> delta_files := diff_manifests tgt_m merged,
                      delta_policy_epoch := delta_policy_epoch (st_delta tgt) \<rparr>;
            node = merge_node tb (br_id tb) (br_head sb) actor tgt src delta wroot new_st now in
        case insert_state node d0 of
          Err e \<Rightarrow> (d0, Err e)
        | Ok d1 \<Rightarrow> (set_status (br_id sb) BranchMerged (set_head (br_id tb) new_st d1), Ok node))"

definition merge ::
  "DagEnv \<Rightarrow> StateDag \<Rightarrow> ident \<Rightarrow> ident \<Rightarrow> ident \<Rightarrow> ident \<Rightarrow> instant \<Rightarrow> (StateDag \<times> StateNode KernelResult) option" where
  "merge env d target source actor new_st now =
     (if target = source
      then Some (d, Err (Storage (''cannot merge branch `'' @ target @ ''` into itself'')))
      else
        case load_branch d target of Err e \<Rightarrow> Some (d, Err e) | Ok tb \<Rightarrow>
        case load_branch d source of Err e \<Rightarrow> Some (d, Err e) | Ok sb \<Rightarrow>
        case ensure_active tb of Err e \<Rightarrow> Some (d, Err e) | Ok _ \<Rightarrow>
        case ensure_active sb of Err e \<Rightarrow> Some (d, Err e) | Ok _ \<Rightarrow>
        map_option (\<lambda>r. case r of Err e \<Rightarrow> (d, Err e)
                          | Ok base \<Rightarrow> merge_into env d tb sb base actor new_st now)
          (lca d (br_head tb) (br_head sb)))"

section \<open>Garbage collection\<close>

definition live_heads :: "StateDag \<Rightarrow> ident list" where
  "live_heads d = map (\<lambda>(i, r). brow_head r) (filter (\<lambda>(i, r). brow_status r \<noteq> ''discarded'') (dag_branches d))"

definition mark_state :: "DagEnv \<Rightarrow> StateDag \<Rightarrow> ident \<Rightarrow> (ident list \<times> string list) KernelResult" where
  "mark_state env d i =
     (case manifest_of env d i of Err e \<Rightarrow> Err e
      | Ok (n, m) \<Rightarrow> Ok (opt_list (st_parent n) @ opt_list (merge_parent n),
                         workspace_root n # map (\<lambda>(p, e). blob e) m))"

definition sweep :: "StateDag \<Rightarrow> ident list \<Rightarrow> string list \<Rightarrow> StateDag \<times> GcReport" where
  "sweep d live_states live_blobs =
     (let dead_states = filter (\<lambda>i. i \<notin> set live_states) (map fst (dag_states d));
          dead_blobs = filter (\<lambda>h. h \<notin> set live_blobs) (cas_list (dag_cas d)) in
      (d\<lparr> dag_states := foldl (\<lambda>t i. tbl_delete i t) (dag_states d) dead_states,
          dag_cas := foldl (\<lambda>c h. fst (cas_remove c h)) (dag_cas d) dead_blobs \<rparr>,
       \<lparr> blobs_removed = length dead_blobs, states_removed = length dead_states \<rparr>))"

definition gc :: "DagEnv \<Rightarrow> StateDag \<Rightarrow> (StateDag \<times> GcReport KernelResult) option" where
  "gc env d =
     map_option (\<lambda>r. case r of
         Err e \<Rightarrow> (d, Err e)
       | Ok (Found _) \<Rightarrow> (d, Err (OtherError []))
       | Ok (Exhausted live_states live_blobs) \<Rightarrow>
           (case sweep d live_states live_blobs of (d', report) \<Rightarrow> (d', Ok report)))
       (explore (\<lambda>_. False) (mark_state env d) [] [] (live_heads d))"

section \<open>Merging manifests\<close>

lemma merge_loop_merged:
  "distinct ps \<Longrightarrow> map_of (fst (merge_loop b t s ps)) p
     = (if p \<in> set ps then Option.bind (merge_choice (map_of b p) (map_of t p) (map_of s p)) id else None)"
  by (induction ps) (auto simp: Let_def split: prod.splits option.splits)

lemma merge_loop_conflicts:
  "snd (merge_loop b t s ps)
     = filter (\<lambda>p. merge_choice (map_of b p) (map_of t p) (map_of s p) = None) ps"
  by (induction ps) (auto simp: Let_def split: prod.splits option.splits)

lemma merge_loop_keys: "set (map fst (fst (merge_loop b t s ps))) \<subseteq> set ps"
proof (induction ps)
  case (Cons p ps)
  moreover have "map fst (fst (merge_loop b t s (p # ps))) = map fst (fst (merge_loop b t s ps))
      \<or> map fst (fst (merge_loop b t s (p # ps))) = p # map fst (fst (merge_loop b t s ps))"
    by (auto simp: Let_def split: prod.splits option.splits)
  ultimately show ?case
    by (elim disjE) (auto simp del: merge_loop.simps set_map)
qed simp

lemma merge_loop_sorted:
  "sorted ps \<Longrightarrow> distinct ps \<Longrightarrow> sorted (map fst (fst (merge_loop b t s ps)))
     \<and> distinct (map fst (fst (merge_loop b t s ps)))"
proof (induction ps)
  case (Cons p ps)
  have "q \<in> set ps" if "(q, e) \<in> set (fst (merge_loop b t s ps))" for q e
    using merge_loop_keys [of b t s ps] that by force
  with Cons show ?case
    by (auto simp: Let_def split: prod.splits option.splits)
qed simp

lemma set_all_paths: "set (all_paths b t s) = dom (map_of b) \<union> dom (map_of t) \<union> dom (map_of s)"
  by (auto simp: all_paths_def dom_map_of_conv_image_fst)

lemma merge_choice_absent: "merge_choice None None None = Some None"
  by (simp add: merge_choice_def)

text \<open>
  C23. The artifact merge is the three-way merge: it succeeds exactly when no path was changed
  differently on both sides, every path then carries the side that changed it (and the common
  value where neither or both did), and otherwise it reports exactly the conflicting paths.
\<close>

theorem merge_three_way:
  "case merge_manifests base tgt src of
     Inr merged \<Rightarrow>
       (\<forall>p. map_of merged p = (if map_of src p = map_of base p then map_of tgt p else map_of src p)
          \<and> (map_of tgt p = map_of src p \<or> map_of src p = map_of base p \<or> map_of tgt p = map_of base p))
       \<and> sorted (map fst merged) \<and> distinct (map fst merged)
   | Inl e \<Rightarrow> \<exists>paths. e = MergeConflict paths \<and> paths \<noteq> []
       \<and> set paths = {p. map_of tgt p \<noteq> map_of src p \<and> map_of src p \<noteq> map_of base p
                         \<and> map_of tgt p \<noteq> map_of base p}"
proof -
  let ?ps = "all_paths base tgt src"
  let ?choice = "\<lambda>p. merge_choice (map_of base p) (map_of tgt p) (map_of src p)"
  obtain merged conflicts where loop: "merge_loop base tgt src ?ps = (merged, conflicts)"
    by fastforce
  have ps: "sorted ?ps" "distinct ?ps"
    by (simp_all add: all_paths_def)
  have absent: "?choice p = Some None" "map_of base p = None" "map_of tgt p = None" "map_of src p = None"
    if "p \<notin> set ?ps" for p
    using that by (auto simp: set_all_paths merge_choice_def domIff)
  have "p \<in> set ?ps" if "?choice p = None" for p
    using absent(1) [of p] that by fastforce
  moreover have "conflicts = filter (\<lambda>p. ?choice p = None) ?ps"
    using merge_loop_conflicts [of base tgt src ?ps] by (simp add: loop)
  ultimately have conflicts: "set conflicts = {p. ?choice p = None}"
    by auto
  have merged: "map_of merged p = Option.bind (?choice p) id" for p
    using merge_loop_merged [OF ps(2), of base tgt src p] absent(1) by (auto simp: loop)
  show ?thesis
    using merged conflicts merge_loop_sorted [OF ps, of base tgt src]
    by (auto simp: merge_manifests_def loop merge_choice_def split: if_splits)
qed

section \<open>Differences of manifests\<close>

lemma change_path_new [simp]: "c \<in> set (changes_of_new old (p, e)) \<Longrightarrow> change_path c = p"
  by (auto simp: changes_of_new_def split: option.splits if_splits)

lemma distinct_new_paths:
  "distinct (map fst new) \<Longrightarrow> distinct (map change_path (concat (map (changes_of_new old) new)))"
proof (induction new)
  case (Cons pe new)
  obtain p e where pe: "pe = (p, e)"
    by fastforce
  have "change_path ` set (concat (map (changes_of_new old) new)) \<subseteq> fst ` set new"
    by force
  with Cons pe have "p \<notin> change_path ` set (concat (map (changes_of_new old) new))"
    by auto
  moreover have "map change_path (changes_of_new old (p, e)) \<in> {[], [p]}"
    by (simp add: changes_of_new_def split: option.splits)
  ultimately show ?case
    using Cons pe by auto
qed simp

lemma in_diff:
  assumes "distinct (map fst old)" and "distinct (map fst new)"
  shows "c \<in> set (diff_manifests old new) \<longleftrightarrow>
      (\<exists>p e. map_of new p = Some e \<and> c \<in> set (changes_of_new old (p, e)))
    \<or> (\<exists>p o'. map_of old p = Some o' \<and> map_of new p = None \<and> c = FileDeleted p (blob o'))"
proof -
  have new: "(p, e) \<in> set new \<longleftrightarrow> map_of new p = Some e" for p e
    using assms(2) by simp
  have old: "(p, e) \<in> set old \<longleftrightarrow> map_of old p = Some e" for p e
    using assms(1) by simp
  show ?thesis
    unfolding diff_manifests_def by (auto simp: new [symmetric] old [symmetric])
qed

lemma diff_added:
  assumes "distinct (map fst old)" and "distinct (map fst new)"
  shows "FileAdded p b m \<in> set (diff_manifests old new)
      \<longleftrightarrow> map_of old p = None \<and> map_of new p = Some \<lparr> blob = b, mode = m \<rparr>"
proof -
  have "FileAdded p b m \<in> set (diff_manifests old new)
      \<longleftrightarrow> (\<exists>e. map_of new p = Some e \<and> map_of old p = None \<and> blob e = b \<and> mode e = m)"
    unfolding in_diff [OF assms] by (auto simp: changes_of_new_def split: option.splits if_splits)
  then show ?thesis
    by (auto intro: ManifestEntry.equality)
qed

lemma diff_modified:
  assumes "distinct (map fst old)" and "distinct (map fst new)"
  shows "FileModified p b b' \<in> set (diff_manifests old new)
      \<longleftrightarrow> (\<exists>o' n. map_of old p = Some o' \<and> map_of new p = Some n \<and> o' \<noteq> n \<and> blob o' = b \<and> blob n = b')"
  unfolding in_diff [OF assms] by (auto simp: changes_of_new_def split: option.splits if_splits)

lemma diff_deleted:
  assumes "distinct (map fst old)" and "distinct (map fst new)"
  shows "FileDeleted p b \<in> set (diff_manifests old new)
      \<longleftrightarrow> map_of new p = None \<and> (\<exists>o'. map_of old p = Some o' \<and> blob o' = b)"
  unfolding in_diff [OF assms] by (auto simp: changes_of_new_def split: option.splits if_splits)

lemma change_path_cases:
  "p \<in> change_path ` S \<longleftrightarrow> (\<exists>b m. FileAdded p b m \<in> S) \<or> (\<exists>b b'. FileModified p b b' \<in> S)
     \<or> (\<exists>b. FileDeleted p b \<in> S)"
proof -
  have "p = change_path c \<and> c \<in> S \<Longrightarrow> (\<exists>b m. FileAdded p b m \<in> S) \<or> (\<exists>b b'. FileModified p b b' \<in> S)
     \<or> (\<exists>b. FileDeleted p b \<in> S)" for c
    by (cases c) auto
  then show ?thesis
    by (auto simp: image_iff) (metis change_path.simps)+
qed

lemma diff_paths:
  assumes "distinct (map fst old)" and "distinct (map fst new)"
  shows "p \<in> change_path ` set (diff_manifests old new) \<longleftrightarrow> map_of old p \<noteq> map_of new p"
  unfolding change_path_cases diff_added [OF assms] diff_modified [OF assms] diff_deleted [OF assms]
  by (cases "map_of old p"; cases "map_of new p") (auto, metis ManifestEntry.cases)

lemma diff_distinct:
  assumes "distinct (map fst old)" and "distinct (map fst new)"
  shows "distinct (map change_path (diff_manifests old new))"
proof -
  have "map change_path (map (\<lambda>(p, o'). FileDeleted p (blob o')) (filter (\<lambda>(p, _). map_of new p = None) old))
      = map fst (filter (\<lambda>(p, _). map_of new p = None) old)"
    by (auto simp: comp_def)
  moreover have "distinct (map fst (filter (\<lambda>(p, _). map_of new p = None) old))"
    using assms(1) by (simp add: distinct_map_filter)
  moreover have "fst ` set (filter (\<lambda>(p, _). map_of new p = None) old) \<inter> fst ` set new = {}"
    by (force simp: map_of_eq_None_iff)
  moreover have "change_path ` set (concat (map (changes_of_new old) new)) \<subseteq> fst ` set new"
    by force
  ultimately show ?thesis
    using distinct_new_paths [OF assms(2), of old] unfolding diff_manifests_def map_append distinct_append
    by (auto simp del: map_map dest: map_of_is_SomeI [OF assms(2)])
qed

text \<open>
  A reported delta is exact: between two manifests it names each differing path once, as an
  addition, a modification or a deletion with the old and new blobs, and it names no other path.
\<close>

theorem diff_manifests_exact:
  assumes "distinct (map fst old)" and "distinct (map fst new)"
  shows "distinct (map change_path (diff_manifests old new))
    \<and> (\<forall>p. (p \<in> change_path ` set (diff_manifests old new)) = (map_of old p \<noteq> map_of new p))
    \<and> (\<forall>p b m. (FileAdded p b m \<in> set (diff_manifests old new))
         = (map_of old p = None \<and> map_of new p = Some \<lparr> blob = b, mode = m \<rparr>))
    \<and> (\<forall>p b b'. (FileModified p b b' \<in> set (diff_manifests old new))
         = (\<exists>o' n. map_of old p = Some o' \<and> map_of new p = Some n \<and> o' \<noteq> n \<and> blob o' = b \<and> blob n = b'))
    \<and> (\<forall>p b. (FileDeleted p b \<in> set (diff_manifests old new))
         = (map_of new p = None \<and> (\<exists>o'. map_of old p = Some o' \<and> blob o' = b)))"
  by (intro conjI allI diff_distinct diff_paths diff_added diff_modified diff_deleted assms)

definition demo_old :: Manifest where
  "demo_old = [(''a'', \<lparr> blob = ''x'', mode = 420 \<rparr>), (''b'', \<lparr> blob = ''y'', mode = 420 \<rparr>)]"

definition demo_new :: Manifest where
  "demo_new = [(''a'', \<lparr> blob = ''x'', mode = 493 \<rparr>), (''c'', \<lparr> blob = ''z'', mode = 420 \<rparr>)]"

theorem diff_manifests_exact_witness:
  "distinct (map fst demo_old) \<and> distinct (map fst demo_new)
   \<and> FileDeleted ''b'' ''y'' \<in> set (diff_manifests demo_old demo_new)"
proof -
  have d: "distinct (map fst demo_old)" "distinct (map fst demo_new)"
    by (simp_all add: demo_old_def demo_new_def)
  have "(FileDeleted ''b'' ''y'' \<in> set (diff_manifests demo_old demo_new))
      = (map_of demo_new ''b'' = None \<and> (\<exists>o'. map_of demo_old ''b'' = Some o' \<and> blob o' = ''y''))"
    using diff_manifests_exact [OF d] by blast
  with d show ?thesis
    by (simp add: demo_old_def demo_new_def)
qed

section \<open>Ancestry\<close>

definition state_edges :: "StateDag \<Rightarrow> (ident \<times> ident) set" where
  "state_edges d = {(x, y). \<exists>n. tbl_get (dag_states d) x = Some n
      \<and> (st_parent n = Some y \<or> merge_parent n = Some y)}"

definition ancestry_of :: "StateDag \<Rightarrow> ident \<Rightarrow> ident set" where
  "ancestry_of d a = (state_edges d)\<^sup>* `` {a}"

lemma parent_edges: "edges (parents_of d) = state_edges d"
  by (auto simp: edges_def state_edges_def parents_of_def load_state_def opt_list_def split: option.splits)

lemma reach_parents: "reach (parents_of d) [a] = ancestry_of d a"
  by (simp add: reach_def ancestry_of_def parent_edges)

lemma finite_state_edges: "finite (state_edges d)"
proof (rule finite_subset)
  show "state_edges d \<subseteq> fst ` set (dag_states d) \<times>
      (\<Union>n \<in> snd ` set (dag_states d). set_option (st_parent n) \<union> set_option (merge_parent n))"
    by (force simp: state_edges_def dest: tbl_get_in_set)
qed simp

lemma finite_reach:
  assumes "finite R" and "finite A"
  shows "finite (R\<^sup>* `` A)"
proof (rule finite_subset)
  show "R\<^sup>* `` A \<subseteq> A \<union> Range R"
    by (auto elim: rtranclE)
qed (simp add: assms finite_Range)

lemma finite_ancestry: "finite (ancestry_of d a)"
  by (simp add: ancestry_of_def finite_reach finite_state_edges)

lemma parents_of_Err: "parents_of d x = Err e \<longleftrightarrow> tbl_get (dag_states d) x = None \<and> e = NotFound ''state'' x"
  by (auto simp: parents_of_def load_state_def split: option.splits)

lemma ancestors_spec:
  "\<exists>r. ancestors d a = Some r \<and> (case r of
      Inr seen \<Rightarrow> set seen = ancestry_of d a
    | Inl e \<Rightarrow> \<exists>x \<in> ancestry_of d a. tbl_get (dag_states d) x = None \<and> e = NotFound ''state'' x)"
proof -
  obtain r where r: "explore (\<lambda>_. False) (parents_of d) [] [] [a] = Some r"
      "search_post (\<lambda>_. False) (parents_of d) (ancestry_of d a) r"
    using explore_search [of "parents_of d" "[a]" "\<lambda>_. False"] finite_ancestry by (auto simp: reach_parents)
  show ?thesis
  proof (cases r)
    case (Inl e)
    with r show ?thesis
      by (auto simp: ancestors_def parents_of_Err)
  next
    case (Inr sr)
    with r show ?thesis
      by (cases sr) (auto simp: ancestors_def)
  qed
qed

text \<open>
  C28. The search for a common ancestor always ends. It returns a state that both arguments
  descend from, it reports that none exists only when none does, and it fails otherwise only on
  an ancestor whose row is missing.
\<close>

theorem lca_common_ancestor:
  "\<exists>r. lca d a b = Some r \<and> (case r of
      Inr x \<Rightarrow> x \<in> ancestry_of d a \<inter> ancestry_of d b
    | Inl (NotFound kind x) \<Rightarrow> x \<in> ancestry_of d a \<union> ancestry_of d b \<and> tbl_get (dag_states d) x = None
    | Inl _ \<Rightarrow> ancestry_of d a \<inter> ancestry_of d b = {})"
proof -
  obtain ra where ra: "ancestors d a = Some ra" "case ra of
      Inr seen \<Rightarrow> set seen = ancestry_of d a
    | Inl e \<Rightarrow> \<exists>x \<in> ancestry_of d a. tbl_get (dag_states d) x = None \<and> e = NotFound ''state'' x"
    using ancestors_spec [of d a] by blast
  show ?thesis
  proof (cases ra)
    case (Inl e)
    with ra show ?thesis
      by (auto simp: lca_def)
  next
    case (Inr anc)
    obtain r where r: "explore (\<lambda>x. x \<in> set anc) (parents_of d) [] [] [b] = Some r"
        "search_post (\<lambda>x. x \<in> set anc) (parents_of d) (ancestry_of d b) r"
      using explore_search [of "parents_of d" "[b]" "\<lambda>x. x \<in> set anc"] finite_ancestry
      by (auto simp: reach_parents)
    show ?thesis
    proof (cases r)
      case (Inl e)
      with Inr ra r show ?thesis
        by (auto simp: lca_def parents_of_Err)
    next
      case (Inr sr)
      with \<open>ra = Inr anc\<close> ra r show ?thesis
        by (cases sr) (auto simp: lca_def)
    qed
  qed
qed

section \<open>A concrete environment\<close>

text \<open>A digest that records the length, and a decoder that knows the manifests in play.\<close>

definition demo_sha :: "bytes \<Rightarrow> string" where
  "demo_sha bs = ''sha256:'' @ (if length bs = 8 then replicate 64 CHR ''0'' else replicate 64 CHR ''1'')"

fun demo_ser :: "json \<Rightarrow> string" where
  "demo_ser (JStr t) = (if t = ''v1'' then t else [])"
| "demo_ser _ = []"

definition demo_m0 :: Manifest where
  "demo_m0 = [(''f'', \<lparr> blob = ''v0'', mode = 420 \<rparr>)]"

definition demo_m1 :: Manifest where
  "demo_m1 = [(''f'', \<lparr> blob = ''v1'', mode = 420 \<rparr>)]"

definition demo_dag_env :: DagEnv where
  "demo_dag_env = \<lparr> sha = demo_sha, ser = demo_ser,
     parse_manifest = (\<lambda>bs. Some (if length bs = 8 then demo_m0 else demo_m1)) \<rparr>"

definition demo_doc :: "Manifest \<Rightarrow> bytes" where
  "demo_doc m = manifest_bytes demo_dag_env m"

definition demo_hash :: "Manifest \<Rightarrow> string" where
  "demo_hash m = demo_sha (demo_doc m)"

definition demo_cas :: cas where
  "demo_cas = [(demo_hash demo_m0, demo_doc demo_m0), (demo_hash demo_m1, demo_doc demo_m1)]"

lemma demo_doc_length: "length (demo_doc demo_m0) = 8" "length (demo_doc demo_m1) = 10"
  by (simp_all add: demo_doc_def manifest_bytes_def as_bytes_def demo_dag_env_def manifest_json_def
      demo_m0_def demo_m1_def entry_json_def)

lemma demo_hash_hex: "hex_of (demo_hash m) = Ok (drop 7 (demo_hash m))"
  by (simp add: demo_hash_def demo_sha_def hex_of_def ascii_hexdigit_def list_all_iff)

lemma demo_hash_neq: "demo_hash demo_m1 \<noteq> demo_hash demo_m0" "demo_hash demo_m0 \<noteq> demo_hash demo_m1"
  by (simp_all add: demo_hash_def demo_sha_def demo_doc_length eval_nat_numeral)

lemma demo_load:
  "manifest_load demo_dag_env demo_cas (demo_hash demo_m0) = Ok demo_m0"
  "manifest_load demo_dag_env demo_cas (demo_hash demo_m1) = Ok demo_m1"
  by (simp_all add: manifest_load_def cas_get_def demo_hash_hex demo_cas_def tbl_get_def demo_hash_neq
      demo_dag_env_def demo_hash_def [symmetric] demo_doc_length)

lemma demo_store:
  "manifest_store demo_dag_env demo_cas demo_m0 = (demo_cas, Ok (demo_hash demo_m0))"
  "manifest_store demo_dag_env demo_cas demo_m1 = (demo_cas, Ok (demo_hash demo_m1))"
proof -
  have sha: "sha demo_dag_env (manifest_bytes demo_dag_env m) = demo_hash m" for m
    by (simp add: demo_hash_def demo_doc_def demo_dag_env_def)
  show "manifest_store demo_dag_env demo_cas demo_m0 = (demo_cas, Ok (demo_hash demo_m0))"
    "manifest_store demo_dag_env demo_cas demo_m1 = (demo_cas, Ok (demo_hash demo_m1))"
    by (simp_all add: manifest_store_def cas_put_def sha demo_hash_hex)
       (simp_all add: demo_cas_def tbl_get_def demo_hash_neq)
qed

lemma demo_contains:
  "cas_contains demo_cas (demo_hash demo_m0) = Ok True" "cas_contains demo_cas (demo_hash demo_m1) = Ok True"
  by (simp_all add: cas_contains_def demo_hash_hex demo_cas_def tbl_get_def demo_hash_neq)

lemmas demo_env_simps = demo_load demo_store demo_contains

definition demo_episode :: StateDag where
  "demo_episode = fst (create_episode demo_dag_env
     \<lparr> dag_episodes = [], dag_states = [], dag_branches = [], dag_cas = demo_cas \<rparr> ''agent''
     (Some (\<lambda>c. (fst (manifest_store demo_dag_env c demo_m0), Ok (demo_hash demo_m0, demo_m0)))) AuditOnly ''goal'' ''ep'' ''main'' ''x'' 1)"

definition demo_append :: "ident \<Rightarrow> ident \<Rightarrow> Manifest \<Rightarrow> StateDag \<Rightarrow> StateDag" where
  "demo_append branch st m d =
     fst (append_step d branch ''step'' ''agent'' default_delta (demo_hash m) AuditOnly st 2)"

definition demo_merge :: "ident \<Rightarrow> ident \<Rightarrow> ident \<Rightarrow> StateDag \<Rightarrow> StateDag" where
  "demo_merge target source st d =
     (case merge demo_dag_env d target source ''agent'' st 3 of Some (d', _) \<Rightarrow> d' | None \<Rightarrow> d)"

lemmas demo_op_simps = demo_env_simps demo_append_def demo_merge_def create_episode_def append_step_def
  fork_def insert_episode_def insert_state_def insert_branch_def load_branch_def load_state_def
  ensure_active_def status_parse_def set_head_def Let_def set_status_def tbl_get_def tbl_update_def
  merge_def lca_def ancestors_def explore_Cons parents_of_def opt_list_def

text \<open>
  The history: on \<open>main\<close> the file changes from version 0 at \<open>x\<close> to version 1 at \<open>y\<close> and \<open>p\<close>; an
  untouched branch at \<open>x\<close> is merged into \<open>main\<close> as \<open>b\<close>; a branch forked at \<open>y\<close> reverts the file
  in \<open>a\<close>.
\<close>

definition demo_steps :: StateDag where
  "demo_steps = demo_append ''main'' ''p'' demo_m1 (demo_append ''main'' ''y'' demo_m1 demo_episode)"

definition demo_merged :: StateDag where
  "demo_merged = demo_merge ''main'' ''side'' ''b'' (fst (fork demo_steps ''x'' ''side'' 4))"

definition demo_history :: StateDag where
  "demo_history = demo_append ''revert'' ''a'' demo_m0 (fst (fork demo_merged ''y'' ''revert'' 5))"

abbreviation demo_node :: "ident \<Rightarrow> ident \<Rightarrow> ident option \<Rightarrow> ident option \<Rightarrow> StateDelta \<Rightarrow> Manifest \<Rightarrow> int \<Rightarrow> ident \<times> StateNode" where
  "demo_node i br p mp delta m t \<equiv> (i, \<lparr> st_id = i, st_episode = ''ep'', st_branch = br, st_parent = p,
     produced_by = (if mp = None \<and> p \<noteq> None then Some ''step'' else None), merge_parent = mp, st_actor = ''agent'', st_delta = delta,
     workspace_root = demo_hash m, st_replay = AuditOnly, st_created = t \<rparr>)"

abbreviation demo_branch :: "ident \<Rightarrow> ident \<Rightarrow> ident \<Rightarrow> string \<Rightarrow> int \<Rightarrow> ident \<times> BranchRow" where
  "demo_branch i base h st t \<equiv> (i, \<lparr> brow_episode = ''ep'', brow_base = base, brow_head = h,
     brow_status = st, brow_created = t \<rparr>)"

lemma demo_steps_eq:
  "demo_steps = demo_episode \<lparr> dag_states := [demo_node ''x'' ''main'' None None default_delta demo_m0 1,
       demo_node ''y'' ''main'' (Some ''x'') None default_delta demo_m1 2,
       demo_node ''p'' ''main'' (Some ''y'') None default_delta demo_m1 2],
     dag_branches := [demo_branch ''main'' ''x'' ''p'' ''active'' 1], dag_cas := demo_cas \<rparr>"
  by (simp add: demo_steps_def demo_episode_def demo_op_simps)

lemma demo_manifests:
  "merge_manifests demo_m0 demo_m1 demo_m0 = Ok demo_m1"
  "merge_manifests demo_m0 demo_m0 demo_m1 = Ok demo_m1"
  "merge_manifests demo_m1 demo_m0 demo_m1 = Ok demo_m0"
  "diff_manifests demo_m1 demo_m1 = []"
  by code_simp+

lemmas demo_merge_simps = demo_op_simps demo_manifests merge_into_def merge_plan_def manifest_of_def
  merge_node_def default_delta_def

lemma demo_merged_eq:
  "demo_merged = demo_steps \<lparr> dag_states := dag_states demo_steps @
       [demo_node ''b'' ''main'' (Some ''p'') (Some ''x'') default_delta demo_m1 3],
     dag_branches := [demo_branch ''main'' ''x'' ''b'' ''active'' 1,
       demo_branch ''side'' ''x'' ''x'' ''merged'' 4] \<rparr>"
  by (simp add: demo_merged_def demo_steps_eq demo_merge_simps)

lemma demo_history_eq:
  "demo_history = demo_merged \<lparr> dag_states := dag_states demo_merged @
       [demo_node ''a'' ''revert'' (Some ''y'') None default_delta demo_m0 2],
     dag_branches := dag_branches demo_merged @ [demo_branch ''revert'' ''y'' ''a'' ''active'' 5] \<rparr>"
  by (simp add: demo_history_def demo_merged_eq demo_steps_eq demo_op_simps)

text \<open>
  The search does not return the lowest common ancestor.  In the history above the heads
  \<open>a\<close> and \<open>b\<close> share \<open>y\<close>, whose parent is \<open>x\<close>; \<open>lca\<close> answers \<open>x\<close>, because the second parent of \<open>b\<close> puts
  \<open>x\<close> one edge away while \<open>y\<close> is two edges away.  Merging \<open>main\<close> into
  \<open>revert\<close> then runs against the manifest of \<open>x\<close>: the branch, which restored the old content after
  \<open>y\<close>, looks as if it had changed nothing, and the merge silently undoes its work (\<open>m1\<close>); against the
  manifest of \<open>y\<close> the same three-way rule keeps it (\<open>m0\<close>).
\<close>

theorem lca_not_lowest:
  "lca demo_history ''a'' ''b'' = Some (Ok ''x'')
   \<and> ancestors demo_history ''a'' = Some (Ok [''x'', ''y'', ''a''])
   \<and> ancestors demo_history ''b'' = Some (Ok [''y'', ''x'', ''p'', ''b''])
   \<and> map_sum id st_parent (load_state demo_history ''y'') = Ok (Some ''x'')
   \<and> map_option (map_sum id workspace_root \<circ> snd)
       (merge demo_dag_env demo_history ''revert'' ''main'' ''agent'' ''z'' 6) = Some (Ok (demo_hash demo_m1))
   \<and> map_sum id snd (manifest_of demo_dag_env demo_history ''y'') = Ok demo_m1
   \<and> merge_manifests demo_m1 demo_m0 demo_m1 = Ok demo_m0 \<and> demo_m0 \<noteq> demo_m1"
proof (intro conjI)
  note rows = demo_history_eq demo_merged_eq demo_steps_eq
  show "lca demo_history ''a'' ''b'' = Some (Ok ''x'')"
    by (simp add: rows demo_op_simps)
  show "ancestors demo_history ''a'' = Some (Ok [''x'', ''y'', ''a''])"
    "ancestors demo_history ''b'' = Some (Ok [''y'', ''x'', ''p'', ''b''])"
    by (simp_all add: rows demo_op_simps)
  show "map_sum id st_parent (load_state demo_history ''y'') = Ok (Some ''x'')"
    by (simp add: rows demo_op_simps)
  show "map_option (map_sum id workspace_root \<circ> snd)
       (merge demo_dag_env demo_history ''revert'' ''main'' ''agent'' ''z'' 6) = Some (Ok (demo_hash demo_m1))"
    by (simp add: rows demo_merge_simps)
  show "map_sum id snd (manifest_of demo_dag_env demo_history ''y'') = Ok demo_m1"
    by (simp add: rows demo_merge_simps)
  show "merge_manifests demo_m1 demo_m0 demo_m1 = Ok demo_m0"
    by (rule demo_manifests)
  show "demo_m0 \<noteq> demo_m1"
    by (simp add: demo_m0_def demo_m1_def)
qed

text \<open>
  A merge reads the branches, releases the database and writes the head it computed later. A step
  appended to the target in between is answered with success and then dropped from the branch: the
  new head descends from the head that was read.
\<close>

definition demo_forked :: StateDag where
  "demo_forked = fst (fork demo_steps ''x'' ''side'' 4)"

definition demo_raced :: StateDag where
  "demo_raced = demo_append ''main'' ''q'' demo_m0 demo_forked"

lemma merge_drops_concurrent_append:
  assumes "load_branch demo_forked ''main'' = Ok tb" and "load_branch demo_forked ''side'' = Ok sb"
    and "d' = fst (merge_into demo_dag_env demo_raced tb sb ''x'' ''agent'' ''b'' 3)"
  shows "map_sum id br_head (load_branch demo_raced ''main'') = Ok ''q''"
    and "map_sum id br_head (load_branch d' ''main'') = Ok ''b''"
    and "ancestors d' ''b'' = Some (Ok [''y'', ''x'', ''p'', ''b''])"
proof -
  have tb: "tb = \<lparr> br_id = ''main'', br_episode = ''ep'', base_state = ''x'', br_head = ''p'', br_status = BranchActive \<rparr>"
    and sb: "sb = \<lparr> br_id = ''side'', br_episode = ''ep'', base_state = ''x'', br_head = ''x'', br_status = BranchActive \<rparr>"
    using assms(1,2) by (simp_all add: demo_forked_def demo_steps_eq demo_op_simps)
  show "map_sum id br_head (load_branch demo_raced ''main'') = Ok ''q''"
    by (simp add: demo_raced_def demo_forked_def demo_steps_eq demo_op_simps)
  show "map_sum id br_head (load_branch d' ''main'') = Ok ''b''"
    "ancestors d' ''b'' = Some (Ok [''y'', ''x'', ''p'', ''b''])"
    by (simp_all add: assms(3) tb sb demo_raced_def demo_forked_def demo_steps_eq demo_merge_simps)
qed

end
