(* ===== verification/StateGc.thy ===== *)
theory StateGc
  imports StateDag
begin

text \<open>
  Garbage collection of the state DAG (\<open>gc\<close> of \<open>kernel/state_dag/src/dag.rs\<close>) against the histories the
  other operations build: a step relation over the operations of the DAG, the closure invariant all
  of them keep, and the exact effect of a collection.
\<close>

section \<open>Histories\<close>

text \<open>
  What the DAG relies on: digests are well-formed and distinct on the documents in play, and the
  decoder accepts every manifest the encoder writes.
\<close>

definition env_ok :: "DagEnv \<Rightarrow> bytes set \<Rightarrow> bool" where
  "env_ok env docs =
     (wellformed_hash (sha env) \<and> inj_on (sha env) docs \<and> (\<forall>m. parse_manifest env (manifest_bytes env m) \<noteq> None))"

definition rooted :: "DagEnv \<Rightarrow> cas \<Rightarrow> string \<Rightarrow> bool" where
  "rooted env c h = is_ok (manifest_load env c h)"

text \<open>A snapshot stores documents of the store and ends with a root that can be read back.\<close>

definition faithful_snapshot ::
  "DagEnv \<Rightarrow> bytes set \<Rightarrow> (cas \<Rightarrow> cas \<times> (string \<times> Manifest) KernelResult) \<Rightarrow> bool" where
  "faithful_snapshot env docs snap =
     (\<forall>c. cas_ok (sha env) docs c \<longrightarrow>
        (\<exists>bs. set bs \<subseteq> docs \<and> fst (snap c) = foldl (\<lambda>c b. fst (cas_put (sha env) c b)) c bs)
        \<and> (\<forall>h m. snd (snap c) = Ok (h, m) \<longrightarrow> rooted env (fst (snap c)) h))"

inductive dag_run :: "DagEnv \<Rightarrow> bytes set \<Rightarrow> StateDag \<Rightarrow> bool" for env docs where
  dag_open: "dag_run env docs \<lparr> dag_episodes = [], dag_states = [], dag_branches = [], dag_cas = [] \<rparr>"
| dag_write: "dag_run env docs d \<Longrightarrow> b \<in> docs \<Longrightarrow>
    dag_run env docs (d\<lparr> dag_cas := fst (cas_put (sha env) (dag_cas d) b) \<rparr>)"
| dag_create_empty: "dag_run env docs d \<Longrightarrow> manifest_bytes env [] \<in> docs \<Longrightarrow>
    dag_run env docs (fst (create_episode env d actor None replay objective ep br st now))"
| dag_create_from: "dag_run env docs d \<Longrightarrow> faithful_snapshot env docs snap \<Longrightarrow>
    dag_run env docs (fst (create_episode env d actor (Some snap) replay objective ep br st now))"
| dag_append: "dag_run env docs d \<Longrightarrow> rooted env (dag_cas d) wroot \<Longrightarrow>
    dag_run env docs (fst (append_step d branch step actor delta wroot replay st now))"
| dag_fork: "dag_run env docs d \<Longrightarrow> dag_run env docs (fst (fork d from br now))"
| dag_discard: "dag_run env docs d \<Longrightarrow> dag_run env docs (fst (discard_branch d branch))"
| dag_merge: "dag_run env docs d \<Longrightarrow> merge env d target source actor st now = Some (d', r) \<Longrightarrow>
    (\<And>tb sb base tn sn tm m. load_branch d target = Ok tb \<Longrightarrow> load_branch d source = Ok sb \<Longrightarrow>
       lca d (br_head tb) (br_head sb) = Some (Ok base) \<Longrightarrow> merge_plan env d tb sb base = Ok (tn, sn, tm, m) \<Longrightarrow>
       manifest_bytes env m \<in> docs) \<Longrightarrow>
    dag_run env docs d'"
| dag_gc: "dag_run env docs d \<Longrightarrow> gc env d = Some (d', r) \<Longrightarrow> dag_run env docs d'"

section \<open>The closure invariant\<close>

definition parents :: "StateNode \<Rightarrow> ident set" where
  "parents n = set_option (st_parent n) \<union> set_option (merge_parent n)"

definition has_state :: "StateDag \<Rightarrow> ident \<Rightarrow> bool" where
  "has_state d i = (tbl_get (dag_states d) i \<noteq> None)"

definition dag_closed :: "DagEnv \<Rightarrow> bytes set \<Rightarrow> StateDag \<Rightarrow> bool" where
  "dag_closed env docs d =
     (cas_ok (sha env) docs (dag_cas d) \<and> tbl_ok (dag_branches d)
      \<and> (\<forall>i n. tbl_get (dag_states d) i = Some n \<longrightarrow>
           (\<forall>p \<in> parents n. has_state d p) \<and> rooted env (dag_cas d) (workspace_root n))
      \<and> (\<forall>i r. tbl_get (dag_branches d) i = Some r \<longrightarrow> brow_status r \<noteq> ''discarded'' \<longrightarrow> has_state d (brow_head r)))"

lemma dag_closedD:
  assumes "dag_closed env docs d"
  shows "cas_ok (sha env) docs (dag_cas d)" and "tbl_ok (dag_branches d)"
    and "tbl_get (dag_states d) i = Some n \<Longrightarrow> p \<in> parents n \<Longrightarrow> has_state d p"
    and "tbl_get (dag_states d) i = Some n \<Longrightarrow> rooted env (dag_cas d) (workspace_root n)"
    and "tbl_get (dag_branches d) j = Some r \<Longrightarrow> brow_status r \<noteq> ''discarded'' \<Longrightarrow> has_state d (brow_head r)"
  using assms unfolding dag_closed_def by blast+

text \<open>Reading a manifest back is a fetch and a decode; storing documents keeps what could be read.\<close>

lemma rooted_fetch:
  "rooted env c h \<longleftrightarrow> (\<exists>b m. cas_fetch (sha env) c h = Some b \<and> parse_manifest env b = Some m)"
  by (auto simp: rooted_def manifest_load_def cas_fetch_def is_ok_iff split: sum.splits option.splits)

lemma fetch_put_mono:
  assumes "cas_ok (sha env) docs c" and "b \<in> docs" and "cas_fetch (sha env) c h = Some x"
  shows "cas_fetch (sha env) (fst (cas_put (sha env) c b)) h = Some x"
proof (cases "h = sha env b")
  case True
  then have "x = b"
    using assms by (auto simp: cas_fetch_get [OF assms(1)] cas_ok_def inj_on_def)
  with True show ?thesis
    by (simp add: cas.fetch_keep [OF assms(1,2)])
next
  case False
  with assms(3) show ?thesis
    by (simp add: cas.fetch_keep [OF assms(1,2)])
qed

lemma rooted_put:
  assumes "cas_ok (sha env) docs c" and "b \<in> docs" and "rooted env c h"
  shows "rooted env (fst (cas_put (sha env) c b)) h"
  using assms(3) fetch_put_mono [OF assms(1,2)] unfolding rooted_fetch by blast

lemma put_all:
  assumes "cas_ok (sha env) docs c" and "set bs \<subseteq> docs"
  shows "cas_ok (sha env) docs (foldl (\<lambda>c b. fst (cas_put (sha env) c b)) c bs)"
    and "rooted env c h \<Longrightarrow> rooted env (foldl (\<lambda>c b. fst (cas_put (sha env) c b)) c bs) h"
  using assms by (induction bs arbitrary: c) (simp_all add: cas.ok_keep rooted_put)

lemma manifest_store_eq:
  assumes "env_ok env docs"
  shows "manifest_store env c m
    = (fst (cas_put (sha env) c (manifest_bytes env m)), Ok (sha env (manifest_bytes env m)))"
  using assms by (simp add: manifest_store_def env_ok_def cas_put_fst)

lemma rooted_store:
  assumes "env_ok env docs" and "cas_ok (sha env) docs c" and "manifest_bytes env m \<in> docs"
  shows "rooted env (fst (cas_put (sha env) c (manifest_bytes env m))) (sha env (manifest_bytes env m))"
  using assms(1) by (auto simp: rooted_fetch cas.fetch_keep [OF assms(2,3)] env_ok_def)

section \<open>Every operation keeps the invariant\<close>

text \<open>The store only grows and the rows are kept.\<close>

lemma closed_grow:
  assumes "dag_closed env docs d" and "cas_ok (sha env) docs c"
    and "\<And>h. rooted env (dag_cas d) h \<Longrightarrow> rooted env c h"
  shows "dag_closed env docs (d\<lparr> dag_cas := c \<rparr>)"
  using assms unfolding dag_closed_def has_state_def by simp

lemma closed_put:
  assumes "dag_closed env docs d" and "b \<in> docs"
  shows "dag_closed env docs (d\<lparr> dag_cas := fst (cas_put (sha env) (dag_cas d) b) \<rparr>)"
  using assms dag_closedD(1) [OF assms(1)] by (intro closed_grow) (simp_all add: cas.ok_keep rooted_put)

lemma closed_insert_state:
  assumes "dag_closed env docs d" and "insert_state n d = Ok d'"
    and "\<And>p. p \<in> parents n \<Longrightarrow> has_state d p" and "rooted env (dag_cas d) (workspace_root n)"
  shows "dag_closed env docs d'" and "has_state d' (st_id n)" and "has_state d i \<Longrightarrow> has_state d' i"
    and "dag_branches d' = dag_branches d"
proof -
  have new: "tbl_get (dag_states d) (st_id n) = None" and d': "d' = d\<lparr> dag_states := dag_states d @ [(st_id n, n)] \<rparr>"
    using assms(2) by (auto simp: insert_state_def split: if_splits)
  show keep: "has_state d' i" if "has_state d i" for i
    using that new by (simp add: d' has_state_def)
  show "has_state d' (st_id n)"
    using new by (simp add: d' has_state_def)
  show "dag_branches d' = dag_branches d"
    by (simp add: d')
  have rows: "dag_branches d' = dag_branches d" "dag_cas d' = dag_cas d"
    "tbl_get (dag_states d') = (tbl_get (dag_states d))(st_id n \<mapsto> n)"
    using new by (simp_all add: d')
  show "dag_closed env docs d'"
    unfolding dag_closed_def
  proof (intro conjI allI impI ballI)
    fix i x p
    assume i: "tbl_get (dag_states d') i = Some x"
    show "rooted env (dag_cas d') (workspace_root x)"
      using i assms(4) dag_closedD(4) [OF assms(1)] by (cases "i = st_id n") (simp_all add: rows)
    assume p: "p \<in> parents x"
    have "has_state d p"
      using i p assms(3) dag_closedD(3) [OF assms(1)] by (cases "i = st_id n") (simp_all add: rows)
    then show "has_state d' p"
      by (rule keep)
  qed (use assms(1) in \<open>auto simp: rows dest: dag_closedD intro: keep\<close>)
qed

lemma closed_insert_branch:
  assumes "dag_closed env docs d" and "insert_branch b r d = Ok d'" and "has_state d (brow_head r)"
  shows "dag_closed env docs d'"
proof -
  have new: "tbl_get (dag_branches d) b = None" and d': "d' = d\<lparr> dag_branches := dag_branches d @ [(b, r)] \<rparr>"
    using assms(2) by (auto simp: insert_branch_def split: if_splits)
  then show ?thesis
    using assms(1,3) unfolding dag_closed_def has_state_def d' by (auto split: if_splits)
qed

lemma closed_set_head:
  assumes "dag_closed env docs d" and "has_state d h"
  shows "dag_closed env docs (set_head b h d)"
  using assms unfolding dag_closed_def has_state_def set_head_def by (auto split: if_splits)

lemma closed_set_status:
  assumes "dag_closed env docs d"
    and "\<And>r. tbl_get (dag_branches d) b = Some r \<Longrightarrow> s \<noteq> BranchGone \<Longrightarrow> has_state d (brow_head r)"
  shows "dag_closed env docs (set_status b s d)"
  using assms unfolding dag_closed_def has_state_def set_status_def
  by (cases s) (auto split: if_splits)

lemma load_branch_live:
  assumes "dag_closed env docs d" and "load_branch d i = Ok b" and "ensure_active b = Ok ()"
  shows "has_state d (br_head b)"
proof -
  obtain r s where r: "tbl_get (dag_branches d) i = Some r" "status_parse (brow_status r) = Ok s"
    "b = \<lparr> br_id = i, br_episode = brow_episode r, base_state = brow_base r, br_head = brow_head r, br_status = s \<rparr>"
    using assms(2) by (auto simp: load_branch_def split: option.splits sum.splits)
  then have "s = BranchActive"
    using assms(3) by (cases s) (auto simp: ensure_active_def)
  then have "brow_status r \<noteq> ''discarded''"
    using r(2) by (auto simp: status_parse_def split: if_splits)
  then show ?thesis
    using dag_closedD(5) [OF assms(1) r(1)] r(3) by simp
qed

lemma closed_episode [simp]:
  "dag_closed env docs (d\<lparr> dag_episodes := e \<rparr>) = dag_closed env docs d" "has_state (d\<lparr> dag_episodes := e \<rparr>) i = has_state d i"
  by (simp_all add: dag_closed_def has_state_def)

lemma insert_episode_closed:
  "insert_episode r d = Ok d' \<Longrightarrow> dag_closed env docs d' = dag_closed env docs d \<and> dag_cas d' = dag_cas d"
  by (auto simp: insert_episode_def split: if_splits)

text \<open>Once the root is stored, creating an episode inserts three rows or none.\<close>

lemma closed_create_rows:
  assumes "dag_closed env docs (d\<lparr> dag_cas := c \<rparr>)" and "rooted env c h"
  shows "dag_closed env docs (fst (create_episode env d actor (Some (\<lambda>_. (c, Ok (h, m)))) replay objective ep br st now))"
proof -
  define node where "node = \<lparr> st_id = st, st_episode = ep, st_branch = br, st_parent = None,
    produced_by = None, merge_parent = None, st_actor = actor, st_delta = default_delta,
    workspace_root = h, st_replay = replay, st_created = now \<rparr>"
  define d0 where "d0 = d\<lparr> dag_cas := c \<rparr>"
  have d0: "dag_closed env docs d0" "dag_cas d0 = c"
    using assms(1) by (simp_all add: d0_def)
  have "dag_closed env docs d3"
    if "insert_episode e d0 = Ok d1" "insert_state node d1 = Ok d2" "insert_branch br r d2 = Ok d3" "brow_head r = st" for e r d1 d2 d3
  proof -
    have d1: "dag_closed env docs d1" "rooted env (dag_cas d1) (workspace_root node)"
      using insert_episode_closed [OF that(1)] d0 assms(2) by (simp_all add: node_def)
    have "dag_closed env docs d2" "has_state d2 st"
      using closed_insert_state(1,2) [OF d1(1) that(2) _ d1(2)] by (simp_all add: node_def parents_def)
    then show ?thesis
      using closed_insert_branch that(3,4) by blast
  qed
  then show ?thesis
    using d0(1) by (auto simp: create_episode_def Let_def d0_def [symmetric] node_def [symmetric] split: sum.splits)
qed

lemma create_episode_from:
  "create_episode env d actor (Some snap) replay objective ep br st now =
     (case snap (dag_cas d) of
        (c, Ok (h, m)) \<Rightarrow> create_episode env d actor (Some (\<lambda>_. (c, Ok (h, m)))) replay objective ep br st now
      | (c, Err e) \<Rightarrow> (d\<lparr> dag_cas := c \<rparr>, Err e))"
  by (simp add: create_episode_def split: prod.splits sum.splits)

lemma create_episode_empty:
  "create_episode env d actor None replay objective ep br st now =
     create_episode env d actor (Some (\<lambda>c. map_prod id (map_sum id (\<lambda>h. (h, []))) (manifest_store env c [])))
       replay objective ep br st now"
  by (cases "manifest_store env (dag_cas d) []")
     (auto simp: create_episode_def sum.map_comp comp_def map_sum.identity split: prod.splits)

lemma closed_create_from:
  assumes "dag_closed env docs d" and "faithful_snapshot env docs snap"
  shows "dag_closed env docs (fst (create_episode env d actor (Some snap) replay objective ep br st now))"
proof -
  obtain c r where snap: "snap (dag_cas d) = (c, r)"
    by fastforce
  have "\<exists>bs. set bs \<subseteq> docs \<and> c = foldl (\<lambda>c b. fst (cas_put (sha env) c b)) (dag_cas d) bs"
    and root: "\<And>h m. r = Ok (h, m) \<Longrightarrow> rooted env c h"
    using assms(2) dag_closedD(1) [OF assms(1)] snap unfolding faithful_snapshot_def by (metis fst_conv snd_conv)+
  then have closed: "dag_closed env docs (d\<lparr> dag_cas := c \<rparr>)"
    using put_all [OF dag_closedD(1) [OF assms(1)]] closed_grow [OF assms(1)] by auto
  show ?thesis
    using closed closed_create_rows [OF closed] root
    by (subst create_episode_from) (auto simp: snap split: sum.splits)
qed

lemma closed_create_empty:
  assumes "env_ok env docs" and "dag_closed env docs d" and "manifest_bytes env [] \<in> docs"
  shows "dag_closed env docs (fst (create_episode env d actor None replay objective ep br st now))"
  unfolding create_episode_empty
proof (rule closed_create_from [OF assms(2)])
  show "faithful_snapshot env docs (\<lambda>c. map_prod id (map_sum id (\<lambda>h. (h, []))) (manifest_store env c []))"
    using assms(3) rooted_store [OF assms(1) _ assms(3)]
    by (auto simp: faithful_snapshot_def manifest_store_eq [OF assms(1)] intro!: exI [of _ "[manifest_bytes env []]"])
qed

lemma closed_append:
  assumes "dag_closed env docs d" and "rooted env (dag_cas d) wroot"
  shows "dag_closed env docs (fst (append_step d branch step actor delta wroot replay st now))"
proof -
  define node where "node b = \<lparr> st_id = st, st_episode = br_episode b, st_branch = branch,
    st_parent = Some (br_head b), produced_by = Some step, merge_parent = None, st_actor = actor,
    st_delta = delta, workspace_root = wroot, st_replay = replay, st_created = now \<rparr>" for b :: Branch
  have "dag_closed env docs (set_head branch st d1)"
    if "load_branch d branch = Ok b" "ensure_active b = Ok ()" "insert_state (node b) d = Ok d1" for b d1
    using closed_insert_state(1,2) [OF assms(1) that(3)] load_branch_live [OF assms(1) that(1,2)] assms(2)
    by (simp add: node_def parents_def closed_set_head)
  then show ?thesis
    using assms(1) by (simp add: append_step_def Let_def node_def [symmetric] split: sum.splits bool.splits)
qed

lemma closed_fork: "dag_closed env docs d \<Longrightarrow> dag_closed env docs (fst (fork d from br now))"
  by (auto simp: fork_def load_state_def has_state_def split: sum.splits option.splits intro: closed_insert_branch)

lemma closed_discard: "dag_closed env docs d \<Longrightarrow> dag_closed env docs (fst (discard_branch d branch))"
  by (auto simp: discard_branch_def split: sum.splits intro: closed_set_status)

lemma closed_merge_into:
  assumes env: "env_ok env docs" and closed: "dag_closed env docs d"
    and heads: "has_state d (br_head tb)" "has_state d (br_head sb)"
    and src: "load_branch d source = Ok sb" "ensure_active sb = Ok ()" and sid: "br_id sb \<noteq> br_id tb"
    and m: "\<And>tn sn tm m. merge_plan env d tb sb base = Ok (tn, sn, tm, m) \<Longrightarrow> manifest_bytes env m \<in> docs"
  shows "dag_closed env docs (fst (merge_into env d tb sb base actor st now))"
proof (cases "merge_plan env d tb sb base")
  case (Inl e)
  then show ?thesis
    using closed by (simp add: merge_into_def)
next
  case (Inr plan)
  then obtain tn sn tm m where plan: "merge_plan env d tb sb base = Ok (tn, sn, tm, m)"
    by (cases plan) simp
  define d0 where "d0 = d\<lparr> dag_cas := fst (cas_put (sha env) (dag_cas d) (manifest_bytes env m)) \<rparr>"
  have d0: "dag_closed env docs d0" "rooted env (dag_cas d0) (sha env (manifest_bytes env m))"
    using closed_put [OF closed] rooted_store [OF env dag_closedD(1) [OF closed]] assms(8) [OF plan]
    by (simp_all add: d0_def)
  define node where "node = merge_node tb (br_id tb) (br_head sb) actor tn sn
    (default_delta\<lparr> delta_files := diff_manifests tm m, delta_policy_epoch := delta_policy_epoch (st_delta tn) \<rparr>)
    (sha env (manifest_bytes env m)) st now"
  have "dag_closed env docs (set_status (br_id sb) BranchMerged (set_head (br_id tb) st d1))"
    if ins: "insert_state node d0 = Ok d1" for d1
  proof -
    have par: "has_state d0 p" if "p \<in> parents node" for p
      using that heads by (auto simp: node_def merge_node_def parents_def d0_def has_state_def)
    have node: "st_id node = st" "workspace_root node = sha env (manifest_bytes env m)"
      by (simp_all add: node_def merge_node_def)
    have d1: "dag_closed env docs d1" "has_state d1 st" "\<And>i. has_state d0 i \<Longrightarrow> has_state d1 i"
      "dag_branches d1 = dag_branches d0"
      using closed_insert_state [OF d0(1) ins par] d0(2) node by simp_all
    obtain r where r: "tbl_get (dag_branches d) (br_id sb) = Some r" "brow_head r = br_head sb"
      using src(1) by (auto simp: load_branch_def split: option.splits sum.splits)
    show ?thesis
    proof (rule closed_set_status [OF closed_set_head [OF d1(1,2)]])
      fix r'
      assume "tbl_get (dag_branches (set_head (br_id tb) st d1)) (br_id sb) = Some r'"
      then have "brow_head r' = br_head sb"
        using r sid by (simp add: set_head_def d1(4) d0_def)
      then show "has_state (set_head (br_id tb) st d1) (brow_head r')"
        using d1(3) [of "br_head sb"] heads(2) by (simp add: d0_def has_state_def set_head_def)
    qed
  qed
  then show ?thesis
    using d0(1) by (simp add: merge_into_def plan manifest_store_eq [OF env] Let_def d0_def [symmetric]
        node_def [symmetric] split: sum.splits)
qed

lemma closed_merge:
  assumes "env_ok env docs" and "dag_closed env docs d" and "merge env d target source actor st now = Some (d', r)"
    and "\<And>tb sb base tn sn tm m. load_branch d target = Ok tb \<Longrightarrow> load_branch d source = Ok sb \<Longrightarrow>
       lca d (br_head tb) (br_head sb) = Some (Ok base) \<Longrightarrow> merge_plan env d tb sb base = Ok (tn, sn, tm, m) \<Longrightarrow>
       manifest_bytes env m \<in> docs"
  shows "dag_closed env docs d'"
proof -
  have id: "br_id b = i" if "load_branch d i = Ok b" for i b
    using that by (auto simp: load_branch_def split: option.splits sum.splits)
  have "dag_closed env docs d'"
    if "target \<noteq> source" "load_branch d target = Ok tb" "load_branch d source = Ok sb" "ensure_active tb = Ok ()"
      "ensure_active sb = Ok ()" "lca d (br_head tb) (br_head sb) = Some (Ok base)"
      "merge_into env d tb sb base actor st now = (d', r)" for tb sb base
    using that id load_branch_live [OF assms(2)] assms(4) [OF that(2,3,6)]
      closed_merge_into [OF assms(1,2), of tb sb source base actor st now] by simp
  then show ?thesis
    using assms(2,3) unfolding merge_def
    apply (auto split: if_splits sum.split_asm)
    subgoal for tb sb z
      by (cases z) auto
    done
qed

section \<open>Collection\<close>

definition live :: "StateDag \<Rightarrow> ident set" where
  "live d = (state_edges d)\<^sup>* `` set (live_heads d)"

definition live_documents :: "DagEnv \<Rightarrow> StateDag \<Rightarrow> string set" where
  "live_documents env d =
     {h. \<exists>i \<in> live d. \<exists>n m. manifest_of env d i = Ok (n, m) \<and> (h = workspace_root n \<or> (\<exists>p e. (p, e) \<in> set m \<and> h = blob e))}"

lemma mark_state_eq:
  "mark_state env d i =
     (case manifest_of env d i of Err e \<Rightarrow> Err e
      | Ok (n, m) \<Rightarrow> Ok (opt_list (st_parent n) @ opt_list (merge_parent n), workspace_root n # map (\<lambda>(p, e). blob e) m))"
  by (simp add: mark_state_def)

lemma mark_edges: "edges (mark_state env d) \<subseteq> state_edges d"
  by (auto simp: edges_def mark_state_def manifest_of_def load_state_def state_edges_def opt_list_def
      split: option.splits sum.splits)

lemma mark_edge_ok:
  assumes "is_ok (mark_state env d x)" and "(x, y) \<in> state_edges d"
  shows "(x, y) \<in> edges (mark_state env d)"
  using assms
  by (auto simp: edges_def mark_state_def manifest_of_def load_state_def state_edges_def opt_list_def is_ok_iff
      split: option.splits sum.splits)

lemma mark_reach_live: "reach (mark_state env d) (live_heads d) \<subseteq> live d"
  unfolding reach_def live_def by (intro Image_mono rtrancl_mono mark_edges) simp

lemma live_mark_reach:
  assumes "\<And>x. x \<in> live d \<Longrightarrow> is_ok (mark_state env d x)"
  shows "reach (mark_state env d) (live_heads d) = live d"
proof
  show "live d \<subseteq> reach (mark_state env d) (live_heads d)"
  proof
    fix x
    assume "x \<in> live d"
    then obtain h where head: "h \<in> set (live_heads d)" and path: "(h, x) \<in> (state_edges d)\<^sup>*"
      by (auto simp: live_def)
    from path show "x \<in> reach (mark_state env d) (live_heads d)"
    proof (induction rule: rtrancl_induct)
      case (step y z)
      then have "y \<in> live d"
        using head by (auto simp: live_def)
      with step assms show ?case
        by (auto simp: reach_def intro: mark_edge_ok rtrancl_into_rtrancl)
    qed (use head in \<open>auto simp: reach_def\<close>)
  qed
qed (rule mark_reach_live)

lemma finite_mark: "finite (reach (mark_state env d) (live_heads d))"
  by (rule finite_subset [OF mark_reach_live]) (simp add: live_def finite_reach finite_state_edges)

lemma manifest_of_row:
  assumes "dag_closed env docs d" and "tbl_get (dag_states d) i = Some n"
  shows "\<exists>m. manifest_of env d i = Ok (n, m)"
proof -
  obtain m where "manifest_load env (dag_cas d) (workspace_root n) = Ok m"
    using dag_closedD(4) [OF assms] by (auto simp: rooted_def is_ok_iff)
  with assms(2) show ?thesis
    by (simp add: manifest_of_def load_state_def)
qed

lemma live_has_state:
  assumes "dag_closed env docs d" and "i \<in> live d"
  shows "has_state d i" and "\<exists>n m. manifest_of env d i = Ok (n, m)"
proof -
  obtain h where head: "h \<in> set (live_heads d)" and path: "(h, i) \<in> (state_edges d)\<^sup>*"
    using assms(2) by (auto simp: live_def)
  from path show i: "has_state d i"
  proof (induction rule: rtrancl_induct)
    case base
    then show ?case
      using head dag_closedD(2,5) [OF assms(1)] by (auto simp: live_heads_def tbl_in_set_iff)
  next
    case (step y z)
    then show ?case
      using dag_closedD(3) [OF assms(1), of y] by (auto simp: state_edges_def parents_def)
  qed
  show "\<exists>n m. manifest_of env d i = Ok (n, m)"
    using i manifest_of_row [OF assms(1)] unfolding has_state_def by blast
qed

lemma live_marked:
  assumes "dag_closed env docs d" and "i \<in> live d"
  shows "is_ok (mark_state env d i)"
  using live_has_state(2) [OF assms] by (auto simp: mark_state_eq)

lemma live_outputs:
  assumes "dag_closed env docs d"
  shows "(\<Union>x \<in> live d. outputs (mark_state env d) x) = live_documents env d"
proof -
  have "h \<in> outputs (mark_state env d) i \<longleftrightarrow>
      (\<exists>n m. manifest_of env d i = Ok (n, m) \<and> (h = workspace_root n \<or> (\<exists>p e. (p, e) \<in> set m \<and> h = blob e)))"
    if "i \<in> live d" for i h
    using live_has_state(2) [OF assms that] by (force simp: outputs_def mark_state_eq)
  then show ?thesis
    by (simp add: live_documents_def set_eq_iff cong: bex_cong)
qed

lemma sweep_rows: "tbl_get (foldl (\<lambda>t i. tbl_delete i t) t is) k = (if k \<in> set is then None else tbl_get t k)"
  by (induction "is" arbitrary: t) auto

lemma cas_remove_deletes:
  "cas_ok hash docs c \<Longrightarrow> h \<in> fst ` set c \<Longrightarrow> fst (cas_remove c h) = tbl_delete h c"
  using cas_ok_row(3) [of hash docs c h] by (auto simp: cas_remove_def cas_ok_def tbl_in_set_iff)

lemma remove_listed:
  "cas_ok hash docs c \<Longrightarrow> distinct hs \<Longrightarrow> set hs \<subseteq> fst ` set c \<Longrightarrow>
     foldl (\<lambda>c h. fst (cas_remove c h)) c hs = foldl (\<lambda>c h. tbl_delete h c) c hs"
proof (induction hs arbitrary: c)
  case (Cons h hs)
  moreover have "set hs \<subseteq> fst ` set (tbl_delete h c)"
    using Cons.prems(2,3) by (force simp: tbl_delete_def)
  ultimately show ?case
    by (simp add: cas_remove_deletes cas.ok_drop)
qed simp

lemma sweep_exact:
  assumes "cas_ok hash docs (dag_cas d)" and "sweep d states blobs = (d', report)"
  shows "tbl_get (dag_states d') i = (if i \<in> set states then tbl_get (dag_states d) i else None)"
    and "tbl_get (dag_cas d') h = (if h \<in> set blobs then tbl_get (dag_cas d) h else None)"
    and "cas_ok hash docs (dag_cas d')" and "dag_branches d' = dag_branches d" and "dag_episodes d' = dag_episodes d"
proof -
  define dead where "dead = filter (\<lambda>h. h \<notin> set blobs) (map fst (dag_cas d))"
  have "distinct dead" "set dead \<subseteq> fst ` set (dag_cas d)"
    using assms(1) by (auto simp: dead_def cas_ok_def tbl_ok_def)
  note removed = remove_listed [OF assms(1) this]
  have d': "dag_states d' = foldl (\<lambda>t i. tbl_delete i t) (dag_states d) (filter (\<lambda>i. i \<notin> set states) (map fst (dag_states d)))"
    "dag_cas d' = foldl (\<lambda>c h. tbl_delete h c) (dag_cas d) dead" "dag_branches d' = dag_branches d"
    "dag_episodes d' = dag_episodes d"
    using assms(2) by (auto simp: sweep_def cas_list_def dead_def [symmetric] removed)
  show "tbl_get (dag_states d') i = (if i \<in> set states then tbl_get (dag_states d) i else None)"
    by (auto simp: d' sweep_rows tbl_get_None_iff)
  show "tbl_get (dag_cas d') h = (if h \<in> set blobs then tbl_get (dag_cas d) h else None)"
    by (auto simp: d' sweep_rows dead_def tbl_get_None_iff)
  show "cas_ok hash docs (dag_cas d')"
    by (simp add: d' cas.ok_drop_all assms(1))
qed (use assms(2) in \<open>auto simp: sweep_def Let_def\<close>)

text \<open>What a collection leaves behind.\<close>

definition collected :: "DagEnv \<Rightarrow> StateDag \<Rightarrow> StateDag \<Rightarrow> bool" where
  "collected env d d' =
     (dag_branches d' = dag_branches d \<and> dag_episodes d' = dag_episodes d
      \<and> (\<forall>i. tbl_get (dag_states d') i = (if i \<in> live d then tbl_get (dag_states d) i else None))
      \<and> (\<forall>h. tbl_get (dag_cas d') h = (if h \<in> live_documents env d then tbl_get (dag_cas d) h else None)))"

lemma gc_collects:
  assumes "dag_closed env docs d"
  shows "\<exists>d' report. gc env d = Some (d', Ok report) \<and> collected env d d' \<and> cas_ok (sha env) docs (dag_cas d')"
proof -
  note reach = live_mark_reach [OF live_marked [OF assms]]
  obtain r where r: "explore (\<lambda>_. False) (mark_state env d) [] [] (live_heads d) = Some r"
      "search_post (\<lambda>_. False) (mark_state env d) (live d) r"
    using explore_search [OF finite_mark, of "\<lambda>_. False" env d] by (auto simp: reach)
  have "\<not> (\<exists>x \<in> live d. mark_state env d x = Err e)" for e
    using live_marked [OF assms] by force
  with r(2) obtain states blobs where ex: "r = Ok (Exhausted states blobs)" "set states = live d" "set blobs = live_documents env d"
    by (cases r; cases "projr r") (auto simp: live_outputs [OF assms])
  obtain d' report where sw: "sweep d states blobs = (d', report)"
    by fastforce
  then have "gc env d = Some (d', Ok report)"
    using r(1) ex(1) by (simp add: gc_def)
  moreover have "collected env d d'" "cas_ok (sha env) docs (dag_cas d')"
    using sweep_exact [OF dag_closedD(1) [OF assms] sw] ex(2,3) by (simp_all add: collected_def)
  ultimately show ?thesis
    by blast
qed

text \<open>A live state keeps its row, its manifest and its file contents.\<close>

lemma collected_manifest:
  assumes "dag_closed env docs d" and "collected env d d'" and "i \<in> live d" and "manifest_of env d i = Ok (n, m)"
  shows "manifest_of env d' i = Ok (n, m)"
    and "h \<in> insert (workspace_root n) (blob ` snd ` set m) \<Longrightarrow> cas_get (sha env) (dag_cas d') h = cas_get (sha env) (dag_cas d) h"
proof -
  have same: "cas_get (sha env) (dag_cas d') h = cas_get (sha env) (dag_cas d) h"
    if "h \<in> insert (workspace_root n) (blob ` snd ` set m)" for h
  proof -
    have "h \<in> live_documents env d"
      using that assms(3,4) by (force simp: live_documents_def)
    then have "tbl_get (dag_cas d') h = tbl_get (dag_cas d) h"
      using assms(2) by (simp add: collected_def)
    then show ?thesis
      by (cases "hex_of h") (simp_all add: cas_get_def)
  qed
  then show "h \<in> insert (workspace_root n) (blob ` snd ` set m) \<Longrightarrow> cas_get (sha env) (dag_cas d') h = cas_get (sha env) (dag_cas d) h" .
  have "load_state d' i = load_state d i"
    using assms(2,3) by (simp add: load_state_def collected_def)
  then show "manifest_of env d' i = Ok (n, m)"
    using same [of "workspace_root n"] assms(4)
    by (auto simp: manifest_of_def manifest_load_def split: sum.splits)
qed

lemma closed_collected:
  assumes "dag_closed env docs d" and "collected env d d'" and "cas_ok (sha env) docs (dag_cas d')"
  shows "dag_closed env docs d'"
  unfolding dag_closed_def
proof (intro conjI allI impI ballI)
  fix i n p
  assume "tbl_get (dag_states d') i = Some n"
  then have i: "i \<in> live d" "tbl_get (dag_states d) i = Some n"
    using assms(2) by (auto simp: collected_def split: if_splits)
  obtain m where m: "manifest_of env d i = Ok (n, m)"
    using manifest_of_row [OF assms(1) i(2)] by blast
  show "rooted env (dag_cas d') (workspace_root n)"
    using collected_manifest(1) [OF assms(1,2) i(1) m]
    by (auto simp: manifest_of_def rooted_def is_ok_iff split: sum.splits)
  assume p: "p \<in> parents n"
  then have "p \<in> live d"
    using i by (auto simp: live_def state_edges_def parents_def intro: rtrancl_into_rtrancl)
  then show "has_state d' p"
    using assms(2) live_has_state(1) [OF assms(1)] by (simp add: has_state_def collected_def)
next
  fix j r
  assume "tbl_get (dag_branches d') j = Some r" "brow_status r \<noteq> ''discarded''"
  then have "brow_head r \<in> live d"
    using assms(2) by (force simp: collected_def live_def live_heads_def dest: tbl_get_in_set)
  then show "has_state d' (brow_head r)"
    using assms(2) live_has_state(1) [OF assms(1)] by (simp add: has_state_def collected_def)
qed (use assms dag_closedD(2) [OF assms(1)] in \<open>simp_all add: collected_def\<close>)

lemma dag_run_closed:
  assumes "env_ok env docs" and "dag_run env docs d"
  shows "dag_closed env docs d"
  using assms(2)
proof (induction rule: dag_run.induct)
  case dag_open
  then show ?case
    using assms(1) by (simp add: dag_closed_def cas_ok_def env_ok_def)
next
  case (dag_gc d d' r)
  then show ?case
    using gc_collects [of env docs d] closed_collected [of env docs d] by auto
next
  case (dag_merge d target source actor st now d' r)
  then show ?case
    using closed_merge [OF assms(1), of d target source actor st now d' r] by blast
qed (simp_all add: closed_put closed_create_empty [OF assms(1)] closed_create_from closed_append closed_fork closed_discard)

section \<open>Properties\<close>


text \<open>
  C21. A collection always succeeds and is exact: it keeps the rows of precisely the states
  reachable from the heads of branches that were not discarded and precisely the documents those
  states refer to, and every such state keeps its manifest and the content of all its files.
\<close>

theorem gc_exact:
  assumes "env_ok env docs" and "dag_run env docs d"
  shows "\<exists>d' report. gc env d = Some (d', Ok report) \<and> collected env d d'
    \<and> (\<forall>i \<in> live d. \<exists>n m. manifest_of env d i = Ok (n, m) \<and> manifest_of env d' i = Ok (n, m)
         \<and> (\<forall>h \<in> insert (workspace_root n) (blob ` snd ` set m).
              cas_get (sha env) (dag_cas d') h = cas_get (sha env) (dag_cas d) h))"
proof -
  note closed = dag_run_closed [OF assms]
  obtain d' report where d': "gc env d = Some (d', Ok report)" "collected env d d'"
    using gc_collects [OF closed] by blast
  have "\<exists>n m. manifest_of env d i = Ok (n, m) \<and> manifest_of env d' i = Ok (n, m)
         \<and> (\<forall>h \<in> insert (workspace_root n) (blob ` snd ` set m).
              cas_get (sha env) (dag_cas d') h = cas_get (sha env) (dag_cas d) h)" if i: "i \<in> live d" for i
    using live_has_state(2) [OF closed i] collected_manifest [OF closed d'(2) i] by blast
  with d' show ?thesis
    by blast
qed

section \<open>A concrete history\<close>

definition demo_docs :: "bytes set" where
  "demo_docs = {demo_doc demo_m0, demo_doc demo_m1}"

lemma demo_env_ok: "env_ok demo_dag_env demo_docs"
proof -
  have "is_ok (hex_of (demo_sha b))" for b
    by (simp add: demo_sha_def hex_of_def ascii_hexdigit_def list_all_iff)
  then show ?thesis
    using demo_hash_neq
    by (auto simp: env_ok_def wellformed_hash_def demo_docs_def demo_dag_env_def demo_hash_def)
qed

lemma demo_bytes: "manifest_bytes demo_dag_env m = demo_doc m"
  by (simp add: demo_doc_def)

lemma demo_run_cas: "dag_run demo_dag_env demo_docs
    \<lparr> dag_episodes = [], dag_states = [], dag_branches = [], dag_cas = demo_cas \<rparr>"
proof -
  have put: "fst (cas_put (sha demo_dag_env) (fst (cas_put (sha demo_dag_env) [] (demo_doc demo_m0))) (demo_doc demo_m1)) = demo_cas"
    using demo_env_ok demo_hash_neq
    by (simp add: env_ok_def cas_put_fst) (simp add: demo_cas_def demo_hash_def demo_dag_env_def tbl_get_def)
  show ?thesis
    using dag_write [OF dag_write [OF dag_open [of demo_dag_env demo_docs], where b = "demo_doc demo_m0"],
        where b = "demo_doc demo_m1"]
    by (simp add: demo_docs_def put)
qed

lemma demo_faithful:
  "faithful_snapshot demo_dag_env demo_docs
     (\<lambda>c. (fst (manifest_store demo_dag_env c demo_m0), Ok (demo_hash demo_m0, demo_m0)))"
proof -
  have "demo_doc demo_m0 \<in> demo_docs" "sha demo_dag_env (demo_doc demo_m0) = demo_hash demo_m0"
    by (simp_all add: demo_docs_def demo_hash_def demo_dag_env_def)
  then show ?thesis
    using rooted_store [OF demo_env_ok, of _ demo_m0]
    by (auto simp: faithful_snapshot_def manifest_store_eq [OF demo_env_ok] demo_bytes
        intro!: exI [of _ "[demo_doc demo_m0]"])
qed

lemma demo_rooted: "rooted demo_dag_env demo_cas (demo_hash demo_m0)" "rooted demo_dag_env demo_cas (demo_hash demo_m1)"
  by (simp_all add: rooted_def demo_load)

lemma demo_run_append:
  "dag_run demo_dag_env demo_docs d \<Longrightarrow> dag_cas d = demo_cas \<Longrightarrow> m \<in> {demo_m0, demo_m1} \<Longrightarrow>
     dag_run demo_dag_env demo_docs (demo_append br st m d)"
  using demo_rooted unfolding demo_append_def by (intro dag_append) auto

lemma demo_run_steps: "dag_run demo_dag_env demo_docs demo_steps"
proof -
  have ep: "dag_run demo_dag_env demo_docs demo_episode"
    unfolding demo_episode_def by (rule dag_create_from [OF demo_run_cas demo_faithful])
  have "dag_cas demo_episode = demo_cas" "dag_cas (demo_append ''main'' ''y'' demo_m1 demo_episode) = demo_cas"
    by (simp_all add: demo_episode_def demo_op_simps)
  with ep show ?thesis
    unfolding demo_steps_def by (intro demo_run_append) simp_all
qed

lemma demo_run_merged: "dag_run demo_dag_env demo_docs demo_merged"
proof -
  define d where "d = fst (fork demo_steps ''x'' ''side'' 4)"
  have run: "dag_run demo_dag_env demo_docs d"
    unfolding d_def by (rule dag_fork [OF demo_run_steps])
  have "\<exists>r. merge demo_dag_env d ''main'' ''side'' ''agent'' ''b'' 3 = Some (demo_merged, r)"
    by (simp add: d_def demo_merged_eq demo_steps_eq demo_merge_simps)
  then obtain r where "merge demo_dag_env d ''main'' ''side'' ''agent'' ''b'' 3 = Some (demo_merged, r)"
    by blast
  then show ?thesis
  proof (rule dag_merge [OF run])
    fix tb sb base tn sn tm m
    assume "load_branch d ''main'' = Ok tb" "load_branch d ''side'' = Ok sb"
      "lca d (br_head tb) (br_head sb) = Some (Ok base)" "merge_plan demo_dag_env d tb sb base = Ok (tn, sn, tm, m)"
    then have "m = demo_m1"
      by (auto simp: d_def demo_steps_eq demo_merge_simps)
    then show "manifest_bytes demo_dag_env m \<in> demo_docs"
      by (simp add: demo_docs_def demo_bytes)
  qed
qed

definition demo_discarded :: StateDag where
  "demo_discarded = fst (discard_branch demo_history ''revert'')"

lemma demo_run_discarded: "dag_run demo_dag_env demo_docs demo_discarded"
proof -
  have "dag_cas (fst (fork demo_merged ''y'' ''revert'' 5)) = demo_cas"
    by (simp add: demo_merged_eq demo_steps_eq demo_op_simps)
  then have "dag_run demo_dag_env demo_docs demo_history"
    unfolding demo_history_def by (intro demo_run_append dag_fork demo_run_merged) simp_all
  then show ?thesis
    unfolding demo_discarded_def by (rule dag_discard)
qed


theorem gc_exact_witness:
  "env_ok demo_dag_env demo_docs \<and> dag_run demo_dag_env demo_docs demo_discarded
   \<and> (\<exists>d' report. gc demo_dag_env demo_discarded = Some (d', Ok report)
        \<and> map_sum id snd (manifest_of demo_dag_env d' ''b'') = Ok demo_m1)"
proof -
  have rows: "map_sum id snd (manifest_of demo_dag_env demo_discarded ''b'') = Ok demo_m1"
    "''b'' \<in> set (live_heads demo_discarded)"
    by (simp_all add: demo_discarded_def discard_branch_def demo_history_eq demo_merged_eq demo_steps_eq
        demo_merge_simps live_heads_def)
  then have "''b'' \<in> live demo_discarded"
    by (auto simp: live_def)
  then show ?thesis
    using gc_exact [OF demo_env_ok demo_run_discarded] demo_env_ok demo_run_discarded rows(1) by fastforce
qed

end
