(* ===== verification/Snapshot.thy ===== *)
theory Snapshot
  imports FileTree StateGc
begin

text \<open>
  Workspace snapshots (kernel/state_dag/src/snapshot.rs) and the DAG operations that walk a
  directory (\<open>snapshot_and_append\<close>, \<open>materialize\<close> of dag.rs): the walk with its incremental stat cache
  and racy-clean guard, materialization with the removal of stale files, and the round trip
  between the two. Times are nanoseconds and arguments; \<open>FsEnv\<close> stands for what the operating
  system does with directories and links where the code expects a file.
\<close>

section \<open>The stat cache\<close>

definition RACY_WINDOW :: instant where
  "RACY_WINDOW = 2000000000"

record StatEntry =
  se_mtime :: instant
  se_len :: nat
  se_blob :: string

record StatCache =
  sc_entries :: "(string, StatEntry) table"
  recorded_at :: "instant option"

definition default_cache :: StatCache where
  "default_cache = \<lparr> sc_entries = [], recorded_at = None \<rparr>"

definition trusted :: "StatCache \<Rightarrow> StatEntry \<Rightarrow> instant \<Rightarrow> nat \<Rightarrow> bool" where
  "trusted cache e mtime len =
     (case recorded_at cache of
        None \<Rightarrow> False
      | Some r \<Rightarrow> se_len e = len \<and> se_mtime e = mtime \<and> mtime \<le> r \<and> r - mtime \<ge> RACY_WINDOW)"

section \<open>Taking a snapshot\<close>

text \<open>Insertion into the sorted map of manifest entries.\<close>

fun bt_insert :: "'k::linorder \<Rightarrow> 'v \<Rightarrow> ('k \<times> 'v) list \<Rightarrow> ('k \<times> 'v) list" where
  "bt_insert k v [] = [(k, v)]"
| "bt_insert k v ((k', v') # m) =
     (if k = k' then (k, v) # m else if k < k' then (k, v) # (k', v') # m else (k', v') # bt_insert k v m)"

record WalkState =
  w_cas :: cas
  w_manifest :: Manifest
  w_next :: "(string, StatEntry) table"
  w_reused :: nat

definition walk_blob ::
  "DagEnv \<Rightarrow> StatCache \<Rightarrow> string \<Rightarrow> bytes \<Rightarrow> instant \<Rightarrow> WalkState \<Rightarrow> WalkState \<times> string KernelResult" where
  "walk_blob env cache rel content mtime w =
     (let stored = (case cas_put (sha env) (w_cas w) content of (c, r) \<Rightarrow> (w\<lparr> w_cas := c \<rparr>, r)) in
      case tbl_get (sc_entries cache) rel of
        Some e \<Rightarrow> if trusted cache e mtime (length content)
                  then (w\<lparr> w_reused := Suc (w_reused w) \<rparr>, Ok (se_blob e)) else stored
      | None \<Rightarrow> stored)"

definition walk_file ::
  "DagEnv \<Rightarrow> StatCache \<Rightarrow> string list \<Rightarrow> bytes \<Rightarrow> u32 \<Rightarrow> instant \<Rightarrow> WalkState \<Rightarrow> WalkState \<times> unit KernelResult" where
  "walk_file env cache p content fmode mtime w =
     (let rel = join_path p in
      case walk_blob env cache rel content mtime w of
        (w', Err e) \<Rightarrow> (w', Err e)
      | (w', Ok b) \<Rightarrow>
          (w'\<lparr> w_next := tbl_put rel \<lparr> se_mtime = mtime, se_len = length content, se_blob = b \<rparr> (w_next w'),
               w_manifest := bt_insert rel \<lparr> blob = b, mode = fmode \<rparr> (w_manifest w') \<rparr>, Ok ()))"

fun walk :: "DagEnv \<Rightarrow> StatCache \<Rightarrow> string list \<Rightarrow> forest \<Rightarrow> WalkState \<Rightarrow> WalkState \<times> unit KernelResult" where
  "walk env cache pre [] w = (w, Ok ())"
| "walk env cache pre ((n, Dir g) # f) w =
     (if is_ignored_component n then walk env cache pre f w
      else case walk env cache (pre @ [n]) g w of
             (w', Err e) \<Rightarrow> (w', Err e)
           | (w', Ok _) \<Rightarrow> walk env cache pre f w')"
| "walk env cache pre ((n, File content fmode mtime) # f) w =
     (if is_ignored_component n then walk env cache pre f w
      else case walk_file env cache (pre @ [n]) content fmode mtime w of
             (w', Err e) \<Rightarrow> (w', Err e)
           | (w', Ok _) \<Rightarrow> walk env cache pre f w')"
| "walk env cache pre ((n, Link t) # f) w = walk env cache pre f w"

definition snapshot_dir_with_cache ::
  "DagEnv \<Rightarrow> instant \<Rightarrow> cas \<Rightarrow> forest \<Rightarrow> StatCache \<Rightarrow> cas \<times> StatCache \<times> (string \<times> Manifest) KernelResult" where
  "snapshot_dir_with_cache env started c dir cache =
     (case walk env cache [] dir \<lparr> w_cas = c, w_manifest = [], w_next = [], w_reused = 0 \<rparr> of
        (w, Err e) \<Rightarrow> (w_cas w, cache, Err e)
      | (w, Ok _) \<Rightarrow>
        (case manifest_store env (w_cas w) (w_manifest w) of
           (c', Err e) \<Rightarrow> (c', cache, Err e)
         | (c', Ok r) \<Rightarrow>
             (c', \<lparr> sc_entries = w_next w, recorded_at = Some started \<rparr>, Ok (r, w_manifest w))))"

definition snapshot_dir :: "DagEnv \<Rightarrow> instant \<Rightarrow> cas \<Rightarrow> forest \<Rightarrow> cas \<times> (string \<times> Manifest) KernelResult" where
  "snapshot_dir env started c dir =
     (case snapshot_dir_with_cache env started c dir default_cache of (c', _, r) \<Rightarrow> (c', r))"

section \<open>Materializing\<close>

text \<open>
  What \<open>std::fs\<close> answers where a directory or a link sits at a destination: its metadata, and
  whether a write through a link succeeds. Writes through links land outside the tree and are
  collected in order.
\<close>

record FsEnv =
  other_stat :: "fsnode \<Rightarrow> (instant \<times> nat) option"
  link_writable :: "string \<Rightarrow> bool"

record FsWorld =
  tree :: forest
  through :: "(string \<times> bytes \<times> u32) list"

fun remove_stale :: "string list \<Rightarrow> Manifest \<Rightarrow> forest \<Rightarrow> forest" where
  "remove_stale pre m [] = []"
| "remove_stale pre m ((n, Dir g) # f) =
     (if is_ignored_component n then [(n, Dir g)]
      else (let g' = remove_stale (pre @ [n]) m g in if g' = [] then [] else [(n, Dir g')]))
     @ remove_stale pre m f"
| "remove_stale pre m ((n, File content fmode mtime) # f) =
     (if is_ignored_component n \<or> map_of m (join_path (pre @ [n])) \<noteq> None then [(n, File content fmode mtime)] else [])
     @ remove_stale pre m f"
| "remove_stale pre m ((n, Link t) # f) =
     (if is_ignored_component n \<or> map_of m (join_path (pre @ [n])) \<noteq> None then [(n, Link t)] else [])
     @ remove_stale pre m f"

definition fs_stat :: "FsEnv \<Rightarrow> fsnode option \<Rightarrow> (instant \<times> nat) option" where
  "fs_stat fenv x =
     (case x of
        None \<Rightarrow> None
      | Some (File content _ mtime) \<Rightarrow> Some (mtime, length content)
      | Some y \<Rightarrow> other_stat fenv y)"

definition fs_write :: "FsEnv \<Rightarrow> instant \<Rightarrow> string list \<Rightarrow> bytes \<Rightarrow> u32 \<Rightarrow> FsWorld \<Rightarrow> FsWorld KernelResult" where
  "fs_write fenv now p content fmode w =
     (case lookup p (tree w) of
        Some (Dir _) \<Rightarrow> Err (Io ''Is a directory'')
      | Some (Link t) \<Rightarrow>
          if link_writable fenv t then Ok (w\<lparr> through := through w @ [(t, content, fmode)] \<rparr>)
          else Err (Io ''write through link'')
      | _ \<Rightarrow> Ok (w\<lparr> tree := put_node p (File content fmode now) (tree w) \<rparr>))"

definition stat_after :: "FsEnv \<Rightarrow> instant \<Rightarrow> bytes \<Rightarrow> fsnode option \<Rightarrow> (instant \<times> nat) option" where
  "stat_after fenv now content x =
     (case x of Some (Link _) \<Rightarrow> Some (now, length content) | y \<Rightarrow> fs_stat fenv y)"

definition unchanged :: "FsEnv \<Rightarrow> StatCache \<Rightarrow> string \<Rightarrow> ManifestEntry \<Rightarrow> fsnode option \<Rightarrow> bool" where
  "unchanged fenv cache path entry x =
     (case tbl_get (sc_entries cache) path of
        None \<Rightarrow> False
      | Some e \<Rightarrow> se_blob e = blob entry
          \<and> (case fs_stat fenv x of Some (mtime, len) \<Rightarrow> trusted cache e mtime len | None \<Rightarrow> False))"

definition materialize_entry ::
  "DagEnv \<Rightarrow> FsEnv \<Rightarrow> cas \<Rightarrow> instant \<Rightarrow> StatCache \<Rightarrow> string \<Rightarrow> ManifestEntry \<Rightarrow> FsWorld \<times> (string, StatEntry) table
    \<Rightarrow> FsWorld \<times> (string, StatEntry) table KernelResult" where
  "materialize_entry env fenv c now cache path entry wn =
     (let w = fst wn; dest = pieces path in
      case create_dir_all (butlast dest) (tree w) of Err e \<Rightarrow> (w, Err e) | Ok t \<Rightarrow>
      let w1 = w\<lparr> tree := t \<rparr>; old = lookup dest t in
      if unchanged fenv cache path entry old then
        (case fs_stat fenv old of
           None \<Rightarrow> (w1, Err (Io ''metadata''))
         | Some (mtime, len) \<Rightarrow>
             (w1, Ok (tbl_put path \<lparr> se_mtime = mtime, se_len = len, se_blob = blob entry \<rparr> (snd wn))))
      else
        case cas_get (sha env) c (blob entry) of Err e \<Rightarrow> (w1, Err e) | Ok content \<Rightarrow>
        case fs_write fenv now dest content (mode entry) w1 of Err e \<Rightarrow> (w1, Err e) | Ok w2 \<Rightarrow>
        case stat_after fenv now content (lookup dest (tree w2)) of
          None \<Rightarrow> (w2, Err (Io ''metadata''))
        | Some (mtime, len) \<Rightarrow>
            (w2, Ok (tbl_put path \<lparr> se_mtime = mtime, se_len = len, se_blob = blob entry \<rparr> (snd wn))))"

fun materialize_loop ::
  "DagEnv \<Rightarrow> FsEnv \<Rightarrow> cas \<Rightarrow> instant \<Rightarrow> StatCache \<Rightarrow> Manifest \<Rightarrow> FsWorld \<Rightarrow> (string, StatEntry) table
    \<Rightarrow> FsWorld \<times> (string, StatEntry) table KernelResult" where
  "materialize_loop env fenv c now cache [] w next = (w, Ok next)"
| "materialize_loop env fenv c now cache ((path, entry) # m) w next =
     (case materialize_entry env fenv c now cache path entry (w, next) of
        (w', Err e) \<Rightarrow> (w', Err e)
      | (w', Ok next') \<Rightarrow> materialize_loop env fenv c now cache m w' next')"

text \<open>The target directory exists or is created empty; a missing one is the empty forest.\<close>

definition materialize_with_cache ::
  "DagEnv \<Rightarrow> FsEnv \<Rightarrow> cas \<Rightarrow> string \<Rightarrow> instant \<Rightarrow> instant \<Rightarrow> FsWorld \<Rightarrow> StatCache \<Rightarrow> FsWorld \<times> StatCache \<times> unit KernelResult" where
  "materialize_with_cache env fenv c wroot started now w cache =
     (case manifest_load env c wroot of
        Err e \<Rightarrow> (w, cache, Err e)
      | Ok m \<Rightarrow>
        (case materialize_loop env fenv c now cache m (w\<lparr> tree := remove_stale [] m (tree w) \<rparr>) [] of
           (w', Err e) \<Rightarrow> (w', cache, Err e)
         | (w', Ok next) \<Rightarrow> (w', \<lparr> sc_entries = next, recorded_at = Some started \<rparr>, Ok ())))"

definition materialize ::
  "DagEnv \<Rightarrow> FsEnv \<Rightarrow> cas \<Rightarrow> string \<Rightarrow> instant \<Rightarrow> instant \<Rightarrow> FsWorld \<Rightarrow> FsWorld \<times> unit KernelResult" where
  "materialize env fenv c wroot started now w =
     (case materialize_with_cache env fenv c wroot started now w default_cache of (w', _, r) \<Rightarrow> (w', r))"

section \<open>Directory operations of the DAG\<close>

text \<open>
  The DAG with its stat caches, one per directory path. A cache is taken out while an operation
  runs and put back whatever the result.
\<close>

record DirDag =
  dd_dag :: StateDag
  dd_caches :: "(string, StatCache) table"

definition take_stat_cache :: "string \<Rightarrow> DirDag \<Rightarrow> StatCache" where
  "take_stat_cache dir d = (case tbl_get (dd_caches d) dir of Some c \<Rightarrow> c | None \<Rightarrow> default_cache)"

definition put_stat_cache :: "string \<Rightarrow> StatCache \<Rightarrow> DirDag \<Rightarrow> DirDag" where
  "put_stat_cache dir cache d = d\<lparr> dd_caches := tbl_put dir cache (dd_caches d) \<rparr>"

definition snapshot_and_append ::
  "DagEnv \<Rightarrow> DirDag \<Rightarrow> ident \<Rightarrow> ident \<Rightarrow> ident \<Rightarrow> string \<Rightarrow> forest \<Rightarrow> ReplayClass \<Rightarrow> ident \<Rightarrow> instant
    \<Rightarrow> DirDag \<times> StateNode KernelResult" where
  "snapshot_and_append env d branch step actor dir forest replay new_st now =
     (case dag_head (dd_dag d) branch of Err e \<Rightarrow> (d, Err e) | Ok hd_node \<Rightarrow>
      case snapshot_dir_with_cache env now (dag_cas (dd_dag d)) forest (take_stat_cache dir d) of
        (c, cache, r) \<Rightarrow>
      let d1 = put_stat_cache dir cache (d\<lparr> dd_dag := (dd_dag d)\<lparr> dag_cas := c \<rparr> \<rparr>) in
      case r of Err e \<Rightarrow> (d1, Err e) | Ok (new_root, new_m) \<Rightarrow>
      case manifest_load env c (workspace_root hd_node) of Err e \<Rightarrow> (d1, Err e) | Ok old_m \<Rightarrow>
      let delta = default_delta\<lparr> delta_files := diff_manifests old_m new_m,
                    delta_policy_epoch := delta_policy_epoch (st_delta hd_node) \<rparr> in
      case append_step (dd_dag d1) branch step actor delta new_root replay new_st now of
        (dag, res) \<Rightarrow> (d1\<lparr> dd_dag := dag \<rparr>, res))"

definition dag_materialize ::
  "DagEnv \<Rightarrow> FsEnv \<Rightarrow> DirDag \<Rightarrow> ident \<Rightarrow> string \<Rightarrow> FsWorld \<Rightarrow> instant \<Rightarrow> instant \<Rightarrow> DirDag \<times> FsWorld \<times> unit KernelResult" where
  "dag_materialize env fenv d state dir w started now =
     (case load_state (dd_dag d) state of Err e \<Rightarrow> (d, w, Err e) | Ok node \<Rightarrow>
      case materialize_with_cache env fenv (dag_cas (dd_dag d)) (workspace_root node) started now w (take_stat_cache dir d) of
        (w', cache, r) \<Rightarrow> (put_stat_cache dir cache d, w', r))"

section \<open>The walk, flattened\<close>

text \<open>
  The recursive walk is a loop over the visible leaves. Each file contributes one manifest entry
  whose blob is the cached one when the cache is trusted and the digest of the content otherwise.
\<close>

fun walk_all :: "DagEnv \<Rightarrow> StatCache \<Rightarrow> (string list \<times> fsnode) list \<Rightarrow> WalkState \<Rightarrow> WalkState \<times> unit KernelResult" where
  "walk_all env cache [] w = (w, Ok ())"
| "walk_all env cache ((p, File content fmode mtime) # l) w =
     (case walk_file env cache p content fmode mtime w of
        (w', Err e) \<Rightarrow> (w', Err e)
      | (w', Ok _) \<Rightarrow> walk_all env cache l w')"
| "walk_all env cache ((p, x) # l) w = walk_all env cache l w"

definition reusable :: "StatCache \<Rightarrow> string list \<Rightarrow> bytes \<Rightarrow> instant \<Rightarrow> string option" where
  "reusable cache p content mtime =
     (case tbl_get (sc_entries cache) (join_path p) of
        Some e \<Rightarrow> if trusted cache e mtime (length content) then Some (se_blob e) else None
      | None \<Rightarrow> None)"

definition blob_of :: "DagEnv \<Rightarrow> StatCache \<Rightarrow> string list \<Rightarrow> bytes \<Rightarrow> instant \<Rightarrow> string" where
  "blob_of env cache p content mtime = (case reusable cache p content mtime of Some b \<Rightarrow> b | None \<Rightarrow> sha env content)"

fun leaf_entries :: "DagEnv \<Rightarrow> StatCache \<Rightarrow> (string list \<times> fsnode) list \<Rightarrow> Manifest" where
  "leaf_entries env cache [] = []"
| "leaf_entries env cache ((p, File content fmode mtime) # l) =
     (join_path p, \<lparr> blob = blob_of env cache p content mtime, mode = fmode \<rparr>) # leaf_entries env cache l"
| "leaf_entries env cache ((p, x) # l) = leaf_entries env cache l"

fun leaf_stats :: "DagEnv \<Rightarrow> StatCache \<Rightarrow> (string list \<times> fsnode) list \<Rightarrow> (string \<times> StatEntry) list" where
  "leaf_stats env cache [] = []"
| "leaf_stats env cache ((p, File content fmode mtime) # l) =
     (join_path p, \<lparr> se_mtime = mtime, se_len = length content, se_blob = blob_of env cache p content mtime \<rparr>)
       # leaf_stats env cache l"
| "leaf_stats env cache ((p, x) # l) = leaf_stats env cache l"

fun leaf_reads :: "StatCache \<Rightarrow> (string list \<times> fsnode) list \<Rightarrow> bytes list" where
  "leaf_reads cache [] = []"
| "leaf_reads cache ((p, File content fmode mtime) # l) =
     (if reusable cache p content mtime = None then [content] else []) @ leaf_reads cache l"
| "leaf_reads cache ((p, x) # l) = leaf_reads cache l"

lemma walk_all_append:
  "walk_all env cache (l @ l') w =
     (case walk_all env cache l w of (w', Err e) \<Rightarrow> (w', Err e) | (w', Ok _) \<Rightarrow> walk_all env cache l' w')"
  by (induction env cache l w rule: walk_all.induct) (auto split: prod.splits sum.splits)

lemma walk_flatten: "walk env cache pre f w = walk_all env cache (flatten pre f) w"
proof (induction env cache pre f w rule: walk.induct)
  case (2 env cache pre n g f w)
  then show ?case
    by (auto simp: walk_all_append split: prod.splits sum.splits)
qed (auto split: prod.splits sum.splits)

lemma walk_file_eq:
  assumes "wellformed_hash (sha env)"
  shows "walk_file env cache p content fmode mtime w =
    (w\<lparr> w_cas := (if reusable cache p content mtime = None then fst (cas_put (sha env) (w_cas w) content) else w_cas w),
        w_reused := (if reusable cache p content mtime = None then w_reused w else Suc (w_reused w)),
        w_next := tbl_put (join_path p) \<lparr> se_mtime = mtime, se_len = length content,
          se_blob = blob_of env cache p content mtime \<rparr> (w_next w),
        w_manifest := bt_insert (join_path p) \<lparr> blob = blob_of env cache p content mtime, mode = fmode \<rparr> (w_manifest w) \<rparr>,
     Ok ())"
  by (auto simp: walk_file_def walk_blob_def Let_def blob_of_def reusable_def cas_put_fst [OF assms] split: option.splits)

lemma walk_all_eq:
  assumes "wellformed_hash (sha env)"
  shows "snd (walk_all env cache l w) = Ok ()"
    and "w_cas (fst (walk_all env cache l w)) = foldl (\<lambda>c b. fst (cas_put (sha env) c b)) (w_cas w) (leaf_reads cache l)"
    and "w_manifest (fst (walk_all env cache l w)) = foldl (\<lambda>m (k, e). bt_insert k e m) (w_manifest w) (leaf_entries env cache l)"
    and "w_next (fst (walk_all env cache l w)) = foldl (\<lambda>m (k, e). tbl_put k e m) (w_next w) (leaf_stats env cache l)"
  using assms by (induction env cache l w rule: walk_all.induct) (simp_all add: walk_file_eq)

section \<open>Sorted maps\<close>

lemma map_of_bt_insert [simp]: "map_of (bt_insert k v m) = (map_of m)(k \<mapsto> v)"
  by (induction k v m rule: bt_insert.induct) (auto simp: fun_eq_iff)

lemma keys_bt_insert [simp]: "fst ` set (bt_insert k v m) = insert k (fst ` set m)"
  by (induction k v m rule: bt_insert.induct) auto

definition sorted_map :: "('k::linorder \<times> 'v) list \<Rightarrow> bool" where
  "sorted_map m = sorted_wrt (<) (map fst m)"

lemma sorted_map_Nil [simp]: "sorted_map []"
  by (simp add: sorted_map_def)

lemma sorted_map_Cons:
  "sorted_map ((k, v) # m) \<longleftrightarrow> (\<forall>k' \<in> fst ` set m. k < k') \<and> sorted_map m"
  by (simp add: sorted_map_def)

lemma sorted_map_insert: "sorted_map m \<Longrightarrow> sorted_map (bt_insert k v m)"
proof (induction k v m rule: bt_insert.induct)
  case (1 k v)
  show ?case
    by (simp add: sorted_map_def)
next
  case (2 k v k' v' m)
  then show ?case
    by (auto simp: sorted_map_Cons simp del: bt_insert.simps(1))
qed

lemma sorted_map_fold: "sorted_map m \<Longrightarrow> sorted_map (foldl (\<lambda>m (k, e). bt_insert k e m) m es)"
  by (induction es arbitrary: m) (auto simp: sorted_map_insert)

lemma sorted_map_distinct: "sorted_map m \<Longrightarrow> distinct (map fst m)"
  by (simp add: sorted_map_def strict_sorted_iff)

lemma sorted_map_unique:
  assumes "sorted_map m" and "sorted_map m'" and "map_of m = map_of m'"
  shows "m = m'"
proof (rule map_sorted_distinct_set_unique [where f = fst])
  have d: "distinct (map fst m)" "distinct (map fst m')"
    using assms(1,2) by (simp_all add: sorted_map_distinct)
  then show "set m = set m'"
    using assms(3) map_of_inject_set by blast
  show "inj_on fst (set m \<union> set m')"
    using d \<open>set m = set m'\<close> by (simp add: distinct_map)
qed (use assms in \<open>auto simp: sorted_map_def strict_sorted_iff\<close>)

text \<open>Filling a map from a list in which no key has two values.\<close>

lemma map_of_foldl:
  assumes "\<And>k v m. map_of (ins k v m) = (map_of m)(k \<mapsto> v)"
  shows "map_of (foldl (\<lambda>m (k, e). ins k e m) m es) = map_of m ++ map_of (rev es)"
  by (induction es arbitrary: m) (auto simp: assms map_add_upd_left)

lemma map_of_functional:
  assumes "\<And>k v v'. (k, v) \<in> set es \<Longrightarrow> (k, v') \<in> set es \<Longrightarrow> v = v'"
  shows "map_of es k = Some v \<longleftrightarrow> (k, v) \<in> set es"
proof
  assume "(k, v) \<in> set es"
  then obtain v' where "map_of es k = Some v'"
    using weak_map_of_SomeI by fastforce
  with \<open>(k, v) \<in> set es\<close> assms show "map_of es k = Some v"
    by (metis map_of_SomeD)
qed (rule map_of_SomeD)

section \<open>What a snapshot records\<close>

definition file_at :: "forest \<Rightarrow> string list \<Rightarrow> bytes \<Rightarrow> u32 \<Rightarrow> instant \<Rightarrow> bool" where
  "file_at f p content fmode mtime = (visible p \<and> leaf_at f p = Some (File content fmode mtime))"

definition manifest_matches :: "DagEnv \<Rightarrow> forest \<Rightarrow> Manifest \<Rightarrow> bool" where
  "manifest_matches env f m =
     (sorted_map m \<and> (\<forall>k e. map_of m k = Some e \<longleftrightarrow>
        (\<exists>p content mtime. file_at f p content (mode e) mtime \<and> k = join_path p \<and> blob e = sha env content)))"

text \<open>A cache tells the truth about a tree: whatever it would reuse is the digest of the content.\<close>

definition cache_coherent :: "DagEnv \<Rightarrow> StatCache \<Rightarrow> forest \<Rightarrow> bool" where
  "cache_coherent env cache f =
     (\<forall>p content fmode mtime b. file_at f p content fmode mtime \<longrightarrow>
        reusable cache p content mtime = Some b \<longrightarrow> b = sha env content)"

lemma leaf_entries_iff:
  "(k, e) \<in> set (leaf_entries env cache l) \<longleftrightarrow>
     (\<exists>p content fmode mtime. (p, File content fmode mtime) \<in> set l \<and> k = join_path p
        \<and> e = \<lparr> blob = blob_of env cache p content mtime, mode = fmode \<rparr>)"
  by (induction env cache l rule: leaf_entries.induct) auto

lemma leaf_stats_iff:
  "(k, e) \<in> set (leaf_stats env cache l) \<longleftrightarrow>
     (\<exists>p content fmode mtime. (p, File content fmode mtime) \<in> set l \<and> k = join_path p
        \<and> e = \<lparr> se_mtime = mtime, se_len = length content, se_blob = blob_of env cache p content mtime \<rparr>)"
  by (induction env cache l rule: leaf_stats.induct) auto

lemma leaf_reads_iff:
  "content \<in> set (leaf_reads cache l) \<longleftrightarrow>
     (\<exists>p fmode mtime. (p, File content fmode mtime) \<in> set l \<and> reusable cache p content mtime = None)"
  by (induction cache l rule: leaf_reads.induct) (auto split: if_splits)

lemma flatten_files:
  "forest_ok f \<Longrightarrow> (p, File content fmode mtime) \<in> set (flatten [] f) \<longleftrightarrow> file_at f p content fmode mtime"
  by (simp add: flatten_iff file_at_def)

lemma file_at_join_inj:
  assumes "forest_ok f" and "file_at f p b md t" and "file_at f p' b' md' t'" and "join_path p = join_path p'"
  shows "p = p' \<and> b = b' \<and> md = md' \<and> t = t'"
proof -
  have "list_all clean_name p" "list_all clean_name p'"
    using assms leaf_at_clean by (auto simp: file_at_def)
  then have "p = p'"
    using join_path_inj assms(4) by simp
  with assms(2,3) show ?thesis
    by (simp add: file_at_def)
qed

lemma blob_of_coherent:
  "cache_coherent env cache f \<Longrightarrow> file_at f p content fmode mtime \<Longrightarrow> blob_of env cache p content mtime = sha env content"
  by (auto simp: cache_coherent_def blob_of_def split: option.splits)

lemma walk_manifest:
  assumes "wellformed_hash (sha env)" and "forest_ok f" and "cache_coherent env cache f"
    and "w_manifest w = []" and "w_next w = []"
  shows "manifest_matches env f (w_manifest (fst (walk env cache [] f w)))"
    and "tbl_get (w_next (fst (walk env cache [] f w))) k = Some e \<longleftrightarrow>
      (\<exists>p content fmode. file_at f p content fmode (se_mtime e) \<and> k = join_path p
         \<and> se_len e = length content \<and> se_blob e = sha env content)"
proof -
  define l where "l = flatten [] f"
  have l: "(p, File content fmode mtime) \<in> set l \<longleftrightarrow> file_at f p content fmode mtime" for p content fmode mtime
    by (simp add: l_def flatten_files [OF assms(2)])
  have es: "map_of (rev (leaf_entries env cache l)) k = Some e \<longleftrightarrow> (k, e) \<in> set (leaf_entries env cache l)" for k e
    using map_of_functional [of "rev (leaf_entries env cache l)" k e] file_at_join_inj [OF assms(2)]
    by (simp add: leaf_entries_iff l) blast
  have ss: "map_of (rev (leaf_stats env cache l)) k = Some e \<longleftrightarrow> (k, e) \<in> set (leaf_stats env cache l)" for k e
    using map_of_functional [of "rev (leaf_stats env cache l)" k e] file_at_join_inj [OF assms(2)]
    by (simp add: leaf_stats_iff l) blast
  note eqs = walk_all_eq [OF assms(1), of cache l w]
  have "map_of (w_manifest (fst (walk_all env cache l w))) k = Some e \<longleftrightarrow> (k, e) \<in> set (leaf_entries env cache l)" for k e
    by (simp add: eqs(3) assms(4) map_of_foldl es)
  moreover have "(k, e) \<in> set (leaf_entries env cache l) \<longleftrightarrow>
      (\<exists>p content mtime. file_at f p content (mode e) mtime \<and> k = join_path p \<and> blob e = sha env content)" for k e
    by (cases e) (auto simp: leaf_entries_iff l blob_of_coherent [OF assms(3)]; metis blob_of_coherent [OF assms(3)])
  moreover have "sorted_map (w_manifest (fst (walk_all env cache l w)))"
    by (simp add: eqs(3) assms(4) sorted_map_fold)
  ultimately show "manifest_matches env f (w_manifest (fst (walk env cache [] f w)))"
    by (simp add: manifest_matches_def walk_flatten l_def)
  have "tbl_get (tbl_put k v m) = (tbl_get m)(k \<mapsto> v)" for k v and m :: "(string, StatEntry) table"
    by simp
  then have "tbl_get (w_next (fst (walk_all env cache l w))) k = Some e \<longleftrightarrow> (k, e) \<in> set (leaf_stats env cache l)"
    by (simp add: eqs(4) assms(5) map_of_foldl [of tbl_put] ss tbl_get_def [abs_def])
  moreover have "(k, e) \<in> set (leaf_stats env cache l) \<longleftrightarrow>
      (\<exists>p content fmode. file_at f p content fmode (se_mtime e) \<and> k = join_path p
         \<and> se_len e = length content \<and> se_blob e = sha env content)"
    by (cases e) (auto simp: leaf_stats_iff l blob_of_coherent [OF assms(3)]; metis blob_of_coherent [OF assms(3)])
  ultimately show "tbl_get (w_next (fst (walk env cache [] f w))) k = Some e \<longleftrightarrow>
      (\<exists>p content fmode. file_at f p content fmode (se_mtime e) \<and> k = join_path p
         \<and> se_len e = length content \<and> se_blob e = sha env content)"
    by (simp add: walk_flatten l_def)
qed

lemma manifest_matches_unique:
  assumes "manifest_matches env f m" and "manifest_matches env f' m'"
    and "\<And>p content fmode. (\<exists>t. file_at f p content fmode t) \<longleftrightarrow> (\<exists>t. file_at f' p content fmode t)"
  shows "m = m'"
proof (rule sorted_map_unique)
  have "map_of m k = Some e \<longleftrightarrow> map_of m' k = Some e" for k e
    using assms unfolding manifest_matches_def by metis
  then show "map_of m = map_of m'"
    by (metis ext option.exhaust)
qed (use assms in \<open>auto simp: manifest_matches_def\<close>)

lemma snapshot_result:
  assumes "wellformed_hash (sha env)" and "forest_ok f" and "cache_coherent env cache f"
  shows "\<exists>m next. snapshot_dir_with_cache env started c f cache =
      (foldl (\<lambda>c b. fst (cas_put (sha env) c b)) c (leaf_reads cache (flatten [] f) @ [manifest_bytes env m]),
       \<lparr> sc_entries = next, recorded_at = Some started \<rparr>, Ok (sha env (manifest_bytes env m), m))
    \<and> manifest_matches env f m
    \<and> (\<forall>k e. tbl_get next k = Some e \<longleftrightarrow>
         (\<exists>p content fmode. file_at f p content fmode (se_mtime e) \<and> k = join_path p
            \<and> se_len e = length content \<and> se_blob e = sha env content))"
proof -
  define w where "w = \<lparr> w_cas = c, w_manifest = [], w_next = [], w_reused = 0 \<rparr>"
  obtain w' r where w': "walk env cache [] f w = (w', r)"
    by fastforce
  note eqs = walk_all_eq [OF assms(1), of cache "flatten [] f" w]
  have "r = Ok ()" "w_cas w' = foldl (\<lambda>c b. fst (cas_put (sha env) c b)) c (leaf_reads cache (flatten [] f))"
    using w' eqs(1,2) by (simp_all add: walk_flatten w_def)
  moreover have "manifest_store env (w_cas w') (w_manifest w')
      = (fst (cas_put (sha env) (w_cas w') (manifest_bytes env (w_manifest w'))), Ok (sha env (manifest_bytes env (w_manifest w'))))"
    using assms(1) by (simp add: manifest_store_def cas_put_fst)
  moreover have "manifest_matches env f (w_manifest w')" "\<forall>k e. tbl_get (w_next w') k = Some e \<longleftrightarrow>
         (\<exists>p content fmode. file_at f p content fmode (se_mtime e) \<and> k = join_path p
            \<and> se_len e = length content \<and> se_blob e = sha env content)"
    using walk_manifest [OF assms, of w] w' by (simp_all add: w_def)
  ultimately show ?thesis
    using w' unfolding snapshot_dir_with_cache_def w_def [symmetric]
    by (intro exI [of _ "w_manifest w'"] exI [of _ "w_next w'"]) simp
qed

lemma default_coherent [simp]: "cache_coherent env default_cache f"
  by (simp add: cache_coherent_def reusable_def default_cache_def)

lemma default_reads: "set (leaf_reads default_cache l) = {content. \<exists>p fmode mtime. (p, File content fmode mtime) \<in> set l}"
  by (simp add: set_eq_iff leaf_reads_iff reusable_def default_cache_def)

lemma snapshot_dir_result:
  assumes "wellformed_hash (sha env)" and "forest_ok f"
  shows "\<exists>m. snapshot_dir env started c f =
      (foldl (\<lambda>c b. fst (cas_put (sha env) c b)) c (leaf_reads default_cache (flatten [] f) @ [manifest_bytes env m]),
       Ok (sha env (manifest_bytes env m), m)) \<and> manifest_matches env f m"
  using snapshot_result [OF assms default_coherent, of started c] by (auto simp: snapshot_dir_def)

text \<open>Documents put into the store can be fetched afterwards, and nothing is lost.\<close>

lemma fetch_put_all_mono:
  assumes "cas_ok (sha env) docs c" and "set bs \<subseteq> docs" and "cas_fetch (sha env) c h = Some x"
  shows "cas_fetch (sha env) (foldl (\<lambda>c b. fst (cas_put (sha env) c b)) c bs) h = Some x"
  using assms by (induction bs arbitrary: c) (simp_all add: cas.ok_keep fetch_put_mono)

lemma fetch_put_all:
  assumes "cas_ok (sha env) docs c" and "set bs \<subseteq> docs" and "b \<in> set bs"
  shows "cas_fetch (sha env) (foldl (\<lambda>c b. fst (cas_put (sha env) c b)) c bs) (sha env b) = Some b"
  using assms
proof (induction bs arbitrary: c)
  case (Cons a bs)
  then show ?case
    using fetch_put_all_mono [of env docs "fst (cas_put (sha env) c a)" bs "sha env a" a]
    by (auto simp: cas.ok_keep cas.fetch_keep)
qed simp

lemma cas_fetch_Some: "cas_fetch hash c h = Some b \<longleftrightarrow> cas_get hash c h = Ok b"
  by (auto simp: cas_fetch_def split: sum.splits)

definition tree_documents :: "DagEnv \<Rightarrow> forest \<Rightarrow> bytes set" where
  "tree_documents env f =
     {content. \<exists>p fmode mtime. file_at f p content fmode mtime} \<union> manifest_bytes env ` {m. manifest_matches env f m}"

lemma snapshot_writes:
  assumes "wellformed_hash (sha env)" and "forest_ok f" and "tree_documents env f \<subseteq> docs" and "manifest_matches env f m"
  shows "set (leaf_reads default_cache (flatten [] f) @ [manifest_bytes env m]) \<subseteq> docs"
  using assms by (auto simp: default_reads flatten_files tree_documents_def)

lemma snapshot_dir_faithful:
  assumes "env_ok env docs" and "forest_ok f" and "tree_documents env f \<subseteq> docs"
  shows "faithful_snapshot env docs (\<lambda>c. snapshot_dir env started c f)"
  unfolding faithful_snapshot_def
proof (intro allI impI)
  fix c
  assume c: "cas_ok (sha env) docs c"
  have wf: "wellformed_hash (sha env)"
    using assms(1) by (simp add: env_ok_def)
  obtain m where m: "snapshot_dir env started c f =
      (foldl (\<lambda>c b. fst (cas_put (sha env) c b)) c (leaf_reads default_cache (flatten [] f) @ [manifest_bytes env m]),
       Ok (sha env (manifest_bytes env m), m))" "manifest_matches env f m"
    using snapshot_dir_result [OF wf assms(2)] by blast
  note docs = snapshot_writes [OF wf assms(2,3) m(2)]
  have "rooted env (fst (snapshot_dir env started c f)) (sha env (manifest_bytes env m))"
    using fetch_put_all [OF c docs, of "manifest_bytes env m"] assms(1) by (auto simp: rooted_fetch m env_ok_def)
  then show "(\<exists>bs. set bs \<subseteq> docs \<and> fst (snapshot_dir env started c f) = foldl (\<lambda>c b. fst (cas_put (sha env) c b)) c bs) \<and>
      (\<forall>h m. snd (snapshot_dir env started c f) = Ok (h, m) \<longrightarrow> rooted env (fst (snapshot_dir env started c f)) h)"
    using docs m(1)
    by (intro conjI exI [of _ "leaf_reads default_cache (flatten [] f) @ [manifest_bytes env m]"]) auto
qed

section \<open>The racy-clean guard\<close>

text \<open>
  Between two snapshots of a directory the clock moved on: a file whose content changed carries a
  modification time no older than the first snapshot minus the guard's window.
\<close>

definition touched_after :: "instant \<Rightarrow> forest \<Rightarrow> forest \<Rightarrow> bool" where
  "touched_after started f f' =
     (\<forall>p b md t b' md' t'. file_at f p b md t \<longrightarrow> file_at f' p b' md' t' \<longrightarrow> b \<noteq> b' \<longrightarrow> started < t' + RACY_WINDOW)"

lemma guard_coherent:
  assumes "forest_ok f" and "forest_ok f'" and "touched_after started f f'"
    and "\<And>k e. tbl_get next k = Some e \<Longrightarrow> (\<exists>p content fmode. file_at f p content fmode (se_mtime e) \<and> k = join_path p
            \<and> se_len e = length content \<and> se_blob e = sha env content)"
  shows "cache_coherent env \<lparr> sc_entries = next, recorded_at = Some started \<rparr> f'"
  unfolding cache_coherent_def
proof (intro allI impI)
  fix p content fmode mtime b
  assume now: "file_at f' p content fmode mtime"
    and reuse: "reusable \<lparr> sc_entries = next, recorded_at = Some started \<rparr> p content mtime = Some b"
  then obtain e where e: "tbl_get next (join_path p) = Some e" "se_blob e = b" "se_mtime e = mtime" "started \<ge> mtime + RACY_WINDOW"
    by (auto simp: reusable_def trusted_def split: option.splits if_splits)
  obtain p' content' fmode' where old: "file_at f p' content' fmode' (se_mtime e)" "join_path p = join_path p'"
      "se_blob e = sha env content'"
    using assms(4) [OF e(1)] by blast
  have "p = p'"
    using old(1,2) now leaf_at_clean [OF assms(1)] leaf_at_clean [OF assms(2)] join_path_inj
    unfolding file_at_def by metis
  then have "content' = content"
    using assms(3) old(1) now e(4) unfolding touched_after_def by (metis linorder_not_less)
  then show "b = sha env content"
    using old(3) e(2) by simp
qed

lemma snapshot_stores:
  assumes "env_ok env docs" and "cas_ok (sha env) docs c" and "forest_ok f" and "tree_documents env f \<subseteq> docs"
  shows "\<exists>c' m. snapshot_dir env started c f = (c', Ok (sha env (manifest_bytes env m), m)) \<and> manifest_matches env f m
    \<and> cas_get (sha env) c' (sha env (manifest_bytes env m)) = Ok (manifest_bytes env m)
    \<and> (\<forall>p content fmode mtime. file_at f p content fmode mtime \<longrightarrow> cas_get (sha env) c' (sha env content) = Ok content)
    \<and> (\<forall>h b. cas_get (sha env) c h = Ok b \<longrightarrow> cas_get (sha env) c' h = Ok b)"
proof -
  have wf: "wellformed_hash (sha env)"
    using assms(1) by (simp add: env_ok_def)
  define bs where "bs m = leaf_reads default_cache (flatten [] f) @ [manifest_bytes env m]" for m
  obtain m where m: "snapshot_dir env started c f = (foldl (\<lambda>c b. fst (cas_put (sha env) c b)) c (bs m),
       Ok (sha env (manifest_bytes env m), m))" "manifest_matches env f m"
    using snapshot_dir_result [OF wf assms(3)] by (auto simp: bs_def)
  have docs: "set (bs m) \<subseteq> docs"
    using snapshot_writes [OF wf assms(3,4) m(2)] by (simp add: bs_def)
  have "b \<in> set (bs m) \<Longrightarrow> cas_get (sha env) (foldl (\<lambda>c b. fst (cas_put (sha env) c b)) c (bs m)) (sha env b) = Ok b" for b
    using fetch_put_all [OF assms(2) docs] by (simp add: cas_fetch_Some)
  moreover have "content \<in> set (bs m)" if "file_at f p content fmode mtime" for p content fmode mtime
    using that by (auto simp: bs_def default_reads flatten_files [OF assms(3)])
  moreover have "manifest_bytes env m \<in> set (bs m)"
    by (simp add: bs_def)
  ultimately show ?thesis
    using m fetch_put_all_mono [OF assms(2) docs] unfolding cas_fetch_Some by blast
qed



end
