(* ===== verification/Materialize.thy ===== *)
theory Materialize
  imports Snapshot
begin

text \<open>
  Materialization (\<open>materialize_with_cache\<close>, \<open>remove_stale\<close> of kernel/state_dag/src/snapshot.rs): the
  visible files of the target become exactly those of the manifest, ignored components stay, and a
  snapshot of the result is the snapshot that was materialized.
\<close>

section \<open>Removing stale files\<close>

lemma remove_stale_names: "a \<notin> fst ` set f \<Longrightarrow> a \<notin> fst ` set (remove_stale pre m f)"
proof (induction pre m f rule: remove_stale.induct)
  case (2 pre m n g f)
  then show ?case
    by (simp add: Let_def image_Un)
qed auto

lemma leaf_at_listing:
  "leaf_at ((n, x) # f) (a # r) =
     (if a = n then (case x of Dir g \<Rightarrow> leaf_at g r | _ \<Rightarrow> if r = [] then Some x else None) else leaf_at f (a # r))"
  by (simp add: leaf_at_Cons split: fsnode.splits)

lemma leaf_at_append:
  "leaf_at (e @ f) (a # r) = (if a \<in> fst ` set e then leaf_at e (a # r) else leaf_at f (a # r))"
proof -
  have "map_of (e @ f) a = (if a \<in> fst ` set e then map_of e a else map_of f a)"
    using map_of_eq_None_iff [of e a] by (auto simp: map_add_def split: option.splits)
  then show ?thesis
    by (simp add: leaf_at_Cons)
qed

lemma remove_stale_leaf:
  "forest_ok f \<Longrightarrow> leaf_at (remove_stale pre m f) q =
     (if visible q \<and> map_of m (join_path (pre @ q)) = None then None else leaf_at f q)"
proof (induction pre m f arbitrary: q rule: remove_stale.induct)
  case (2 pre m n g f)
  then show ?case
  proof (cases q)
    case (Cons a r)
    have fresh: "n \<notin> fst ` set f" "leaf_at (remove_stale pre m f) (n # r) = None"
      using 2(3) remove_stale_names leaf_at_fresh by auto
    show ?thesis
      using 2(1) [of r] 2(2) [of "a # r"] 2(3) fresh
      by (cases "a = n"; cases "is_ignored_component n"; cases "remove_stale (pre @ [n]) m g = []")
         (auto simp: Cons Let_def leaf_at_listing leaf_at_append split: if_splits)
  qed simp
next
  case (3 pre m n b md t f)
  then show ?case
  proof (cases q)
    case (Cons a r)
    have fresh: "n \<notin> fst ` set f" "leaf_at (remove_stale pre m f) (n # r) = None" "leaf_at f (n # r) = None"
      using 3(2) remove_stale_names leaf_at_fresh by auto
    show ?thesis
      using 3 fresh by (cases "a = n") (auto simp: Cons leaf_at_listing leaf_at_append)
  qed simp
next
  case (4 pre m n l f)
  then show ?case
  proof (cases q)
    case (Cons a r)
    have fresh: "n \<notin> fst ` set f" "leaf_at (remove_stale pre m f) (n # r) = None" "leaf_at f (n # r) = None"
      using 4(2) remove_stale_names leaf_at_fresh by auto
    show ?thesis
      using 4 fresh by (cases "a = n") (auto simp: Cons leaf_at_listing leaf_at_append)
  qed simp
qed simp

lemma remove_stale_ok: "forest_ok f \<Longrightarrow> forest_ok (remove_stale pre m f)"
proof (induction pre m f rule: remove_stale.induct)
  case (2 pre m n g f)
  then show ?case
    using remove_stale_names [of n f pre m] by (auto simp: Let_def)
qed (use remove_stale_names in auto)

section \<open>Writing one entry\<close>

lemma lookup_leaf: "\<not> dir_at f p \<Longrightarrow> lookup p f = leaf_at f p"
  by (auto simp: leaf_at_def dir_at_def split: option.splits if_splits)

lemma leaf_not_dir: "leaf_at f p = Some x \<Longrightarrow> \<not> is_dir x \<and> \<not> dir_at f p"
  by (auto simp: leaf_at_def dir_at_def split: option.splits if_splits)

fun strip :: "fsnode \<Rightarrow> fsnode" where
  "strip (File content fmode mtime) = File content fmode 0"
| "strip x = x"

definition writable :: "forest \<Rightarrow> string list \<Rightarrow> bool" where
  "writable t p =
     (p \<noteq> [] \<and> \<not> dir_at t p \<and> (\<forall>q. strict_prefix q p \<longrightarrow> leaf_at t q = None) \<and> (\<forall>l. leaf_at t p \<noteq> Some (Link l)))"

lemma pieces_join: "p \<noteq> [] \<Longrightarrow> list_all clean_name p \<Longrightarrow> pieces (join_path p) = p"
  by (simp add: split_join filter_clean)

lemma materialize_entry_ok:
  assumes "list_all clean_name p" and w: "writable (tree w) p" and "cas_get (sha env) c (blob e) = Ok content"
    and honest: "unchanged fenv cache (join_path p) e (leaf_at (tree w) p) \<Longrightarrow>
      map_option strip (leaf_at (tree w) p) = Some (File content (mode e) 0)"
  shows "\<exists>w' next'. materialize_entry env fenv c now cache (join_path p) e (w, next) = (w', Ok next')
    \<and> through w' = through w
    \<and> (\<forall>q. map_option strip (leaf_at (tree w') q) = (if q = p then Some (File content (mode e) 0) else map_option strip (leaf_at (tree w) q)))
    \<and> (\<forall>q. q \<noteq> p \<longrightarrow> leaf_at (tree w') q = leaf_at (tree w) q)
    \<and> (\<forall>q. dir_at (tree w') q \<longrightarrow> dir_at (tree w) q \<or> strict_prefix q p)"
proof -
  have p: "p \<noteq> []" "pieces (join_path p) = p"
    using w assms(1) pieces_join by (auto simp: writable_def)
  have pre: "prefix q (butlast p) \<longleftrightarrow> strict_prefix q p" for q
    using p(1) by (cases p rule: rev_cases) (auto simp: strict_prefix_def dest: prefix_length_le)
  have "leaf_at (tree w) (take k (butlast p)) = None" for k
    using w pre [of "take k (butlast p)"] take_is_prefix [of k "butlast p"] by (simp add: writable_def)
  then obtain t where t: "create_dir_all (butlast p) (tree w) = Ok t"
    using create_dir_all_ok [of "butlast p" "tree w"] by auto
  note view = create_dir_all_view [OF t]
  have nd: "\<not> dir_at t p" "dir_at t (butlast p)" and leaf: "lookup p t = leaf_at (tree w) p"
    using w view lookup_leaf [of t p] pre [of "butlast p"] by (auto simp: writable_def pre)
  show ?thesis
  proof (cases "unchanged fenv cache (join_path p) e (leaf_at (tree w) p)")
    case True
    then obtain mtime len where "fs_stat fenv (leaf_at (tree w) p) = Some (mtime, len)"
      by (auto simp: unchanged_def split: option.splits)
    with True show ?thesis
      using honest [OF True] by (auto simp: materialize_entry_def p(2) t leaf view pre)
  next
    case False
    have wr: "fs_write fenv now p content (mode e) (w\<lparr> tree := t \<rparr>)
        = Ok (w\<lparr> tree := put_node p (File content (mode e) now) t \<rparr>)"
      using w leaf leaf_not_dir [of "tree w" p] by (auto simp: fs_write_def writable_def split: option.splits fsnode.splits)
    note put = put_node_view [OF p(1) nd(2,1), of "File content (mode e) now"]
    have "lookup p (put_node p (File content (mode e) now) t) = Some (File content (mode e) now)"
      using put nd lookup_leaf [of "put_node p (File content (mode e) now) t" p] by simp
    with False show ?thesis
      by (auto simp: materialize_entry_def Let_def p(2) t leaf assms(3) wr stat_after_def fs_stat_def put view pre)
  qed
qed

section \<open>Well-formed results\<close>

lemma forest_ok_iff:
  "forest_ok f \<longleftrightarrow> distinct (map fst f) \<and> (\<forall>n x. (n, x) \<in> set f \<longrightarrow> clean_name n \<and> (\<forall>g. x = Dir g \<longrightarrow> forest_ok g))"
  by (induction f rule: forest_ok.induct) (auto; force)+

lemma forest_ok_child: "forest_ok f \<Longrightarrow> map_of f n = Some (Dir g) \<Longrightarrow> forest_ok g"
  unfolding forest_ok_iff [of f] by (blast dest: map_of_SomeD)

lemma forest_ok_snoc:
  "forest_ok f \<Longrightarrow> map_of f n = None \<Longrightarrow> clean_name n \<Longrightarrow> (\<And>g. x = Dir g \<Longrightarrow> forest_ok g) \<Longrightarrow> forest_ok (f @ [(n, x)])"
  unfolding forest_ok_iff [of "f @ [(n, x)]"] forest_ok_iff [of f] by (auto simp: map_of_eq_None_iff)

lemma forest_ok_update:
  assumes "forest_ok f" and "\<And>g. x = Dir g \<Longrightarrow> forest_ok g"
  shows "forest_ok (tbl_update n (\<lambda>_. x) f)"
proof -
  have ok: "distinct (map fst f)" "\<And>n v. (n, v) \<in> set f \<Longrightarrow> clean_name n \<and> (\<forall>g. v = Dir g \<longrightarrow> forest_ok g)"
    using assms(1) by (simp_all add: forest_ok_iff [of f])
  have "clean_name n' \<and> (\<forall>g. y = Dir g \<longrightarrow> forest_ok g)" if row: "(n', y) \<in> set (tbl_update n (\<lambda>_. x) f)" for n' y
  proof -
    obtain v where "(n', v) \<in> set f" "y = x \<or> y = v"
      using row unfolding tbl_update_def by (auto split: if_splits)
    then show ?thesis
      using ok(2) assms(2) by blast
  qed
  then show ?thesis
    using ok(1) by (simp add: forest_ok_iff [of "tbl_update n (\<lambda>_. x) f"])
qed

lemma forest_ok_create:
  "forest_ok f \<Longrightarrow> list_all clean_name p \<Longrightarrow> create_dir_all p f = Ok g \<Longrightarrow> forest_ok g"
proof (induction p f arbitrary: g rule: create_dir_all.induct)
  case (2 n ns f)
  consider g1 where "map_of f n = None" "create_dir_all ns [] = Ok g1" "g = f @ [(n, Dir g1)]"
    | g0 g1 where "map_of f n = Some (Dir g0)" "create_dir_all ns g0 = Ok g1" "g = tbl_update n (\<lambda>_. Dir g1) f"
    using 2(5) by (auto split: option.splits fsnode.splits sum.splits)
  then show ?case
  proof cases
    case 1
    then show ?thesis
      using 2(1) [OF 1(1), of g1] 2(3,4) forest_ok_snoc [of f n "Dir g1"] by simp
  next
    case 2
    then show ?thesis
      using "2.IH"(2) [OF 2(1) refl, of g1] "2.prems" forest_ok_child [OF _ 2(1)] forest_ok_update [of f "Dir g1" n] by simp
  qed
qed simp

lemma forest_ok_put:
  "forest_ok f \<Longrightarrow> list_all clean_name p \<Longrightarrow> \<not> is_dir x \<Longrightarrow> forest_ok (put_node p x f)"
proof (induction p x f rule: put_node.induct)
  case (2 n x f)
  then have "x \<noteq> Dir g" for g
    by auto
  then show ?case
    using 2 forest_ok_snoc [of f n x] forest_ok_update [of f x n] by simp
next
  case (3 n m ns x f)
  show ?case
  proof (cases "\<exists>g. map_of f n = Some (Dir g)")
    case True
    then obtain g where g: "map_of f n = Some (Dir g)"
      by blast
    then show ?thesis
      using "3.IH" [OF g refl] "3.prems" forest_ok_child [OF _ g] forest_ok_update [of f "Dir (put_node (m # ns) x g)" n] by simp
  next
    case False
    with "3.prems" show ?thesis
      by (auto split: option.splits fsnode.splits)
  qed
qed simp

lemma fs_write_ok:
  "forest_ok (tree w) \<Longrightarrow> list_all clean_name p \<Longrightarrow> fs_write fenv now p content md w = Ok w' \<Longrightarrow> forest_ok (tree w')"
  by (auto simp: fs_write_def forest_ok_put split: option.splits fsnode.splits if_splits)

lemma materialize_entry_forest:
  assumes "forest_ok (tree w)" and "list_all clean_name p" and "p \<noteq> []"
    and "materialize_entry env fenv c now cache (join_path p) e (w, next) = (w', r)"
  shows "forest_ok (tree w')"
proof -
  have "list_all clean_name (butlast p)"
    using assms(2) by (auto simp: list_all_iff dest: in_set_butlastD)
  then have "forest_ok t" if "create_dir_all (butlast p) (tree w) = Ok t" for t
    using forest_ok_create [OF assms(1) _ that] by simp
  then show ?thesis
    using assms(1,2,4) fs_write_ok [of "w\<lparr> tree := t \<rparr>" p for t]
    by (auto simp: materialize_entry_def pieces_join [OF assms(3,2)] Let_def
        split: sum.splits if_splits option.splits)
qed

section \<open>The whole manifest\<close>

definition manifest_paths :: "Manifest \<Rightarrow> string list set" where
  "manifest_paths m = {p. p \<noteq> [] \<and> list_all clean_name p \<and> join_path p \<in> fst ` set m}"

text \<open>Keys are visible relative paths and no file lies below another.\<close>

definition manifest_shape :: "Manifest \<Rightarrow> bool" where
  "manifest_shape m =
     (distinct (map fst m) \<and> fst ` set m \<subseteq> join_path ` manifest_paths m
      \<and> (\<forall>p \<in> manifest_paths m. visible p \<and> (\<forall>q \<in> manifest_paths m. \<not> strict_prefix q p)))"

definition content_of :: "DagEnv \<Rightarrow> cas \<Rightarrow> ManifestEntry \<Rightarrow> bytes" where
  "content_of env c e = (case cas_get (sha env) c (blob e) of Ok b \<Rightarrow> b | Err _ \<Rightarrow> [])"

definition honest_cache :: "DagEnv \<Rightarrow> FsEnv \<Rightarrow> cas \<Rightarrow> StatCache \<Rightarrow> Manifest \<Rightarrow> forest \<Rightarrow> bool" where
  "honest_cache env fenv c cache m t =
     (\<forall>p e. p \<in> manifest_paths m \<longrightarrow> map_of m (join_path p) = Some e \<longrightarrow> unchanged fenv cache (join_path p) e (leaf_at t p) \<longrightarrow>
        map_option strip (leaf_at t p) = Some (File (content_of env c e) (mode e) 0))"

definition expected :: "DagEnv \<Rightarrow> cas \<Rightarrow> Manifest \<Rightarrow> string list \<Rightarrow> fsnode option \<Rightarrow> fsnode option" where
  "expected env c m q old =
     (if q \<in> manifest_paths m
      then map_option (\<lambda>e. File (content_of env c e) (mode e) 0) (map_of m (join_path q)) else old)"

lemma manifest_shape_Cons:
  assumes "manifest_shape ((k, e) # m)"
  obtains p where "k = join_path p" "p \<noteq> []" "list_all clean_name p" "p \<notin> manifest_paths m" "k \<notin> fst ` set m"
    "manifest_paths ((k, e) # m) = insert p (manifest_paths m)" "manifest_shape m"
    "\<And>q. q \<in> manifest_paths m \<Longrightarrow> \<not> strict_prefix q p \<and> \<not> strict_prefix p q"
proof -
  have shape: "distinct (map fst ((k, e) # m))" "k \<in> join_path ` manifest_paths ((k, e) # m)"
      "fst ` set m \<subseteq> join_path ` manifest_paths ((k, e) # m)"
      "\<And>p q. p \<in> manifest_paths ((k, e) # m) \<Longrightarrow> q \<in> manifest_paths ((k, e) # m) \<Longrightarrow> visible p \<and> \<not> strict_prefix q p"
    using assms by (auto simp: manifest_shape_def)
  then obtain p where p: "k = join_path p" "p \<in> manifest_paths ((k, e) # m)"
    by auto
  then have clean: "p \<noteq> []" "list_all clean_name p"
    by (auto simp: manifest_paths_def)
  have fresh: "k \<notin> fst ` set m"
    using shape(1) by simp
  have paths: "manifest_paths ((k, e) # m) = insert p (manifest_paths m)"
    using p(1) clean join_path_inj by (auto simp: manifest_paths_def)
  have notin: "p \<notin> manifest_paths m"
    using fresh p(1) by (simp add: manifest_paths_def)
  have "fst ` set m \<subseteq> join_path ` manifest_paths m"
    using shape(3) fresh unfolding paths image_insert p(1) [symmetric] by blast
  then have "manifest_shape m"
    using shape(1,4) by (auto simp: manifest_shape_def paths)
  then show thesis
    using that [OF p(1) clean notin fresh paths] shape(4) by (auto simp: paths)
qed

lemma materialize_loop_ok:
  assumes "manifest_shape m" and "\<And>p. p \<in> manifest_paths m \<Longrightarrow> writable (tree w) p"
    and "\<And>k e. (k, e) \<in> set m \<Longrightarrow> is_ok (cas_get (sha env) c (blob e))" and "honest_cache env fenv c cache m (tree w)"
    and "forest_ok (tree w)"
  shows "\<exists>w' next'. materialize_loop env fenv c now cache m w next = (w', Ok next') \<and> through w' = through w \<and> forest_ok (tree w')
    \<and> (\<forall>q. map_option strip (leaf_at (tree w') q) = expected env c m q (map_option strip (leaf_at (tree w) q)))"
  using assms
proof (induction m arbitrary: w "next")
  case Nil
  then show ?case
    by (simp add: expected_def manifest_paths_def)
next
  case (Cons a m)
  obtain k e where a: "a = (k, e)"
    by fastforce
  obtain p where p: "k = join_path p" "p \<noteq> []" "list_all clean_name p" "p \<notin> manifest_paths m" "k \<notin> fst ` set m"
    "manifest_paths (a # m) = insert p (manifest_paths m)" "manifest_shape m"
    and apart: "\<And>q. q \<in> manifest_paths m \<Longrightarrow> \<not> strict_prefix q p \<and> \<not> strict_prefix p q"
    using manifest_shape_Cons [of k e m] Cons.prems(1) a by metis
  have content: "cas_get (sha env) c (blob e) = Ok (content_of env c e)"
    using Cons.prems(3) [of k e] by (auto simp: a content_of_def is_ok_iff)
  have "writable (tree w) p"
    using Cons.prems(2) p(6) by simp
  moreover have "unchanged fenv cache (join_path p) e (leaf_at (tree w) p) \<Longrightarrow>
      map_option strip (leaf_at (tree w) p) = Some (File (content_of env c e) (mode e) 0)"
    using Cons.prems(4) p(1,6) unfolding honest_cache_def a by simp
  ultimately obtain w1 next1 where w1: "materialize_entry env fenv c now cache k e (w, next) = (w1, Ok next1)"
      "through w1 = through w"
    and view: "\<And>q. map_option strip (leaf_at (tree w1) q) = (if q = p then Some (File (content_of env c e) (mode e) 0)
        else map_option strip (leaf_at (tree w) q))"
      "\<And>q. q \<noteq> p \<Longrightarrow> leaf_at (tree w1) q = leaf_at (tree w) q"
      "\<And>q. dir_at (tree w1) q \<Longrightarrow> dir_at (tree w) q \<or> strict_prefix q p"
    using materialize_entry_ok [OF p(3) _ content, of w fenv cache now "next"] p(1) by metis
  have ok1: "forest_ok (tree w1)"
    using materialize_entry_forest [OF Cons.prems(5) p(3,2)] w1(1) p(1) by blast
  have wr: "writable (tree w1) p'" if "p' \<in> manifest_paths m" for p'
  proof -
    have "p' \<noteq> p" "\<And>q. strict_prefix q p' \<Longrightarrow> q \<noteq> p"
      using that p(4) apart by auto
    then show ?thesis
      using Cons.prems(2) [of p'] p(6) view(2,3) apart [OF that] that unfolding writable_def by (metis insertCI)
  qed
  have hon: "honest_cache env fenv c cache m (tree w1)"
    unfolding honest_cache_def
  proof (intro allI impI)
    fix q e'
    assume q: "q \<in> manifest_paths m" "map_of m (join_path q) = Some e'" "unchanged fenv cache (join_path q) e' (leaf_at (tree w1) q)"
    have "q \<noteq> p" "join_path q \<noteq> k"
      using q(1) p(4,5) by (auto simp: manifest_paths_def)
    then show "map_option strip (leaf_at (tree w1) q) = Some (File (content_of env c e') (mode e') 0)"
      using Cons.prems(4) q p(6) view(2) unfolding honest_cache_def a by simp
  qed
  obtain w' next' where w': "materialize_loop env fenv c now cache m w1 next1 = (w', Ok next')" "through w' = through w1"
      "forest_ok (tree w')" "\<And>q. map_option strip (leaf_at (tree w') q) = expected env c m q (map_option strip (leaf_at (tree w1) q))"
    using Cons.IH [OF p(7) wr _ hon ok1] Cons.prems(3) by (metis list.set_intros(2))
  have "map_option strip (leaf_at (tree w') q) = expected env c (a # m) q (map_option strip (leaf_at (tree w) q))" for q
  proof (cases "q = p")
    case True
    then show ?thesis
      using p(1,4,6) by (simp add: w'(4) expected_def view(1) a)
  next
    case False
    moreover have "join_path q \<noteq> k" if "q \<in> manifest_paths m"
      using that p(5) by (auto simp: manifest_paths_def)
    ultimately show ?thesis
      using p(6) by (auto simp: w'(4) expected_def view(1) a)
  qed
  then show ?case
    using w' w1 by (simp add: a)
qed

section \<open>Materialization is exact\<close>

text \<open>
  A target can be overwritten: it is a well-formed tree, no manifest path is a symbolic link in it,
  and once stale files are gone none is a directory.
\<close>

definition target_ready :: "Manifest \<Rightarrow> forest \<Rightarrow> bool" where
  "target_ready m t =
     (forest_ok t \<and> (\<forall>p \<in> manifest_paths m. \<not> dir_at (remove_stale [] m t) p \<and> (\<forall>l. leaf_at t p \<noteq> Some (Link l))))"

lemma manifest_path_key: "p \<in> manifest_paths m \<Longrightarrow> \<exists>e. map_of m (join_path p) = Some e"
  using map_of_eq_None_iff [of m "join_path p"] by (auto simp: manifest_paths_def)

lemma target_writable:
  assumes "manifest_shape m" and "target_ready m t" and "p \<in> manifest_paths m"
  shows "writable (remove_stale [] m t) p"
proof -
  have ok: "forest_ok t"
    using assms(2) by (simp add: target_ready_def)
  have vis: "visible p"
    using assms(1,3) by (simp add: manifest_shape_def)
  have "leaf_at (remove_stale [] m t) q = None" if q: "strict_prefix q p" for q
  proof (cases "q = []")
    case False
    have "visible q" "list_all clean_name q"
      using q vis assms(3) by (auto simp: strict_prefix_def prefix_def manifest_paths_def)
    moreover have "map_of m (join_path q) = None"
    proof (rule ccontr)
      assume "map_of m (join_path q) \<noteq> None"
      then have "q \<in> manifest_paths m"
        using False \<open>list_all clean_name q\<close> map_of_eq_None_iff [of m "join_path q"] by (simp add: manifest_paths_def)
      with assms(1,3) q show False
        by (auto simp: manifest_shape_def)
    qed
    ultimately show ?thesis
      by (simp add: remove_stale_leaf [OF ok])
  qed simp
  then show ?thesis
    using assms(2,3) manifest_path_key [OF assms(3)]
    by (auto simp: writable_def target_ready_def remove_stale_leaf [OF ok] manifest_paths_def)
qed

lemma materialize_result:
  assumes "manifest_load env c wroot = Ok m" and "manifest_shape m" and "target_ready m (tree w)"
    and "\<forall>(k, e) \<in> set m. is_ok (cas_get (sha env) c (blob e))" and "honest_cache env fenv c cache m (tree w)"
  shows "\<exists>w' cache'. materialize_with_cache env fenv c wroot started now w cache = (w', cache', Ok ())
    \<and> through w' = through w \<and> forest_ok (tree w')
    \<and> (\<forall>q. map_option strip (leaf_at (tree w') q) =
         (if visible q then expected env c m q None else map_option strip (leaf_at (tree w) q)))"
proof -
  have ok: "forest_ok (tree w)"
    using assms(3) by (simp add: target_ready_def)
  define w0 where "w0 = w\<lparr> tree := remove_stale [] m (tree w) \<rparr>"
  have tree0: "tree w0 = remove_stale [] m (tree w)" "through w0 = through w"
    by (simp_all add: w0_def)
  have leaf0: "leaf_at (tree w0) p = leaf_at (tree w) p" if "p \<in> manifest_paths m" for p
    using manifest_path_key [OF that] by (auto simp: tree0 remove_stale_leaf [OF ok])
  obtain w' next' where w': "materialize_loop env fenv c now cache m w0 [] = (w', Ok next')" "through w' = through w0"
      "forest_ok (tree w')" "\<And>q. map_option strip (leaf_at (tree w') q) = expected env c m q (map_option strip (leaf_at (tree w0) q))"
  proof (atomize_elim, rule materialize_loop_ok [OF assms(2)])
    show "honest_cache env fenv c cache m (tree w0)"
      using assms(5) leaf0 by (simp add: honest_cache_def)
    show "forest_ok (tree w0)"
      by (simp add: tree0 remove_stale_ok ok)
  qed (use assms(3,4) target_writable [OF assms(2)] in \<open>auto simp: tree0\<close>)
  have "expected env c m q (map_option strip (leaf_at (tree w0) q)) =
      (if visible q then expected env c m q None else map_option strip (leaf_at (tree w) q))" for q
  proof (cases "q \<in> manifest_paths m")
    case True
    then show ?thesis
      using assms(2) by (simp add: expected_def manifest_shape_def)
  next
    case False
    show ?thesis
    proof (cases "leaf_at (tree w) q")
      case (Some x)
      then have "map_of m (join_path q) = None"
        using False leaf_at_clean [OF ok Some] map_of_eq_None_iff [of m "join_path q"] by (simp add: manifest_paths_def)
      with False show ?thesis
        by (simp add: expected_def tree0 remove_stale_leaf [OF ok])
    qed (use False in \<open>simp add: expected_def tree0 remove_stale_leaf [OF ok]\<close>)
  qed
  with w' show ?thesis
    by (simp add: materialize_with_cache_def assms(1) w0_def [symmetric] tree0)
qed


section \<open>The round trip\<close>

lemma leaf_below_leaf: "leaf_at f p = Some x \<Longrightarrow> strict_prefix p q \<Longrightarrow> leaf_at f q = None"
proof (induction p arbitrary: f q)
  case (Cons n p)
  then obtain q' where "q = n # q'" "strict_prefix p q'"
    by (cases q) auto
  with Cons show ?case
    by (auto simp: leaf_at_Cons split: option.splits fsnode.splits if_splits)
qed simp

lemma matches_path:
  assumes "forest_ok f" and "manifest_matches env f m"
  shows "p \<in> manifest_paths m \<longleftrightarrow> (\<exists>content fmode mtime. file_at f p content fmode mtime)"
    and "map_of m (join_path p) = Some e \<Longrightarrow> list_all clean_name p \<Longrightarrow> \<exists>content mtime. file_at f p content (mode e) mtime \<and> blob e = sha env content"
proof -
  have key: "map_of m k = Some e \<longleftrightarrow>
        (\<exists>p content mtime. file_at f p content (mode e) mtime \<and> k = join_path p \<and> blob e = sha env content)" for k e
    using assms(2) by (simp add: manifest_matches_def)
  have clean: "list_all clean_name q \<and> q \<noteq> []" if "file_at f q content fmode mtime" for q content fmode mtime
    using that leaf_at_clean [OF assms(1)] by (auto simp: file_at_def)
  have part: "\<exists>content mtime. file_at f p content (mode e) mtime \<and> blob e = sha env content"
    if e: "map_of m (join_path p) = Some e" "list_all clean_name p" for e p
  proof -
    obtain p' content mtime where p': "file_at f p' content (mode e) mtime" "join_path p = join_path p'" "blob e = sha env content"
      using e(1) unfolding key by blast
    then have "p = p'"
      using join_path_inj [OF e(2)] clean by blast
    with p' show ?thesis
      by blast
  qed
  then show "map_of m (join_path p) = Some e \<Longrightarrow> list_all clean_name p \<Longrightarrow> \<exists>content mtime. file_at f p content (mode e) mtime \<and> blob e = sha env content"
    by blast
  show "p \<in> manifest_paths m \<longleftrightarrow> (\<exists>content fmode mtime. file_at f p content fmode mtime)"
  proof
    assume p: "p \<in> manifest_paths m"
    then obtain e where "map_of m (join_path p) = Some e"
      using manifest_path_key by blast
    then show "\<exists>content fmode mtime. file_at f p content fmode mtime"
      using part [of p e] p unfolding manifest_paths_def by blast
  next
    assume "\<exists>content fmode mtime. file_at f p content fmode mtime"
    then obtain content fmode mtime where p: "file_at f p content fmode mtime"
      by blast
    then have "map_of m (join_path p) = Some \<lparr> blob = sha env content, mode = fmode \<rparr>"
      unfolding key by auto
    then have "join_path p \<in> fst ` set m"
      by (force dest: map_of_SomeD)
    then show "p \<in> manifest_paths m"
      using clean [OF p] by (simp add: manifest_paths_def)
  qed
qed

lemma matches_shape:
  assumes "forest_ok f" and "manifest_matches env f m"
  shows "manifest_shape m"
proof -
  have "distinct (map fst m)"
    using assms(2) by (simp add: manifest_matches_def sorted_map_distinct)
  moreover have "k \<in> join_path ` manifest_paths m" if k: "k \<in> fst ` set m" for k
  proof -
    obtain e where "map_of m k = Some e"
      using k map_of_eq_None_iff [of m k] by auto
    then obtain p content mtime where "file_at f p content (mode e) mtime" "k = join_path p"
      using assms(2) by (auto simp: manifest_matches_def)
    then show ?thesis
      using matches_path(1) [OF assms] by blast
  qed
  moreover have "visible p \<and> \<not> strict_prefix q p" if "p \<in> manifest_paths m" "q \<in> manifest_paths m" for p q
    using that leaf_below_leaf [of f q _ p] unfolding matches_path(1) [OF assms] file_at_def by fastforce
  ultimately show ?thesis
    unfolding manifest_shape_def by blast
qed

lemma strip_File: "map_option strip x = Some (File content fmode 0) \<longleftrightarrow> (\<exists>t. x = Some (File content fmode t))"
proof -
  have "strip y = File content fmode 0 \<longleftrightarrow> (\<exists>t. y = File content fmode t)" for y
    by (cases y) auto
  then show ?thesis
    by (cases x) auto
qed

definition stored_files :: "DagEnv \<Rightarrow> cas \<Rightarrow> forest \<Rightarrow> bool" where
  "stored_files env c f =
     (\<forall>p content fmode mtime. file_at f p content fmode mtime \<longrightarrow> cas_get (sha env) c (sha env content) = Ok content)"

lemma content_of_file:
  assumes "stored_files env c f"
    and "forest_ok f" and "manifest_matches env f m" and "p \<in> manifest_paths m" and "map_of m (join_path p) = Some e"
  shows "\<exists>mtime. file_at f p (content_of env c e) (mode e) mtime"
proof -
  obtain content mtime where "file_at f p content (mode e) mtime" "blob e = sha env content"
    using matches_path(2) [OF assms(2,3,5)] assms(4) unfolding manifest_paths_def by blast
  moreover from this have "cas_get (sha env) c (blob e) = Ok content"
    using assms(1) unfolding stored_files_def by metis
  ultimately show ?thesis
    by (auto simp: content_of_def)
qed

lemma expected_file:
  assumes "stored_files env c f"
    and "forest_ok f" and "manifest_matches env f m"
  shows "visible p \<and> expected env c m p None = Some (File content fmode 0) \<longleftrightarrow> (\<exists>t. file_at f p content fmode t)"
proof
  assume "visible p \<and> expected env c m p None = Some (File content fmode 0)"
  then obtain e where "p \<in> manifest_paths m" "map_of m (join_path p) = Some e" "content_of env c e = content" "mode e = fmode"
    by (auto simp: expected_def split: if_splits)
  then show "\<exists>t. file_at f p content fmode t"
    using content_of_file [OF assms] by blast
next
  assume "\<exists>t. file_at f p content fmode t"
  then obtain t where t: "file_at f p content fmode t"
    by blast
  then have p: "p \<in> manifest_paths m"
    using matches_path(1) [OF assms(2,3)] by blast
  then obtain e where e: "map_of m (join_path p) = Some e"
    using manifest_path_key by blast
  then have "content_of env c e = content \<and> mode e = fmode"
    using content_of_file [OF assms p e] t by (auto simp: file_at_def)
  with p e t show "visible p \<and> expected env c m p None = Some (File content fmode 0)"
    by (auto simp: expected_def file_at_def)
qed


section \<open>A concrete workspace\<close>

definition snap_sha :: "bytes \<Rightarrow> string" where
  "snap_sha bs = ''sha256:'' @ replicate 64 (if bs = [] then CHR ''0'' else CHR ''1'')"

definition snap_m :: Manifest where
  "snap_m = [(''f'', \<lparr> blob = snap_sha [], mode = 420 \<rparr>)]"

definition snap_env :: DagEnv where
  "snap_env = \<lparr> sha = snap_sha, ser = (\<lambda>_. ''v''), parse_manifest = (\<lambda>_. Some snap_m) \<rparr>"

definition snap_tree :: forest where
  "snap_tree = [(''f'', File [] 420 7), (''target'', Dir [(''o'', File [1] 420 7)]), (''l'', Link ''x'')]"

definition snap_docs :: "bytes set" where
  "snap_docs = {[], manifest_bytes snap_env snap_m}"

definition snap_fs :: FsEnv where
  "snap_fs = \<lparr> other_stat = (\<lambda>_. None), link_writable = (\<lambda>_. True) \<rparr>"

definition snap_target :: FsWorld where
  "snap_target = \<lparr> tree = [(''old'', File [] 420 5), (''node_modules'', Dir [])], through = [] \<rparr>"

lemma snap_bytes: "manifest_bytes snap_env snap_m \<noteq> []"
  by (simp add: manifest_bytes_def as_bytes_def snap_env_def snap_m_def manifest_json_def entry_json_def)

lemma snap_env_ok: "env_ok snap_env snap_docs"
proof -
  have "is_ok (hex_of (snap_sha b))" for b
    by (simp add: snap_sha_def hex_of_def ascii_hexdigit_def list_all_iff)
  then show ?thesis
    using snap_bytes by (auto simp: env_ok_def wellformed_hash_def snap_docs_def inj_on_def)
      (simp_all add: snap_env_def snap_sha_def eval_nat_numeral)
qed

lemma snap_cas_ok: "cas_ok (sha snap_env) snap_docs []"
  using snap_env_ok by (simp add: cas_ok_def env_ok_def)

lemma snap_tree_ok: "forest_ok snap_tree"
  by (simp add: snap_tree_def clean_name_def)

lemma snap_file: "file_at snap_tree p content fmode mtime \<longleftrightarrow> p = [''f''] \<and> content = [] \<and> fmode = 420 \<and> mtime = 7"
proof (cases p)
  case (Cons a r)
  then show ?thesis
    by (auto simp: file_at_def snap_tree_def leaf_at_listing leaf_at_Cons [of "[]"]
        is_ignored_component_def DEFAULT_SNAPSHOT_IGNORES_def split: if_splits)
qed (simp add: file_at_def)

lemma snap_matches: "manifest_matches snap_env snap_tree snap_m"
proof -
  have "mode e = 420 \<and> blob e = snap_sha [] \<longleftrightarrow> e = \<lparr> blob = snap_sha [], mode = 420 \<rparr>" for e :: ManifestEntry
    by (cases e) auto
  then show ?thesis
    by (auto simp: manifest_matches_def snap_file snap_m_def sorted_map_def snap_env_def)
qed

lemma snap_documents: "tree_documents snap_env snap_tree \<subseteq> snap_docs"
  using manifest_matches_unique [OF _ snap_matches, of snap_tree]
  by (auto simp: tree_documents_def snap_file snap_docs_def)

lemma snap_target_ready: "target_ready snap_m (tree snap_target)"
proof -
  have "p = [''f'']" if "p \<in> manifest_paths snap_m" for p
    using that matches_path(1) [OF snap_tree_ok snap_matches] by (simp add: snap_file)
  moreover have "\<not> dir_at (remove_stale [] snap_m (tree snap_target)) [''f'']" "\<And>l. leaf_at (tree snap_target) [''f''] \<noteq> Some (Link l)"
    by (simp_all add: snap_target_def snap_m_def is_ignored_component_def DEFAULT_SNAPSHOT_IGNORES_def leaf_at_listing
        leaf_at_Cons [of "[]"] dir_at_Cons)
  moreover have "forest_ok (tree snap_target)"
    by (simp add: snap_target_def clean_name_def)
  ultimately show ?thesis
    unfolding target_ready_def by blast
qed

lemma snap_taken:
  "\<exists>c'. snapshot_dir snap_env t0 [] snap_tree = (c', Ok (snap_sha (manifest_bytes snap_env snap_m), snap_m))"
proof -
  obtain c' m where "snapshot_dir snap_env t0 [] snap_tree = (c', Ok (snap_sha (manifest_bytes snap_env m), m))"
      "manifest_matches snap_env snap_tree m"
    using snapshot_stores [OF snap_env_ok snap_cas_ok snap_tree_ok snap_documents, of t0] by (auto simp: snap_env_def)
  then show ?thesis
    using manifest_matches_unique [OF _ snap_matches, of snap_tree m] by blast
qed




definition snap_edited :: forest where
  "snap_edited = [(''f'', File [5] 420 4000000000)]"


section \<open>What materialization does not do\<close>

text \<open>
  A symbolic link at a manifest path is kept by the removal of stale files and the write follows it:
  the content lands at the target of the link, which may lie outside the workspace.
\<close>

lemma materialize_follows_links:
  assumes "manifest_load env c wroot = Ok [(''f'', e)]" and "cas_get (sha env) c (blob e) = Ok content"
    and "link_writable fenv l" and "tree w = [(''f'', Link l)]"
  shows "\<exists>w'. materialize env fenv c wroot started now w = (w', Ok ()) \<and> tree w' = tree w
    \<and> through w' = through w @ [(l, content, mode e)]"
proof -
  have "is_ignored_component ''f'' = False" "pieces ''f'' = [''f'']"
    by code_simp+
  then show ?thesis
    using assms
    by (simp add: materialize_def materialize_with_cache_def materialize_entry_def Let_def unchanged_def default_cache_def
        fs_write_def stat_after_def)
qed

text \<open>
  A file the cache calls unchanged is not rewritten, and its permission bits are not set either:
  a state that differs only in permission bits materializes with the old ones.
\<close>

lemma materialize_keeps_mode:
  assumes "manifest_load env c wroot = Ok [(''f'', e)]" and "tree w = [(''f'', File content md t)]"
    and "tbl_get (sc_entries cache) ''f'' = Some se" and "se_blob se = blob e" and "trusted cache se t (length content)"
  shows "\<exists>w' cache'. materialize_with_cache env fenv c wroot started now w cache = (w', cache', Ok ()) \<and> tree w' = tree w"
proof -
  have "is_ignored_component ''f'' = False" "pieces ''f'' = [''f'']"
    by code_simp+
  then show ?thesis
    using assms by (simp add: materialize_with_cache_def materialize_entry_def Let_def unchanged_def fs_stat_def)
qed

text \<open>
  A trusted cache entry is reused without looking at the store: when a collection removed the blob in
  between, the new manifest refers to content that no longer exists.
\<close>

lemma snapshot_reuses_removed_blob:
  assumes "wellformed_hash (sha env)" and "tbl_get (sc_entries cache) ''f'' = Some se" and "trusted cache se t (length content)"
    and "tbl_get c (se_blob se) = None" and "\<And>m. se_blob se \<noteq> sha env (manifest_bytes env m)"
  shows "\<exists>c' cache' r m. snapshot_dir_with_cache env started c [(''f'', File content md t)] cache = (c', cache', Ok (r, m))
    \<and> map_of m ''f'' = Some \<lparr> blob = se_blob se, mode = md \<rparr> \<and> \<not> is_ok (cas_get (sha env) c' (se_blob se))"
proof -
  have "is_ignored_component ''f'' = False"
    by code_simp
  moreover define m where "m = [(''f'', \<lparr> blob = se_blob se, mode = md \<rparr>)]"
  moreover have "\<not> is_ok (cas_get (sha env) (fst (cas_put (sha env) c (manifest_bytes env m))) (se_blob se))"
    using assms(4,5) by (auto simp: cas_get_def cas_put_fst [OF assms(1)] is_ok_iff split: sum.splits)
  ultimately show ?thesis
    using assms(1-3)
    by (simp add: snapshot_dir_with_cache_def walk_file_def walk_blob_def Let_def manifest_store_def cas_put_fst)
qed

text \<open>
  Two branches that turn one path into a file and into a directory merge without a conflict, and
  the merged manifest cannot be materialized.
\<close>

lemma merge_file_and_directory:
  assumes "cas_get (sha env) c (blob e1) = Ok content"
  shows "merge_manifests [] [(''a'', e1)] [(''a/b'', e2)] = Ok [(''a'', e1), (''a/b'', e2)]"
    and "manifest_load env c wroot = Ok [(''a'', e1), (''a/b'', e2)] \<Longrightarrow>
      snd (materialize env fenv c wroot started now \<lparr> tree = [], through = [] \<rparr>) = Err (Io ''File exists'')"
proof -
  have "all_paths [] [(''a'', e1)] [(''a/b'', e2)] = [''a'', ''a/b'']"
    by (simp add: all_paths_def)
  then show "merge_manifests [] [(''a'', e1)] [(''a/b'', e2)] = Ok [(''a'', e1), (''a/b'', e2)]"
    by (simp add: merge_manifests_def merge_choice_def)
  have "pieces ''a'' = [''a'']" "pieces ''a/b'' = [''a'', ''b'']"
    by code_simp+
  with assms show "manifest_load env c wroot = Ok [(''a'', e1), (''a/b'', e2)] \<Longrightarrow>
      snd (materialize env fenv c wroot started now \<lparr> tree = [], through = [] \<rparr>) = Err (Io ''File exists'')"
    by (simp add: materialize_def materialize_with_cache_def materialize_entry_def Let_def unchanged_def default_cache_def
        fs_write_def stat_after_def fs_stat_def)
qed

end
