(* ===== verification/Ledger.thy ===== *)
theory Ledger
  imports StateDag
begin

text \<open>
  The causal ledger of kernel/causal_ledger/src/event.rs and ledger.rs: an append-only table of
  hash-chained events, raw outputs by digest and receipts by idempotency key, with the chain
  verification and the trace queries. Rows hold the text columns the code writes; \<open>LedgerEnv\<close> stands
  for SHA-256 and for the serde_json printers and parsers of those columns. The schema migrations
  are the empty initial state.
\<close>

section \<open>Events\<close>

datatype EventKind =
    Objective | ModelResponse | DeclaredIntent | CapabilityRequest | PolicyDecision | ToolInvocation
  | OsEvent | StateDeltaRecorded | ObservationEmitted | EffectProposed | EffectPrepared
  | EffectApproved | EffectCommitted | EffectAborted | DenialIssued

fun kind_as_str :: "EventKind \<Rightarrow> string" where
  "kind_as_str Objective = ''objective''"
| "kind_as_str ModelResponse = ''model_response''"
| "kind_as_str DeclaredIntent = ''declared_intent''"
| "kind_as_str CapabilityRequest = ''capability_request''"
| "kind_as_str PolicyDecision = ''policy_decision''"
| "kind_as_str ToolInvocation = ''tool_invocation''"
| "kind_as_str OsEvent = ''os_event''"
| "kind_as_str StateDeltaRecorded = ''state_delta_recorded''"
| "kind_as_str ObservationEmitted = ''observation_emitted''"
| "kind_as_str EffectProposed = ''effect_proposed''"
| "kind_as_str EffectPrepared = ''effect_prepared''"
| "kind_as_str EffectApproved = ''effect_approved''"
| "kind_as_str EffectCommitted = ''effect_committed''"
| "kind_as_str EffectAborted = ''effect_aborted''"
| "kind_as_str DenialIssued = ''denial_issued''"

definition kind_all :: "EventKind list" where
  "kind_all = [Objective, ModelResponse, DeclaredIntent, CapabilityRequest, PolicyDecision, ToolInvocation,
     OsEvent, StateDeltaRecorded, ObservationEmitted, EffectProposed, EffectPrepared, EffectApproved,
     EffectCommitted, EffectAborted, DenialIssued]"

definition kind_parse :: "string \<Rightarrow> EventKind option" where
  "kind_parse s = find (\<lambda>k. kind_as_str k = s) kind_all"

record EventBody =
  ev_seq :: int
  ev_kind :: EventKind
  ev_episode :: ident
  ev_branch :: "ident option"
  ev_step :: "ident option"
  ev_principal :: ident
  ev_time :: instant
  ev_payload :: json
  ev_caused_by :: "int list"
  ev_prev :: "string option"

record LedgerEvent =
  le_body :: EventBody
  le_hash :: string

record NewEvent =
  ne_kind :: EventKind
  ne_episode :: ident
  ne_branch :: "ident option"
  ne_step :: "ident option"
  ne_principal :: ident
  ne_payload :: json
  ne_caused_by :: "int list"

text \<open>The serialized body: absent options and an empty list of causes are skipped.\<close>

record LedgerEnv =
  text_hash :: "string \<Rightarrow> string"
  raw_hash :: "bytes \<Rightarrow> string"
  scalar_text :: "json \<Rightarrow> string"
  show_seq :: "int \<Rightarrow> string"
  time_text :: "instant \<Rightarrow> string"
  print_time :: "instant \<Rightarrow> string"
  parse_time :: "string \<Rightarrow> instant option"
  print_json :: "json \<Rightarrow> string"
  parse_json :: "string \<Rightarrow> json option"
  print_seqs :: "int list \<Rightarrow> string"
  parse_seqs :: "string \<Rightarrow> int list option"
  parse_delta :: "json \<Rightarrow> StateDelta option"

definition opt_field :: "string \<Rightarrow> string option \<Rightarrow> (string \<times> json) list" where
  "opt_field k v = (case v of None \<Rightarrow> [] | Some s \<Rightarrow> [(k, JStr s)])"

definition event_body_json :: "LedgerEnv \<Rightarrow> EventBody \<Rightarrow> json" where
  "event_body_json env b = JObj (
     [(''seq'', JInt (ev_seq b)), (''kind'', JStr (kind_as_str (ev_kind b))), (''episode'', JStr (ev_episode b))]
     @ opt_field ''branch'' (ev_branch b) @ opt_field ''step'' (ev_step b)
     @ [(''principal'', JStr (ev_principal b)), (''timestamp'', JStr (time_text env (ev_time b))),
        (''payload'', ev_payload b)]
     @ (if ev_caused_by b = [] then [] else [(''caused_by'', JArr (map JInt (ev_caused_by b)))])
     @ opt_field ''prev_event_hash'' (ev_prev b))"

definition compute_hash :: "LedgerEnv \<Rightarrow> EventBody \<Rightarrow> string" where
  "compute_hash env b = hash_canonical (text_hash env) (scalar_text env) (event_body_json env b)"

section \<open>The tables\<close>

record EventRow =
  er_seq :: int
  er_kind :: string
  er_episode :: string
  er_branch :: "string option"
  er_step :: "string option"
  er_principal :: string
  er_time :: string
  er_payload :: string
  er_caused_by :: string
  er_prev :: "string option"
  er_hash :: string

record Ledger =
  lg_events :: "EventRow list"
  lg_raw :: "(string, bytes) table"
  lg_receipts :: "(ident, string \<times> Receipt) table"

definition empty_ledger :: Ledger where
  "empty_ledger = \<lparr> lg_events = [], lg_raw = [], lg_receipts = [] \<rparr>"

definition event_row :: "LedgerEnv \<Rightarrow> EventBody \<Rightarrow> string \<Rightarrow> EventRow" where
  "event_row env b h =
     \<lparr> er_seq = ev_seq b, er_kind = kind_as_str (ev_kind b), er_episode = ev_episode b, er_branch = ev_branch b,
       er_step = ev_step b, er_principal = ev_principal b, er_time = print_time env (ev_time b),
       er_payload = print_json env (ev_payload b), er_caused_by = print_seqs env (ev_caused_by b),
       er_prev = ev_prev b, er_hash = h \<rparr>"

definition row_to_event :: "LedgerEnv \<Rightarrow> EventRow \<Rightarrow> LedgerEvent KernelResult" where
  "row_to_event env r =
     (case kind_parse (er_kind r) of
        None \<Rightarrow> Err (Storage (''unknown event kind `'' @ er_kind r @ ''`''))
      | Some k \<Rightarrow>
        case parse_time env (er_time r) of None \<Rightarrow> Err (Serde ''timestamp'') | Some t \<Rightarrow>
        case parse_json env (er_payload r) of None \<Rightarrow> Err (Serde ''payload'') | Some p \<Rightarrow>
        case parse_seqs env (er_caused_by r) of None \<Rightarrow> Err (Serde ''caused_by'') | Some cs \<Rightarrow>
        Ok \<lparr> le_body = \<lparr> ev_seq = er_seq r, ev_kind = k, ev_episode = er_episode r, ev_branch = er_branch r,
               ev_step = er_step r, ev_principal = er_principal r, ev_time = t, ev_payload = p,
               ev_caused_by = cs, ev_prev = er_prev r \<rparr>, le_hash = er_hash r \<rparr>)"

section \<open>Appending and verifying\<close>

text \<open>\<open>ORDER BY seq DESC LIMIT 1\<close>: the row with the greatest sequence number.\<close>

definition by_seq :: "EventRow list \<Rightarrow> EventRow list" where
  "by_seq rows = sort_key er_seq rows"

definition last_event :: "Ledger \<Rightarrow> (int \<times> string) option" where
  "last_event l =
     (case rev (by_seq (lg_events l)) of [] \<Rightarrow> None | r # _ \<Rightarrow> Some (er_seq r, er_hash r))"

definition append_event :: "LedgerEnv \<Rightarrow> Ledger \<Rightarrow> NewEvent \<Rightarrow> instant \<Rightarrow> Ledger \<times> LedgerEvent KernelResult" where
  "append_event env l e now =
     (let (seq, prev) = (case last_event l of Some (s, h) \<Rightarrow> (s + 1, Some h) | None \<Rightarrow> (1, None));
          body = \<lparr> ev_seq = seq, ev_kind = ne_kind e, ev_episode = ne_episode e, ev_branch = ne_branch e,
                   ev_step = ne_step e, ev_principal = ne_principal e, ev_time = now,
                   ev_payload = ne_payload e, ev_caused_by = ne_caused_by e, ev_prev = prev \<rparr>;
          h = compute_hash env body in
      (l\<lparr> lg_events := lg_events l @ [event_row env body h] \<rparr>, Ok \<lparr> le_body = body, le_hash = h \<rparr>))"

record EventWriter =
  wr_episode :: ident
  wr_branch :: "ident option"
  wr_step :: "ident option"
  wr_principal :: ident

definition record_caused_by ::
  "LedgerEnv \<Rightarrow> Ledger \<Rightarrow> EventWriter \<Rightarrow> EventKind \<Rightarrow> json \<Rightarrow> int list \<Rightarrow> instant \<Rightarrow> Ledger \<times> LedgerEvent KernelResult" where
  "record_caused_by env l w kind payload causes now =
     append_event env l \<lparr> ne_kind = kind, ne_episode = wr_episode w, ne_branch = wr_branch w, ne_step = wr_step w,
       ne_principal = wr_principal w, ne_payload = payload, ne_caused_by = causes \<rparr> now"

definition record_event ::
  "LedgerEnv \<Rightarrow> Ledger \<Rightarrow> EventWriter \<Rightarrow> EventKind \<Rightarrow> json \<Rightarrow> instant \<Rightarrow> Ledger \<times> LedgerEvent KernelResult" where
  "record_event env l w kind payload now = record_caused_by env l w kind payload [] now"

fun verify_loop :: "LedgerEnv \<Rightarrow> string option \<Rightarrow> nat \<Rightarrow> EventRow list \<Rightarrow> nat KernelResult" where
  "verify_loop env prev n [] = Ok n"
| "verify_loop env prev n (r # rows) =
     (case row_to_event env r of Err e \<Rightarrow> Err e | Ok ev \<Rightarrow>
      if ev_prev (le_body ev) \<noteq> prev then
        Err (Storage (''ledger chain broken at seq '' @ show_seq env (ev_seq (le_body ev)) @ '': prev_event_hash mismatch''))
      else if compute_hash env (le_body ev) \<noteq> le_hash ev then
        Err (Storage (''ledger tampering detected at seq '' @ show_seq env (ev_seq (le_body ev)) @ '': content hash mismatch''))
      else verify_loop env (Some (le_hash ev)) (Suc n) rows)"

definition verify_chain :: "LedgerEnv \<Rightarrow> Ledger \<Rightarrow> nat KernelResult" where
  "verify_chain env l = verify_loop env None 0 (by_seq (lg_events l))"

section \<open>Raw outputs and receipts\<close>

definition store_raw :: "LedgerEnv \<Rightarrow> Ledger \<Rightarrow> bytes \<Rightarrow> Ledger \<times> string KernelResult" where
  "store_raw env l b =
     (let h = raw_hash env b in
      (if tbl_get (lg_raw l) h = None then l\<lparr> lg_raw := lg_raw l @ [(h, b)] \<rparr> else l, Ok h))"

definition fetch_raw :: "Ledger \<Rightarrow> string \<Rightarrow> bytes KernelResult" where
  "fetch_raw l h = (case tbl_get (lg_raw l) h of None \<Rightarrow> Err (NotFound ''raw_output'' h) | Some b \<Rightarrow> Ok b)"

definition receipt_by_key :: "Ledger \<Rightarrow> string \<Rightarrow> Receipt option" where
  "receipt_by_key l key = map_option (\<lambda>(_, _, r). r) (find (\<lambda>(_, k, _). k = key) (lg_receipts l))"

definition store_receipt :: "Ledger \<Rightarrow> Receipt \<Rightarrow> string \<Rightarrow> Ledger \<times> unit KernelResult" where
  "store_receipt l r key =
     (case receipt_by_key l key of
        Some existing \<Rightarrow>
          if rcpt_id existing = rcpt_id r then (l, Ok ()) else (l, Err (DuplicateCommit key (rcpt_id existing)))
      | None \<Rightarrow>
          if tbl_get (lg_receipts l) (rcpt_id r) \<noteq> None
          then (l, Err (Storage ''sqlite: UNIQUE constraint failed: receipts.id''))
          else (l\<lparr> lg_receipts := lg_receipts l @ [(rcpt_id r, key, r)] \<rparr>, Ok ()))"

definition get_receipt :: "Ledger \<Rightarrow> ident \<Rightarrow> Receipt KernelResult" where
  "get_receipt l i =
     (case tbl_get (lg_receipts l) i of None \<Rightarrow> Err (NotFound ''receipt'' i) | Some (_, r) \<Rightarrow> Ok r)"

section \<open>Trace queries\<close>

record TraceQuery =
  tq_episode :: "ident option"
  tq_branch :: "ident option"
  tq_step :: "ident option"
  tq_seq_range :: "(int \<times> int) option"
  tq_principal :: "ident option"
  tq_kinds :: "EventKind list"
  tq_time_range :: "(instant \<times> instant) option"
  tq_limit :: "nat option"

definition any_event :: TraceQuery where
  "any_event = \<lparr> tq_episode = None, tq_branch = None, tq_step = None, tq_seq_range = None, tq_principal = None,
     tq_kinds = [], tq_time_range = None, tq_limit = None \<rparr>"

definition wants :: "'a option \<Rightarrow> 'a \<Rightarrow> bool" where
  "wants q x = (case q of None \<Rightarrow> True | Some y \<Rightarrow> x = y)"

text \<open>The \<open>WHERE\<close> clause; a comparison with a missing column is not true.\<close>

definition row_matches :: "TraceQuery \<Rightarrow> EventRow \<Rightarrow> bool" where
  "row_matches q r =
     (wants (tq_episode q) (er_episode r)
      \<and> (tq_branch q = None \<or> tq_branch q = er_branch r) \<and> (tq_step q = None \<or> tq_step q = er_step r)
      \<and> wants (tq_principal q) (er_principal r)
      \<and> (case tq_seq_range q of None \<Rightarrow> True | Some (lo, hi) \<Rightarrow> lo \<le> er_seq r \<and> er_seq r \<le> hi)
      \<and> (tq_kinds q = [] \<or> er_kind r \<in> kind_as_str ` set (tq_kinds q)))"

fun parse_rows :: "LedgerEnv \<Rightarrow> EventRow list \<Rightarrow> LedgerEvent list KernelResult" where
  "parse_rows env [] = Ok []"
| "parse_rows env (r # rows) =
     (case row_to_event env r of Err e \<Rightarrow> Err e | Ok ev \<Rightarrow>
      case parse_rows env rows of Err e \<Rightarrow> Err e | Ok evs \<Rightarrow> Ok (ev # evs))"

definition in_time :: "TraceQuery \<Rightarrow> LedgerEvent \<Rightarrow> bool" where
  "in_time q e = (case tq_time_range q of None \<Rightarrow> True | Some (lo, hi) \<Rightarrow> lo \<le> ev_time (le_body e) \<and> ev_time (le_body e) \<le> hi)"

definition query :: "LedgerEnv \<Rightarrow> Ledger \<Rightarrow> TraceQuery \<Rightarrow> LedgerEvent list KernelResult" where
  "query env l q =
     (let rows = filter (row_matches q) (by_seq (lg_events l));
          limited = (case tq_limit q of None \<Rightarrow> rows | Some n \<Rightarrow> take n rows) in
      map_sum id (filter (in_time q)) (parse_rows env limited))"

definition get_event :: "LedgerEnv \<Rightarrow> Ledger \<Rightarrow> int \<Rightarrow> LedgerEvent KernelResult" where
  "get_event env l seq =
     (case find (\<lambda>r. er_seq r = seq) (lg_events l) of
        None \<Rightarrow> Err (NotFound ''ledger_event'' (show_seq env seq))
      | Some r \<Rightarrow> row_to_event env r)"

definition touches_path :: "LedgerEnv \<Rightarrow> string \<Rightarrow> LedgerEvent \<Rightarrow> bool" where
  "touches_path env path e =
     (let payload = ev_payload (le_body e);
          v = (case json_get payload ''delta'' of Some d \<Rightarrow> d | None \<Rightarrow> payload) in
      case parse_delta env v of None \<Rightarrow> False | Some d \<Rightarrow> \<exists>f \<in> set (delta_files d). change_path f = path)"

definition events_modifying_path :: "LedgerEnv \<Rightarrow> Ledger \<Rightarrow> string \<Rightarrow> LedgerEvent list KernelResult" where
  "events_modifying_path env l path =
     map_sum id (filter (touches_path env path)) (query env l (any_event\<lparr> tq_kinds := [StateDeltaRecorded] \<rparr>))"

definition payload_str :: "LedgerEvent \<Rightarrow> string \<Rightarrow> string option" where
  "payload_str e k = Option.bind (json_get (ev_payload (le_body e)) k) json_as_str"

text \<open>One pass of the closure over the causes, and the loop until the set stops growing.\<close>

definition causes_pass :: "LedgerEvent list \<Rightarrow> int set \<Rightarrow> int set" where
  "causes_pass evs wanted =
     foldl (\<lambda>w e. if ev_seq (le_body e) \<in> w then w \<union> set (ev_caused_by (le_body e)) else w) wanted evs"

partial_function (option) causes_closure :: "LedgerEvent list \<Rightarrow> int set \<Rightarrow> int set option" where
  "causes_closure evs wanted =
     (let after = causes_pass evs wanted in
      if card after = card wanted then Some after else causes_closure evs after)"

definition events_leading_to_effect :: "LedgerEnv \<Rightarrow> Ledger \<Rightarrow> string \<Rightarrow> LedgerEvent list KernelResult option" where
  "events_leading_to_effect env l effect_id =
     (case query env l any_event of Err e \<Rightarrow> Some (Err e) | Ok evs \<Rightarrow>
      map_option (\<lambda>wanted. Ok (filter (\<lambda>e. ev_seq (le_body e) \<in> wanted) evs))
        (causes_closure evs (set (map (ev_seq \<circ> le_body) (filter (\<lambda>e. payload_str e ''effect_id'' = Some effect_id) evs)))))"

definition i64_max :: int where
  "i64_max = 9223372036854775807"

definition irreversible_effects_since :: "LedgerEnv \<Rightarrow> Ledger \<Rightarrow> ident \<Rightarrow> LedgerEvent list KernelResult" where
  "irreversible_effects_since env l state =
     (case query env l (any_event\<lparr> tq_kinds := [StateDeltaRecorded] \<rparr>) of Err e \<Rightarrow> Err e | Ok deltas \<Rightarrow>
      case find (\<lambda>e. payload_str e ''state_id'' = Some state) deltas of
        None \<Rightarrow> Err (NotFound ''state_delta_event'' state)
      | Some anchor \<Rightarrow>
        map_sum id (filter (\<lambda>e. payload_str e ''class'' \<in> {Some ''irreversible'', Some ''opaque_external''}))
          (query env l (any_event\<lparr> tq_kinds := [EffectCommitted],
             tq_seq_range := Some (ev_seq (le_body anchor) + 1, i64_max) \<rparr>)))"

section \<open>Rows and events\<close>

lemma kind_parse_as_str [simp]: "kind_parse (kind_as_str k) = Some k"
  by (cases k) (simp_all add: kind_parse_def kind_all_def)

text \<open>
  The text columns of an event read back as they were written. serde_json promises this for
  timestamps, integers and every payload without fractional numbers.
\<close>

definition columns_ok :: "LedgerEnv \<Rightarrow> json \<Rightarrow> int list \<Rightarrow> instant \<Rightarrow> bool" where
  "columns_ok env p cs t =
     (parse_time env (print_time env t) = Some t \<and> parse_json env (print_json env p) = Some p
      \<and> parse_seqs env (print_seqs env cs) = Some cs)"

lemma row_to_event_row:
  assumes "columns_ok env (ev_payload b) (ev_caused_by b) (ev_time b)"
  shows "row_to_event env (event_row env b h) = Ok \<lparr> le_body = b, le_hash = h \<rparr>"
  using assms by (simp add: row_to_event_def event_row_def columns_ok_def)

lemma parse_rows_append:
  "parse_rows env (rows @ rows') =
     (case parse_rows env rows of Err e \<Rightarrow> Err e | Ok evs \<Rightarrow>
      case parse_rows env rows' of Err e \<Rightarrow> Err e | Ok evs' \<Rightarrow> Ok (evs @ evs'))"
  by (induction rows) (auto split: sum.splits)

lemma parse_rows_map:
  assumes "parse_rows env rows = Ok evs"
  shows "length evs = length rows" and "map (ev_seq \<circ> le_body) evs = map er_seq rows" and "map le_hash evs = map er_hash rows"
proof -
  have row: "ev_seq (le_body e) = er_seq r \<and> le_hash e = er_hash r" if "row_to_event env r = Ok e" for r e
    using that by (auto simp: row_to_event_def split: option.splits)
  show "length evs = length rows" and "map (ev_seq \<circ> le_body) evs = map er_seq rows" and "map le_hash evs = map er_hash rows"
    using assms by (induction rows arbitrary: evs) (auto split: sum.splits dest: row)
qed

fun chain :: "LedgerEnv \<Rightarrow> string option \<Rightarrow> LedgerEvent list \<Rightarrow> bool" where
  "chain env prev [] = True"
| "chain env prev (e # es) =
     (ev_prev (le_body e) = prev \<and> compute_hash env (le_body e) = le_hash e \<and> chain env (Some (le_hash e)) es)"

definition head_hash :: "string option \<Rightarrow> LedgerEvent list \<Rightarrow> string option" where
  "head_hash prev es = (if es = [] then prev else Some (le_hash (last es)))"

lemma head_hash_simps [simp]:
  "head_hash prev [] = prev" "head_hash prev (es @ [e]) = Some (le_hash e)"
  by (simp_all add: head_hash_def)

lemma chain_snoc:
  "chain env prev (es @ [e]) \<longleftrightarrow>
     chain env prev es \<and> ev_prev (le_body e) = head_hash prev es \<and> compute_hash env (le_body e) = le_hash e"
  by (induction es arbitrary: prev) (auto simp: head_hash_def)

lemma verify_loop_Ok:
  "verify_loop env prev n rows = Ok k \<longleftrightarrow>
     (\<exists>evs. parse_rows env rows = Ok evs \<and> chain env prev evs) \<and> k = n + length rows"
  by (induction rows arbitrary: prev n) (auto split: sum.splits)

section \<open>Histories\<close>

inductive ledger_run :: "LedgerEnv \<Rightarrow> Ledger \<Rightarrow> bool" for env where
  run_open: "ledger_run env empty_ledger"
| run_append: "ledger_run env l \<Longrightarrow> columns_ok env (ne_payload e) (ne_caused_by e) now \<Longrightarrow>
    ledger_run env (fst (append_event env l e now))"
| run_raw: "ledger_run env l \<Longrightarrow> ledger_run env (fst (store_raw env l b))"
| run_receipt: "ledger_run env l \<Longrightarrow> ledger_run env (fst (store_receipt l r key))"

definition ledger_ok :: "LedgerEnv \<Rightarrow> Ledger \<Rightarrow> bool" where
  "ledger_ok env l =
     (map er_seq (lg_events l) = [1..int (length (lg_events l))]
      \<and> (\<exists>evs. parse_rows env (lg_events l) = Ok evs \<and> chain env None evs))"

lemma by_seq_ok: "map er_seq rows = [1..int (length rows)] \<Longrightarrow> by_seq rows = rows"
  unfolding by_seq_def by (rule sort_key_id_if_sorted) simp

lemma last_event_ok:
  assumes "map er_seq (lg_events l) = [1..int (length (lg_events l))]"
  shows "last_event l = (if lg_events l = [] then None
    else Some (int (length (lg_events l)), er_hash (last (lg_events l))))"
proof (cases "lg_events l" rule: rev_cases)
  case (snoc rows r)
  have "last (map er_seq (lg_events l)) = int (length (lg_events l))"
    unfolding assms using snoc by (simp add: upto_rec2)
  then have "er_seq r = int (length (lg_events l))"
    using snoc by simp
  moreover have "by_seq (lg_events l) = rows @ [r]"
    using by_seq_ok [OF assms] snoc by simp
  ultimately show ?thesis
    using snoc by (simp add: last_event_def)
qed (simp add: last_event_def by_seq_def)

lemma ledger_ok_append:
  assumes "ledger_ok env l" and "columns_ok env (ne_payload e) (ne_caused_by e) now"
  shows "ledger_ok env (fst (append_event env l e now))"
proof -
  obtain evs where evs: "parse_rows env (lg_events l) = Ok evs" "chain env None evs"
    and seqs: "map er_seq (lg_events l) = [1..int (length (lg_events l))]"
    using assms(1) by (auto simp: ledger_ok_def)
  define body where "body = \<lparr> ev_seq = int (length (lg_events l)) + 1, ev_kind = ne_kind e, ev_episode = ne_episode e,
    ev_branch = ne_branch e, ev_step = ne_step e, ev_principal = ne_principal e, ev_time = now,
    ev_payload = ne_payload e, ev_caused_by = ne_caused_by e, ev_prev = head_hash None evs \<rparr>"
  have hd: "head_hash None evs = (if lg_events l = [] then None else Some (er_hash (last (lg_events l))))"
    using parse_rows_map(1) [OF evs(1)] arg_cong [OF parse_rows_map(3) [OF evs(1)], of last]
    by (auto simp: head_hash_def last_map)
  have l': "fst (append_event env l e now) = l\<lparr> lg_events := lg_events l @ [event_row env body (compute_hash env body)] \<rparr>"
    by (simp add: append_event_def last_event_ok [OF seqs] body_def hd Let_def)
  have "parse_rows env (lg_events l @ [event_row env body (compute_hash env body)])
      = Ok (evs @ [\<lparr> le_body = body, le_hash = compute_hash env body \<rparr>])"
    using assms(2) by (simp add: parse_rows_append evs(1) row_to_event_row body_def)
  moreover have "chain env None (evs @ [\<lparr> le_body = body, le_hash = compute_hash env body \<rparr>])"
    by (simp add: chain_snoc evs(2)) (simp add: body_def)
  moreover have "er_seq (event_row env body (compute_hash env body)) = int (length (lg_events l)) + 1"
    by (simp add: event_row_def body_def)
  ultimately show ?thesis
    using seqs by (simp add: ledger_ok_def l' upto_rec2)
qed

lemma ledger_run_ok:
  assumes "ledger_run env l"
  shows "ledger_ok env l"
  using assms
proof (induction rule: ledger_run.induct)
  case run_open
  then show ?case
    by (simp add: ledger_ok_def empty_ledger_def)
next
  case (run_append l e now)
  then show ?case
    using ledger_ok_append by blast
qed (auto simp: ledger_ok_def store_raw_def store_receipt_def Let_def split: option.splits)

text \<open>
  Every ledger the operations build verifies: whatever was appended and stored, the sequence
  numbers are 1, 2, \<open>\<dots>\<close> without gaps and chain verification accepts all events.
\<close>

theorem ledger_verifies:
  assumes "ledger_run env l"
  shows "verify_chain env l = Ok (length (lg_events l)) \<and> map er_seq (lg_events l) = [1..int (length (lg_events l))]"
proof -
  have ok: "ledger_ok env l"
    by (rule ledger_run_ok [OF assms])
  then show ?thesis
    using by_seq_ok [of "lg_events l"] by (auto simp: ledger_ok_def verify_chain_def verify_loop_Ok)
qed

section \<open>Tamper evidence\<close>

lemma map_of_opt_field [simp]: "map_of (opt_field k v) k' = (if k' = k then map_option JStr v else None)"
  by (simp add: opt_field_def split: option.splits)

lemma keys_opt_field: "map fst (opt_field k v) = (if v = None then [] else [k])"
  by (simp add: opt_field_def split: option.splits)

lemma body_get:
  "json_get (event_body_json env b) ''seq'' = Some (JInt (ev_seq b))"
  "json_get (event_body_json env b) ''kind'' = Some (JStr (kind_as_str (ev_kind b)))"
  "json_get (event_body_json env b) ''episode'' = Some (JStr (ev_episode b))"
  "json_get (event_body_json env b) ''branch'' = map_option JStr (ev_branch b)"
  "json_get (event_body_json env b) ''step'' = map_option JStr (ev_step b)"
  "json_get (event_body_json env b) ''principal'' = Some (JStr (ev_principal b))"
  "json_get (event_body_json env b) ''timestamp'' = Some (JStr (time_text env (ev_time b)))"
  "json_get (event_body_json env b) ''payload'' = Some (ev_payload b)"
  "json_get (event_body_json env b) ''caused_by'' = (if ev_caused_by b = [] then None else Some (JArr (map JInt (ev_caused_by b))))"
  "json_get (event_body_json env b) ''prev_event_hash'' = map_option JStr (ev_prev b)"
  by (simp_all add: event_body_json_def map_add_def split: option.splits)

definition body_keys :: "string list" where
  "body_keys = [''seq'', ''kind'', ''episode'', ''branch'', ''step'', ''principal'', ''timestamp'', ''payload'', ''caused_by'', ''prev_event_hash'']"

lemma body_json_ok:
  assumes "json_ok (ev_payload b)"
  shows "json_ok (event_body_json env b)"
proof -
  obtain fields where fields: "event_body_json env b = JObj fields"
    by (simp add: event_body_json_def)
  have "json_ok x" if "(k', x) \<in> set (opt_field k v)" for k k' v x
    using that by (cases v) (simp_all add: opt_field_def)
  then have "\<forall>kv \<in> set fields. json_ok (snd kv)"
    using fields assms unfolding event_body_json_def by (auto split: if_splits)
  moreover have "map fst fields = filter (\<lambda>k. k \<notin> (if ev_branch b = None then {''branch''} else {})
      \<union> (if ev_step b = None then {''step''} else {}) \<union> (if ev_caused_by b = [] then {''caused_by''} else {})
      \<union> (if ev_prev b = None then {''prev_event_hash''} else {})) body_keys"
    using fields unfolding event_body_json_def body_keys_def by (auto simp: keys_opt_field)
  moreover have "distinct body_keys"
    by (simp add: body_keys_def)
  ultimately show ?thesis
    unfolding fields json_ok.simps by (metis distinct_filter)
qed

lemma kind_as_str_inj: "kind_as_str k = kind_as_str k' \<Longrightarrow> k = k'"
  by (metis kind_parse_as_str option.inject)

text \<open>Two events record the same: equal hashes and equal bodies up to the order of keys in the payload.\<close>

definition same_event :: "LedgerEvent \<Rightarrow> LedgerEvent \<Rightarrow> bool" where
  "same_event e e' =
     (le_hash e = le_hash e'
      \<and> (le_body e)\<lparr> ev_payload := json_norm (ev_payload (le_body e)) \<rparr>
        = (le_body e')\<lparr> ev_payload := json_norm (ev_payload (le_body e')) \<rparr>)"

lemma body_json_norm_inj:
  assumes "json_ok (ev_payload b)" and "json_ok (ev_payload b')" and "inj (time_text env)"
    and "json_norm (event_body_json env b) = json_norm (event_body_json env b')"
  shows "b\<lparr> ev_payload := json_norm (ev_payload b) \<rparr> = b'\<lparr> ev_payload := json_norm (ev_payload b') \<rparr>"
proof -
  have get: "map_option json_norm (json_get (event_body_json env b) k) = map_option json_norm (json_get (event_body_json env b') k)" for k
    using json_get_norm body_json_ok [OF assms(1), of env] body_json_ok [OF assms(2), of env] assms(4)
    unfolding event_body_json_def by metis
  have inj: "map JInt xs = map JInt ys \<longleftrightarrow> xs = ys" "map_option JStr x = map_option JStr y \<longleftrightarrow> x = y" for xs ys x y
    by (simp_all add: inj_map_eq_map inj_def option.inj_map_strong) (metis json.inject(4) option.inj_map_strong)
  have scalar_norm: "map_option json_norm (map_option JStr x) = map_option JStr x" "json_norm \<circ> JInt = JInt" for x
    by (simp_all add: option.map_comp comp_def)
  note fields = get [of "''seq''"] get [of "''kind''"] get [of "''episode''"] get [of "''branch''"] get [of "''step''"]
    get [of "''principal''"] get [of "''timestamp''"] get [of "''payload''"] get [of "''caused_by''"] get [of "''prev_event_hash''"]
  show ?thesis
    using fields assms(3)
    by (cases b; cases b') (auto simp: body_get scalar_norm inj injD dest: kind_as_str_inj split: if_splits)
qed

definition event_document :: "LedgerEnv \<Rightarrow> LedgerEvent \<Rightarrow> string" where
  "event_document env e = write_canonical (scalar_text env) (event_body_json env (le_body e))"

lemma same_event_of_hash:
  assumes "printer_ok (scalar_text env)" and "inj (time_text env)" and "inj_on (text_hash env) docs"
    and "event_document env e \<in> docs" and "event_document env e' \<in> docs"
    and "json_ok (ev_payload (le_body e))" and "json_ok (ev_payload (le_body e'))"
    and "compute_hash env (le_body e) = le_hash e" and "compute_hash env (le_body e') = le_hash e'" and "le_hash e = le_hash e'"
  shows "same_event e e'" and "ev_prev (le_body e) = ev_prev (le_body e')"
proof -
  have "text_hash env (event_document env e) = text_hash env (event_document env e')"
    using assms(8-10) by (simp add: compute_hash_def hash_canonical_def event_document_def)
  then have "event_document env e = event_document env e'"
    using assms(3-5) by (auto dest: inj_onD)
  then have "json_norm (event_body_json env (le_body e)) = json_norm (event_body_json env (le_body e'))"
    using write_canonical_eq_iff [OF assms(1) body_json_ok body_json_ok, OF assms(6,7)] by (simp add: event_document_def)
  then have bodies: "(le_body e)\<lparr> ev_payload := json_norm (ev_payload (le_body e)) \<rparr>
      = (le_body e')\<lparr> ev_payload := json_norm (ev_payload (le_body e')) \<rparr>"
    by (rule body_json_norm_inj [OF assms(6,7,2)])
  then show "same_event e e'"
    using assms(10) by (simp add: same_event_def)
  show "ev_prev (le_body e) = ev_prev (le_body e')"
    using arg_cong [OF bodies, of ev_prev] by simp
qed

lemma chains_agree:
  assumes "printer_ok (scalar_text env)" and "inj (time_text env)" and "inj_on (text_hash env) docs"
    and "\<And>e. e \<in> set es \<union> set es' \<Longrightarrow> event_document env e \<in> docs \<and> json_ok (ev_payload (le_body e))"
    and "chain env None es" and "chain env None es'" and "head_hash None es = head_hash None es'"
  shows "list_all2 same_event es es'"
  using assms(4-7)
proof (induction es arbitrary: es' rule: rev_induct)
  case Nil
  then show ?case
    by (simp add: head_hash_def split: if_splits)
next
  case (snoc e es)
  obtain f fs where es': "es' = fs @ [f]"
    using snoc.prems(4) by (cases es' rule: rev_cases) auto
  have hashes: "compute_hash env (le_body e) = le_hash e" "compute_hash env (le_body f) = le_hash f" "le_hash e = le_hash f"
    using snoc.prems(2-4) by (simp_all add: es' chain_snoc)
  have docs: "event_document env e \<in> docs" "event_document env f \<in> docs"
      "json_ok (ev_payload (le_body e))" "json_ok (ev_payload (le_body f))"
    using snoc.prems(1) by (simp_all add: es')
  note same = same_event_of_hash [OF assms(1-3) docs hashes]
  have "list_all2 same_event es fs"
    using snoc.prems same(2) by (intro snoc.IH) (auto simp: es' chain_snoc)
  then show ?case
    using same(1) by (simp add: es' list_all2_appendI)
qed

definition ledger_documents :: "LedgerEnv \<Rightarrow> Ledger \<Rightarrow> LedgerEvent list \<Rightarrow> bool" where
  "ledger_documents env l evs = (parse_rows env (by_seq (lg_events l)) = Ok evs)"

lemma head_of_last_event:
  assumes "ledger_documents env l evs"
  shows "head_hash None evs = map_option snd (last_event l)"
proof -
  have "map le_hash evs = map er_hash (by_seq (lg_events l))"
    using assms parse_rows_map(3) by (simp add: ledger_documents_def)
  then show ?thesis
    by (cases "by_seq (lg_events l)" rule: rev_cases; cases evs rule: rev_cases) (simp_all add: last_event_def)
qed

text \<open>
  C29. The last hash commits to the whole history. When two ledgers both verify and end in the same
  hash, they record the same events in the same order, up to the order of keys inside payloads. So
  whoever remembers the last hash detects every insertion, removal, reordering or edit.
\<close>

theorem last_hash_commits:
  assumes "printer_ok (scalar_text env)" and "inj (time_text env)"
    and "verify_chain env l = Ok n" and "verify_chain env l' = Ok n'"
    and "ledger_documents env l evs" and "ledger_documents env l' evs'"
    and "\<forall>e \<in> set evs \<union> set evs'. json_ok (ev_payload (le_body e))"
    and "inj_on (text_hash env) (event_document env ` (set evs \<union> set evs'))"
    and "map_option snd (last_event l) = map_option snd (last_event l')"
  shows "list_all2 same_event evs evs'"
proof (rule chains_agree [OF assms(1,2,8)])
  show "chain env None evs" "chain env None evs'"
    using assms(3-6) by (auto simp: verify_chain_def verify_loop_Ok ledger_documents_def)
  show "head_hash None evs = head_hash None evs'"
    using assms(5,6,9) by (simp add: head_of_last_event)
qed (use assms(7) in auto)

text \<open>
  Without that anchor the end of the ledger is open: dropping the last events leaves a ledger that
  still verifies.
\<close>

lemma truncation_verifies:
  assumes "ledger_run env l"
  shows "verify_chain env (l\<lparr> lg_events := take k (lg_events l) \<rparr>) = Ok (min k (length (lg_events l)))"
proof -
  obtain evs where evs: "parse_rows env (lg_events l) = Ok evs" "chain env None evs"
    and seqs: "map er_seq (lg_events l) = [1..int (length (lg_events l))]"
    using ledger_run_ok [OF assms] by (auto simp: ledger_ok_def)
  have sorted: "by_seq (take k (lg_events l)) = take k (lg_events l)"
    unfolding by_seq_def by (rule sort_key_id_if_sorted) (simp add: seqs take_map [symmetric] sorted_wrt_take)
  have "\<exists>evs1. parse_rows env (take k (lg_events l)) = Ok evs1 \<and> chain env None evs1"
  proof -
    obtain a b where ab: "parse_rows env (take k (lg_events l)) = Ok a" "evs = a @ b"
      using evs(1) parse_rows_append [of env "take k (lg_events l)" "drop k (lg_events l)"]
      by (auto split: sum.splits)
    have "chain env prev (a @ b) \<Longrightarrow> chain env prev a" for prev
      by (induction a arbitrary: prev) auto
    with ab evs(2) show ?thesis
      by blast
  qed
  then show ?thesis
    by (simp add: verify_chain_def sorted verify_loop_Ok)
qed

section \<open>Causal queries\<close>

definition cause_edges :: "LedgerEvent list \<Rightarrow> (int \<times> int) set" where
  "cause_edges evs = {(ev_seq (le_body e), c) |e c. e \<in> set evs \<and> c \<in> set (ev_caused_by (le_body e))}"

lemma finite_cause_edges: "finite (cause_edges evs)"
proof (rule finite_subset)
  show "cause_edges evs \<subseteq> (\<Union>e \<in> set evs. {ev_seq (le_body e)} \<times> set (ev_caused_by (le_body e)))"
    by (auto simp: cause_edges_def)
qed simp

lemma causes_pass_Cons:
  "causes_pass (e # evs) w =
     causes_pass evs (if ev_seq (le_body e) \<in> w then w \<union> set (ev_caused_by (le_body e)) else w)"
  by (simp add: causes_pass_def)

lemma causes_pass_mono: "w \<subseteq> causes_pass evs w"
proof (induction evs arbitrary: w)
  case (Cons e evs)
  show ?case
    using Cons [of "w \<union> set (ev_caused_by (le_body e))"] Cons [of w] by (auto simp: causes_pass_Cons)
qed (simp add: causes_pass_def)

lemma causes_pass_step:
  "e \<in> set evs \<Longrightarrow> ev_seq (le_body e) \<in> w \<Longrightarrow> set (ev_caused_by (le_body e)) \<subseteq> causes_pass evs w"
proof (induction evs arbitrary: w)
  case (Cons f evs)
  let ?w = "if ev_seq (le_body f) \<in> w then w \<union> set (ev_caused_by (le_body f)) else w"
  have "?w \<subseteq> causes_pass evs ?w"
    by (rule causes_pass_mono)
  then show ?case
    using Cons.IH [of ?w] Cons.prems by (auto simp: causes_pass_Cons split: if_splits)
qed simp

lemma causes_pass_sound: "set evs \<subseteq> set all \<Longrightarrow> causes_pass evs w \<subseteq> (cause_edges all)\<^sup>* `` w"
proof (induction evs arbitrary: w)
  case (Cons e evs)
  have "w \<union> set (ev_caused_by (le_body e)) \<subseteq> (cause_edges all)\<^sup>* `` w" if "ev_seq (le_body e) \<in> w"
    using that Cons.prems by (auto simp: cause_edges_def)
  then have "(cause_edges all)\<^sup>* `` (if ev_seq (le_body e) \<in> w then w \<union> set (ev_caused_by (le_body e)) else w)
      \<subseteq> (cause_edges all)\<^sup>* `` w"
    by (auto split: if_splits dest: rtrancl_trans)
  then show ?case
    unfolding causes_pass_Cons using Cons.IH Cons.prems by (meson order_trans set_subset_Cons)
qed (auto simp: causes_pass_def)

lemma causes_pass_fixed:
  assumes "causes_pass evs w = w"
  shows "(cause_edges evs)\<^sup>* `` w = w"
proof (rule Image_closed_trancl)
  show "cause_edges evs `` w \<subseteq> w"
    using causes_pass_step [of _ evs w] assms by (auto simp: cause_edges_def)
qed

lemma causes_closure_exact:
  assumes "finite w"
  shows "causes_closure evs w = Some ((cause_edges evs)\<^sup>* `` w)"
proof -
  define U where "U = (cause_edges evs)\<^sup>* `` w"
  have fin: "finite U"
    unfolding U_def by (rule finite_reach [OF finite_cause_edges assms])
  have "causes_closure evs v = Some U" if "w \<subseteq> v" "v \<subseteq> U" for v
    using that
  proof (induction "card (U - v)" arbitrary: v rule: less_induct)
    case less
    let ?v = "causes_pass evs v"
    have "(cause_edges evs)\<^sup>* `` v \<subseteq> U"
      using less.prems(2) unfolding U_def by (blast intro: rtrancl_trans)
    then have v: "v \<subseteq> ?v" "?v \<subseteq> U"
      using causes_pass_mono causes_pass_sound [of evs evs v] by blast+
    show ?case
    proof (cases "card ?v = card v")
      case True
      then have "?v = v"
        using v fin by (metis card_subset_eq finite_subset)
      then have "?v = U"
        using causes_pass_fixed [of evs v] less.prems unfolding U_def by blast
      with True show ?thesis
        by (subst causes_closure.simps) (simp add: Let_def)
    next
      case False
      then have "v \<subset> ?v"
        using v by auto
      then have "card (U - ?v) < card (U - v)"
        using v fin by (intro psubset_card_mono) auto
      then show ?thesis
        using False less.hyps [of ?v] less.prems v by (subst causes_closure.simps) (auto simp: Let_def)
    qed
  qed
  then show ?thesis
    unfolding U_def by blast
qed

text \<open>
  C30. The causes of an effect are found completely: the closure loop ends on every ledger, also on
  one whose attribution links form cycles, and the answer is exactly the events from which a chain
  of recorded causes leads to an event of the effect, in ledger order.
\<close>

theorem effect_causes_exact:
  "events_leading_to_effect env l effect_id =
     (case query env l any_event of
        Inl e \<Rightarrow> Some (Inl e)
      | Inr evs \<Rightarrow> Some (Inr (filter (\<lambda>e. \<exists>f \<in> set evs. payload_str f ''effect_id'' = Some effect_id
          \<and> (ev_seq (le_body f), ev_seq (le_body e)) \<in> (cause_edges evs)\<^sup>*) evs)))"
proof (cases "query env l any_event")
  case (Inr evs)
  define seeds where "seeds = set (map (ev_seq \<circ> le_body) (filter (\<lambda>e. payload_str e ''effect_id'' = Some effect_id) evs))"
  have "causes_closure evs seeds = Some ((cause_edges evs)\<^sup>* `` seeds)"
    by (rule causes_closure_exact) (simp add: seeds_def)
  moreover have "s \<in> (cause_edges evs)\<^sup>* `` seeds \<longleftrightarrow>
      (\<exists>f \<in> set evs. payload_str f ''effect_id'' = Some effect_id \<and> (ev_seq (le_body f), s) \<in> (cause_edges evs)\<^sup>*)" for s
    by (auto simp: seeds_def)
  ultimately show ?thesis
    by (simp add: events_leading_to_effect_def Inr seeds_def)
qed (simp add: events_leading_to_effect_def)

text \<open>Receipts: a key keeps the first receipt stored under it, and storing that one again changes nothing.\<close>

lemma store_receipt_first:
  assumes "receipt_by_key l key = Some r"
  shows "store_receipt l r' key = (l, if rcpt_id r' = rcpt_id r then Ok () else Err (DuplicateCommit key (rcpt_id r)))"
  using assms by (auto simp: store_receipt_def)

lemma store_receipt_found:
  assumes "store_receipt l r key = (l', Ok ())"
  shows "\<exists>r'. receipt_by_key l' key = Some r' \<and> rcpt_id r' = rcpt_id r"
proof (cases "receipt_by_key l key")
  case None
  then have "l' = l\<lparr> lg_receipts := lg_receipts l @ [(rcpt_id r, key, r)] \<rparr>" "find (\<lambda>(_, k, _). k = key) (lg_receipts l) = None"
    using assms by (auto simp: store_receipt_def receipt_by_key_def split: if_splits)
  moreover have "find P (xs @ [x]) = (if P x then Some x else None)" if "find P xs = None" for P and x :: "ident \<times> string \<times> Receipt" and xs
    using that by (induction xs) (auto split: if_splits)
  ultimately show ?thesis
    by (simp add: receipt_by_key_def)
qed (use assms in \<open>auto simp: store_receipt_def split: if_splits\<close>)

text \<open>
  The limit of a query applies before its time range: events inside the range are lost when enough
  events outside it come first.
\<close>

lemma query_limit_before_time:
  assumes "parse_rows env (by_seq (lg_events l)) = Ok (e # evs)" and "in_time q f" and "f \<in> set evs" and "\<not> in_time q e"
    and "q = any_event\<lparr> tq_time_range := tq_time_range q, tq_limit := Some 1 \<rparr>"
  shows "query env l q = Ok []"
proof -
  have rows: "filter (row_matches q) (by_seq (lg_events l)) = by_seq (lg_events l)" "tq_limit q = Some 1"
    by (subst assms(5), simp add: row_matches_def wants_def any_event_def)+
  obtain r rows' where r: "by_seq (lg_events l) = r # rows'" "row_to_event env r = Ok e"
    using assms(1) by (cases "by_seq (lg_events l)") (auto split: sum.splits)
  show ?thesis
    using assms(4) unfolding query_def Let_def rows by (simp add: r)
qed

section \<open>A concrete ledger\<close>

definition demo_ledger_env :: LedgerEnv where
  "demo_ledger_env = \<lparr> text_hash = (\<lambda>s. s), raw_hash = (\<lambda>_. []), scalar_text = unary_printer, show_seq = unary,
     time_text = unary, print_time = unary, parse_time = (\<lambda>_. Some 7), print_json = (\<lambda>_. []),
     parse_json = (\<lambda>_. Some JNull), print_seqs = (\<lambda>_. []), parse_seqs = (\<lambda>_. Some []), parse_delta = (\<lambda>_. None) \<rparr>"

definition demo_event :: NewEvent where
  "demo_event = \<lparr> ne_kind = Objective, ne_episode = ''ep'', ne_branch = None, ne_step = None, ne_principal = ''agent'',
     ne_payload = JNull, ne_caused_by = [] \<rparr>"

definition demo_ledger :: Ledger where
  "demo_ledger = fst (append_event demo_ledger_env (fst (append_event demo_ledger_env empty_ledger demo_event 7)) demo_event 7)"

lemma demo_ledger_run: "ledger_run demo_ledger_env demo_ledger"
proof -
  have "columns_ok demo_ledger_env (ne_payload demo_event) (ne_caused_by demo_event) 7"
    by (simp add: columns_ok_def demo_ledger_env_def demo_event_def)
  then show ?thesis
    unfolding demo_ledger_def by (intro run_append run_open)
qed

lemma demo_ledger_length: "length (lg_events demo_ledger) = 2"
  by (simp add: demo_ledger_def append_event_def empty_ledger_def Let_def split: prod.splits)

theorem ledger_verifies_witness:
  "ledger_run demo_ledger_env demo_ledger \<and> verify_chain demo_ledger_env demo_ledger = Ok 2"
  using ledger_verifies [OF demo_ledger_run] demo_ledger_run by (simp add: demo_ledger_length)

lemma parse_rows_payload: "parse_rows demo_ledger_env rows = Ok evs \<Longrightarrow> e \<in> set evs \<Longrightarrow> ev_payload (le_body e) = JNull"
  by (induction rows arbitrary: evs)
     (auto simp: row_to_event_def demo_ledger_env_def split: sum.splits option.splits)

theorem last_hash_commits_witness:
  "\<exists>evs. ledger_documents demo_ledger_env demo_ledger evs \<and> length evs = 2 \<and> list_all2 same_event evs evs"
proof -
  have seqs: "verify_chain demo_ledger_env demo_ledger = Ok 2"
    using ledger_run_ok [OF demo_ledger_run] by_seq_ok [of "lg_events demo_ledger"] demo_ledger_length
    by (auto simp: verify_chain_def verify_loop_Ok ledger_ok_def)
  then obtain evs where evs: "ledger_documents demo_ledger_env demo_ledger evs"
    by (auto simp: verify_chain_def verify_loop_Ok ledger_documents_def)
  have "length evs = 2"
    using parse_rows_map(1) [of demo_ledger_env _ evs] evs demo_ledger_length by (auto simp: ledger_documents_def by_seq_def)
  moreover have payload: "\<forall>e \<in> set evs \<union> set evs. json_ok (ev_payload (le_body e))"
    using evs parse_rows_payload by (auto simp: ledger_documents_def)
  moreover have "printer_ok (scalar_text demo_ledger_env)"
    by (simp add: demo_ledger_env_def unary_printer_ok)
  moreover have "inj (time_text demo_ledger_env)"
    using unary_inj [of _ "[]" _ "[]"] by (auto simp: inj_def demo_ledger_env_def)
  moreover have "inj_on (text_hash demo_ledger_env) A" for A
    by (simp add: demo_ledger_env_def inj_on_def)
  ultimately show ?thesis
    using last_hash_commits [OF _ _ seqs seqs evs evs payload] evs by blast
qed

end
