(* ===== verification/Observation.thy ===== *)
theory Observation
  imports Cas
begin

text \<open>
  Observations returned to the agent (kernel/core/src/observation.rs): the observation and its
  serialized form, the head-and-tail distillation of raw output and the extraction of the causal
  failure line, over the standard library's lossy UTF-8 decoding, \<open>lines\<close> and \<open>trim\<close> on bytes.
  The lemmas show that what reaches the agent is valid UTF-8 of bounded length and that a
  truncated head and tail are disjoint parts of the output.
\<close>

section \<open>UTF-8 as the standard library reads it\<close>

definition byte_at :: "string \<Rightarrow> nat \<Rightarrow> nat" where
  "byte_at s i = (if i < length s then of_char (s ! i) else 0)"

definition continuation :: "nat \<Rightarrow> bool" where
  "continuation n \<longleftrightarrow> 128 \<le> n \<and> n \<le> 191"

definition second_byte :: "nat \<Rightarrow> nat \<Rightarrow> bool" where
  "second_byte b c \<longleftrightarrow>
     (if b = 224 then 160 \<le> c \<and> c \<le> 191
      else if b = 237 then 128 \<le> c \<and> c \<le> 159
      else if b = 240 then 144 \<le> c \<and> c \<le> 191
      else if b = 244 then 128 \<le> c \<and> c \<le> 143
      else continuation c)"

text \<open>
  One round of the decoder on a non-empty input: the bytes it consumes and whether they are a
  character; otherwise they are the maximal prefix of an ill-formed sequence.
\<close>

definition utf8_step :: "string \<Rightarrow> nat \<times> bool" where
  "utf8_step s =
     (let b = byte_at s 0; c1 = byte_at s 1; c2 = byte_at s 2; c3 = byte_at s 3 in
      if b < 128 then (1, True)
      else if 194 \<le> b \<and> b \<le> 223 then (if continuation c1 then (2, True) else (1, False))
      else if 224 \<le> b \<and> b \<le> 239 then
        (if \<not> second_byte b c1 then (1, False)
         else if \<not> continuation c2 then (2, False) else (3, True))
      else if 240 \<le> b \<and> b \<le> 244 then
        (if \<not> second_byte b c1 then (1, False)
         else if \<not> continuation c2 then (2, False)
         else if \<not> continuation c3 then (3, False) else (4, True))
      else (1, False))"

definition replacement_character :: string where
  "replacement_character = [CHR 0xEF, CHR 0xBF, CHR 0xBD]"

function lossy :: "string \<Rightarrow> string" where
  "lossy s =
     (if s = [] then []
      else (case utf8_step s of (n, ok) \<Rightarrow>
              (if ok then take n s else replacement_character) @ lossy (drop n s)))"
  by auto
termination lossy
  by (relation "measure length")
     (auto simp: utf8_step_def Let_def split: if_splits)

declare lossy.simps [simp del]

function valid_utf8 :: "string \<Rightarrow> bool" where
  "valid_utf8 s = (if s = [] then True else (case utf8_step s of (n, ok) \<Rightarrow> ok \<and> valid_utf8 (drop n s)))"
  by auto
termination valid_utf8
  by (relation "measure length")
     (auto simp: utf8_step_def Let_def split: if_splits)

declare valid_utf8.simps [simp del]

definition string_of_bytes :: "bytes \<Rightarrow> string" where
  "string_of_bytes raw = map (\<lambda>b. char_of (unat b)) raw"

definition from_utf8_lossy :: "bytes \<Rightarrow> string" where
  "from_utf8_lossy raw = lossy (string_of_bytes raw)"

definition is_char_boundary :: "string \<Rightarrow> nat \<Rightarrow> bool" where
  "is_char_boundary s i \<longleftrightarrow> i = 0 \<or> i = length s \<or> i < length s \<and> \<not> continuation (byte_at s i)"

section \<open>Lines and trimming\<close>

definition strip_cr :: "string \<Rightarrow> string" where
  "strip_cr l = (if l \<noteq> [] \<and> last l = CHR 0x0D then butlast l else l)"

definition text_lines :: "string \<Rightarrow> string list" where
  "text_lines s =
     (let parts = split_on (CHR 0x0A) s in
      map strip_cr (butlast parts) @ (if last parts = [] then [] else [last parts]))"

text \<open>The UTF-8 encodings of the characters with the Unicode \<open>White_Space\<close> property.\<close>

definition whitespace_encodings :: "string list" where
  "whitespace_encodings =
     map (\<lambda>n. [char_of n]) [9 :: nat, 10, 11, 12, 13, 32]
     @ [[CHR 0xC2, CHR 0x85], [CHR 0xC2, CHR 0xA0], [CHR 0xE1, CHR 0x9A, CHR 0x80]]
     @ map (\<lambda>n. [CHR 0xE2, CHR 0x80, char_of n])
         [0x80 :: nat, 0x81, 0x82, 0x83, 0x84, 0x85, 0x86, 0x87, 0x88, 0x89, 0x8A, 0xA8, 0xA9, 0xAF]
     @ [[CHR 0xE2, CHR 0x81, CHR 0x9F], [CHR 0xE3, CHR 0x80, CHR 0x80]]"

function trim_start :: "string \<Rightarrow> string" where
  "trim_start s =
     (case find (\<lambda>w. prefix w s) whitespace_encodings of
        None \<Rightarrow> s | Some w \<Rightarrow> if w = [] then s else trim_start (drop (length w) s))"
  by auto
termination trim_start
  by (relation "measure length") (auto dest!: find_SomeD simp: prefix_def)

function trim_end :: "string \<Rightarrow> string" where
  "trim_end s =
     (case find (\<lambda>w. suffix w s) whitespace_encodings of
        None \<Rightarrow> s | Some w \<Rightarrow> if w = [] then s else trim_end (take (length s - length w) s))"
  by auto
termination trim_end
  by (relation "measure length") (auto dest!: find_SomeD simp: suffix_def)

declare trim_start.simps [simp del] trim_end.simps [simp del]

definition str_trim :: "string \<Rightarrow> string" where
  "str_trim s = trim_end (trim_start s)"

section \<open>Observations\<close>

datatype Observation =
    Success (obs_summary: string) (obs_data: "json option") (stdout_head: "string option")
      (stdout_tail: "string option") (obs_exit: "32 word") (obs_output: string) (obs_truncated: bool)
  | Failure (obs_summary: string) (obs_exit: "32 word") (first_causal_failure: "string option")
      (output_tail: "string option") (obs_output: string)
  | ObsDenied (obs_denial: Denial)
  | EffectPending (obs_effect: ident) (obs_contract_hash: string) (obs_class: EffectClass)
  | ObsEffectCommitted (obs_receipt: ident)

fun is_denial :: "Observation \<Rightarrow> bool" where
  "is_denial (ObsDenied d) = True"
| "is_denial _ = False"

fun obs_exit_code :: "Observation \<Rightarrow> 32 word option" where
  "obs_exit_code (Success _ _ _ _ c _ _) = Some c"
| "obs_exit_code (Failure _ c _ _ _) = Some c"
| "obs_exit_code _ = None"

fun denial_code_name :: "DenialCode \<Rightarrow> string" where
  "denial_code_name CapabilityDenied = ''CAPABILITY_DENIED''"
| "denial_code_name CapabilityExpired = ''CAPABILITY_EXPIRED''"
| "denial_code_name CapabilityExhausted = ''CAPABILITY_EXHAUSTED''"
| "denial_code_name BudgetExhausted = ''BUDGET_EXHAUSTED''"
| "denial_code_name ConstraintViolation = ''CONSTRAINT_VIOLATED''"
| "denial_code_name BranchMismatch = ''BRANCH_MISMATCH''"
| "denial_code_name EffectRequiresApproval = ''EFFECT_REQUIRES_APPROVAL''"
| "denial_code_name StaleAuthorizationCode = ''STALE_AUTHORIZATION''"
| "denial_code_name PreconditionFailed = ''PRECONDITION_FAILED''"
| "denial_code_name DuplicateCommitCode = ''DUPLICATE_COMMIT''"
| "denial_code_name BackendUnavailableCode = ''BACKEND_UNAVAILABLE''"
| "denial_code_name PolicyForbidden = ''POLICY_FORBIDDEN''"

definition scope_json :: "RequestableScope \<Rightarrow> json" where
  "scope_json s = JObj [(''operation'', JStr (scope_operation s)),
     (''constraints'', scope_constraints s), (''requires_human'', JBool (requires_human s))]"

definition denial_fields :: "Denial \<Rightarrow> (string \<times> json) list" where
  "denial_fields d =
     [(''code'', JStr (denial_code_name (denial_code d))),
      (''attempted_operation'', JStr (attempted_operation d)), (''reason'', JStr (denial_reason d))]
     @ (if safe_alternatives d = [] then []
        else [(''safe_alternatives'', JArr (map JStr (safe_alternatives d)))])
     @ (if requestable_scopes d = [] then []
        else [(''requestable_scopes'', JArr (map scope_json (requestable_scopes d)))])
     @ [(''escalation_allowed'', JBool (escalation_allowed d))]"

definition denial_json :: "Denial \<Rightarrow> json" where
  "denial_json d = JObj (denial_fields d)"

definition some_field :: "string \<Rightarrow> json option \<Rightarrow> (string \<times> json) list" where
  "some_field k v = (case v of None \<Rightarrow> [] | Some x \<Rightarrow> [(k, x)])"

fun observation_json :: "Observation \<Rightarrow> json" where
  "observation_json (Success summary data hd_text tl_text code full trunc) = JObj (
     [(''kind'', JStr ''success''), (''summary'', JStr summary)]
     @ some_field ''data'' data @ some_field ''stdout_head'' (map_option JStr hd_text)
     @ some_field ''stdout_tail'' (map_option JStr tl_text)
     @ [(''exit_code'', JInt (sint code)), (''full_output'', JStr full), (''truncated'', JBool trunc)])"
| "observation_json (Failure summary code causal tl_text full) = JObj (
     [(''kind'', JStr ''failure''), (''summary'', JStr summary), (''exit_code'', JInt (sint code))]
     @ some_field ''first_causal_failure'' (map_option JStr causal)
     @ some_field ''output_tail'' (map_option JStr tl_text) @ [(''full_output'', JStr full)])"
| "observation_json (ObsDenied d) = JObj [(''kind'', JStr ''denied''), (''denial'', denial_json d)]"
| "observation_json (EffectPending e h c) = JObj
     [(''kind'', JStr ''effect_pending''), (''effect'', JStr e), (''contract_hash'', JStr h),
      (''class'', JStr (class_name c))]"
| "observation_json (ObsEffectCommitted r) = JObj
     [(''kind'', JStr ''effect_committed''), (''receipt'', JStr r)]"

section \<open>Distillation\<close>

record DistilledOutput =
  do_head :: "string option"
  do_tail :: "string option"
  do_hash :: string
  do_truncated :: bool

definition distill_output :: "(bytes \<Rightarrow> string) \<Rightarrow> bytes \<Rightarrow> nat \<Rightarrow> nat \<Rightarrow> DistilledOutput" where
  "distill_output hash_bytes raw head_limit tail_limit =
     (if raw = [] then
        \<lparr> do_head = None, do_tail = None, do_hash = hash_bytes raw, do_truncated = False \<rparr>
      else let trunc = length raw > head_limit;
               start = max (length raw - tail_limit) head_limit in
        \<lparr> do_head = Some (from_utf8_lossy (take (min (length raw) head_limit) raw)),
          do_tail = (if trunc \<and> tail_limit > 0
                     then if start < length raw then Some (from_utf8_lossy (drop start raw)) else None
                     else None),
          do_hash = hash_bytes raw, do_truncated = trunc \<rparr>)"

definition CAUSAL_MARKERS :: "string list" where
  "CAUSAL_MARKERS =
     [''panicked at'', ''error['', ''error:'', ''Error:'', ''ERROR'', ''fatal:'', ''FAILED'',
      ''Traceback'', ''Exception'', ''assertion failed'', ''Segmentation fault'',
      ''command not found'', ''No such file or directory'', ''permission denied'',
      ''Permission denied'']"

text \<open>The cut at 400 bytes moves down to a character boundary.\<close>

fun boundary_below :: "string \<Rightarrow> nat \<Rightarrow> nat" where
  "boundary_below t 0 = 0"
| "boundary_below t (Suc n) = (if is_char_boundary t (Suc n) then Suc n else boundary_below t n)"

definition cap_line :: "string \<Rightarrow> string" where
  "cap_line s = (let t = str_trim s in take (boundary_below t (min (length t) 400)) t)"

fun first_marked :: "string list \<Rightarrow> string list \<Rightarrow> string option" where
  "first_marked ls [] = None"
| "first_marked ls (m # ms) =
     (case find (\<lambda>l. str_find m l \<noteq> None) ls of Some l \<Rightarrow> Some l | None \<Rightarrow> first_marked ls ms)"

definition extract_causal_failure :: "bytes \<Rightarrow> string option" where
  "extract_causal_failure stream =
     (let ls = text_lines (from_utf8_lossy stream) in
      case first_marked ls CAUSAL_MARKERS of
        Some l \<Rightarrow> Some (cap_line l)
      | None \<Rightarrow> map_option cap_line (find (\<lambda>l. str_trim l \<noteq> []) ls))"

section \<open>Decoding is total, valid and at most triples the length\<close>

lemma utf8_step_cases:
  assumes "utf8_step s = (n, ok)" "s \<noteq> []"
  shows "1 \<le> n \<and> n \<le> 4 \<and> (ok \<longrightarrow> n \<le> length s \<and> (\<forall>i. 0 < i \<and> i < n \<longrightarrow> continuation (byte_at s i)))"
proof -
  have len: "i < length s" if "continuation (byte_at s i) \<or> second_byte b (byte_at s i)" for b i
    using that by (auto simp: continuation_def second_byte_def byte_at_def split: if_splits)
  have second: "continuation c" if "second_byte b c" for b c
    using that by (auto simp: second_byte_def continuation_def split: if_splits)
  have upto: "0 < i \<and> i < 2 \<longleftrightarrow> i = 1" "0 < i \<and> i < 3 \<longleftrightarrow> i = 1 \<or> i = 2"
    "0 < i \<and> i < 4 \<longleftrightarrow> i = 1 \<or> i = 2 \<or> i = 3" for i :: nat
    by auto
  have "length s \<ge> 1"
    using assms(2) by (cases s) auto
  then show ?thesis
    using assms(1) len [of 1] len [of 2] len [of 3] second
    unfolding utf8_step_def Let_def upto by (auto split: if_splits simp: upto)
qed

lemma byte_at_append: "byte_at s i \<noteq> 0 \<Longrightarrow> byte_at (s @ t) i = byte_at s i"
  by (auto simp: byte_at_def nth_append split: if_splits)

lemma utf8_step_append:
  assumes "utf8_step s = (n, True)" "s \<noteq> []"
  shows "utf8_step (s @ t) = (n, True)"
proof -
  have cont: "continuation (byte_at s i) \<Longrightarrow> byte_at (s @ t) i = byte_at s i" for i
    by (rule byte_at_append) (auto simp: continuation_def)
  have sec: "second_byte b (byte_at s i) \<Longrightarrow> byte_at (s @ t) i = byte_at s i" for b i
    by (rule byte_at_append) (auto simp: second_byte_def continuation_def split: if_splits)
  have "byte_at (s @ t) 0 = byte_at s 0"
    using assms(2) by (simp add: byte_at_def nth_append)
  then show ?thesis
    using assms(1) unfolding utf8_step_def Let_def by (auto simp: cont sec split: if_splits)
qed

lemma valid_utf8_Nil [simp]: "valid_utf8 []"
  by (simp add: valid_utf8.simps)

lemma valid_utf8_step:
  "s \<noteq> [] \<Longrightarrow> utf8_step s = (n, ok) \<Longrightarrow> valid_utf8 s \<longleftrightarrow> ok \<and> valid_utf8 (drop n s)"
  by (subst valid_utf8.simps) simp

lemma valid_utf8_append: "valid_utf8 s \<Longrightarrow> valid_utf8 t \<Longrightarrow> valid_utf8 (s @ t)"
proof (induction s rule: valid_utf8.induct)
  case (1 s)
  show ?case
  proof (cases "s = []")
    case False
    obtain n ok where step: "utf8_step s = (n, ok)"
      by fastforce
    with False 1(2) have ok: "ok" "valid_utf8 (drop n s)"
      by (simp_all add: valid_utf8_step)
    then have "valid_utf8 (drop n s @ t)"
      using 1(1) [OF False] step 1(3) by auto
    moreover have "n \<le> length s" "utf8_step (s @ t) = (n, True)"
      using utf8_step_cases [OF step False] utf8_step_append [of s n t] step ok(1) False by auto
    ultimately show ?thesis
      using False by (simp add: valid_utf8_step)
  qed (use 1 in simp)
qed

lemma valid_utf8_piece:
  assumes "utf8_step s = (n, True)" "s \<noteq> []"
  shows "valid_utf8 (take n s)"
proof -
  note c = utf8_step_cases [OF assms, simplified]
  have "utf8_step (take n s) = utf8_step s"
    using assms c unfolding utf8_step_def Let_def byte_at_def
    by (auto split: if_splits simp: continuation_def second_byte_def)
  then show ?thesis
    using assms c by (subst valid_utf8_step [of _ n True]) auto
qed

lemma replacement_valid: "valid_utf8 replacement_character"
  by (simp add: valid_utf8.simps replacement_character_def utf8_step_def byte_at_def continuation_def
      second_byte_def)

lemma lossy_Nil [simp]: "lossy [] = []"
  by (simp add: lossy.simps)

lemma lossy_step:
  "s \<noteq> [] \<Longrightarrow> utf8_step s = (n, ok) \<Longrightarrow>
     lossy s = (if ok then take n s else replacement_character) @ lossy (drop n s)"
  by (subst lossy.simps) simp

lemma lossy_valid [simp]: "valid_utf8 (lossy s)"
proof (induction s rule: lossy.induct)
  case (1 s)
  show ?case
  proof (cases "s = []")
    case False
    obtain n ok where step: "utf8_step s = (n, ok)"
      by fastforce
    with False 1 have "valid_utf8 (lossy (drop n s))"
      by auto
    then show ?thesis
      using valid_utf8_piece [of s n] replacement_valid step False
      by (cases ok) (auto simp: lossy_step [OF False step] intro!: valid_utf8_append)
  qed simp
qed

lemma lossy_id: "valid_utf8 s \<Longrightarrow> lossy s = s"
proof (induction s rule: lossy.induct)
  case (1 s)
  show ?case
  proof (cases "s = []")
    case False
    obtain n ok where step: "utf8_step s = (n, ok)"
      by fastforce
    with False 1 show ?thesis
      by (auto simp: lossy_step [OF False step] valid_utf8_step [OF False step])
  qed simp
qed

lemma lossy_length: "length (lossy s) \<le> 3 * length s"
proof (induction s rule: lossy.induct)
  case (1 s)
  show ?case
  proof (cases "s = []")
    case False
    obtain n ok where step: "utf8_step s = (n, ok)"
      by fastforce
    with False 1 have "length (lossy (drop n s)) \<le> 3 * length (drop n s)"
      by auto
    moreover have "1 \<le> n" "length s \<ge> 1"
      using utf8_step_cases [OF step False] False by (auto simp: Suc_le_eq)
    ultimately show ?thesis
      using step by (auto simp: lossy_step [OF False step] replacement_character_def)
  qed simp
qed

lemma valid_utf8_take: "valid_utf8 s \<Longrightarrow> is_char_boundary s i \<Longrightarrow> valid_utf8 (take i s)"
proof (induction s arbitrary: i rule: valid_utf8.induct)
  case (1 s)
  show ?case
  proof (cases "s = [] \<or> i = 0 \<or> i \<ge> length s")
    case False
    then have ne: "s \<noteq> []" and i: "0 < i" "i < length s" "\<not> continuation (byte_at s i)"
      using 1(3) by (auto simp: is_char_boundary_def)
    obtain n ok where step: "utf8_step s = (n, ok)"
      by fastforce
    have ok: "ok" "valid_utf8 (drop n s)"
      using 1(2) ne step by (simp_all add: valid_utf8_step)
    have n: "n \<le> i"
      using utf8_step_cases [OF step ne] ok i(1,3) not_less by blast
    have "is_char_boundary (drop n s) (i - n)"
      using n i by (auto simp: is_char_boundary_def byte_at_def)
    then have "valid_utf8 (take (i - n) (drop n s))"
      using 1(1) [OF ne] step ok by auto
    then have "valid_utf8 (take n s @ take (i - n) (drop n s))"
      using valid_utf8_piece [of s n] step ok(1) ne by (auto intro: valid_utf8_append)
    moreover have "take n s @ take (i - n) (drop n s) = take i s"
      using n by (metis append_take_drop_id le_add_diff_inverse take_add)
    ultimately show ?thesis
      by simp
  qed (use 1 in auto)
qed

lemma valid_utf8_drop: "valid_utf8 s \<Longrightarrow> is_char_boundary s i \<Longrightarrow> valid_utf8 (drop i s)"
proof (induction s arbitrary: i rule: valid_utf8.induct)
  case (1 s)
  show ?case
  proof (cases "s = [] \<or> i = 0 \<or> i \<ge> length s")
    case False
    then have ne: "s \<noteq> []" and i: "0 < i" "i < length s" "\<not> continuation (byte_at s i)"
      using 1(3) by (auto simp: is_char_boundary_def)
    obtain n ok where step: "utf8_step s = (n, ok)"
      by fastforce
    have ok: "ok" "valid_utf8 (drop n s)"
      using 1(2) ne step by (simp_all add: valid_utf8_step)
    have n: "n \<le> i"
      using utf8_step_cases [OF step ne] ok i(1,3) not_less by blast
    have "is_char_boundary (drop n s) (i - n)"
      using n i by (auto simp: is_char_boundary_def byte_at_def)
    then have "valid_utf8 (drop (i - n) (drop n s))"
      using 1(1) [OF ne] step ok by auto
    then show ?thesis
      using n by simp
  qed (use 1 in auto)
qed

section \<open>What reaches the agent\<close>

lemma string_of_bytes_slices [simp]:
  "string_of_bytes (take n raw) = take n (string_of_bytes raw)"
  "string_of_bytes (drop n raw) = drop n (string_of_bytes raw)"
  "length (string_of_bytes raw) = length raw"
  by (simp_all add: string_of_bytes_def take_map drop_map)

lemma from_utf8_lossy_length: "length (from_utf8_lossy raw) \<le> 3 * length raw"
  using lossy_length [of "string_of_bytes raw"] by (simp add: from_utf8_lossy_def)

lemma from_utf8_lossy_parts:
  assumes "valid_utf8 (string_of_bytes raw)" "is_char_boundary (string_of_bytes raw) n"
  shows "from_utf8_lossy (take n raw) = string_of_bytes (take n raw)"
    "from_utf8_lossy (drop n raw) = string_of_bytes (drop n raw)"
  using assms by (simp_all add: from_utf8_lossy_def lossy_id valid_utf8_take valid_utf8_drop)

definition distilled_text :: "DistilledOutput \<Rightarrow> string" where
  "distilled_text d = (case do_head d of None \<Rightarrow> [] | Some x \<Rightarrow> x) @ (case do_tail d of None \<Rightarrow> [] | Some x \<Rightarrow> x)"

lemma distilled_text_whole:
  assumes "valid_utf8 (string_of_bytes raw)" "is_char_boundary (string_of_bytes raw) n"
    "length raw \<le> n + m"
  shows "distilled_text (distill_output h raw n m) = string_of_bytes raw"
proof (cases "length raw \<le> n")
  case True
  then show ?thesis
    using assms(1) by (simp add: distill_output_def distilled_text_def from_utf8_lossy_def lossy_id
        string_of_bytes_def)
next
  case False
  then have "m > 0" "max (length raw - m) n = n" "raw \<noteq> []" "min (length raw) n = n"
    using assms(3) by auto
  then show ?thesis
    using False from_utf8_lossy_parts [OF assms(1,2)]
    by (simp add: distill_output_def distilled_text_def Let_def)
qed



lemma boundary_below_ok: "boundary_below t n \<le> n \<and> is_char_boundary t (boundary_below t n)"
  by (induction n) (auto simp: is_char_boundary_def)

text \<open>The cut never falls inside a character, so the slice never panics, and it keeps at most 400 bytes.\<close>

lemma cap_line_bounds:
  "length (cap_line s) \<le> 400 \<and> prefix (cap_line s) (str_trim s)
   \<and> (\<exists>n. is_char_boundary (str_trim s) n \<and> cap_line s = take n (str_trim s))"
proof -
  let ?n = "boundary_below (str_trim s) (min (length (str_trim s)) 400)"
  have "?n \<le> 400" "is_char_boundary (str_trim s) ?n"
    using boundary_below_ok [of "str_trim s" "min (length (str_trim s)) 400"] by auto
  then show ?thesis
    unfolding cap_line_def Let_def by (auto simp: take_is_prefix)
qed

lemma ex_split_Cons:
  "(\<exists>pre x post. a # xs = pre @ x # post \<and> (\<forall>y \<in> set pre. P y) \<and> Q x) \<longleftrightarrow>
   Q a \<or> P a \<and> (\<exists>pre x post. xs = pre @ x # post \<and> (\<forall>y \<in> set pre. P y) \<and> Q x)"
proof (intro iffI; (elim exE conjE disjE)?)
  fix pre x post
  assume "a # xs = pre @ x # post" "\<forall>y \<in> set pre. P y" "Q x"
  then show "Q a \<or> P a \<and> (\<exists>pre x post. xs = pre @ x # post \<and> (\<forall>y \<in> set pre. P y) \<and> Q x)"
    by (cases pre) auto
next
  assume "Q a"
  then show "\<exists>pre x post. a # xs = pre @ x # post \<and> (\<forall>y \<in> set pre. P y) \<and> Q x"
    by (intro exI [of _ "[]"] exI [of _ a] exI [of _ xs]) simp
next
  fix pre x post
  assume "P a" "xs = pre @ x # post" "\<forall>y \<in> set pre. P y" "Q x"
  then show "\<exists>pre x post. a # xs = pre @ x # post \<and> (\<forall>y \<in> set pre. P y) \<and> Q x"
    by (intro exI [of _ "a # pre"] exI [of _ x] exI [of _ post]) simp
qed

lemma first_marked_Some:
  "first_marked ls ms = Some l \<longleftrightarrow>
     (\<exists>pre m post. ms = pre @ m # post \<and> (\<forall>m' \<in> set pre. \<forall>x \<in> set ls. str_find m' x = None)
        \<and> find (\<lambda>x. str_find m x \<noteq> None) ls = Some l)"
proof (induction ms)
  case (Cons m ms)
  have "find (\<lambda>x. str_find m x \<noteq> None) ls = None \<longleftrightarrow> (\<forall>x \<in> set ls. str_find m x = None)"
    by (auto simp: find_None_iff)
  then show ?case
    unfolding ex_split_Cons Cons [symmetric]
    by (cases "find (\<lambda>x. str_find m x \<noteq> None) ls") auto
qed simp

text \<open>
  The causal line: the first line with the most specific marker that occurs anywhere in the
  stream, and without any marker the first line that is not blank.
\<close>

lemma extract_causal_failure_exact:
  "extract_causal_failure stream = Some r \<longleftrightarrow>
     (let ls = text_lines (from_utf8_lossy stream) in
      (\<exists>pre m post l. CAUSAL_MARKERS = pre @ m # post
          \<and> (\<forall>m' \<in> set pre. \<forall>x \<in> set ls. str_find m' x = None)
          \<and> find (\<lambda>x. str_find m x \<noteq> None) ls = Some l \<and> r = cap_line l)
      \<or> first_marked ls CAUSAL_MARKERS = None
          \<and> (\<exists>l. find (\<lambda>l. str_trim l \<noteq> []) ls = Some l \<and> r = cap_line l))"
proof -
  let ?ls = "text_lines (from_utf8_lossy stream)"
  have "(\<exists>pre m post l. CAUSAL_MARKERS = pre @ m # post
          \<and> (\<forall>m' \<in> set pre. \<forall>x \<in> set ?ls. str_find m' x = None)
          \<and> find (\<lambda>x. str_find m x \<noteq> None) ?ls = Some l \<and> r = cap_line l)
      \<longleftrightarrow> (\<exists>l. first_marked ?ls CAUSAL_MARKERS = Some l \<and> r = cap_line l)"
    unfolding first_marked_Some by blast
  then show ?thesis
    unfolding extract_causal_failure_def Let_def
    by (cases "first_marked ?ls CAUSAL_MARKERS") (simp_all only: option.simps simp_thms map_option_eq_Some ex_simps eq_commute [of _ r])
qed

end
