(* ===== verification/Router.thy ===== *)
theory Router
  imports StateSync Cas
begin

text \<open>
  Backend routing (kernel/scheduler/src/router.rs) and the request, outcome and profile types of
  the backend interface (kernel/core/src/traits.rs). A backend is a handle with the profile it
  advertises; what it does when it executes is not under the kernel's control. The interface
  \<open>backend_selection\<close> is what the step scheduler relies on.
\<close>

section \<open>The backend interface\<close>

record ExecutionRequest =
  rq_branch :: ident
  rq_base_state :: ident
  rq_actor :: ident
  rq_action :: ActionKind
  rq_budget :: ResourceBudget
  rq_writable_prefixes :: "string list"
  rq_readable_prefixes :: "string list"
  rq_egress_domains :: "string list"

record ExecutionOutcome =
  oc_exit_code :: "32 word"
  oc_stdout :: bytes
  oc_stderr :: bytes
  oc_usage :: ResourceBudget
  paths_written :: "string list"
  oc_replay_class :: ReplayClass
  workspace_delta :: "WorkspaceDelta option"

record BackendProfile =
  bp_name :: string
  isolation_strength :: "8 word"
  cold_start_ms :: u64
  bp_replay_class :: ReplayClass
  supports_fork :: bool
  supports_gui :: bool
  bp_full_linux :: bool
  shares_workspace :: bool
  syncs_state :: bool

record Backend =
  instance_id :: nat
  profile :: BackendProfile

section \<open>Risk, needs and routing\<close>

datatype RiskTier = Low | Medium | High

fun isolation_floor :: "RiskTier \<Rightarrow> 8 word" where
  "isolation_floor Low = 20"
| "isolation_floor Medium = 60"
| "isolation_floor High = 85"

record Needs =
  need_full_linux :: bool
  need_gui :: bool
  need_fork :: bool
  need_workspace :: bool
  replay_at_least :: "ReplayClass option"

definition default_needs :: Needs where
  "default_needs = \<lparr> need_full_linux = False, need_gui = False, need_fork = False,
     need_workspace = False, replay_at_least = None \<rparr>"

type_synonym BackendRouter = "Backend list"

definition register_backend :: "BackendRouter \<Rightarrow> Backend \<Rightarrow> BackendRouter" where
  "register_backend bs b = bs @ [b]"

definition profiles :: "BackendRouter \<Rightarrow> BackendProfile list" where
  "profiles bs = map profile bs"

definition get_backend :: "BackendRouter \<Rightarrow> string \<Rightarrow> Backend option" where
  "get_backend bs name = find (\<lambda>b. bp_name (profile b) = name) bs"

text \<open>The sum is 64-bit: it wraps in a release build and panics in a debug build.\<close>

definition cost :: "BackendProfile \<Rightarrow> u64" where
  "cost p = cold_start_ms p + 10 * ucast (isolation_strength p)"

definition satisfies :: "BackendProfile \<Rightarrow> RiskTier \<Rightarrow> Needs \<Rightarrow> bool" where
  "satisfies p risk needs \<longleftrightarrow>
     isolation_strength p \<ge> isolation_floor risk
   \<and> (\<not> need_full_linux needs \<or> bp_full_linux p)
   \<and> (\<not> need_gui needs \<or> supports_gui p)
   \<and> (\<not> need_fork needs \<or> supports_fork p)
   \<and> (\<not> need_workspace needs \<or> shares_workspace p \<or> syncs_state p)
   \<and> (case replay_at_least needs of Some c \<Rightarrow> bp_replay_class p \<ge> c | None \<Rightarrow> True)"

text \<open>\<open>Iterator::min_by\<close>: the first element that no other element is below.\<close>

fun min_by :: "('a \<Rightarrow> 'a \<Rightarrow> bool) \<Rightarrow> 'a list \<Rightarrow> 'a option" where
  "min_by gt [] = None"
| "min_by gt (x # xs) = Some (foldl (\<lambda>a y. if gt a y then y else a) x xs)"

definition costlier :: "BackendProfile \<Rightarrow> BackendProfile \<Rightarrow> bool" where
  "costlier a b \<longleftrightarrow> cost a > cost b \<or> cost a = cost b \<and> bp_name a > bp_name b"

text \<open>The text of the refusal, with the \<open>Debug\<close> form of the needs, is the argument \<open>reason\<close>.\<close>

definition route ::
  "(RiskTier \<Rightarrow> Needs \<Rightarrow> string list \<Rightarrow> string) \<Rightarrow> BackendRouter \<Rightarrow> RiskTier \<Rightarrow> Needs \<Rightarrow> Backend KernelResult" where
  "route reason bs risk needs =
     (case min_by (\<lambda>a b. costlier (profile a) (profile b)) (filter (\<lambda>b. satisfies (profile b) risk needs) bs) of
        Some b \<Rightarrow> Ok b
      | None \<Rightarrow> Err (BackendUnavailable ''router'' (reason risk needs (map (bp_name \<circ> profile) bs))))"

section \<open>The choice\<close>

lemma costlier_irrefl [simp]: "\<not> costlier a a"
  by (simp add: costlier_def)

lemma costlier_trans: "costlier a b \<Longrightarrow> costlier b c \<Longrightarrow> costlier a c"
  by (auto simp: costlier_def)

lemma not_costlier_iff:
  "\<not> costlier a b \<longleftrightarrow> cost a < cost b \<or> cost a = cost b \<and> bp_name a \<le> bp_name b"
  unfolding costlier_def by (cases "cost a" "cost b" rule: linorder_cases) (auto simp: not_less less_imp_le)

lemma not_costlier_trans: "\<not> costlier a b \<Longrightarrow> \<not> costlier b c \<Longrightarrow> \<not> costlier a c"
  unfolding not_costlier_iff by (elim disjE conjE) (simp_all add: order.strict_trans order.trans)

lemma foldl_min_by:
  assumes irr: "\<And>a. \<not> gt a a" and tr: "\<And>a b c. gt a b \<Longrightarrow> gt b c \<Longrightarrow> gt a c"
    and ntr: "\<And>a b c. \<not> gt a b \<Longrightarrow> \<not> gt b c \<Longrightarrow> \<not> gt a c"
  shows "\<exists>pre post. x # xs = pre @ foldl (\<lambda>a y. if gt a y then y else a) x xs # post
     \<and> (\<forall>y \<in> set pre. gt y (foldl (\<lambda>a y. if gt a y then y else a) x xs))
     \<and> (\<forall>y \<in> set post. \<not> gt (foldl (\<lambda>a y. if gt a y then y else a) x xs) y)"
proof (induction xs rule: rev_induct)
  case (snoc y xs)
  define m where "m = foldl (\<lambda>a y. if gt a y then y else a) x xs"
  obtain pre post where split: "x # xs = pre @ m # post"
    and pre: "\<forall>z \<in> set pre. gt z m" and post: "\<forall>z \<in> set post. \<not> gt m z"
    using snoc unfolding m_def by blast
  show ?case
  proof (cases "gt m y")
    case True
    have "gt z y" if "z \<in> set (pre @ m # post)" for z
      using that pre post True tr ntr by (metis Un_iff set_ConsD set_append)
    then show ?thesis
      using True split unfolding foldl_append m_def [symmetric]
      by (intro exI [of _ "pre @ m # post"] exI [of _ "[]"]) auto
  next
    case False
    then show ?thesis
      using split pre post unfolding foldl_append m_def [symmetric]
      by (intro exI [of _ pre] exI [of _ "post @ [y]"]) auto
  qed
qed (auto intro!: exI [of _ "[]"])

lemma min_by_Some_iff:
  assumes "\<And>a. \<not> gt a a" "\<And>a b c. gt a b \<Longrightarrow> gt b c \<Longrightarrow> gt a c"
    "\<And>a b c. \<not> gt a b \<Longrightarrow> \<not> gt b c \<Longrightarrow> \<not> gt a c"
  shows "min_by gt xs = Some m \<longleftrightarrow>
     (\<exists>pre post. xs = pre @ m # post \<and> (\<forall>y \<in> set pre. gt y m) \<and> (\<forall>y \<in> set post. \<not> gt m y))"
    (is "_ \<longleftrightarrow> ?R xs m")
proof -
  have uniq: "m1 = m2" if r: "?R xs m1" "?R xs m2" for m1 m2
  proof -
    obtain pre1 post1 pre2 post2 where s: "xs = pre1 @ m1 # post1" "xs = pre2 @ m2 # post2"
      and p: "\<forall>y \<in> set pre1. gt y m1" "\<forall>y \<in> set post1. \<not> gt m1 y"
      "\<forall>y \<in> set pre2. gt y m2" "\<forall>y \<in> set post2. \<not> gt m2 y"
      using r by blast
    consider us where "pre1 @ us = pre2" "m1 # post1 = us @ m2 # post2"
      | us where "pre1 = pre2 @ us" "us @ m1 # post1 = m2 # post2"
      using append_eq_append_conv2 [of pre1 "m1 # post1" pre2 "m2 # post2"] s by auto
    then show ?thesis
    proof cases
      case 1
      then show ?thesis
        using p by (cases us) auto
    next
      case 2
      then show ?thesis
        using p by (cases us) auto
    qed
  qed
  show ?thesis
  proof (cases xs)
    case (Cons x ys)
    have "?R xs (foldl (\<lambda>a y. if gt a y then y else a) x ys)"
      unfolding Cons by (rule foldl_min_by) (use assms in blast)+
    with uniq show ?thesis
      by (auto simp: Cons)
  qed simp
qed

lemma min_by_None [simp]: "min_by gt xs = None \<longleftrightarrow> xs = []"
  by (cases xs) auto

text \<open>
  What the router promises its caller: a registered backend that satisfies the floor and the
  needs and that no satisfying backend undercuts, or a refusal when there is none.
\<close>

locale backend_selection =
  fixes pick :: "Backend list \<Rightarrow> RiskTier \<Rightarrow> Needs \<Rightarrow> Backend KernelResult"
    and suits :: "BackendProfile \<Rightarrow> RiskTier \<Rightarrow> Needs \<Rightarrow> bool"
    and dearer :: "BackendProfile \<Rightarrow> BackendProfile \<Rightarrow> bool"
  assumes chosen: "pick bs risk needs = Ok b \<Longrightarrow>
      b \<in> set bs \<and> suits (profile b) risk needs
      \<and> (\<forall>c \<in> set bs. suits (profile c) risk needs \<longrightarrow> \<not> dearer (profile b) (profile c))"
    and refused: "pick bs risk needs = Err e \<Longrightarrow> \<forall>c \<in> set bs. \<not> suits (profile c) risk needs"
begin

lemma chosen_iff_some: "(\<exists>b. pick bs risk needs = Ok b) \<longleftrightarrow> (\<exists>c \<in> set bs. suits (profile c) risk needs)"
  using chosen refused by (cases "pick bs risk needs") blast+

lemma chosen_suits: "pick bs risk needs = Ok b \<Longrightarrow> suits (profile b) risk needs"
  using chosen by blast

end

lemma route_Ok_iff:
  "route reason bs risk needs = Ok b \<longleftrightarrow>
     (\<exists>pre post. filter (\<lambda>b. satisfies (profile b) risk needs) bs = pre @ b # post
        \<and> (\<forall>c \<in> set pre. costlier (profile c) (profile b)) \<and> (\<forall>c \<in> set post. \<not> costlier (profile b) (profile c)))"
  unfolding route_def
  by (subst min_by_Some_iff [symmetric])
     (auto dest: costlier_trans not_costlier_trans split: option.splits)

interpretation router: backend_selection "route reason" satisfies costlier
proof
  fix bs risk needs b
  assume "route reason bs risk needs = Ok b"
  then obtain pre post where s: "filter (\<lambda>b. satisfies (profile b) risk needs) bs = pre @ b # post"
    and p: "\<forall>c \<in> set pre. costlier (profile c) (profile b)" "\<forall>c \<in> set post. \<not> costlier (profile b) (profile c)"
    by (auto simp: route_Ok_iff)
  have "\<not> costlier (profile b) (profile c)" if "c \<in> set (pre @ b # post)" for c
    using that p costlier_trans costlier_irrefl by (metis Un_iff set_ConsD set_append)
  moreover have "set (pre @ b # post) = {c \<in> set bs. satisfies (profile c) risk needs}"
    using arg_cong [OF s, of set] by auto
  ultimately show "b \<in> set bs \<and> satisfies (profile b) risk needs
      \<and> (\<forall>c \<in> set bs. satisfies (profile c) risk needs \<longrightarrow> \<not> costlier (profile b) (profile c))"
    by (metis (mono_tags, lifting) in_set_conv_decomp mem_Collect_eq)
next
  fix bs risk needs e
  assume "route reason bs risk needs = Err e"
  then have "filter (\<lambda>b. satisfies (profile b) risk needs) bs = []"
    by (auto simp: route_def split: option.splits)
  then show "\<forall>c \<in> set bs. \<not> satisfies (profile c) risk needs"
    by (auto simp: filter_empty_conv)
qed

text \<open>
  Registration order is immaterial as long as no two satisfying backends share a name.
\<close>

lemma route_order_irrelevant:
  assumes set: "set bs = set cs"
    and names: "\<And>a b. a \<in> set bs \<Longrightarrow> b \<in> set bs \<Longrightarrow> satisfies (profile a) risk needs
      \<Longrightarrow> satisfies (profile b) risk needs \<Longrightarrow> bp_name (profile a) = bp_name (profile b) \<Longrightarrow> a = b"
    and ok: "route reason bs risk needs = Ok b"
  shows "route reason cs risk needs = Ok b"
proof -
  note b = router.chosen [OF ok]
  then obtain c where c: "route reason cs risk needs = Ok c"
    using router.chosen_iff_some [of reason cs risk needs] set by blast
  note c' = router.chosen [OF c]
  have "\<not> costlier (profile b) (profile c)" "\<not> costlier (profile c) (profile b)"
    using b c' set by blast+
  then have "bp_name (profile b) = bp_name (profile c)"
    by (auto simp: costlier_def)
  with names [of b c] b c' set have "b = c"
    by blast
  with c show ?thesis
    by simp
qed

text \<open>
  Two backends with the same name and cost: the first one registered wins, so registration
  order does matter for profiles whose names are not unique.
\<close>

definition twin :: "nat \<Rightarrow> Backend" where
  "twin n = \<lparr> instance_id = n, profile = \<lparr> bp_name = ''local'', isolation_strength = 50, cold_start_ms = 5,
     bp_replay_class = AuditOnly, supports_fork = False, supports_gui = False, bp_full_linux = True,
     shares_workspace = True, syncs_state = False \<rparr> \<rparr>"

lemma route_order_matters:
  "route reason [twin 0, twin 1] Low default_needs = Ok (twin 0)
   \<and> route reason [twin 1, twin 0] Low default_needs = Ok (twin 1)"
  by (simp add: route_def twin_def satisfies_def default_needs_def)

text \<open>The cost is the documented sum unless the advertised cold start is within 2550 ms of the 64-bit limit.\<close>

lemma unat_cost:
  assumes "unat (cold_start_ms p) + 2550 < 2 ^ 64"
  shows "unat (cost p) = unat (cold_start_ms p) + 10 * unat (isolation_strength p)"
proof -
  have s: "unat (isolation_strength p) < 256"
    using unsigned_less [of "isolation_strength p"] by simp
  have u: "unat (ucast (isolation_strength p) :: u64) = unat (isolation_strength p)"
    using s by (simp add: unsigned_ucast_eq take_bit_nat_eq_self_iff)
  have m: "unat (10 * ucast (isolation_strength p) :: u64) = 10 * unat (isolation_strength p)"
    using s by (subst unat_mult_lem [THEN iffD1]) (simp_all add: u)
  show ?thesis
    unfolding cost_def using assms s by (subst unat_add_lem [THEN iffD1]) (simp_all add: m)
qed

lemma cost_wraps:
  "cost \<lparr> bp_name = [], isolation_strength = 85, cold_start_ms = - 1, bp_replay_class = AuditOnly,
     supports_fork = False, supports_gui = False, bp_full_linux = False, shares_workspace = False,
     syncs_state = False \<rparr> = 849"
  by (simp add: cost_def)

end
