(* ===== verification/Scheduler.thy ===== *)
theory Scheduler
  imports Router
begin

text \<open>
  The step scheduler (kernel/scheduler/src/step.rs): per-episode budget accounts with
  reserve-then-settle accounting, the fan-out semaphore, pausing, prewarming and step execution.
  \<open>execute_step\<close> is cut at its lock and await points into segments, so that any number of calls
  interleave in \<open>sched_step\<close>; a call whose future is dropped releases its permit and nothing else.
  The lemmas bound what concurrent steps can spend and show that every admitted step returns.
\<close>

section \<open>State\<close>

record StepRecord =
  sr_step :: ident
  sr_branch :: ident
  sr_backend :: string
  sr_queue_ms :: u64
  sr_exec_ms :: u64
  sr_usage :: ResourceBudget
  sr_recorded_at :: instant

record PrewarmPlan =
  warm_backend :: "string option"
  warm_workspaces :: nat
  plan_note :: string

record SchedulerConfig =
  max_concurrent_branches :: nat
  episode_budget :: ResourceBudget

definition default_config :: SchedulerConfig where
  "default_config = \<lparr> max_concurrent_branches = 8, episode_budget = step_default \<rparr>"

record BudgetAccount =
  remaining :: ResourceBudget
  spent :: ResourceBudget

record WarmPool =
  wp_root :: string
  wp_pool :: "string list"
  wp_seq :: u64

record Semaphore =
  available :: nat
  closed :: bool

record StepScheduler =
  sched_router :: BackendRouter
  fanout :: Semaphore
  accounts :: "(ident, BudgetAccount) table"
  default_episode_budget :: ResourceBudget
  records :: "StepRecord list"
  paused :: "ident list"
  warm_pool :: "WarmPool option"

record RoutedOutcome =
  ro_outcome :: ExecutionOutcome
  ro_backend :: BackendProfile
  ro_executor :: Backend

text \<open>
  Code the scheduler calls and does not define: the text of a routing refusal, Unicode
  lower-casing, decimal printing, path joining and the creation of a directory.
\<close>

record SchedEnv =
  route_reason :: "RiskTier \<Rightarrow> Needs \<Rightarrow> string list \<Rightarrow> string"
  to_lowercase :: "string \<Rightarrow> string"
  show_u64 :: "u64 \<Rightarrow> string"
  path_join :: "string \<Rightarrow> string \<Rightarrow> string"
  make_dir :: "string \<Rightarrow> unit KernelResult"

section \<open>Warm pool and prewarming\<close>

definition new_pool :: "SchedEnv \<Rightarrow> string \<Rightarrow> WarmPool KernelResult" where
  "new_pool env dir =
     (case make_dir env dir of Err e \<Rightarrow> Err e
      | Ok _ \<Rightarrow> Ok \<lparr> wp_root = dir, wp_pool = [], wp_seq = 0 \<rparr>)"

function fill :: "SchedEnv \<Rightarrow> WarmPool \<Rightarrow> nat \<Rightarrow> WarmPool \<times> unit KernelResult" where
  "fill env p n =
     (if length (wp_pool p) < n then
        (let dir = path_join env (wp_root p) (''warm-'' @ show_u64 env (wp_seq p));
             p' = p\<lparr> wp_seq := wp_seq p + 1 \<rparr> in
         case make_dir env dir of
           Err e \<Rightarrow> (p', Err e)
         | Ok _ \<Rightarrow> fill env (p'\<lparr> wp_pool := wp_pool p' @ [dir] \<rparr>) n)
      else (p, Ok ()))"
  by pat_completeness auto
termination fill
  by (relation "measure (\<lambda>(env, p, n). n - length (wp_pool p))") auto

declare fill.simps [simp del]

definition take_workspace :: "WarmPool \<Rightarrow> WarmPool \<times> string option" where
  "take_workspace p =
     (if wp_pool p = [] then (p, None)
      else (p\<lparr> wp_pool := butlast (wp_pool p) \<rparr>, Some (last (wp_pool p))))"

definition idle :: "WarmPool \<Rightarrow> nat" where
  "idle p = length (wp_pool p)"

definition mentions :: "string \<Rightarrow> string list \<Rightarrow> bool" where
  "mentions text ks = list_ex (\<lambda>k. str_find k text \<noteq> None) ks"

definition hint :: "SchedEnv \<Rightarrow> StepScheduler \<Rightarrow> string \<Rightarrow> PrewarmPlan" where
  "hint env s intent =
     (let lower = to_lowercase env intent in
      if mentions lower [''fork'', ''fan-out'', ''fanout'', ''branch'', ''explore'', ''parallel''] then
        \<lparr> warm_backend = map_option bp_name
            (min_by (\<lambda>a b. cost a > cost b) (filter supports_fork (profiles (sched_router s)))),
          warm_workspaces = 0,
          plan_note = ''intent suggests branch fan-out; warm a fork-capable backend'' \<rparr>
      else if mentions lower [''build'', ''test'', ''compile'', ''lint'', ''install''] then
        \<lparr> warm_backend = None, warm_workspaces = 2,
          plan_note = ''intent suggests local build/test steps; keep workspaces warm'' \<rparr>
      else \<lparr> warm_backend = None, warm_workspaces = 0, plan_note = ''no prewarm'' \<rparr>)"

definition apply_prewarm :: "SchedEnv \<Rightarrow> StepScheduler \<Rightarrow> PrewarmPlan \<Rightarrow> StepScheduler \<times> unit KernelResult" where
  "apply_prewarm env s plan =
     (if warm_workspaces plan > 0 then
        (case warm_pool s of
           Some p \<Rightarrow> (case fill env p (warm_workspaces plan) of (p', r) \<Rightarrow> (s\<lparr> warm_pool := Some p' \<rparr>, r))
         | None \<Rightarrow> (s, Ok ()))
      else (s, Ok ()))"

section \<open>Accounts, pausing and registration\<close>

definition new_scheduler :: "BackendRouter \<Rightarrow> SchedulerConfig \<Rightarrow> StepScheduler" where
  "new_scheduler bs cfg =
     \<lparr> sched_router = bs, fanout = \<lparr> available = max (max_concurrent_branches cfg) 1, closed = False \<rparr>,
       accounts = [], default_episode_budget = episode_budget cfg, records = [], paused = [],
       warm_pool = None \<rparr>"

definition with_warm_pool :: "StepScheduler \<Rightarrow> WarmPool \<Rightarrow> StepScheduler" where
  "with_warm_pool s p = s\<lparr> warm_pool := Some p \<rparr>"

definition sched_register_backend :: "StepScheduler \<Rightarrow> Backend \<Rightarrow> StepScheduler" where
  "sched_register_backend s b = s\<lparr> sched_router := register_backend (sched_router s) b \<rparr>"

definition register_episode ::
  "StepScheduler \<Rightarrow> ident \<Rightarrow> ResourceBudget \<Rightarrow> ResourceBudget \<Rightarrow> StepScheduler" where
  "register_episode s e rem sp =
     s\<lparr> accounts := tbl_put e \<lparr> remaining = rem, spent = sp \<rparr> (accounts s) \<rparr>"

definition register_episode_default :: "StepScheduler \<Rightarrow> ident \<Rightarrow> StepScheduler" where
  "register_episode_default s e = register_episode s e (default_episode_budget s) budget_zero"

definition remaining_budget :: "StepScheduler \<Rightarrow> ident \<Rightarrow> ResourceBudget option" where
  "remaining_budget s e = map_option remaining (tbl_get (accounts s) e)"

definition close_episode :: "StepScheduler \<Rightarrow> ident \<Rightarrow> StepScheduler" where
  "close_episode s e = s\<lparr> accounts := tbl_delete e (accounts s) \<rparr>"

definition reserve :: "StepScheduler \<Rightarrow> ident \<Rightarrow> ResourceBudget \<Rightarrow> StepScheduler \<times> (string list, unit) outcome" where
  "reserve s e amount =
     (case tbl_get (accounts s) e of
        None \<Rightarrow> (s, Err [''unknown_episode''])
      | Some a \<Rightarrow>
          if \<not> fits_within amount (remaining a)
          then (s, Err (exceeding_dimensions amount (remaining a)))
          else (s\<lparr> accounts := tbl_update e
                     (\<lambda>a. a\<lparr> remaining := saturating_sub (remaining a) amount \<rparr>) (accounts s) \<rparr>, Ok ()))"

definition settle ::
  "StepScheduler \<Rightarrow> ident \<Rightarrow> ResourceBudget \<Rightarrow> ResourceBudget \<Rightarrow> StepScheduler \<times> string list" where
  "settle s e reserved usage =
     (if tbl_get (accounts s) e = None then (s, [])
      else (s\<lparr> accounts := tbl_update e
                (\<lambda>a. a\<lparr> remaining := saturating_sub
                          (saturating_add (remaining a) (saturating_sub reserved usage))
                          (saturating_sub usage reserved),
                        spent := saturating_add (spent a) usage \<rparr>) (accounts s) \<rparr>,
            exceeding_dimensions usage reserved))"

definition refund :: "StepScheduler \<Rightarrow> ident \<Rightarrow> ResourceBudget \<Rightarrow> StepScheduler" where
  "refund s e reserved =
     s\<lparr> accounts := tbl_update e
          (\<lambda>a. a\<lparr> remaining := saturating_add (remaining a) reserved \<rparr>) (accounts s) \<rparr>"

definition pause_branch :: "StepScheduler \<Rightarrow> ident \<Rightarrow> StepScheduler" where
  "pause_branch s b = s\<lparr> paused := List.insert b (paused s) \<rparr>"

definition resume_branch :: "StepScheduler \<Rightarrow> ident \<Rightarrow> StepScheduler" where
  "resume_branch s b = s\<lparr> paused := removeAll b (paused s) \<rparr>"

definition is_paused :: "StepScheduler \<Rightarrow> ident \<Rightarrow> bool" where
  "is_paused s b \<longleftrightarrow> b \<in> set (paused s)"

section \<open>One step, segment by segment\<close>

fun join_comma :: "string list \<Rightarrow> string" where
  "join_comma [] = []"
| "join_comma [x] = x"
| "join_comma (x # y # xs) = x @ '', '' @ join_comma (y # xs)"

definition step_denial :: "DenialCode \<Rightarrow> string \<Rightarrow> string \<Rightarrow> Denial" where
  "step_denial code op reason =
     \<lparr> denial_code = code, attempted_operation = op, denial_reason = reason,
       safe_alternatives = [], requestable_scopes = [], escalation_allowed = True \<rparr>"

definition budget_denial :: "string \<Rightarrow> string \<Rightarrow> KernelError" where
  "budget_denial op reason = Denied (step_denial BudgetExhausted op reason)"

definition pause_denial :: "string \<Rightarrow> ident \<Rightarrow> KernelError" where
  "pause_denial op branch =
     Denied (step_denial PolicyForbidden op (''branch `'' @ branch @ ''` is idle-paused; resume it first''))"

definition overdraft_reason :: "ident \<Rightarrow> string list \<Rightarrow> string" where
  "overdraft_reason e short =
     ''episode `'' @ e @ ''` budget cannot cover this step's requested budget (insufficient: ''
       @ join_comma short @ '')''"

datatype Phase =
    Called
  | Admitted
  | Queued
  | Permitted
  | Running Backend
  | Executed Backend ExecutionOutcome
  | Settled Backend ExecutionOutcome
  | Returning "RoutedOutcome KernelResult"
  | Finished "RoutedOutcome KernelResult"
  | Dropped

record StepCall =
  sc_episode :: ident
  sc_step :: ident
  sc_req :: ExecutionRequest
  sc_risk :: RiskTier
  sc_needs :: Needs
  sc_phase :: Phase

record Clock =
  ck_queue_ms :: u64
  ck_exec_ms :: u64
  ck_now :: instant

definition acquire :: "StepScheduler \<Rightarrow> StepScheduler" where
  "acquire s = s\<lparr> fanout := (fanout s)\<lparr> available := available (fanout s) - 1 \<rparr> \<rparr>"

definition release_permit :: "StepScheduler \<Rightarrow> StepScheduler" where
  "release_permit s = s\<lparr> fanout := (fanout s)\<lparr> available := available (fanout s) + 1 \<rparr> \<rparr>"

definition step_record :: "StepCall \<Rightarrow> Backend \<Rightarrow> ExecutionOutcome \<Rightarrow> Clock \<Rightarrow> StepRecord" where
  "step_record c b oc ck =
     \<lparr> sr_step = sc_step c, sr_branch = rq_branch (sc_req c), sr_backend = bp_name (profile b),
       sr_queue_ms = ck_queue_ms ck, sr_exec_ms = ck_exec_ms ck, sr_usage = oc_usage oc,
       sr_recorded_at = ck_now ck \<rparr>"

definition routed :: "Backend \<Rightarrow> ExecutionOutcome \<Rightarrow> RoutedOutcome" where
  "routed b oc = \<lparr> ro_outcome = oc, ro_backend = profile b, ro_executor = b \<rparr>"

text \<open>
  The next segment of a call; \<open>answer\<close> is what the backend returns if this segment is its
  execution. No result means the call waits for a permit or has returned.
\<close>

definition advance ::
  "SchedEnv \<Rightarrow> ExecutionOutcome KernelResult \<Rightarrow> Clock \<Rightarrow> StepScheduler \<Rightarrow> StepCall
    \<Rightarrow> (StepScheduler \<times> Phase) option" where
  "advance env answer ck s c =
     (let e = sc_episode c; req = sc_req c; op = required_operation (rq_action req) in
      case sc_phase c of
        Called \<Rightarrow>
          Some (s, if is_paused s (rq_branch req) then Finished (Err (pause_denial op (rq_branch req)))
                   else Admitted)
      | Admitted \<Rightarrow>
          (case reserve s e (rq_budget req) of
             (s', Err short) \<Rightarrow> Some (s', Finished (Err (budget_denial op (overdraft_reason e short))))
           | (s', Ok _) \<Rightarrow> Some (s', Queued))
      | Queued \<Rightarrow>
          if closed (fanout s)
          then Some (refund s e (rq_budget req),
                     Finished (Err (OtherError ''scheduler shut down: semaphore closed'')))
          else if available (fanout s) > 0 then Some (acquire s, Permitted)
          else None
      | Permitted \<Rightarrow>
          (case route (route_reason env) (sched_router s) (sc_risk c) (sc_needs c) of
             Err err \<Rightarrow> Some (refund s e (rq_budget req), Returning (Err err))
           | Ok b \<Rightarrow> Some (s, Running b))
      | Running b \<Rightarrow>
          (case answer of
             Err err \<Rightarrow> Some (refund s e (rq_budget req), Returning (Err err))
           | Ok oc \<Rightarrow> Some (s, Executed b oc))
      | Executed b oc \<Rightarrow> Some (fst (settle s e (rq_budget req) (oc_usage oc)), Settled b oc)
      | Settled b oc \<Rightarrow>
          Some (s\<lparr> records := records s @ [step_record c b oc ck] \<rparr>, Returning (Ok (routed b oc)))
      | Returning r \<Rightarrow> Some (release_permit s, Finished r)
      | Finished r \<Rightarrow> None
      | Dropped \<Rightarrow> None)"

text \<open>
  The same call running alone: the body of \<open>execute_step\<close> in one piece, where \<open>run\<close> is what the
  chosen backend does to the world \<open>x\<close> outside the scheduler. No result means that the call waits
  for a permit.
\<close>

definition sched_execute_step ::
  "SchedEnv \<Rightarrow> (Backend \<Rightarrow> ExecutionRequest \<Rightarrow> 'x \<Rightarrow> 'x \<times> ExecutionOutcome KernelResult) \<Rightarrow> Clock
    \<Rightarrow> StepScheduler \<Rightarrow> 'x \<Rightarrow> ident \<Rightarrow> ident \<Rightarrow> ExecutionRequest \<Rightarrow> RiskTier \<Rightarrow> Needs
    \<Rightarrow> (StepScheduler \<times> 'x \<times> RoutedOutcome KernelResult) option" where
  "sched_execute_step env run ck s x e step req risk needs =
     (let op = required_operation (rq_action req) in
      if is_paused s (rq_branch req) then Some (s, x, Err (pause_denial op (rq_branch req)))
      else case reserve s e (rq_budget req) of
        (s1, Err short) \<Rightarrow> Some (s1, x, Err (budget_denial op (overdraft_reason e short)))
      | (s1, Ok _) \<Rightarrow>
        if closed (fanout s1)
        then Some (refund s1 e (rq_budget req), x, Err (OtherError ''scheduler shut down: semaphore closed''))
        else if available (fanout s1) = 0 then None
        else let s2 = acquire s1 in
          case route (route_reason env) (sched_router s2) risk needs of
            Err err \<Rightarrow> Some (release_permit (refund s2 e (rq_budget req)), x, Err err)
          | Ok b \<Rightarrow>
            (case run b req x of
               (x', Err err) \<Rightarrow> Some (release_permit (refund s2 e (rq_budget req)), x', Err err)
             | (x', Ok oc) \<Rightarrow>
               (let s3 = fst (settle s2 e (rq_budget req) (oc_usage oc));
                    c = \<lparr> sc_episode = e, sc_step = step, sc_req = req, sc_risk = risk, sc_needs = needs,
                          sc_phase = Called \<rparr> in
                Some (release_permit (s3\<lparr> records := records s3 @ [step_record c b oc ck] \<rparr>), x',
                      Ok (routed b oc)))))"

section \<open>Interleaving\<close>

record SchedSystem =
  sched :: StepScheduler
  sched_calls :: "StepCall list"

fun holds_permit :: "Phase \<Rightarrow> bool" where
  "holds_permit Permitted = True"
| "holds_permit (Running _) = True"
| "holds_permit (Executed _ _) = True"
| "holds_permit (Settled _ _) = True"
| "holds_permit (Returning _) = True"
| "holds_permit _ = False"

fun holds_reservation :: "Phase \<Rightarrow> bool" where
  "holds_reservation Queued = True"
| "holds_reservation Permitted = True"
| "holds_reservation (Running _) = True"
| "holds_reservation (Executed _ _) = True"
| "holds_reservation _ = False"

fun over :: "Phase \<Rightarrow> bool" where
  "over (Finished _) = True"
| "over Dropped = True"
| "over _ = False"

definition set_phase :: "nat \<Rightarrow> Phase \<Rightarrow> StepCall list \<Rightarrow> StepCall list" where
  "set_phase i ph cs = cs[i := (cs ! i)\<lparr> sc_phase := ph \<rparr>]"

text \<open>
  A step of the whole scheduler: a call runs one segment; a new call arrives; the future of a
  call is dropped, when \<open>drops\<close> allows it; or another operation runs. The accounts of episodes
  other than the observed one, \<open>e\<close>, may be opened and closed.
\<close>

inductive run_segment :: "SchedEnv \<Rightarrow> SchedSystem \<Rightarrow> SchedSystem \<Rightarrow> bool" for env where
  segment: "\<lbrakk> i < length (sched_calls y); advance env answer ck (sched y) (sched_calls y ! i) = Some (s', ph) \<rbrakk>
    \<Longrightarrow> run_segment env y (y\<lparr> sched := s', sched_calls := set_phase i ph (sched_calls y) \<rparr>)"

inductive sched_step :: "SchedEnv \<Rightarrow> bool \<Rightarrow> ident \<Rightarrow> SchedSystem \<Rightarrow> SchedSystem \<Rightarrow> bool"
  for env drops e where
  run: "run_segment env y z \<Longrightarrow> sched_step env drops e y z"
| arrive: "sc_phase c = Called \<Longrightarrow>
    sched_step env drops e y (y\<lparr> sched_calls := sched_calls y @ [c] \<rparr>)"
| drop_future: "\<lbrakk> drops; i < length (sched_calls y); \<not> over (sc_phase (sched_calls y ! i)) \<rbrakk> \<Longrightarrow>
    sched_step env drops e y (y\<lparr>
      sched := (if holds_permit (sc_phase (sched_calls y ! i)) then release_permit (sched y) else sched y),
      sched_calls := set_phase i Dropped (sched_calls y) \<rparr>)"
| pause: "sched_step env drops e y (y\<lparr> sched := pause_branch (sched y) b \<rparr>)"
| resume: "sched_step env drops e y (y\<lparr> sched := resume_branch (sched y) b \<rparr>)"
| add_backend: "sched_step env drops e y (y\<lparr> sched := sched_register_backend (sched y) bk \<rparr>)"
| open_account: "e' \<noteq> e \<Longrightarrow> sched_step env drops e y (y\<lparr> sched := register_episode (sched y) e' rem sp \<rparr>)"
| close_account: "e' \<noteq> e \<Longrightarrow> sched_step env drops e y (y\<lparr> sched := close_episode (sched y) e' \<rparr>)"
| prewarm: "sched_step env drops e y (y\<lparr> sched := fst (apply_prewarm env (sched y) plan) \<rparr>)"

definition sched_start :: "BackendRouter \<Rightarrow> SchedulerConfig \<Rightarrow> ident \<Rightarrow> ResourceBudget \<Rightarrow> SchedSystem" where
  "sched_start bs cfg e envelope =
     \<lparr> sched = register_episode (new_scheduler bs cfg) e envelope budget_zero, sched_calls = [] \<rparr>"

inductive_cases run_segmentE: "run_segment env y z"
inductive_cases sched_stepE: "sched_step env drops e y z"

section \<open>Segments compose to the whole step\<close>

fun answer_of :: "(Backend \<Rightarrow> ExecutionRequest \<Rightarrow> ExecutionOutcome KernelResult) \<Rightarrow> StepCall
    \<Rightarrow> ExecutionOutcome KernelResult" where
  "answer_of run c = (case sc_phase c of Running b \<Rightarrow> run b (sc_req c) | _ \<Rightarrow> Err (OtherError []))"

fun run_call :: "nat \<Rightarrow> SchedEnv \<Rightarrow> (Backend \<Rightarrow> ExecutionRequest \<Rightarrow> ExecutionOutcome KernelResult) \<Rightarrow> Clock
    \<Rightarrow> StepScheduler \<times> StepCall \<Rightarrow> StepScheduler \<times> StepCall" where
  "run_call 0 env run ck sc = sc"
| "run_call (Suc n) env run ck (s, c) =
     (case advance env (answer_of run c) ck s c of
        None \<Rightarrow> (s, c)
      | Some (s', ph) \<Rightarrow> run_call n env run ck (s', c\<lparr> sc_phase := ph \<rparr>))"

lemma run_call_over [simp]: "over (sc_phase c) \<Longrightarrow> run_call n env run ck (s, c) = (s, c)"
  by (cases n; cases "sc_phase c") (simp_all add: advance_def Let_def)

lemma reserve_fields:
  "reserve s e b = (s', r) \<Longrightarrow> fanout s' = fanout s \<and> sched_router s' = sched_router s \<and> records s' = records s"
  by (auto simp: reserve_def split: option.splits if_splits)

lemma step_record_phase [simp]: "step_record (c\<lparr> sc_phase := ph \<rparr>) b oc ck = step_record c b oc ck"
  by (simp add: step_record_def)

lemma sched_execute_step_segments:
  assumes "sched_execute_step env run ck s x e step req rk needs = Some (s', x', r)"
  defines "c \<equiv> \<lparr> sc_episode = e, sc_step = step, sc_req = req, sc_risk = rk, sc_needs = needs,
                sc_phase = Called \<rparr>"
  shows "run_call 8 env (\<lambda>b req. snd (run b req x)) ck (s, c) = (s', c\<lparr> sc_phase := Finished r \<rparr>)"
proof (cases "is_paused s (rq_branch req)")
  case True
  then show ?thesis
    using assms(1) by (simp add: c_def sched_execute_step_def numeral_eq_Suc advance_def)
next
  case False
  obtain s1 r1 where res: "reserve s e (rq_budget req) = (s1, r1)"
    by fastforce
  show ?thesis
  proof (cases r1)
    case (Inl short)
    then show ?thesis
      using assms(1) False res by (simp add: c_def sched_execute_step_def numeral_eq_Suc advance_def)
  next
    case (Inr u)
    show ?thesis
    proof (cases "closed (fanout s1)")
      case True
      then show ?thesis
        using assms(1) False res Inr by (simp add: c_def sched_execute_step_def numeral_eq_Suc advance_def)
    next
      case up: False
      then have av: "available (fanout s1) > 0"
        using assms(1) False res Inr by (cases "available (fanout s1)") (simp_all add: sched_execute_step_def)
      show ?thesis
      proof (cases "route (route_reason env) (sched_router (acquire s1)) rk needs")
        case (Inl err)
        then show ?thesis
          using assms(1) False res Inr up av
          by (simp add: c_def sched_execute_step_def numeral_eq_Suc advance_def Let_def)
      next
        case bk: (Inr b)
        then show ?thesis
          using assms(1) False res Inr up av
          by (cases "run b req x"; cases "snd (run b req x)")
             (simp_all add: c_def sched_execute_step_def numeral_eq_Suc advance_def Let_def step_record_def)
      qed
    qed
  qed
qed

section \<open>Permits\<close>

lemma sum_set_phase:
  fixes w :: "StepCall \<Rightarrow> nat"
  assumes "i < length cs"
  shows "sum_list (map w (set_phase i ph cs)) + w (cs ! i)
    = sum_list (map w cs) + w ((cs ! i)\<lparr> sc_phase := ph \<rparr>)"
  using assms unfolding set_phase_def
proof (induction cs arbitrary: i)
  case (Cons c cs)
  then show ?case
    by (cases i) auto
qed simp

definition permits_held :: "StepCall list \<Rightarrow> nat" where
  "permits_held cs = sum_list (map (\<lambda>c. if holds_permit (sc_phase c) then 1 else 0) cs)"

definition permits_ok :: "nat \<Rightarrow> SchedSystem \<Rightarrow> bool" where
  "permits_ok n y \<longleftrightarrow> \<not> closed (fanout (sched y))
     \<and> available (fanout (sched y)) + permits_held (sched_calls y) = n"

lemma fanout_frame [simp]:
  "fanout (refund s e b) = fanout s" "fanout (fst (settle s e b u)) = fanout s"
  "fanout (pause_branch s br) = fanout s" "fanout (resume_branch s br) = fanout s"
  "fanout (sched_register_backend s bk) = fanout s" "fanout (register_episode s e rm sp) = fanout s"
  "fanout (close_episode s e) = fanout s" "fanout (fst (apply_prewarm env s plan)) = fanout s"
  by (simp_all add: refund_def settle_def pause_branch_def resume_branch_def sched_register_backend_def
      register_episode_def close_episode_def apply_prewarm_def split: option.splits prod.splits)

lemma advance_permits:
  assumes "advance env answer ck s c = Some (s', ph)" "\<not> closed (fanout s)"
  shows "\<not> closed (fanout s') \<and> available (fanout s') + (if holds_permit ph then 1 else 0)
    = available (fanout s) + (if holds_permit (sc_phase c) then 1 else 0)"
proof (cases "sc_phase c")
  case Admitted
  then show ?thesis
    using assms by (auto simp: advance_def Let_def split: prod.splits sum.splits dest!: reserve_fields)
qed (use assms in \<open>auto simp: advance_def Let_def acquire_def release_permit_def split: if_splits sum.splits\<close>)

lemma run_segment_permits: "run_segment env y z \<Longrightarrow> permits_ok n y \<Longrightarrow> permits_ok n z"
proof (induction rule: run_segment.induct)
  case (segment i y answer ck s' ph)
  let ?w = "\<lambda>c. if holds_permit (sc_phase c) then 1 else 0 :: nat"
  have "\<not> closed (fanout s') \<and> available (fanout s') + (if holds_permit ph then 1 else 0)
      = available (fanout (sched y)) + ?w (sched_calls y ! i)"
    using advance_permits [OF segment(2)] segment(3) by (simp add: permits_ok_def)
  then show ?case
    using segment(3) sum_set_phase [OF segment(1), of ?w ph] by (auto simp: permits_ok_def permits_held_def)
qed

lemma sched_step_permits: "sched_step env drops e y z \<Longrightarrow> permits_ok n y \<Longrightarrow> permits_ok n z"
proof (induction rule: sched_step.induct)
  case (drop_future i y)
  then show ?case
    using sum_set_phase [OF drop_future(2), of "\<lambda>c. if holds_permit (sc_phase c) then 1 else 0" Dropped]
    by (auto simp: permits_ok_def permits_held_def release_permit_def)
qed (auto simp: run_segment_permits, auto simp: permits_ok_def permits_held_def)

lemma sched_reach_permits:
  assumes "(sched_step env drops e)\<^sup>*\<^sup>* (sched_start bs cfg e V) y"
  shows "permits_ok (max (max_concurrent_branches cfg) 1) y"
  using assms
proof (induction rule: rtranclp_induct)
  case base
  then show ?case
    by (simp add: permits_ok_def permits_held_def sched_start_def new_scheduler_def)
qed (blast intro: sched_step_permits)

section \<open>Budget accounts under interleaving\<close>

fun usage_of :: "Phase \<Rightarrow> ResourceBudget option" where
  "usage_of (Settled b oc) = Some (oc_usage oc)"
| "usage_of (Returning (Inr r)) = Some (oc_usage (ro_outcome r))"
| "usage_of (Finished (Inr r)) = Some (oc_usage (ro_outcome r))"
| "usage_of _ = None"

definition within_reservation :: "ident \<Rightarrow> StepCall \<Rightarrow> bool" where
  "within_reservation e c \<longleftrightarrow>
     (sc_episode c = e \<longrightarrow> (case usage_of (sc_phase c) of None \<Rightarrow> True | Some u \<Rightarrow> fits_within u (rq_budget (sc_req c))))"

definition reservation :: "(ResourceBudget \<Rightarrow> nat) \<Rightarrow> ident \<Rightarrow> StepCall \<Rightarrow> nat" where
  "reservation d e c = (if sc_episode c = e \<and> holds_reservation (sc_phase c) then d (rq_budget (sc_req c)) else 0)"

definition reserved_total :: "(ResourceBudget \<Rightarrow> nat) \<Rightarrow> ident \<Rightarrow> StepCall list \<Rightarrow> nat" where
  "reserved_total d e cs = sum_list (map (reservation d e) cs)"

text \<open>What one segment of a call of the episode does to the account.\<close>

inductive account_move :: "StepCall \<Rightarrow> Phase \<Rightarrow> BudgetAccount \<Rightarrow> BudgetAccount \<Rightarrow> bool" where
  stays: "\<lbrakk> holds_reservation ph = holds_reservation (sc_phase c); usage_of (sc_phase c) = usage_of ph \<rbrakk>
    \<Longrightarrow> account_move c ph a a"
| reserves: "\<lbrakk> \<not> holds_reservation (sc_phase c); holds_reservation ph; usage_of (sc_phase c) = None;
      fits_within (rq_budget (sc_req c)) (remaining a) \<rbrakk>
    \<Longrightarrow> account_move c ph a (a\<lparr> remaining := saturating_sub (remaining a) (rq_budget (sc_req c)) \<rparr>)"
| refunds: "\<lbrakk> holds_reservation (sc_phase c); \<not> holds_reservation ph; usage_of (sc_phase c) = None \<rbrakk>
    \<Longrightarrow> account_move c ph a (a\<lparr> remaining := saturating_add (remaining a) (rq_budget (sc_req c)) \<rparr>)"
| settles: "\<lbrakk> sc_phase c = Executed b oc; ph = Settled b oc \<rbrakk>
    \<Longrightarrow> account_move c ph a (a\<lparr> remaining := saturating_sub
          (saturating_add (remaining a) (saturating_sub (rq_budget (sc_req c)) (oc_usage oc)))
          (saturating_sub (oc_usage oc) (rq_budget (sc_req c))),
        spent := saturating_add (spent a) (oc_usage oc) \<rparr>)"

lemma accounts_frame [simp]:
  "accounts (acquire s) = accounts s" "accounts (release_permit s) = accounts s"
  "accounts (pause_branch s br) = accounts s" "accounts (resume_branch s br) = accounts s"
  "accounts (sched_register_backend s bk) = accounts s"
  "accounts (fst (apply_prewarm env s plan)) = accounts s"
  by (simp_all add: acquire_def release_permit_def pause_branch_def resume_branch_def
      sched_register_backend_def apply_prewarm_def split: option.splits prod.splits)

lemma reserve_other: "reserve s e' b = (s', r) \<Longrightarrow> e' \<noteq> e \<Longrightarrow> tbl_get (accounts s') e = tbl_get (accounts s) e"
  by (auto simp: reserve_def split: option.splits if_splits)

lemma settle_refund_other [simp]:
  "e' \<noteq> e \<Longrightarrow> tbl_get (accounts (fst (settle s e' b u))) e = tbl_get (accounts s) e"
  "e' \<noteq> e \<Longrightarrow> tbl_get (accounts (refund s e' b)) e = tbl_get (accounts s) e"
  by (simp_all add: settle_def refund_def)

lemma advance_other_account:
  assumes "advance env answer ck s c = Some (s', ph)" "sc_episode c \<noteq> e"
  shows "tbl_get (accounts s') e = tbl_get (accounts s) e"
proof (cases "sc_phase c")
  case Admitted
  then show ?thesis
    using assms by (auto simp: advance_def Let_def dest: reserve_other split: prod.splits sum.splits)
qed (use assms in \<open>auto simp: advance_def Let_def split: if_splits sum.splits\<close>)

lemma advance_account:
  assumes adv: "advance env answer ck s c = Some (s', ph)" and a: "tbl_get (accounts s) (sc_episode c) = Some a"
  shows "\<exists>a'. tbl_get (accounts s') (sc_episode c) = Some a' \<and> account_move c ph a a'"
proof (cases "sc_phase c")
  case Called
  then show ?thesis
    using adv a by (auto simp: advance_def Let_def intro!: stays split: if_splits)
next
  case Admitted
  then show ?thesis
    using adv a
    by (cases "fits_within (rq_budget (sc_req c)) (remaining a)")
       (auto simp: advance_def Let_def reserve_def intro!: stays, auto intro!: reserves)
next
  case Queued
  then show ?thesis
    using adv a by (auto simp: advance_def Let_def refund_def split: if_splits intro!: stays refunds)
next
  case Permitted
  then show ?thesis
    using adv a by (auto simp: advance_def Let_def refund_def split: sum.splits intro!: stays refunds)
next
  case (Running b)
  then show ?thesis
    using adv a by (auto simp: advance_def Let_def refund_def split: sum.splits intro!: stays refunds)
next
  case (Executed b oc)
  then show ?thesis
    using adv a by (auto simp: advance_def Let_def settle_def intro!: settles)
next
  case (Settled b oc)
  then show ?thesis
    using adv a by (auto simp: advance_def Let_def routed_def intro!: stays)
next
  case (Returning r)
  then show ?thesis
    using adv a by (cases r) (auto simp: advance_def Let_def intro!: stays)
qed (use adv in \<open>simp_all add: advance_def Let_def\<close>)

lemma usage_of_mono: "advance env answer ck s c = Some (s', ph) \<Longrightarrow> usage_of (sc_phase c) = Some u \<Longrightarrow> usage_of ph = Some u"
  by (cases "(sc_phase c)" rule: usage_of.cases) (auto simp: advance_def Let_def routed_def)

lemma within_reservation_back:
  "advance env answer ck s c = Some (s', ph) \<Longrightarrow> within_reservation e (c\<lparr> sc_phase := ph \<rparr>) \<Longrightarrow> within_reservation e c"
  using usage_of_mono by (fastforce simp: within_reservation_def split: option.splits)

text \<open>
  The account invariant for one dimension: \<open>k\<close> is reserved by calls in flight out of an
  envelope \<open>v\<close>; without dropped futures nothing is lost, and without overruns the account is exact.
\<close>

context budget_dimension begin

definition account_ok :: "bool \<Rightarrow> bool \<Rightarrow> nat \<Rightarrow> BudgetAccount \<Rightarrow> nat \<Rightarrow> bool" where
  "account_ok drops overrun v a k \<longleftrightarrow> dim (remaining a) + k \<le> v
     \<and> (\<not> drops \<longrightarrow> v \<le> dim (remaining a) + k + dim (spent a)
         \<and> (\<not> overrun \<longrightarrow> v = dim (remaining a) + k + dim (spent a)))"

lemma account_move_ok:
  assumes "account_move c ph a a'" "sc_episode c = e"
    and "account_ok drops ov (dim V) a (k + reservation dim e c)"
    and "within_reservation e (c\<lparr> sc_phase := ph \<rparr>) \<or> ov"
  shows "account_ok drops ov (dim V) a' (k + reservation dim e (c\<lparr> sc_phase := ph \<rparr>))"
  using assms
proof (induction rule: account_move.induct)
  case (stays ph c a)
  then show ?case
    by (simp add: reservation_def split: if_splits)
next
  case (reserves c ph a)
  then show ?case
    using dim_reserve [OF reserves(4)] by (auto simp: account_ok_def reservation_def)
next
  case (refunds c ph a)
  then have "dim (remaining a) + dim (rq_budget (sc_req c)) \<le> dim V"
    by (simp add: account_ok_def reservation_def)
  from dim_refund [OF this] show ?case
    using refunds by (auto simp: account_ok_def reservation_def)
next
  case (settles c b oc ph a)
  let ?u = "rq_budget (sc_req c)" and ?x = "oc_usage oc"
  have le: "dim (remaining a) + dim ?u \<le> dim V"
    and pre: "account_ok drops ov (dim V) a (k + dim ?u)"
    using settles by (simp_all add: account_ok_def reservation_def)
  note rem = dim_settle [OF le, of ?x]
  have low: "dim V \<le> dim (remaining a) + (dim ?u - dim ?x) - (dim ?x - dim ?u) + k + dim (saturating_add (spent a) ?x)"
    if "\<not> drops"
    using that pre dim_add [of "spent a" ?x] dim_top [of V] unfolding account_ok_def by linarith
  have exact: "dim V = dim (remaining a) + (dim ?u - dim ?x) - (dim ?x - dim ?u) + k + dim (saturating_add (spent a) ?x)"
    if "\<not> drops" "\<not> ov"
  proof -
    have "fits_within ?x ?u"
      using settles that by (simp add: within_reservation_def)
    then have "dim ?x \<le> dim ?u"
      by (rule dim_fits)
    moreover have eq: "dim V = dim (remaining a) + k + dim ?u + dim (spent a)"
      using pre that by (simp add: account_ok_def)
    ultimately show ?thesis
      using dim_spend_exact [of "spent a" ?x V] by simp
  qed
  have high: "dim (remaining a) + (dim ?u - dim ?x) - (dim ?x - dim ?u) + k \<le> dim V"
    using pre unfolding account_ok_def by linarith
  have "reservation dim e (c\<lparr> sc_phase := ph \<rparr>) = 0"
    using settles(2) by (simp add: reservation_def)
  then show ?case
    using high low exact
    by (auto simp: account_ok_def rem simp del: add.assoc add_diff_assoc add_diff_assoc2 diff_diff_left)
qed

definition system_ok :: "bool \<Rightarrow> ident \<Rightarrow> ResourceBudget \<Rightarrow> SchedSystem \<Rightarrow> bool" where
  "system_ok drops e V y \<longleftrightarrow> (\<exists>a. tbl_get (accounts (sched y)) e = Some a
     \<and> account_ok drops (\<not> list_all (within_reservation e) (sched_calls y)) (dim V) a
         (reserved_total dim e (sched_calls y)))"

lemma account_ok_overrun: "account_ok drops ov v a k \<Longrightarrow> (ov \<Longrightarrow> ov') \<Longrightarrow> account_ok drops ov' v a k"
  by (auto simp: account_ok_def)

lemma segment_ok: "run_segment env y z \<Longrightarrow> system_ok drops e V y \<Longrightarrow> system_ok drops e V z"
proof (induction rule: run_segment.induct)
  case (segment i y answer ck s' ph)
  let ?c = "sched_calls y ! i" and ?cs = "set_phase i ph (sched_calls y)"
  let ?ov = "\<not> list_all (within_reservation e) ?cs"
  obtain a where a: "tbl_get (accounts (sched y)) e = Some a"
    and ok: "account_ok drops (\<not> list_all (within_reservation e) (sched_calls y)) (dim V) a
      (reserved_total dim e (sched_calls y))"
    using segment(3) by (auto simp: system_ok_def)
  have set: "?c \<in> set (sched_calls y)" "?c\<lparr> sc_phase := ph \<rparr> \<in> set ?cs"
    using segment(1) by (auto simp: set_phase_def set_update_memI)
  have within: "list_all (within_reservation e) (sched_calls y)" if "list_all (within_reservation e) ?cs"
    unfolding list_all_length
  proof (intro allI impI)
    fix j
    assume j: "j < length (sched_calls y)"
    with that have "within_reservation e (?cs ! j)"
      by (simp add: list_all_length set_phase_def)
    then show "within_reservation e (sched_calls y ! j)"
      using within_reservation_back [OF segment(2)] j by (cases "j = i") (auto simp: set_phase_def)
  qed
  have sum: "reserved_total dim e ?cs + reservation dim e ?c
      = reserved_total dim e (sched_calls y) + reservation dim e (?c\<lparr> sc_phase := ph \<rparr>)"
    using sum_set_phase [OF segment(1)] by (simp add: reserved_total_def)
  have "reservation dim e ?c \<le> reserved_total dim e (sched_calls y)"
    unfolding reserved_total_def using set(1) by (simp add: member_le_sum_list)
  then obtain k where k: "reserved_total dim e (sched_calls y) = k + reservation dim e ?c"
    by (metis add.commute le_Suc_ex)
  with sum have k': "reserved_total dim e ?cs = k + reservation dim e (?c\<lparr> sc_phase := ph \<rparr>)"
    by linarith
  have ok': "account_ok drops ?ov (dim V) a (k + reservation dim e ?c)"
    using account_ok_overrun [OF ok] within k by auto
  show ?case
  proof (cases "sc_episode ?c = e")
    case True
    obtain a' where a': "tbl_get (accounts s') e = Some a'" "account_move ?c ph a a'"
      using advance_account [OF segment(2)] a True by auto
    have "within_reservation e (?c\<lparr> sc_phase := ph \<rparr>) \<or> ?ov"
      using set(2) by (auto simp: list_all_iff)
    then show ?thesis
      using account_move_ok [OF a'(2) True ok'] a'(1) k' by (auto simp: system_ok_def)
  next
    case False
    then have "tbl_get (accounts s') e = Some a" "reservation dim e (?c\<lparr> sc_phase := ph \<rparr>) = reservation dim e ?c"
      using advance_other_account [OF segment(2)] a by (auto simp: reservation_def)
    then show ?thesis
      using ok' k' by (auto simp: system_ok_def)
  qed
qed

lemma drop_ok:
  assumes "i < length (sched_calls y)" "system_ok True e V y" "accounts s = accounts (sched y)"
  shows "system_ok True e V (y\<lparr> sched := s, sched_calls := set_phase i Dropped (sched_calls y) \<rparr>)"
  using assms sum_set_phase [OF assms(1), of "reservation dim e" Dropped]
  by (auto simp: system_ok_def account_ok_def reserved_total_def reservation_def)

lemma step_ok: "sched_step env drops e y z \<Longrightarrow> system_ok drops e V y \<Longrightarrow> system_ok drops e V z"
proof (induction rule: sched_step.induct)
  case (run y z)
  then show ?case
    using segment_ok by blast
next
  case (arrive c y)
  then show ?case
    by (auto simp: system_ok_def reserved_total_def reservation_def within_reservation_def)
next
  case (drop_future i y)
  then show ?case
    using drop_ok [of i y e V] by simp
qed (auto simp: system_ok_def register_episode_def close_episode_def)

lemma start_ok: "system_ok drops e V (sched_start bs cfg e V)"
  by (simp add: system_ok_def account_ok_def sched_start_def register_episode_def reserved_total_def dim_zero)

lemma reach_ok: "(sched_step env drops e)\<^sup>*\<^sup>* (sched_start bs cfg e V) y \<Longrightarrow> system_ok drops e V y"
  by (induction rule: rtranclp_induct) (use start_ok step_ok in blast)+

end

definition budget_dims :: "(ResourceBudget \<Rightarrow> nat) list" where
  "budget_dims = [\<lambda>b. unat (cpu_ms b), \<lambda>b. unat (memory_bytes b), \<lambda>b. unat (network_bytes b),
     \<lambda>b. unat (tokens b), \<lambda>b. unat (cost_micro_usd b), \<lambda>b. unat (risk_units b)]"

definition dim_exact :: "bool \<Rightarrow> ident \<Rightarrow> ResourceBudget \<Rightarrow> SchedSystem \<Rightarrow> BudgetAccount \<Rightarrow> (ResourceBudget \<Rightarrow> nat) \<Rightarrow> bool" where
  "dim_exact drops e V y a d \<longleftrightarrow>
     d (remaining a) + reserved_total d e (sched_calls y) \<le> d V
   \<and> (\<not> drops \<longrightarrow> d V \<le> d (remaining a) + reserved_total d e (sched_calls y) + d (spent a)
       \<and> (list_all (within_reservation e) (sched_calls y)
           \<longrightarrow> d V = d (remaining a) + reserved_total d e (sched_calls y) + d (spent a)))"

context budget_dimension begin

lemma reach_exact:
  "(sched_step env drops e)\<^sup>*\<^sup>* (sched_start bs cfg e V) y \<Longrightarrow>
     \<exists>a. tbl_get (accounts (sched y)) e = Some a \<and> dim_exact drops e V y a dim"
  using reach_ok by (fastforce simp: system_ok_def account_ok_def dim_exact_def)

end

text \<open>
  C31. Concurrent steps cannot overdraw an episode. In every interleaving of any number of
  steps, in every dimension, what remains in the account plus what is reserved by calls in
  flight never exceeds the envelope the episode was opened with, whatever the backends report.
  As long as no call's future is dropped nothing is lost either: the envelope is covered by
  what remains, what is reserved and what was spent, and it is exactly their sum when every
  reported usage stayed inside its reservation.
\<close>
theorem budget_accounts_exact:
  assumes "(sched_step env drops e)\<^sup>*\<^sup>* (sched_start bs cfg e V) y"
  shows "\<exists>a. tbl_get (accounts (sched y)) e = Some a \<and> (\<forall>d \<in> set budget_dims.
      d (remaining a) + reserved_total d e (sched_calls y) \<le> d V
    \<and> (\<not> drops \<longrightarrow> d V \<le> d (remaining a) + reserved_total d e (sched_calls y) + d (spent a)
        \<and> (list_all (within_reservation e) (sched_calls y)
            \<longrightarrow> d V = d (remaining a) + reserved_total d e (sched_calls y) + d (spent a))))"
proof -
  obtain a where a: "tbl_get (accounts (sched y)) e = Some a"
    using cpu.reach_exact [OF assms] by blast
  have "dim_exact drops e V y a d" if "d \<in> set budget_dims" for d
    using that cpu.reach_exact [OF assms] memory.reach_exact [OF assms] network.reach_exact [OF assms]
      token.reach_exact [OF assms] money.reach_exact [OF assms] risk.reach_exact [OF assms] a
    unfolding budget_dims_def by auto
  with a show ?thesis
    by (auto simp: dim_exact_def)
qed

section \<open>Every admitted step returns\<close>

fun phase_rank :: "Phase \<Rightarrow> nat" where
  "phase_rank Called = 8"
| "phase_rank Admitted = 7"
| "phase_rank Queued = 6"
| "phase_rank Permitted = 5"
| "phase_rank (Running _) = 4"
| "phase_rank (Executed _ _) = 3"
| "phase_rank (Settled _ _) = 2"
| "phase_rank (Returning _) = 1"
| "phase_rank _ = 0"

definition work_left :: "StepCall list \<Rightarrow> nat" where
  "work_left cs = sum_list (map (\<lambda>c. phase_rank (sc_phase c)) cs)"

definition drained :: "SchedSystem \<Rightarrow> bool" where
  "drained y \<longleftrightarrow> list_all (\<lambda>c. over (sc_phase c)) (sched_calls y)"

lemma advance_rank:
  assumes "advance env answer ck s c = Some (s', ph)"
  shows "phase_rank ph < phase_rank (sc_phase c)"
proof (cases "sc_phase c")
  case Admitted
  then show ?thesis
    using assms by (auto simp: advance_def Let_def split: prod.splits sum.splits)
qed (use assms in \<open>auto simp: advance_def Let_def split: if_splits sum.splits\<close>)

lemma run_segment_work:
  "run_segment env y z \<Longrightarrow> work_left (sched_calls z) < work_left (sched_calls y)
     \<and> length (sched_calls z) = length (sched_calls y)"
proof (induction rule: run_segment.induct)
  case (segment i y answer ck s' ph)
  then show ?case
    using sum_set_phase [OF segment(1), of "\<lambda>c. phase_rank (sc_phase c)" ph] advance_rank [OF segment(2)]
    by (simp add: work_left_def) (simp add: set_phase_def)
qed

lemma work_left_bound: "work_left cs \<le> 8 * length cs"
proof -
  have "phase_rank ph \<le> 8" for ph
    by (cases ph) auto
  then show ?thesis
    unfolding work_left_def by (induction cs) (auto intro: add_mono)
qed

lemma run_segments_bound: "(run_segment env ^^ n) y z \<Longrightarrow> n + work_left (sched_calls z) \<le> work_left (sched_calls y)"
proof (induction n arbitrary: z)
  case (Suc n)
  then obtain w where "(run_segment env ^^ n) y w" "run_segment env w z"
    by auto
  then show ?case
    using Suc.IH run_segment_work by fastforce
qed simp

lemma advance_enabled:
  assumes "\<not> over (sc_phase c)" "sc_phase c = Queued \<longrightarrow> available (fanout s) > 0"
  shows "\<exists>r. advance env answer ck s c = Some r"
proof (cases "sc_phase c")
  case Admitted
  then show ?thesis
    by (auto simp: advance_def Let_def split: prod.splits sum.splits)
qed (use assms in \<open>auto simp: advance_def Let_def split: sum.splits\<close>)

lemma no_deadlock:
  assumes ok: "permits_ok n y" and n: "n > 0" and busy: "\<not> drained y"
  shows "\<exists>z. run_segment env y z"
proof -
  have enabled: "\<exists>z. run_segment env y z"
    if i: "i < length (sched_calls y)" and "\<not> over (sc_phase (sched_calls y ! i))"
      "sc_phase (sched_calls y ! i) = Queued \<longrightarrow> available (fanout (sched y)) > 0" for i
    using advance_enabled [OF that(2,3), of env "Err (OtherError [])" undefined] segment [OF i]
    by fastforce
  obtain i where i: "i < length (sched_calls y)" "\<not> over (sc_phase (sched_calls y ! i))"
    using busy by (auto simp: drained_def list_all_length)
  show ?thesis
  proof (cases "available (fanout (sched y)) > 0")
    case True
    with i enabled show ?thesis
      by blast
  next
    case False
    then have "permits_held (sched_calls y) > 0"
      using ok n by (simp add: permits_ok_def)
    then obtain c where "c \<in> set (sched_calls y)" "holds_permit (sc_phase c)"
      unfolding permits_held_def by (auto simp: sum_list_eq_0_iff simp flip: neq0_conv split: if_splits)
    then obtain j where "j < length (sched_calls y)" "holds_permit (sc_phase (sched_calls y ! j))"
      by (metis in_set_conv_nth)
    moreover from this(2) have "\<not> over (sc_phase (sched_calls y ! j))" "sc_phase (sched_calls y ! j) \<noteq> Queued"
      by (cases "sc_phase (sched_calls y ! j)"; simp)+
    ultimately show ?thesis
      using enabled by blast
  qed
qed

lemma drained_frees:
  assumes "permits_ok n y" "drained y"
  shows "available (fanout (sched y)) = n \<and> reserved_total d e (sched_calls y) = 0"
proof -
  have "\<not> holds_permit ph \<and> \<not> holds_reservation ph" if "over ph" for ph
    using that by (cases ph) auto
  then have "permits_held (sched_calls y) = 0" "reserved_total d e (sched_calls y) = 0"
    using assms(2) by (auto simp: permits_held_def reserved_total_def reservation_def drained_def list_all_iff
        sum_list_eq_0_iff)
  with assms(1) show ?thesis
    by (simp add: permits_ok_def)
qed

lemma can_drain:
  assumes "permits_ok n y" "n > 0"
  shows "\<exists>z. (run_segment env)\<^sup>*\<^sup>* y z \<and> drained z"
  using assms
proof (induction "work_left (sched_calls y)" arbitrary: y rule: less_induct)
  case less
  show ?case
  proof (cases "drained y")
    case False
    then obtain z where z: "run_segment env y z"
      using no_deadlock less.prems by blast
    then obtain w where "(run_segment env)\<^sup>*\<^sup>* z w" "drained w"
      using less.hyps [of z] run_segment_work [OF z] run_segment_permits [OF z less.prems(1)] less.prems(2)
      by blast
    with z show ?thesis
      by (meson converse_rtranclp_into_rtranclp)
  qed auto
qed

text \<open>
  C32. No step waits forever. From every reachable state, as long as no new call arrives and
  backends answer, each call makes at most eight moves, some call can move until all have
  returned, and then every fan-out permit is free again and no budget is reserved. At no time
  do more steps run than the configured fan-out (at least one).
\<close>
theorem scheduler_drains:
  assumes "(sched_step env drops e)\<^sup>*\<^sup>* (sched_start bs cfg e V) y"
  shows "(\<forall>n z. (run_segment env ^^ n) y z \<longrightarrow> n \<le> 8 * length (sched_calls y))
    \<and> (\<exists>z. (run_segment env)\<^sup>*\<^sup>* y z \<and> drained z)
    \<and> (\<forall>z. (run_segment env)\<^sup>*\<^sup>* y z \<and> (\<nexists>w. run_segment env z w) \<longrightarrow> drained z
         \<and> available (fanout (sched z)) = max (max_concurrent_branches cfg) 1
         \<and> (\<forall>d e'. reserved_total d e' (sched_calls z) = 0))
    \<and> permits_held (sched_calls y) \<le> max (max_concurrent_branches cfg) 1"
proof (intro conjI allI impI; (elim conjE)?)
  let ?n = "max (max_concurrent_branches cfg) 1"
  have ok: "permits_ok ?n y"
    by (rule sched_reach_permits [OF assms])
  show "n \<le> 8 * length (sched_calls y)" if "(run_segment env ^^ n) y z" for n z
    using run_segments_bound [OF that] work_left_bound [of "sched_calls y"] by linarith
  show "\<exists>z. (run_segment env)\<^sup>*\<^sup>* y z \<and> drained z"
    using can_drain [OF ok] by simp
  show "permits_held (sched_calls y) \<le> ?n"
    using ok by (simp add: permits_ok_def)
  fix z
  assume run: "(run_segment env)\<^sup>*\<^sup>* y z" and stuck: "\<nexists>w. run_segment env z w"
  have z: "permits_ok ?n z"
    using run ok by (induction rule: rtranclp_induct) (blast intro: run_segment_permits)+
  show d: "drained z"
    using no_deadlock [OF z] stuck by fastforce
  show "available (fanout (sched z)) = ?n"
    using drained_frees [OF z d] by blast
  show "reserved_total d e' (sched_calls z) = 0" for d e'
    using drained_frees [OF z d] by blast
qed

section \<open>A concrete run\<close>

definition demo_req :: ExecutionRequest where
  "demo_req = \<lparr> rq_branch = ''br-1'', rq_base_state = ''st-1'', rq_actor = ''pr-1'', rq_action = ReadFile ''a'',
     rq_budget = budget_zero\<lparr> cpu_ms := 5 \<rparr>, rq_writable_prefixes = [], rq_readable_prefixes = [],
     rq_egress_domains = [] \<rparr>"

definition demo_call :: "Phase \<Rightarrow> StepCall" where
  "demo_call ph = \<lparr> sc_episode = ''ep-1'', sc_step = ''sp-1'', sc_req = demo_req, sc_risk = Low,
     sc_needs = default_needs, sc_phase = ph \<rparr>"

definition demo_envelope :: ResourceBudget where
  "demo_envelope = budget_zero\<lparr> cpu_ms := 60 \<rparr>"

definition demo_system :: "nat \<Rightarrow> u64 \<Rightarrow> Phase list \<Rightarrow> SchedSystem" where
  "demo_system permits cpu phases =
     \<lparr> sched = (new_scheduler [] default_config)\<lparr> fanout := \<lparr> available = permits, closed = False \<rparr>,
         accounts := [(''ep-1'', \<lparr> remaining = budget_zero\<lparr> cpu_ms := cpu \<rparr>, spent = budget_zero \<rparr>)] \<rparr>,
       sched_calls = map demo_call phases \<rparr>"

lemma demo_start: "sched_start [] default_config ''ep-1'' demo_envelope = demo_system 8 60 []"
  by (simp add: sched_start_def demo_system_def register_episode_def new_scheduler_def default_config_def
      demo_envelope_def tbl_put_def tbl_delete_def)

lemma demo_arrive: "sched_step env drops ''ep-1'' (demo_system 8 60 []) (demo_system 8 60 [Called])"
  using arrive [of "demo_call Called" env drops "''ep-1''" "demo_system 8 60 []"]
  by (simp add: demo_system_def demo_call_def)

lemma demo_admit: "run_segment env (demo_system 8 60 [Called]) (demo_system 8 60 [Admitted])"
  using segment [of 0 "demo_system 8 60 [Called]" env "Err (OtherError [])" undefined "sched (demo_system 8 60 [Called])" Admitted]
  by (simp add: demo_system_def demo_call_def advance_def demo_req_def is_paused_def new_scheduler_def
      set_phase_def)

lemma demo_reserve: "run_segment env (demo_system 8 60 [Admitted]) (demo_system 8 55 [Queued])"
  using segment [of 0 "demo_system 8 60 [Admitted]" env "Err (OtherError [])" undefined "sched (demo_system 8 55 [])" Queued]
  by (simp add: demo_system_def demo_call_def advance_def demo_req_def new_scheduler_def
      set_phase_def reserve_def budget_simps tbl_get_def tbl_update_def sat_sub_def)

lemma demo_reach: "(sched_step env drops ''ep-1'')\<^sup>*\<^sup>* (sched_start [] default_config ''ep-1'' demo_envelope)
    (demo_system 8 55 [Queued])"
  unfolding demo_start
  by (meson demo_arrive demo_admit demo_reserve sched_step.run converse_rtranclp_into_rtranclp rtranclp.rtrancl_refl)

definition demo_env :: SchedEnv where
  "demo_env = \<lparr> route_reason = (\<lambda>_ _ _. ''no backend''), to_lowercase = (\<lambda>t. t), show_u64 = (\<lambda>_. ''0''),
     path_join = (\<lambda>a b. a @ ''/'' @ b), make_dir = (\<lambda>_. Ok ()) \<rparr>"

text \<open>The account property after one step reserved 5 of 60 units: 55 remain and nothing is spent.\<close>
theorem budget_accounts_exact_witness:
  "(sched_step demo_env False ''ep-1'')\<^sup>*\<^sup>* (sched_start [] default_config ''ep-1'' demo_envelope)
     (demo_system 8 55 [Queued])
   \<and> reserved_total (\<lambda>b. unat (cpu_ms b)) ''ep-1'' (sched_calls (demo_system 8 55 [Queued])) = 5
   \<and> unat (cpu_ms demo_envelope) = 60"
proof -
  have fit: "list_all (within_reservation ''ep-1'') (sched_calls (demo_system 8 55 [Queued]))"
    by (simp add: demo_system_def within_reservation_def demo_call_def)
  obtain a where "tbl_get (accounts (sched (demo_system 8 55 [Queued]))) ''ep-1'' = Some a"
    and "unat (cpu_ms demo_envelope) = unat (cpu_ms (remaining a))
      + reserved_total (\<lambda>b. unat (cpu_ms b)) ''ep-1'' (sched_calls (demo_system 8 55 [Queued]))
      + unat (cpu_ms (spent a))"
    using budget_accounts_exact [OF demo_reach [of demo_env False]] fit by (auto simp: budget_dims_def)
  then show ?thesis
    using demo_reach
    by (auto simp: demo_system_def demo_envelope_def budget_zero_def tbl_get_def)
qed

text \<open>The progress property of the same state.\<close>
theorem scheduler_drains_witness:
  "(sched_step demo_env False ''ep-1'')\<^sup>*\<^sup>* (sched_start [] default_config ''ep-1'' demo_envelope)
     (demo_system 8 55 [Queued])
   \<and> (\<exists>z. (run_segment demo_env)\<^sup>*\<^sup>* (demo_system 8 55 [Queued]) z \<and> drained z)
   \<and> permits_held (sched_calls (demo_system 8 55 [Queued])) \<le> 8"
  using scheduler_drains [OF demo_reach [of demo_env False]] demo_reach by (simp add: default_config_def)

text \<open>
  A call whose future is dropped while it waits for a permit, as happens when a client
  disconnects, keeps its reservation debited: no step is in flight and nothing was spent, and
  yet 5 of the 60 units are gone.
\<close>

lemma dropped_reservation_lost:
  "\<exists>y a. (sched_step env True ''ep-1'')\<^sup>*\<^sup>* (sched_start [] default_config ''ep-1'' demo_envelope) y
     \<and> drained y \<and> tbl_get (accounts (sched y)) ''ep-1'' = Some a
     \<and> spent a = budget_zero \<and> cpu_ms (remaining a) = 55 \<and> cpu_ms demo_envelope = 60"
proof -
  have "sched_step env True ''ep-1'' (demo_system 8 55 [Queued]) (demo_system 8 55 [Dropped])"
    using drop_future [of True 0 "demo_system 8 55 [Queued]" env "''ep-1''"]
    by (simp add: demo_system_def demo_call_def set_phase_def)
  then have "(sched_step env True ''ep-1'')\<^sup>*\<^sup>* (sched_start [] default_config ''ep-1'' demo_envelope)
      (demo_system 8 55 [Dropped])"
    using demo_reach [of env True] by (meson rtranclp.rtrancl_into_rtrancl)
  then show ?thesis
    by (intro exI [of _ "demo_system 8 55 [Dropped]"])
       (auto simp: demo_system_def demo_call_def drained_def demo_envelope_def tbl_get_def)
qed

end
