(* ===== verification/KernelState.thy ===== *)
theory KernelState
  imports Broker Policy LeaseStore Snapshot Ledger Observation Scheduler
begin

text \<open>
  The composed kernel of kernel/api/src/kernel.rs: its state as the record of its components, the
  environment of code it calls and does not define, the serialized forms of actions and deltas, the
  denials it issues, and the pure helpers of the facade. A kernel operation returns the state with
  a result; it has no value where the policy engine's date arithmetic panics or a step waits for a
  fan-out permit.
\<close>

section \<open>State and environment\<close>

record EpisodeInfo =
  ei_root_branch :: ident
  ei_root_state :: ident
  ei_branches :: "ident list"
  ei_created_by :: ident

text \<open>
  \<open>k_world\<close> is everything outside the kernel that connectors and backends act on; \<open>k_spaces\<close> are
  the branch workspaces of the local backend. The per-branch gates serialize the operations of one
  branch, so a step runs to its end before the next one on the branch begins.
\<close>

type_synonym spaces = "(ident, FsWorld) table"

record 'w Kernel =
  k_dag :: DirDag
  k_ledger :: Ledger
  k_identity :: IdentityDb
  k_policy :: PolicyDocument
  k_broker :: Broker
  k_sched :: StepScheduler
  k_episodes :: "(ident, EpisodeInfo) table"
  k_op_classes :: "(string, EffectClass) table"
  k_connector_names :: "string list"
  k_spaces :: spaces
  k_world :: 'w

text \<open>
  What the facade calls and does not define: the environments of its components, the backends and
  the local workspace directories, the connectors' classification, serialization and parsing of values
  whose form is the library's, and the printers used in messages.
\<close>

record 'w KernelEnv =
  kv_dag :: DagEnv
  kv_fs :: FsEnv
  kv_ledger :: LedgerEnv
  kv_broker :: "'w BrokerEnv"
  kv_sched :: SchedEnv
  kv_add_seconds :: "instant \<Rightarrow> int \<Rightarrow> instant option"
  kv_constraints :: "(string \<times> constraint) list \<Rightarrow> json"
  kv_classify :: "string \<Rightarrow> string \<Rightarrow> json \<Rightarrow> EffectClass"
  kv_execute :: "Backend \<Rightarrow> ExecutionRequest \<Rightarrow> 'w \<times> spaces \<Rightarrow> ('w \<times> spaces) \<times> ExecutionOutcome KernelResult"
  kv_local :: Backend
  kv_fork :: "Backend \<Rightarrow> ident \<Rightarrow> ident \<Rightarrow> 'w \<times> spaces \<Rightarrow> ('w \<times> spaces) \<times> bool KernelResult"
  kv_root_workspace :: "forest option"
  kv_discard :: "Backend \<Rightarrow> ident \<Rightarrow> 'w \<times> spaces \<Rightarrow> ('w \<times> spaces) \<times> unit KernelResult"
  kv_workspace :: "ident \<Rightarrow> string KernelResult"
  kv_remove_via_link :: "string \<Rightarrow> string list \<Rightarrow> unit KernelResult"
  kv_replay :: "ExecutionRequest \<Rightarrow> FsWorld \<Rightarrow> FsWorld \<times> ExecutionOutcome KernelResult"
  kv_scratch :: "string KernelResult"
  kv_parse_action :: "json \<Rightarrow> ActionKind KernelResult"
  kv_parse_ident :: "json \<Rightarrow> ident KernelResult"
  kv_parse_budget :: "json \<Rightarrow> ResourceBudget option"
  kv_parse_denial :: "json \<Rightarrow> Denial option"
  kv_events_bytes :: "LedgerEvent list \<Rightarrow> bytes"
  kv_pretty :: "json \<Rightarrow> bytes"
  kv_compact :: "json \<Rightarrow> bytes"
  kv_show_identity :: "IdentityError \<Rightarrow> string"
  kv_show_time :: "instant \<Rightarrow> string"
  kv_show_i32 :: "32 word \<Rightarrow> string"
  kv_show_nat :: "nat \<Rightarrow> string"
  kv_delta_text :: "string \<Rightarrow> string list \<Rightarrow> DeltaRefusal \<Rightarrow> string"

text \<open>What one step draws from the outside: generated identifiers and clock readings.\<close>

record StepInput =
  in_step :: ident
  in_state :: ident
  in_effect :: ident
  in_lease :: ident
  in_time :: "nat \<Rightarrow> instant"
  in_elapsed_ms :: u64
  in_clock :: Clock

record StepResult =
  res_step :: ident
  res_state :: ident
  res_observation :: Observation

type_synonym ('w, 'a) kernel_op = "('w Kernel \<times> 'a KernelResult) option"

text \<open>The \<open>?\<close> operator on an operation and on a plain result.\<close>

definition and_then :: "('w, 'a) kernel_op \<Rightarrow> ('w Kernel \<Rightarrow> 'a \<Rightarrow> ('w, 'b) kernel_op) \<Rightarrow> ('w, 'b) kernel_op" where
  "and_then m f =
     (case m of None \<Rightarrow> None | Some (k, Err e) \<Rightarrow> Some (k, Err e) | Some (k, Ok x) \<Rightarrow> f k x)"

definition check :: "'w Kernel \<Rightarrow> 'a KernelResult \<Rightarrow> ('a \<Rightarrow> ('w, 'b) kernel_op) \<Rightarrow> ('w, 'b) kernel_op" where
  "check k r f = (case r of Err e \<Rightarrow> Some (k, Err e) | Ok x \<Rightarrow> f x)"

section \<open>Serialized values\<close>

definition budget_json :: "ResourceBudget \<Rightarrow> json" where
  "budget_json b = JObj
     [(''cpu_ms'', JInt (uint (cpu_ms b))), (''memory_bytes'', JInt (uint (memory_bytes b))),
      (''network_bytes'', JInt (uint (network_bytes b))), (''tokens'', JInt (uint (tokens b))),
      (''cost_micro_usd'', JInt (uint (cost_micro_usd b))), (''risk_units'', JInt (uint (risk_units b)))]"

definition env_json :: "(string \<times> string) list \<Rightarrow> json" where
  "env_json vars = JObj (map (\<lambda>(n, v). (n, JStr v)) vars)"

fun action_json :: "ActionKind \<Rightarrow> json" where
  "action_json (Shell command cwd vars) = JObj
     [(''kind'', JStr ''shell''), (''command'', JStr command), (''cwd'', json_of_option cwd),
      (''env'', env_json vars)]"
| "action_json (ReadFile path) = JObj [(''kind'', JStr ''read_file''), (''path'', JStr path)]"
| "action_json (WriteFile path contents) = JObj
     [(''kind'', JStr ''write_file''), (''path'', JStr path), (''contents_b64'', JStr contents)]"
| "action_json (DeletePath path) = JObj [(''kind'', JStr ''delete_path''), (''path'', JStr path)]"
| "action_json (ProcessStart command cwd vars name) = JObj
     [(''kind'', JStr ''process_start''), (''command'', JStr command), (''cwd'', json_of_option cwd),
      (''env'', env_json vars), (''name'', json_of_option name)]"
| "action_json (ProcessStdin process data close_it) = JObj
     [(''kind'', JStr ''process_stdin''), (''process'', JStr process), (''data_b64'', JStr data),
      (''close'', JBool close_it)]"
| "action_json (ProcessLogs process from max_bytes) = JObj
     [(''kind'', JStr ''process_logs''), (''process'', JStr process), (''from_offset'', JInt (uint from)),
      (''max_bytes'', case max_bytes of None \<Rightarrow> JNull | Some n \<Rightarrow> JInt (uint n))]"
| "action_json (ProcessSignal process signal) = JObj
     [(''kind'', JStr ''process_signal''), (''process'', JStr process), (''signal'', JStr signal)]"
| "action_json (ProcessStatus process) = JObj
     [(''kind'', JStr ''process_status''), (''process'', JStr process)]"
| "action_json (HttpRead url) = JObj [(''kind'', JStr ''http_read''), (''url'', JStr url)]"
| "action_json (McpInvoke server tool args) = JObj
     [(''kind'', JStr ''mcp_invoke''), (''server'', JStr server), (''tool'', JStr tool), (''arguments'', args)]"
| "action_json (ConnectorOp connector op params) = JObj
     [(''kind'', JStr ''connector_op''), (''connector'', JStr connector), (''operation'', JStr op),
      (''params'', params)]"
| "action_json (TraceQueryAction q) = JObj [(''kind'', JStr ''trace_query''), (''query'', JStr q)]"
| "action_json (BranchDiffAction since) = JObj [(''kind'', JStr ''branch_diff''), (''since'', JStr since)]"

fun file_change_json :: "FileChange \<Rightarrow> json" where
  "file_change_json (FileAdded p b m) = JObj
     [(''op'', JStr ''added''), (''path'', JStr p), (''blob'', JStr b), (''mode'', JInt (uint m))]"
| "file_change_json (FileModified p b b') = JObj
     [(''op'', JStr ''modified''), (''path'', JStr p), (''old_blob'', JStr b), (''new_blob'', JStr b')]"
| "file_change_json (FileDeleted p b) = JObj
     [(''op'', JStr ''deleted''), (''path'', JStr p), (''old_blob'', JStr b)]"

definition list_field :: "string \<Rightarrow> json list \<Rightarrow> (string \<times> json) list" where
  "list_field key xs = (if xs = [] then [] else [(key, JArr xs)])"

definition delta_json :: "StateDelta \<Rightarrow> json" where
  "delta_json d = JObj (
     list_field ''files'' (map file_change_json (delta_files d))
     @ list_field ''processes_started'' (map JStr (processes_started d))
     @ list_field ''processes_exited'' (map JStr (processes_exited d))
     @ list_field ''tool_sessions'' (map JStr (tool_sessions d))
     @ [(''policy_epoch'', JInt (uint (delta_policy_epoch d)))]
     @ list_field ''effects_proposed'' (map JStr (effects_proposed d))
     @ list_field ''effects_committed'' (map JStr (effects_committed d)))"

section \<open>Denials\<close>

definition scope_sketch :: "string \<Rightarrow> json \<Rightarrow> bool \<Rightarrow> RequestableScope" where
  "scope_sketch op params human =
     \<lparr> scope_operation = op, scope_constraints = JObj [(''params'', params)], requires_human = human \<rparr>"

definition em_dash :: string where
  "em_dash = [CHR 0xE2, CHR 0x80, CHR 0x94]"

definition recoverable_denial ::
  "DenialCode \<Rightarrow> string \<Rightarrow> string \<Rightarrow> RequestableScope list \<Rightarrow> bool \<Rightarrow> Denial" where
  "recoverable_denial code op reason scopes escalate =
     \<lparr> denial_code = code, attempted_operation = op, denial_reason = reason, safe_alternatives = [],
       requestable_scopes = scopes, escalation_allowed = escalate \<rparr>"

fun consume_failure_text :: "('w, 'x) KernelEnv_scheme \<Rightarrow> IdentityError \<Rightarrow> DenialCode \<times> string" where
  "consume_failure_text env (LeaseUnusable i reason) =
     (if reason = ''expired'' then
        (CapabilityExpired, ''the presented lease expired before the use could be consumed'')
      else if reason = ''revoked'' then
        (CapabilityDenied, ''the presented lease was revoked before the use could be consumed'')
      else (CapabilityExhausted,
        ''the presented lease has no remaining uses (a concurrent step may have consumed the last one)''))"
| "consume_failure_text env other = (CapabilityDenied, ''lease could not be consumed: '' @ kv_show_identity env other)"

definition denial_from_consume_failure :: "'w KernelEnv \<Rightarrow> string \<Rightarrow> json \<Rightarrow> IdentityError \<Rightarrow> Denial" where
  "denial_from_consume_failure env op params err =
     (case consume_failure_text env err of (code, reason) \<Rightarrow>
        recoverable_denial code op
          (reason @ ''. Recover by requesting a fresh lease for this operation'')
          [scope_sketch op params False] True)"

fun lease_failure_text :: "'w KernelEnv \<Rightarrow> LeaseCheckFailure \<Rightarrow> DenialCode \<times> string" where
  "lease_failure_text env LeaseRevoked = (CapabilityDenied, ''the presented lease has been revoked'')"
| "lease_failure_text env (LeaseExpired t) =
     (CapabilityExpired, ''the presented lease expired at '' @ kv_show_time env t)"
| "lease_failure_text env LeaseExhausted = (CapabilityExhausted, ''the presented lease has no remaining uses'')"
| "lease_failure_text env WrongPrincipal =
     (CapabilityDenied, ''the presented lease belongs to a different principal'')"
| "lease_failure_text env (WrongOperation granted) =
     (CapabilityDenied, ''the presented lease grants `'' @ granted @ ''`, not this operation'')"
| "lease_failure_text env (WrongBranch bound) =
     (BranchMismatch, ''the presented lease is bound to branch `'' @ bound
        @ ''`; authority does not follow the agent across branches '' @ em_dash
        @ '' request a lease bound to the current branch'')"
| "lease_failure_text env (ConstraintViolated parameter) =
     (ConstraintViolation, ''parameter `'' @ parameter @ ''` violates the lease constraints'')"

definition denial_from_lease_failure :: "'w KernelEnv \<Rightarrow> string \<Rightarrow> json \<Rightarrow> LeaseCheckFailure \<Rightarrow> Denial" where
  "denial_from_lease_failure env op params failure =
     (case lease_failure_text env failure of (code, reason) \<Rightarrow>
        recoverable_denial code op
          (reason @ ''. Recover by requesting the scope below (capability.request), or use ''
             @ ''steps/execute_auto to have the kernel resolve leases automatically'')
          [scope_sketch op params False] True)"

definition unknown_lease_denial :: "'w KernelEnv \<Rightarrow> string \<Rightarrow> json \<Rightarrow> ident \<Rightarrow> IdentityError \<Rightarrow> Denial" where
  "unknown_lease_denial env op params lease e =
     recoverable_denial CapabilityDenied op
       (''lease `'' @ lease @ ''` is unknown: '' @ kv_show_identity env e
          @ ''. Recover by requesting a fresh lease for this operation via capability.request ''
          @ ''(POST /v1/capabilities/request), or use steps/execute_auto to have the kernel ''
          @ ''resolve leases for you'')
       [scope_sketch op params False] True"

definition over_envelope_denial :: "string \<Rightarrow> json \<Rightarrow> ResourceBudget \<Rightarrow> ResourceBudget \<Rightarrow> Denial" where
  "over_envelope_denial op params wanted granted =
     recoverable_denial BudgetExhausted op
       (''the action budget exceeds the lease budget envelope in: ''
          @ join_comma (exceeding_dimensions wanted granted)
          @ ''. Recover by lowering the action budget to fit the lease, or request a lease with a ''
          @ ''larger envelope'')
       [\<lparr> scope_operation = op, scope_constraints = JObj [(''params'', params), (''budget'', budget_json wanted)],
          requires_human = False \<rparr>] True"

definition approval_denial :: "string \<Rightarrow> json \<Rightarrow> string \<Rightarrow> Denial" where
  "approval_denial op params rule =
     recoverable_denial EffectRequiresApproval op
       (''rule `'' @ rule @ ''` requires out-of-band approval; a human (or an approver-role ''
          @ ''principal) must grant this scope before it can run'')
       [scope_sketch op params True] True"

section \<open>Helpers of the facade\<close>

definition risk_tier_of :: "u32 \<Rightarrow> RiskTier" where
  "risk_tier_of weight = (if weight \<le> 2 then Low else if weight \<le> 6 then Medium else High)"

fun is_shell :: "ActionKind \<Rightarrow> bool" where
  "is_shell (Shell _ _ _) = True"
| "is_shell _ = False"

definition needs_of :: "ActionKind \<Rightarrow> Needs" where
  "needs_of kind = default_needs\<lparr> need_workspace := \<not> is_shell kind \<rparr>"

definition ascii_lower_str :: "string \<Rightarrow> string" where
  "ascii_lower_str s = map ascii_lower s"

text \<open>\<open>url.split("://").nth(1)\<close>: what lies between the first separator and the second, if any.\<close>

definition after_scheme :: "string \<Rightarrow> string option" where
  "after_scheme url =
     (case str_find ''://'' url of
        None \<Rightarrow> None
      | Some n \<Rightarrow>
          (let rest = drop (n + 3) url in
           Some (case str_find ''://'' rest of None \<Rightarrow> rest | Some m \<Rightarrow> take m rest)))"

definition host_of :: "string \<Rightarrow> string option" where
  "host_of url =
     (case after_scheme url of
        None \<Rightarrow> None
      | Some rest \<Rightarrow>
          (let authority = takeWhile (\<lambda>c. c \<notin> {CHR ''/'', CHR ''?'', CHR ''#''}) rest;
               after_at = last (split_on CHR ''@'' authority);
               host = (case after_at of
                         c # stripped \<Rightarrow>
                           if c = CHR ''['' then CHR ''['' # hd (split_on CHR '']'' stripped)
                           else hd (split_on CHR '':'' after_at)
                       | [] \<Rightarrow> []) in
           if host = [] then None else Some (ascii_lower_str host)))"

definition shape_read_response :: "'w KernelEnv \<Rightarrow> json \<Rightarrow> bytes \<times> json option" where
  "shape_read_response env resp =
     (case (resp, Option.bind (json_get resp ''body'') json_as_str) of
        (JObj kvs, Some body) \<Rightarrow> (as_bytes body, Some (JObj (filter (\<lambda>(n, _). n \<noteq> ''body'') kvs)))
      | _ \<Rightarrow> (kv_pretty env resp, None))"

text \<open>\<open>str::parse::<usize>\<close>: decimal digits, with an optional plus sign, that fit in 64 bits.\<close>

definition digit_value :: "char \<Rightarrow> nat option" where
  "digit_value c = (let n = of_char c :: nat in if 48 \<le> n \<and> n \<le> 57 then Some (n - 48) else None)"

fun digits_value :: "nat \<Rightarrow> string \<Rightarrow> nat option" where
  "digits_value acc [] = Some acc"
| "digits_value acc (c # cs) =
     (case digit_value c of
        None \<Rightarrow> None
      | Some d \<Rightarrow> (let acc' = 10 * acc + d in if acc' < 2 ^ 64 then digits_value acc' cs else None))"

definition parse_usize :: "string \<Rightarrow> nat option" where
  "parse_usize s =
     (let ds = (case s of c # cs \<Rightarrow> if c = CHR ''+'' then cs else s | [] \<Rightarrow> []) in
      if ds = [] then None else digits_value 0 ds)"

fun split_once_eq :: "string \<Rightarrow> (string \<times> string) option" where
  "split_once_eq [] = None"
| "split_once_eq (c # cs) =
     (if c = CHR ''='' then Some ([], cs) else map_option (\<lambda>(a, b). (c # a, b)) (split_once_eq cs))"

definition ok_option :: "'a KernelResult \<Rightarrow> 'a option" where
  "ok_option r = (case r of Ok x \<Rightarrow> Some x | Err _ \<Rightarrow> None)"

definition query_token :: "string \<Rightarrow> TraceQuery \<Rightarrow> TraceQuery" where
  "query_token token q =
     (case split_once_eq token of
        None \<Rightarrow> q
      | Some (key, value) \<Rightarrow>
          if key = ''kind'' then
            (case kind_parse value of Some kd \<Rightarrow> q\<lparr> tq_kinds := tq_kinds q @ [kd] \<rparr> | None \<Rightarrow> q)
          else if key = ''limit'' then
            (case parse_usize value of Some n \<Rightarrow> q\<lparr> tq_limit := Some (min (max n 1) 1000) \<rparr> | None \<Rightarrow> q)
          else if key = ''step'' then q\<lparr> tq_step := ok_option (parse_id ''step'' value) \<rparr>
          else if key = ''branch'' then q\<lparr> tq_branch := ok_option (parse_id ''br'' value) \<rparr>
          else if key = ''principal'' then q\<lparr> tq_principal := ok_option (parse_id ''pr'' value) \<rparr>
          else q)"

function split_whitespace_from :: "string \<Rightarrow> string \<Rightarrow> string list" where
  "split_whitespace_from word s =
     (if s = [] then (if word = [] then [] else [rev word])
      else case find (\<lambda>w. prefix w s) whitespace_encodings of
        Some w \<Rightarrow> (if word = [] then [] else [rev word]) @ split_whitespace_from [] (drop (max 1 (length w)) s)
      | None \<Rightarrow> split_whitespace_from (hd s # word) (tl s))"
  by pat_completeness auto
termination split_whitespace_from
  by (relation "measure (\<lambda>(word, s). length s)") auto

declare split_whitespace_from.simps [simp del]

definition parse_trace_query :: "ident \<Rightarrow> string \<Rightarrow> TraceQuery" where
  "parse_trace_query ep text =
     foldl (\<lambda>q t. query_token t q) (any_event\<lparr> tq_episode := Some ep, tq_limit := Some 200 \<rparr>)
       (split_whitespace_from [] text)"

end
