(* ===== verification/KernelSteps.thy ===== *)
theory KernelSteps
  imports KernelState
begin

text \<open>
  Step execution in the composed kernel (kernel/api/src/kernel.rs): the authorization pipeline of
  \<open>execute_step\<close>, the connector planes, and local and remote execution with the recording of the
  state transition.
\<close>

section \<open>Applying a synced delta to the branch mirror\<close>

fun delete_node :: "string list \<Rightarrow> forest \<Rightarrow> forest" where
  "delete_node [] f = f"
| "delete_node [n] f = tbl_delete n f"
| "delete_node (n # m # ns) f =
     (case map_of f n of Some (Dir g) \<Rightarrow> tbl_update n (\<lambda>_. Dir (delete_node (m # ns) g)) f | _ \<Rightarrow> f)"

text \<open>
  The walk over the parents stops at the workspace root or at the first directory that is not
  empty; a missing directory is skipped.
\<close>

function prune_empty_parents :: "string list \<Rightarrow> forest \<Rightarrow> forest KernelResult" where
  "prune_empty_parents dir f =
     (if dir = [] then Ok f
      else case lookup dir f of
        None \<Rightarrow> prune_empty_parents (butlast dir) f
      | Some (Dir g) \<Rightarrow> if g = [] then prune_empty_parents (butlast dir) (delete_node dir f) else Ok f
      | Some _ \<Rightarrow> Err (Io ''Not a directory''))"
  by pat_completeness auto
termination prune_empty_parents
  by (relation "measure (\<lambda>(dir, f). length dir)") auto

declare prune_empty_parents.simps [simp del]

text \<open>A component of the path, other than the last, that is not a directory.\<close>

definition blocked_by :: "string list \<Rightarrow> forest \<Rightarrow> fsnode option" where
  "blocked_by p f =
     (case find (\<lambda>k. case lookup (take k p) f of Some x \<Rightarrow> \<not> is_dir x | None \<Rightarrow> False) [1..<length p] of
        Some k \<Rightarrow> lookup (take k p) f | None \<Rightarrow> None)"

definition delete_entry :: "'w KernelEnv \<Rightarrow> string list \<Rightarrow> FsWorld \<Rightarrow> FsWorld KernelResult" where
  "delete_entry env p w =
     (case lookup p (tree w) of
        Some (Dir _) \<Rightarrow> Ok w
      | Some _ \<Rightarrow>
          (case prune_empty_parents (butlast p) (delete_node p (tree w)) of
             Err e \<Rightarrow> Err e | Ok t \<Rightarrow> Ok (w\<lparr> tree := t \<rparr>))
      | None \<Rightarrow>
          (case blocked_by p (tree w) of
             None \<Rightarrow> Ok w
           | Some (Link t) \<Rightarrow> (case kv_remove_via_link env t p of Err e \<Rightarrow> Err e | Ok _ \<Rightarrow> Ok w)
           | Some _ \<Rightarrow> Err (Io ''Not a directory'')))"

definition write_entry :: "'w KernelEnv \<Rightarrow> instant \<Rightarrow> SyncedFile \<Rightarrow> FsWorld \<Rightarrow> FsWorld KernelResult" where
  "write_entry env now file w =
     (let dest = pieces (file_path file) in
      case (case lookup dest (tree w) of
              Some (Dir g) \<Rightarrow> if g = [] then Ok (w\<lparr> tree := delete_node dest (tree w) \<rparr>)
                             else Err (Io ''Directory not empty'')
            | _ \<Rightarrow> Ok w) of
        Err e \<Rightarrow> Err e
      | Ok w1 \<Rightarrow>
        (case create_dir_all (butlast dest) (tree w1) of
           Err e \<Rightarrow> Err e
         | Ok t \<Rightarrow> fs_write (kv_fs env) now dest (as_bytes (file_contents file)) (file_mode file AND 0x1FF)
                     (w1\<lparr> tree := t \<rparr>)))"

fun delete_entries :: "'w KernelEnv \<Rightarrow> string list \<Rightarrow> FsWorld \<Rightarrow> FsWorld \<times> unit KernelResult" where
  "delete_entries env [] w = (w, Ok ())"
| "delete_entries env (p # ps) w =
     (case delete_entry env (pieces p) w of Err e \<Rightarrow> (w, Err e) | Ok w' \<Rightarrow> delete_entries env ps w')"

fun write_entries :: "'w KernelEnv \<Rightarrow> instant \<Rightarrow> SyncedFile list \<Rightarrow> FsWorld \<Rightarrow> FsWorld \<times> unit KernelResult" where
  "write_entries env now [] w = (w, Ok ())"
| "write_entries env now (x # xs) w =
     (case write_entry env now x w of Err e \<Rightarrow> (w, Err e) | Ok w' \<Rightarrow> write_entries env now xs w')"

definition apply_workspace_delta ::
  "'w KernelEnv \<Rightarrow> instant \<Rightarrow> WorkspaceDelta \<Rightarrow> FsWorld \<Rightarrow> FsWorld \<times> unit KernelResult" where
  "apply_workspace_delta env now delta w =
     (case delete_entries env
             (sort_key (\<lambda>p. - int (length (components p))) (delta_deletes delta)) w of
        (w', Err e) \<Rightarrow> (w', Err e)
      | (w', Ok _) \<Rightarrow> write_entries env now (delta_upserts delta) w')"

section \<open>Components as the facade calls them\<close>

definition log_event ::
  "'w KernelEnv \<Rightarrow> 'w Kernel \<Rightarrow> EventWriter \<Rightarrow> EventKind \<Rightarrow> json \<Rightarrow> int list \<Rightarrow> instant \<Rightarrow> ('w, int) kernel_op" where
  "log_event env k w kind payload causes now =
     (case record_caused_by (kv_ledger env) (k_ledger k) w kind payload causes now of
        (l, r) \<Rightarrow> Some (k\<lparr> k_ledger := l \<rparr>, map_sum id (\<lambda>ev. ev_seq (le_body ev)) r))"

definition keep_raw :: "'w KernelEnv \<Rightarrow> 'w Kernel \<Rightarrow> bytes \<Rightarrow> ('w, string) kernel_op" where
  "keep_raw env k raw =
     (case store_raw (kv_ledger env) (k_ledger k) raw of (l, r) \<Rightarrow> Some (k\<lparr> k_ledger := l \<rparr>, r))"

definition append_node ::
  "'w Kernel \<Rightarrow> ident \<Rightarrow> ident \<Rightarrow> ident \<Rightarrow> StateDelta \<Rightarrow> string \<Rightarrow> ReplayClass \<Rightarrow> ident \<Rightarrow> instant
    \<Rightarrow> ('w, StateNode) kernel_op" where
  "append_node k branch step actor delta wroot replay new_st now =
     (case append_step (dd_dag (k_dag k)) branch step actor delta wroot replay new_st now of
        (d, r) \<Rightarrow> Some (k\<lparr> k_dag := (k_dag k)\<lparr> dd_dag := d \<rparr> \<rparr>, r))"

definition branch_head :: "'w Kernel \<Rightarrow> ident \<Rightarrow> StateNode KernelResult" where
  "branch_head k branch = dag_head (dd_dag (k_dag k)) branch"

definition active_branch :: "'w Kernel \<Rightarrow> ident \<Rightarrow> Branch KernelResult" where
  "active_branch k branch =
     (case load_branch (dd_dag (k_dag k)) branch of Err e \<Rightarrow> Err e | Ok b \<Rightarrow>
      case br_status b of BranchActive \<Rightarrow> Ok b | _ \<Rightarrow> Err (BranchDiscarded branch))"

definition kernel_principal :: "'w KernelEnv \<Rightarrow> 'w Kernel \<Rightarrow> ident \<Rightarrow> Principal KernelResult" where
  "kernel_principal env k i =
     (case registry_get (db_principals (k_identity k)) i of
        Err e \<Rightarrow> Err (identity_to_kernel_error (kv_show_identity env) e) | Ok p \<Rightarrow> Ok p)"

definition kernel_connector :: "'w KernelEnv \<Rightarrow> string \<Rightarrow> 'w Connector option" where
  "kernel_connector env name = connectors (kv_broker env) name"

definition effect_class_of :: "'w Kernel \<Rightarrow> string \<Rightarrow> EffectClass" where
  "effect_class_of k op = (case tbl_get (k_op_classes k) op of Some c \<Rightarrow> c | None \<Rightarrow> OpaqueExternal)"

definition step_writer :: "Branch \<Rightarrow> ident \<Rightarrow> ident \<Rightarrow> ident \<Rightarrow> EventWriter" where
  "step_writer b branch step actor =
     \<lparr> wr_episode = br_episode b, wr_branch = Some branch, wr_step = Some step, wr_principal = actor \<rparr>"

definition space_of :: "'w Kernel \<Rightarrow> ident \<Rightarrow> FsWorld" where
  "space_of k branch =
     (case tbl_get (k_spaces k) branch of Some w \<Rightarrow> w | None \<Rightarrow> \<lparr> tree = [], through = [] \<rparr>)"

definition set_space :: "ident \<Rightarrow> FsWorld \<Rightarrow> 'w Kernel \<Rightarrow> 'w Kernel" where
  "set_space branch w k = k\<lparr> k_spaces := tbl_put branch w (k_spaces k) \<rparr>"

section \<open>Ending a step\<close>

definition deny_step ::
  "'w KernelEnv \<Rightarrow> StepInput \<Rightarrow> 'w Kernel \<Rightarrow> EventWriter \<Rightarrow> Branch \<Rightarrow> ident \<Rightarrow> Principal \<Rightarrow> Denial
    \<Rightarrow> ('w, StepResult) kernel_op" where
  "deny_step env inp k w b step who denial =
     (let d = redact_for denial (trust who) in
      and_then (log_event env k w DenialIssued (denial_json d) [] (in_time inp 8)) (\<lambda>k seq.
      and_then (log_event env k w ObservationEmitted
                  (JObj [(''kind'', JStr ''denied''), (''code'', JStr (denial_code_name (denial_code d)))])
                  [seq] (in_time inp 9)) (\<lambda>k _.
      Some (k, Ok \<lparr> res_step = step, res_state = br_head b, res_observation = ObsDenied d \<rparr>))))"

definition deny_connector_step ::
  "'w KernelEnv \<Rightarrow> StepInput \<Rightarrow> 'w Kernel \<Rightarrow> EventWriter \<Rightarrow> Branch \<Rightarrow> ident \<Rightarrow> ident \<Rightarrow> Denial
    \<Rightarrow> ('w, StepResult) kernel_op" where
  "deny_connector_step env inp k w b step actor denial =
     check k (kernel_principal env k actor) (\<lambda>who. deny_step env inp k w b step who denial)"

definition node_json :: "StateNode \<Rightarrow> json" where
  "node_json node = JObj [(''state_id'', JStr (st_id node)), (''delta'', delta_json (st_delta node))]"

text \<open>The end shared by every step that produced a state: its delta, then its observation.\<close>

definition emit ::
  "'w KernelEnv \<Rightarrow> StepInput \<Rightarrow> 'w Kernel \<Rightarrow> EventWriter \<Rightarrow> ident \<Rightarrow> StateNode \<Rightarrow> int \<Rightarrow> Observation
    \<Rightarrow> ('w, StepResult) kernel_op" where
  "emit env inp k w step node cause obs =
     and_then (log_event env k w StateDeltaRecorded (node_json node) [cause] (in_time inp 5)) (\<lambda>k seq.
     and_then (log_event env k w ObservationEmitted (observation_json obs) [seq] (in_time inp 6)) (\<lambda>k _.
     Some (k, Ok \<lparr> res_step = step, res_state = st_id node, res_observation = obs \<rparr>)))"

definition invocation_json :: "bool \<Rightarrow> Action \<Rightarrow> (string \<times> json) list \<Rightarrow> json" where
  "invocation_json hinted action extra = JObj (
     [(''action'', action_json (act_kind action))]
     @ (if hinted then [(''intent_hint'', json_of_option (intent_hint action))] else [])
     @ [(''lease'', JStr (act_lease action)), (''budget'', budget_json (act_budget action))] @ extra)"

definition finish_metadata_step ::
  "'w KernelEnv \<Rightarrow> StepInput \<Rightarrow> 'w Kernel \<Rightarrow> EventWriter \<Rightarrow> ident \<Rightarrow> ident \<Rightarrow> ident \<Rightarrow> Action \<Rightarrow> Observation
    \<Rightarrow> ('w, StepResult) kernel_op" where
  "finish_metadata_step env inp k w branch step actor action obs =
     check k (branch_head k branch) (\<lambda>hd_node.
     and_then (log_event env k w ToolInvocation (invocation_json False action []) [] (in_time inp 3)) (\<lambda>k tool.
     and_then (append_node k branch step actor
                 (default_delta\<lparr> delta_policy_epoch := delta_policy_epoch (st_delta hd_node) \<rparr>)
                 (workspace_root hd_node) (st_replay hd_node) (in_state inp) (in_time inp 4)) (\<lambda>k node.
     emit env inp k w step node tool obs)))"

section \<open>The connector planes\<close>

definition json_str :: "json \<Rightarrow> string \<Rightarrow> string option" where
  "json_str v key = Option.bind (json_get v key) json_as_str"

definition contract_resource :: "string \<Rightarrow> json \<Rightarrow> string" where
  "contract_resource connector params =
     (case json_str params ''resource'' of
        Some r \<Rightarrow> r
      | None \<Rightarrow>
        (case (json_str params ''owner'', json_str params ''repo'') of
           (Some o', Some r) \<Rightarrow> o' @ ''/'' @ r
         | _ \<Rightarrow> connector))"

fun without_keys :: "string list \<Rightarrow> json \<Rightarrow> json" where
  "without_keys ks (JObj kvs) = JObj (filter (\<lambda>(n, _). n \<notin> set ks) kvs)"
| "without_keys ks v = v"

definition propose_connector_op ::
  "'w KernelEnv \<Rightarrow> StepInput \<Rightarrow> 'w Kernel \<Rightarrow> EventWriter \<Rightarrow> Branch \<Rightarrow> ident \<Rightarrow> ident \<Rightarrow> ident \<Rightarrow> Action
    \<Rightarrow> string \<Rightarrow> string \<Rightarrow> json \<Rightarrow> ('w, StepResult) kernel_op" where
  "propose_connector_op env inp k w b branch step actor action connector op op_params =
     (let full_op = connector @ ''.'' @ op;
          args = without_keys [''resource'', ''preconditions''] op_params;
          cls = (case kernel_connector env connector of
                   Some _ \<Rightarrow> kv_classify env connector full_op args
                 | None \<Rightarrow> effect_class_of k full_op);
          ctr = \<lparr> operation = full_op, resource = contract_resource connector op_params, arguments = args,
                  preconditions = (case json_get op_params ''preconditions'' of Some p \<Rightarrow> p | None \<Rightarrow> JObj []),
                  idempotency_key = br_episode b @ ''-'' @ step, effect_class = cls \<rparr> in
      case propose (kv_broker env) (k_broker k) ctr actor branch step (act_lease action) (in_time inp 2)
             (in_effect inp) of
        (bk, Err e) \<Rightarrow> Some (k\<lparr> k_broker := bk \<rparr>, Err e)
      | (bk, Ok fx) \<Rightarrow>
        and_then (log_event env (k\<lparr> k_broker := bk \<rparr>) w ToolInvocation (invocation_json True action []) []
                    (in_time inp 3)) (\<lambda>k tool.
        and_then (log_event env k w EffectProposed
                    (JObj [(''effect_id'', JStr (fx_id fx)), (''contract_hash'', JStr (fx_contract_hash fx)),
                           (''class'', JStr (class_name (effect_class (contract fx))))])
                    [tool] (in_time inp 7)) (\<lambda>k proposed.
        check k (branch_head k branch) (\<lambda>hd_node.
        and_then (append_node k branch step actor
                    (default_delta\<lparr> effects_proposed := [fx_id fx],
                       delta_policy_epoch := delta_policy_epoch (st_delta hd_node) \<rparr>)
                    (workspace_root hd_node) (st_replay hd_node) (in_state inp) (in_time inp 4)) (\<lambda>k node.
        emit env inp k w step node proposed
          (EffectPending (fx_id fx) (fx_contract_hash fx) (effect_class (contract fx))))))))"

definition read_contract :: "string \<Rightarrow> string \<Rightarrow> json \<Rightarrow> Branch \<Rightarrow> ident \<Rightarrow> EffectContract" where
  "read_contract full_op res args b step =
     \<lparr> operation = full_op, resource = res, arguments = args, preconditions = JObj [],
       idempotency_key = br_episode b @ ''-'' @ step @ ''-read'', effect_class = Pure \<rparr>"

definition read_success :: "'w KernelEnv \<Rightarrow> string \<Rightarrow> bytes \<Rightarrow> json option \<Rightarrow> string \<Rightarrow> u64 \<Rightarrow> Observation" where
  "read_success env full_op raw data full_output ms =
     (let d = distill_output (raw_hash (kv_ledger env)) raw 2048 1024 in
      Success (full_op @ '' returned '' @ kv_show_nat env (length raw) @ '' bytes in ''
                 @ kv_show_nat env (unat ms) @ '' ms'')
        data (do_head d) (do_tail d) 0 full_output (do_truncated d))"

text \<open>\<open>chars().take(n)\<close> on valid UTF-8.\<close>

function take_chars :: "nat \<Rightarrow> string \<Rightarrow> string" where
  "take_chars n s =
     (if n = 0 \<or> s = [] then []
      else let m = fst (utf8_step s) in take m s @ take_chars (n - 1) (drop m s))"
  by pat_completeness auto
termination take_chars
  by (relation "measure fst") auto

declare take_chars.simps [simp del]

definition connector_read ::
  "'w KernelEnv \<Rightarrow> StepInput \<Rightarrow> 'w Kernel \<Rightarrow> 'w Connector \<Rightarrow> EffectContract \<Rightarrow> ('w, Observation) kernel_op" where
  "connector_read env inp k conn ctr =
     (case conn_commit conn (k_world k) ctr of
        (world, Ok result) \<Rightarrow>
          (case shape_read_response env (response result) of (raw, data) \<Rightarrow>
           and_then (keep_raw env (k\<lparr> k_world := world \<rparr>) raw) (\<lambda>k full_output.
           Some (k, Ok (read_success env (operation ctr) raw data full_output (in_elapsed_ms inp)))))
      | (world, Err e) \<Rightarrow>
          (let msg = show_error (kv_broker env) e in
           and_then (keep_raw env (k\<lparr> k_world := world \<rparr>) (as_bytes msg)) (\<lambda>k full_output.
           Some (k, Ok (Failure (operation ctr @ '' failed'') 1 (Some (take_chars 400 msg)) None full_output)))))"

definition execute_read_via_connector ::
  "'w KernelEnv \<Rightarrow> StepInput \<Rightarrow> 'w Kernel \<Rightarrow> EventWriter \<Rightarrow> Branch \<Rightarrow> ident \<Rightarrow> ident \<Rightarrow> ident \<Rightarrow> Action
    \<Rightarrow> 'w Connector \<Rightarrow> string \<Rightarrow> string \<Rightarrow> json \<Rightarrow> ('w, StepResult) kernel_op" where
  "execute_read_via_connector env inp k w b branch step actor action conn full_op res args =
     and_then (log_event env k w ToolInvocation
                 (invocation_json True action [(''plane'', JStr ''observation'')]) [] (in_time inp 3)) (\<lambda>k tool.
     and_then (connector_read env inp k conn (read_contract full_op res args b step)) (\<lambda>k obs.
     check k (branch_head k branch) (\<lambda>hd_node.
     and_then (append_node k branch step actor
                 (default_delta\<lparr> tool_sessions := [full_op],
                    delta_policy_epoch := delta_policy_epoch (st_delta hd_node) \<rparr>)
                 (workspace_root hd_node) (st_replay hd_node) (in_state inp) (in_time inp 4)) (\<lambda>k node.
     emit env inp k w step node tool obs))))"

definition with_key :: "string \<Rightarrow> json \<Rightarrow> json \<Rightarrow> json" where
  "with_key key v j = (case j of JObj kvs \<Rightarrow> JObj (index_insert key v kvs) | _ \<Rightarrow> j)"

definition execute_http_read ::
  "'w KernelEnv \<Rightarrow> StepInput \<Rightarrow> 'w Kernel \<Rightarrow> EventWriter \<Rightarrow> Branch \<Rightarrow> ident \<Rightarrow> ident \<Rightarrow> ident \<Rightarrow> Action
    \<Rightarrow> string \<Rightarrow> string list \<Rightarrow> ('w, StepResult) kernel_op" where
  "execute_http_read env inp k w b branch step actor action url domains =
     (let deny = deny_connector_step env inp k w b step actor in
      case kernel_connector env ''http'' of
        None \<Rightarrow> deny (recoverable_denial BackendUnavailableCode ''net.http_read''
          (''no `http` connector is registered with this kernel; configure `http` in KernelConfig ''
             @ ''(or register an HttpConnector) to enable the observation plane'') [] False)
      | Some conn \<Rightarrow>
        (case conn_canonicalize conn ''http.get'' (JObj [(''url'', JStr url)]) of
           Err e \<Rightarrow> deny (recoverable_denial ConstraintViolation ''net.http_read''
             (''url refused: '' @ show_error (kv_broker env) e) [] False)
         | Ok canonical \<Rightarrow>
           (let canon_url = (case json_str canonical ''url'' of Some u \<Rightarrow> u | None \<Rightarrow> url);
                host = (case host_of canon_url of Some h \<Rightarrow> h | None \<Rightarrow> []) in
            if \<not> list_ex (\<lambda>g. glob_match g host) domains then
              deny (recoverable_denial PolicyForbidden ''net.http_read''
                (''host `'' @ host @ ''` is not covered by this grant's egress domains; request ''
                   @ ''net.http_read scoped to the domain, or ask an operator to extend the policy ''
                   @ ''egress allowlist'')
                [\<lparr> scope_operation = ''net.http_read'', scope_constraints = JObj [(''domain'', JStr host)],
                   requires_human = False \<rparr>] True)
            else if kv_classify env ''http'' ''http.get'' canonical = Pure then
              execute_read_via_connector env inp k w b branch step actor action conn ''http.get'' host canonical
            else
              propose_connector_op env inp k w b branch step actor action ''http'' ''get''
                (with_key ''resource'' (JStr host) canonical))))"

definition execute_mcp_invoke ::
  "'w KernelEnv \<Rightarrow> StepInput \<Rightarrow> 'w Kernel \<Rightarrow> EventWriter \<Rightarrow> Branch \<Rightarrow> ident \<Rightarrow> ident \<Rightarrow> ident \<Rightarrow> Action
    \<Rightarrow> string \<Rightarrow> string \<Rightarrow> json \<Rightarrow> ('w, StepResult) kernel_op" where
  "execute_mcp_invoke env inp k w b branch step actor action server tool args =
     (let deny = deny_connector_step env inp k w b step actor; full_op = server @ ''.'' @ tool in
      case kernel_connector env server of
        None \<Rightarrow> deny (recoverable_denial BackendUnavailableCode ''mcp.invoke''
          (''no MCP server `'' @ server @ ''` is registered with this kernel (registered connectors: [''
             @ join_comma (k_connector_names k) @ ''])'') [] False)
      | Some conn \<Rightarrow>
        (case conn_canonicalize conn full_op args of
           Err e \<Rightarrow> deny (recoverable_denial ConstraintViolation ''mcp.invoke''
             (''arguments refused by the `'' @ server @ ''` manifest: '' @ show_error (kv_broker env) e) [] False)
         | Ok canonical \<Rightarrow>
            if kv_classify env server full_op canonical = Pure then
              execute_read_via_connector env inp k w b branch step actor action conn full_op server canonical
            else propose_connector_op env inp k w b branch step actor action server tool canonical))"

section \<open>Local and remote execution\<close>

definition combined_output :: "ExecutionOutcome \<Rightarrow> bytes" where
  "combined_output oc =
     oc_stdout oc @ (if oc_stderr oc = [] then []
       else as_bytes ([CHR 0x0A] @ ''--- stderr ---'' @ [CHR 0x0A]) @ oc_stderr oc)"

definition via_text :: "BackendProfile \<Rightarrow> string" where
  "via_text p =
     (if shares_workspace p then []
      else if syncs_state p then '' via `'' @ bp_name p @ ''` (state-synced)''
      else '' via `'' @ bp_name p @ ''` (audit-only excursion)'')"

definition run_observation ::
  "'w KernelEnv \<Rightarrow> ActionKind \<Rightarrow> BackendProfile \<Rightarrow> ExecutionOutcome \<Rightarrow> StateNode \<Rightarrow> string \<Rightarrow> Observation" where
  "run_observation env kind p oc node full_output =
     (let raw = combined_output oc; d = distill_output (raw_hash (kv_ledger env)) raw 2048 1024 in
      if oc_exit_code oc = 0 then
        Success (required_operation kind @ '' exited 0 ('' @ kv_show_nat env (length (delta_files (st_delta node)))
                   @ '' file(s) changed)'' @ via_text p)
          None (do_head d) (do_tail d) 0 full_output (do_truncated d)
      else
        Failure (required_operation kind @ '' exited '' @ kv_show_i32 env (oc_exit_code oc)) (oc_exit_code oc)
          (case extract_causal_failure (oc_stderr oc) of
             Some l \<Rightarrow> Some l | None \<Rightarrow> extract_causal_failure (oc_stdout oc))
          (if raw = [] then None else Some (from_utf8_lossy (drop (length raw - 1024) raw)))
          full_output)"

text \<open>After the state transition: the delta, the raw output and the observation.\<close>

definition report_run ::
  "'w KernelEnv \<Rightarrow> StepInput \<Rightarrow> 'w Kernel \<Rightarrow> EventWriter \<Rightarrow> ident \<Rightarrow> ActionKind \<Rightarrow> BackendProfile
    \<Rightarrow> ExecutionOutcome \<Rightarrow> int \<Rightarrow> StateNode \<Rightarrow> ('w, StepResult) kernel_op" where
  "report_run env inp k w step kind p oc tool node =
     and_then (log_event env k w StateDeltaRecorded (node_json node) [tool] (in_time inp 5)) (\<lambda>k seq.
     and_then (keep_raw env k (combined_output oc)) (\<lambda>k full_output.
     let obs = run_observation env kind p oc node full_output in
     and_then (log_event env k w ObservationEmitted (observation_json obs) [seq] (in_time inp 6)) (\<lambda>k _.
     Some (k, Ok \<lparr> res_step = step, res_state = st_id node, res_observation = obs \<rparr>))))"

definition contract_ok :: "BackendProfile \<Rightarrow> ExecutionOutcome \<Rightarrow> bool" where
  "contract_ok p oc =
     ((shares_workspace p, syncs_state p, workspace_delta oc \<noteq> None)
        \<in> {(True, False, False), (False, True, True), (False, False, False)})"

definition show_bool :: "bool \<Rightarrow> string" where
  "show_bool b = (if b then ''true'' else ''false'')"

definition contract_denial :: "ActionKind \<Rightarrow> BackendProfile \<Rightarrow> ExecutionOutcome \<Rightarrow> Denial" where
  "contract_denial kind p oc =
     recoverable_denial BackendUnavailableCode (required_operation kind)
       (''backend `'' @ bp_name p @ ''` violated its state-plane contract (shares_workspace=''
          @ show_bool (shares_workspace p) @ '', syncs_state='' @ show_bool (syncs_state p)
          @ '', returned_delta='' @ show_bool (workspace_delta oc \<noteq> None)
          @ ''); its branch resources were discarded and the branch head is unchanged'') [] False"

definition delta_denial :: "'w KernelEnv \<Rightarrow> string \<Rightarrow> string list \<Rightarrow> DeltaRefusal \<Rightarrow> Denial" where
  "delta_denial env backend writable refusal =
     recoverable_denial ConstraintViolation ''backend.state_sync'' (kv_delta_text env backend writable refusal) [] False"

definition router_denial :: "ActionKind \<Rightarrow> string \<Rightarrow> Denial" where
  "router_denial kind reason =
     recoverable_denial BackendUnavailableCode (required_operation kind)
       (reason @ ''. The policy rule's risk_weight demands this isolation floor; register a stronger ''
          @ ''backend (KernelConfig.backends) or lower the rule's risk_weight'') [] False"

definition discard_at :: "'w KernelEnv \<Rightarrow> Backend \<Rightarrow> ident \<Rightarrow> 'w Kernel \<Rightarrow> 'w Kernel" where
  "discard_at env bk branch k =
     (case kv_discard env bk branch (k_world k, k_spaces k) of
        ((world, spaces), _) \<Rightarrow> k\<lparr> k_world := world, k_spaces := spaces \<rparr>)"

definition snapshot_step ::
  "'w KernelEnv \<Rightarrow> StepInput \<Rightarrow> 'w Kernel \<Rightarrow> ident \<Rightarrow> ident \<Rightarrow> ident \<Rightarrow> string \<Rightarrow> ReplayClass \<Rightarrow> ('w, StateNode) kernel_op" where
  "snapshot_step env inp k branch step actor dir replay =
     (case snapshot_and_append (kv_dag env) (k_dag k) branch step actor dir (tree (space_of k branch)) replay
             (in_state inp) (in_time inp 4) of
        (dd, r) \<Rightarrow> Some (k\<lparr> k_dag := dd \<rparr>, r))"

definition materialize_branch ::
  "'w KernelEnv \<Rightarrow> 'w Kernel \<Rightarrow> ident \<Rightarrow> ident \<Rightarrow> string \<Rightarrow> instant \<Rightarrow> 'w Kernel \<times> unit KernelResult" where
  "materialize_branch env k branch state dir now =
     (case dag_materialize (kv_dag env) (kv_fs env) (k_dag k) state dir (space_of k branch) now now of
        (dd, w, r) \<Rightarrow> (set_space branch w (k\<lparr> k_dag := dd \<rparr>), r))"

text \<open>Materialize the base, apply the delta, snapshot; each part keeps its effects when a later one fails.\<close>

definition synced_transition ::
  "'w KernelEnv \<Rightarrow> StepInput \<Rightarrow> 'w Kernel \<Rightarrow> ident \<Rightarrow> ident \<Rightarrow> ident \<Rightarrow> ident \<Rightarrow> string \<Rightarrow> WorkspaceDelta \<Rightarrow> ReplayClass
    \<Rightarrow> ('w, StateNode) kernel_op" where
  "synced_transition env inp k branch base step actor dir delta replay =
     (case materialize_branch env k branch base dir (in_time inp 10) of
        (k1, Err e) \<Rightarrow> Some (k1, Err e)
      | (k1, Ok _) \<Rightarrow>
        (case apply_workspace_delta env (in_time inp 11) delta (space_of k1 branch) of
           (w, Err e) \<Rightarrow> Some (set_space branch w k1, Err e)
         | (w, Ok _) \<Rightarrow> snapshot_step env inp (set_space branch w k1) branch step actor dir replay))"

definition synced_node ::
  "'w KernelEnv \<Rightarrow> StepInput \<Rightarrow> 'w Kernel \<Rightarrow> Backend \<Rightarrow> ident \<Rightarrow> ident \<Rightarrow> ident \<Rightarrow> ident \<Rightarrow> string \<Rightarrow> WorkspaceDelta
    \<Rightarrow> ReplayClass \<Rightarrow> ('w, StateNode) kernel_op" where
  "synced_node env inp k bk branch base step actor dir delta replay =
     (case synced_transition env inp k branch base step actor dir delta replay of
        None \<Rightarrow> None
      | Some (k1, Ok node) \<Rightarrow> Some (k1, Ok node)
      | Some (k1, Err e) \<Rightarrow>
        (case materialize_branch env k1 branch base dir (in_time inp 12) of
           (k2, rollback) \<Rightarrow>
             Some (discard_at env bk branch k2,
               Err (case rollback of
                      Err r \<Rightarrow> Storage (''state-sync apply failed ('' @ show_error (kv_broker env) e
                        @ ''); restoring the branch mirror to '' @ base @ '' also failed (''
                        @ show_error (kv_broker env) r @ '')'')
                    | Ok _ \<Rightarrow> e))))"

definition audit_node ::
  "'w Kernel \<Rightarrow> StepInput \<Rightarrow> ident \<Rightarrow> ident \<Rightarrow> ident \<Rightarrow> ('w, StateNode) kernel_op" where
  "audit_node k inp branch step actor =
     check k (branch_head k branch) (\<lambda>hd_node.
     append_node k branch step actor
       (default_delta\<lparr> delta_policy_epoch := delta_policy_epoch (st_delta hd_node) \<rparr>)
       (workspace_root hd_node) AuditOnly (in_state inp) (in_time inp 4))"

text \<open>The three honest ways to record what a backend did, once it has returned.\<close>

definition record_run ::
  "'w KernelEnv \<Rightarrow> StepInput \<Rightarrow> 'w Kernel \<Rightarrow> EventWriter \<Rightarrow> Branch \<Rightarrow> ident \<Rightarrow> ident \<Rightarrow> ident \<Rightarrow> ActionKind
    \<Rightarrow> string list \<Rightarrow> RoutedOutcome \<Rightarrow> int \<Rightarrow> ('w, StepResult) kernel_op" where
  "record_run env inp k w b branch step actor kind writable ro tool =
     (let oc = ro_outcome ro; p = ro_backend ro; report = (\<lambda>k node. report_run env inp k w step kind p oc tool node) in
      if \<not> contract_ok p oc then
        deny_connector_step env inp (discard_at env (ro_executor ro) branch k) w b step actor (contract_denial kind p oc)
      else if shares_workspace p then
        check k (kv_workspace env branch) (\<lambda>dir.
        and_then (snapshot_step env inp k branch step actor dir (oc_replay_class oc)) report)
      else case workspace_delta oc of
        Some delta \<Rightarrow>
          (case validate_workspace_delta delta writable of
             Err refusal \<Rightarrow>
               deny_connector_step env inp (discard_at env (ro_executor ro) branch k) w b step actor
                 (delta_denial env (bp_name p) writable refusal)
           | Ok _ \<Rightarrow>
               check k (kv_workspace env branch) (\<lambda>dir.
               and_then (synced_node env inp k (ro_executor ro) branch (br_head b) step actor dir delta
                           (oc_replay_class oc)) report))
      | None \<Rightarrow> and_then (audit_node k inp branch step actor) report)"

definition execution_request :: "Branch \<Rightarrow> ident \<Rightarrow> ident \<Rightarrow> Action \<Rightarrow> CompiledConfinement \<Rightarrow> ExecutionRequest" where
  "execution_request b branch actor action conf =
     \<lparr> rq_branch = branch, rq_base_state = br_head b, rq_actor = actor, rq_action = act_kind action,
       rq_budget = act_budget action, rq_writable_prefixes = cc_writable_prefixes conf,
       rq_readable_prefixes = cc_readable_prefixes conf, rq_egress_domains = cc_egress_domains conf \<rparr>"

text \<open>How the scheduler's answer becomes the result of the step.\<close>

definition conclude_run ::
  "'w KernelEnv \<Rightarrow> StepInput \<Rightarrow> 'w Kernel \<Rightarrow> EventWriter \<Rightarrow> Branch \<Rightarrow> ident \<Rightarrow> ident \<Rightarrow> ident \<Rightarrow> Action
    \<Rightarrow> CompiledConfinement \<Rightarrow> int \<Rightarrow> RoutedOutcome KernelResult \<Rightarrow> ('w, StepResult) kernel_op" where
  "conclude_run env inp k w b branch step actor action conf tool r =
     (case r of
        Ok ro \<Rightarrow> record_run env inp k w b branch step actor (act_kind action) (cc_writable_prefixes conf) ro tool
      | Err (Denied d) \<Rightarrow> deny_connector_step env inp k w b step actor d
      | Err (BackendUnavailable bk reason) \<Rightarrow>
          if bk = ''router''
          then deny_connector_step env inp k w b step actor (router_denial (act_kind action) reason)
          else Some (k, Err (BackendUnavailable bk reason))
      | Err e \<Rightarrow> Some (k, Err e))"

definition execute_local ::
  "'w KernelEnv \<Rightarrow> StepInput \<Rightarrow> 'w Kernel \<Rightarrow> EventWriter \<Rightarrow> Branch \<Rightarrow> ident \<Rightarrow> ident \<Rightarrow> ident \<Rightarrow> Action
    \<Rightarrow> CompiledConfinement \<Rightarrow> ('w, StepResult) kernel_op" where
  "execute_local env inp k w b branch step actor action conf =
     and_then (log_event env k w ToolInvocation (invocation_json True action []) [] (in_time inp 3)) (\<lambda>k tool.
     case sched_execute_step (kv_sched env) (kv_execute env) (in_clock inp) (k_sched k) (k_world k, k_spaces k)
            (br_episode b) step (execution_request b branch actor action conf)
            (risk_tier_of (cc_risk_weight conf)) (needs_of (act_kind action)) of
       None \<Rightarrow> None
     | Some (s, (world, spaces), r) \<Rightarrow>
        conclude_run env inp (k\<lparr> k_sched := s, k_world := world, k_spaces := spaces \<rparr>) w b branch step actor
          action conf tool r)"

section \<open>The step pipeline\<close>

definition applied_json :: "TraceQuery \<Rightarrow> json" where
  "applied_json q = JObj
     [(''kinds'', JArr (map (\<lambda>x. JStr (kind_as_str x)) (tq_kinds q))), (''branch'', json_of_option (tq_branch q)),
      (''step'', json_of_option (tq_step q)), (''principal'', json_of_option (tq_principal q)),
      (''limit'', case tq_limit q of None \<Rightarrow> JNull | Some n \<Rightarrow> JInt (int n))]"

definition branch_diff :: "'w KernelEnv \<Rightarrow> 'w Kernel \<Rightarrow> ident \<Rightarrow> ident option \<Rightarrow> FileChange list KernelResult" where
  "branch_diff env k branch since =
     (case load_branch (dd_dag (k_dag k)) branch of Err e \<Rightarrow> Err e | Ok b \<Rightarrow>
      dag_diff (kv_dag env) (dd_dag (k_dag k)) (case since of Some s \<Rightarrow> s | None \<Rightarrow> base_state b) (br_head b))"

definition trace_query_step ::
  "'w KernelEnv \<Rightarrow> StepInput \<Rightarrow> 'w Kernel \<Rightarrow> EventWriter \<Rightarrow> Branch \<Rightarrow> ident \<Rightarrow> ident \<Rightarrow> ident \<Rightarrow> Action \<Rightarrow> string
    \<Rightarrow> ('w, StepResult) kernel_op" where
  "trace_query_step env inp k w b branch step actor action text =
     (let q = parse_trace_query (br_episode b) text in
      check k (query (kv_ledger env) (k_ledger k) q) (\<lambda>evs.
      and_then (keep_raw env k (kv_events_bytes env evs)) (\<lambda>k full.
      finish_metadata_step env inp k w branch step actor action
        (Success (''trace query `'' @ text @ ''` returned '' @ kv_show_nat env (length evs) @ '' events'')
           (Some (JObj [(''count'', JInt (int (length evs))), (''applied'', applied_json q)])) None None 0 full False))))"

definition branch_diff_step ::
  "'w KernelEnv \<Rightarrow> StepInput \<Rightarrow> 'w Kernel \<Rightarrow> EventWriter \<Rightarrow> ident \<Rightarrow> ident \<Rightarrow> ident \<Rightarrow> Action \<Rightarrow> ident
    \<Rightarrow> ('w, StepResult) kernel_op" where
  "branch_diff_step env inp k w branch step actor action since =
     check k (branch_diff env k branch (Some since)) (\<lambda>changes.
     let doc = JArr (map file_change_json changes) in
     and_then (keep_raw env k (kv_compact env doc)) (\<lambda>k full.
     finish_metadata_step env inp k w branch step actor action
       (Success (kv_show_nat env (length changes) @ '' file(s) changed since '' @ since)
          (Some doc) None None 0 full False)))"

definition perform_action ::
  "'w KernelEnv \<Rightarrow> StepInput \<Rightarrow> 'w Kernel \<Rightarrow> EventWriter \<Rightarrow> Branch \<Rightarrow> ident \<Rightarrow> ident \<Rightarrow> ident \<Rightarrow> Action
    \<Rightarrow> CompiledConfinement \<Rightarrow> ('w, StepResult) kernel_op" where
  "perform_action env inp k w b branch step actor action conf =
     (case act_kind action of
        ConnectorOp connector op params \<Rightarrow>
          propose_connector_op env inp k w b branch step actor action connector op params
      | HttpRead url \<Rightarrow> execute_http_read env inp k w b branch step actor action url (cc_egress_domains conf)
      | McpInvoke server tool args \<Rightarrow> execute_mcp_invoke env inp k w b branch step actor action server tool args
      | TraceQueryAction text \<Rightarrow> trace_query_step env inp k w b branch step actor action text
      | BranchDiffAction since \<Rightarrow> branch_diff_step env inp k w branch step actor action since
      | _ \<Rightarrow> execute_local env inp k w b branch step actor action conf)"

definition execute_step ::
  "'w KernelEnv \<Rightarrow> StepInput \<Rightarrow> 'w Kernel \<Rightarrow> ident \<Rightarrow> ident \<Rightarrow> Action \<Rightarrow> ('w, StepResult) kernel_op" where
  "execute_step env inp k actor branch action =
     (let step = in_step inp; now = in_time inp 0; kind = act_kind action;
          op = required_operation kind; params = action_params kind in
      check k (active_branch k branch) (\<lambda>b.
      check k (kernel_principal env k actor) (\<lambda>who.
      let w = step_writer b branch step actor; deny = deny_step env inp k w b step who in
      case lease_get (db_leases (k_identity k)) (act_lease action) of
        Err e \<Rightarrow> deny (unknown_lease_denial env op params (act_lease action) e)
      | Ok lease \<Rightarrow>
      (case lease_check lease actor op params (Some branch) now of
         Err failure \<Rightarrow> deny (denial_from_lease_failure env op params failure)
       | Ok _ \<Rightarrow>
      (if \<not> fits_within (act_budget action) (lease_budget lease)
       then deny (over_envelope_denial op params (act_budget action) (lease_budget lease))
       else
      (case evaluate (kv_add_seconds env) (kv_constraints env) (in_lease inp) (k_policy k) who op params
              (Some branch) now of
         None \<Rightarrow> None
       | Some (Deny d) \<Rightarrow> deny d
       | Some (RequireApproval rule _ _ _) \<Rightarrow> deny (approval_denial op params rule)
       | Some (Allow _ grant) \<Rightarrow>
      (case consume_use (db_leases (k_identity k)) (act_lease action) now of
         Err e \<Rightarrow> deny (denial_from_consume_failure env op params e)
       | Ok (leases, _) \<Rightarrow>
           perform_action env inp (k\<lparr> k_identity := (k_identity k)\<lparr> db_leases := leases \<rparr> \<rparr>) w b branch step actor
             action (confinement grant))))))))"

end
