(* ===== verification/KernelDemo.thy ===== *)
theory KernelDemo
  imports KernelSteps
begin

text \<open>
  A concrete kernel, small enough to evaluate: one agent with one lease on one branch, a policy that
  allows tool calls, and a tool server
  and a web connector whose calls are counted by the world. The policy's tool and egress lists are empty.
\<close>

section \<open>The environment\<close>

definition demo_tools :: "nat Connector" where
  "demo_tools = \<lparr>
     conn_canonicalize = (\<lambda>_ args. Ok args),
     conn_prepare = (\<lambda>w c. (w, Ok \<lparr> preview = JNull, observed_preconditions = JObj [] \<rparr>)),
     conn_commit = (\<lambda>w c. (Suc w, Ok \<lparr> response = JNull \<rparr>)),
     conn_probe_commit = (\<lambda>w c. (w, Ok ProbeUnknown)),
     conn_compensate = (\<lambda>w c. (w, Ok \<lparr> response = JNull \<rparr>)) \<rparr>"

definition demo_broker_env :: "nat BrokerEnv" where
  "demo_broker_env = \<lparr> connectors = (\<lambda>name. if name = ''docs'' \<or> name = ''http'' then Some demo_tools else None),
     hash_json = (\<lambda>_. ''h''), canon = (\<lambda>_. []), sign = (\<lambda>_. (''sig'', ''kid'')),
     show_json = (\<lambda>_. []), show_time = (\<lambda>_. []), show_error = (\<lambda>_. []) \<rparr>"

definition demo_kernel_env :: "nat KernelEnv" where
  "demo_kernel_env = \<lparr>
     kv_dag = \<lparr> sha = (\<lambda>_. []), ser = (\<lambda>_. []), parse_manifest = (\<lambda>_. None) \<rparr>,
     kv_fs = \<lparr> other_stat = (\<lambda>_. None), link_writable = (\<lambda>_. False) \<rparr>,
     kv_ledger = demo_ledger_env,
     kv_broker = demo_broker_env,
     kv_sched = \<lparr> route_reason = (\<lambda>_ _ _. []), to_lowercase = (\<lambda>s. s), show_u64 = (\<lambda>_. []),
                  path_join = (\<lambda>a b. a @ ''/'' @ b), make_dir = (\<lambda>_. Ok ()) \<rparr>,
     kv_add_seconds = demo_add_seconds,
     kv_constraints = (\<lambda>_. JNull),
     kv_classify = (\<lambda>_ op _. if op = ''docs.search'' \<or> op = ''http.get'' then Pure else Irreversible),
     kv_execute = (\<lambda>_ _ x. (x, Err (Io []))),
     kv_local = twin 0,
     kv_fork = (\<lambda>_ _ _ x. (x, Ok False)),
     kv_root_workspace = None,
     kv_discard = (\<lambda>_ _ x. (x, Ok ())),
     kv_workspace = (\<lambda>b. Ok b),
     kv_remove_via_link = (\<lambda>_ _. Ok ()),
     kv_replay = (\<lambda>_ x. (x, Err (Io []))),
     kv_scratch = Err (Io []),
     kv_parse_action = (\<lambda>_. Err (Io [])), kv_parse_ident = (\<lambda>_. Err (Io [])), kv_parse_budget = (\<lambda>_. None),
     kv_parse_denial = (\<lambda>_. None),
     kv_events_bytes = (\<lambda>_. []), kv_pretty = (\<lambda>_. []), kv_compact = (\<lambda>_. []),
     kv_show_identity = (\<lambda>_. []), kv_show_time = (\<lambda>_. []), kv_show_i32 = (\<lambda>_. []), kv_show_nat = (\<lambda>_. []),
     kv_delta_text = (\<lambda>_ _ _. []) \<rparr>"

section \<open>The kernel\<close>

definition demo_root_hash :: string where
  "demo_root_hash = ''sha256:'' @ replicate 64 CHR ''0''"

definition demo_root_node :: StateNode where
  "demo_root_node = \<lparr> st_id = ''st-0'', st_episode = ''ep'', st_branch = ''main'', st_parent = None, produced_by = None,
     merge_parent = None, st_actor = ''pr-a'', st_delta = default_delta, workspace_root = demo_root_hash,
     st_replay = AuditOnly, st_created = 0 \<rparr>"

definition demo_tool_lease :: CapabilityLease where
  "demo_tool_lease = \<lparr> lease_id = ''lease-1'', lease_principal = ''pr-a'', lease_operation = ''mcp.invoke'',
     lease_constraints = [], remaining_uses = 2, issued_at = 0, expires_at = 100, bound_branch = Some ''main'',
     lease_budget = step_default, parent_lease = None, lease_preconditions = [], revoked = False \<rparr>"

definition demo_tool_rule :: PolicyRule where
  "demo_tool_rule = \<lparr> rule_id = ''tools'',
     rule_principals = \<lparr> sel_ids = [], sel_kinds = [], min_trust = None, max_trust = None \<rparr>,
     rule_operations = [''mcp.invoke''], rule_effect = EffectAllow, rule_constraints = [], max_uses = 3,
     ttl_seconds = 600, rule_budget = None, risk_weight = 2, rule_note = None \<rparr>"

definition demo_policy :: PolicyDocument where
  "demo_policy = \<lparr> policy_epoch = 1, doc_rules = [demo_tool_rule],
     doc_paths = \<lparr> readable_prefixes = [], writable_prefixes = [] \<rparr>,
     egress_domains = [], doc_tools = \<lparr> allowed_servers = [], allowed_tools = [] \<rparr>,
     escalation = \<lparr> allow_requests = False, requestable = [] \<rparr> \<rparr>"

definition demo_kernel :: "nat Kernel" where
  "demo_kernel = \<lparr>
     k_dag = \<lparr> dd_dag = \<lparr> dag_episodes = [], dag_states = [(''st-0'', demo_root_node)],
                 dag_branches = [(''main'', \<lparr> brow_episode = ''ep'', brow_base = ''st-0'', brow_head = ''st-0'',
                                    brow_status = ''active'', brow_created = 0 \<rparr>)],
                 dag_cas = [(demo_root_hash, [])] \<rparr>, dd_caches = [] \<rparr>,
     k_ledger = empty_ledger,
     k_identity = \<lparr> db_principals = [(''pr-a'', new_agent ''pr-a'' ''a'')], db_leases = [(''lease-1'', demo_tool_lease)],
                    db_delegations = [] \<rparr>,
     k_policy = demo_policy,
     k_broker = \<lparr> effects = [], receipts = [], commit_claims = [] \<rparr>,
     k_sched = \<lparr> sched_router = [], fanout = \<lparr> available = 1, closed = False \<rparr>, accounts = [],
                 default_episode_budget = step_default, records = [], paused = [], warm_pool = None \<rparr>,
     k_episodes = [], k_op_classes = [], k_connector_names = [''docs'', ''http''], k_spaces = [], k_world = 0 \<rparr>"

definition demo_input :: "ident \<Rightarrow> StepInput" where
  "demo_input st = \<lparr> in_step = ''step-1'', in_state = st, in_effect = ''fx-1'', in_lease = ''lease-9'',
     in_time = (\<lambda>_. 5), in_elapsed_ms = 0, in_clock = \<lparr> ck_queue_ms = 0, ck_exec_ms = 0, ck_now = 5 \<rparr> \<rparr>"

definition demo_action :: "string \<Rightarrow> string \<Rightarrow> Action" where
  "demo_action server tool = \<lparr> act_kind = McpInvoke server tool (JObj []), act_lease = ''lease-1'', intent_hint = None,
     act_budget = budget_zero \<rparr>"

section \<open>Its parts, evaluated\<close>

lemma demo_branch_active:
  "active_branch demo_kernel ''main'' = Ok \<lparr> br_id = ''main'', br_episode = ''ep'', base_state = ''st-0'',
     br_head = ''st-0'', br_status = BranchActive \<rparr>"
  by (simp add: active_branch_def demo_kernel_def load_branch_def status_parse_def tbl_get_def)

lemma demo_principal: "kernel_principal demo_kernel_env demo_kernel ''pr-a'' = Ok (new_agent ''pr-a'' ''a'')"
  by (simp add: kernel_principal_def demo_kernel_def registry_get_def tbl_get_def)

lemma demo_lease: "lease_get (db_leases (k_identity demo_kernel)) ''lease-1'' = Ok demo_tool_lease"
  by (simp add: lease_get_def demo_kernel_def tbl_get_def)

lemma demo_lease_check:
  "lease_check demo_tool_lease ''pr-a'' ''mcp.invoke'' params (Some ''main'') 5 = Ok ()"
  by (simp add: lease_check_Ok demo_tool_lease_def)

lemma demo_fits: "fits_within budget_zero (lease_budget demo_tool_lease)"
  by (simp add: fits_within_def budget_zero_def)

lemma demo_consume:
  "consume_use (db_leases (k_identity demo_kernel)) ''lease-1'' 5
     = Ok ([(''lease-1'', demo_tool_lease\<lparr> remaining_uses := 1 \<rparr>)], demo_tool_lease\<lparr> remaining_uses := 1 \<rparr>)"
  by (simp add: consume_use_def demo_kernel_def tbl_get_def lease_usable_def demo_tool_lease_def tbl_update_def Let_def)

lemma demo_allows:
  "\<exists>rule grant. evaluate demo_add_seconds (\<lambda>_. JNull) new_id demo_policy (new_agent ''pr-a'' ''a'') ''mcp.invoke'' params
     branch 5 = Some (Allow rule grant)"
proof -
  have applies: "rule_applies demo_tool_rule (new_agent ''pr-a'' ''a'') ''mcp.invoke''"
    and op: "matches_operation demo_tool_rule ''mcp.invoke''"
    by (simp_all add: rule_applies_def selector_matches_def matches_operation_def demo_tool_rule_def glob_match_def)
  have rule: "rule_effect demo_tool_rule = EffectAllow" "rule_constraints demo_tool_rule = []"
    by (simp_all add: demo_tool_rule_def)
  show ?thesis
    unfolding evaluate_Allow
    by (intro exI [of _ "rule_id demo_tool_rule"] exI [of _ demo_tool_rule])
       (simp add: demo_policy_def applies op rule compile_grant_plain demo_add_seconds_def)
qed

end
