(* ===== verification/KernelSafety.thy ===== *)
theory KernelSafety
  imports KernelDemo
begin

text \<open>
  What a step of the composed kernel can do: nothing but writing its own trace unless the lease,
  the budget, the policy and the lease store all admit it; no change of the state graph or the
  effect store when it is denied; no external call by a connector action unless the connector
  classified it as a pure read; and a complete trace in the ledger whenever it returns a result.
\<close>

section \<open>Decomposing operations\<close>

lemma and_then_SomeE:
  assumes "and_then m f = Some (k', r)"
  obtains (err) e where "m = Some (k', Err e)" "r = Err e"
  | (ok) k1 x where "m = Some (k1, Ok x)" "f k1 x = Some (k', r)"
  using assms by (auto simp: and_then_def split: option.splits prod.splits sum.splits)

lemma check_SomeE:
  assumes "check k v f = Some (k', r)"
  obtains (err) e where "v = Err e" "k' = k" "r = Err e" | (ok) x where "v = Ok x" "f x = Some (k', r)"
  using assms by (auto simp: check_def split: sum.splits)

text \<open>
  Writing the trace: events under one writer and raw outputs, in any number.
\<close>

inductive traced :: "'w KernelEnv \<Rightarrow> EventWriter \<Rightarrow> Ledger \<Rightarrow> Ledger \<Rightarrow> bool" for env w where
  nothing: "traced env w l l"
| event: "traced env w l l' \<Longrightarrow>
    traced env w l (fst (record_caused_by (kv_ledger env) l' w kind payload causes now))"
| raw: "traced env w l l' \<Longrightarrow> traced env w l (fst (store_raw (kv_ledger env) l' bs))"

lemma traced_trans: "traced env w l' l'' \<Longrightarrow> traced env w l l' \<Longrightarrow> traced env w l l''"
  by (induction rule: traced.induct) (auto intro: traced.intros)

definition only_traced :: "'w KernelEnv \<Rightarrow> EventWriter \<Rightarrow> 'w Kernel \<Rightarrow> 'w Kernel \<Rightarrow> bool" where
  "only_traced env w k k' \<longleftrightarrow> traced env w (k_ledger k) (k_ledger k') \<and> k' = k\<lparr> k_ledger := k_ledger k' \<rparr>"

text \<open>What no step changes after its lease use was consumed.\<close>

definition keeps :: "'w KernelEnv \<Rightarrow> EventWriter \<Rightarrow> 'w Kernel \<Rightarrow> 'w Kernel \<Rightarrow> bool" where
  "keeps env w k k' \<longleftrightarrow> traced env w (k_ledger k) (k_ledger k')
     \<and> k_identity k' = k_identity k \<and> k_policy k' = k_policy k \<and> k_episodes k' = k_episodes k
     \<and> k_op_classes k' = k_op_classes k \<and> k_connector_names k' = k_connector_names k"

lemma only_traced_fields:
  assumes "only_traced env w k k'"
  shows "traced env w (k_ledger k) (k_ledger k')" "k_dag k' = k_dag k" "k_identity k' = k_identity k"
    "k_policy k' = k_policy k" "k_broker k' = k_broker k" "k_sched k' = k_sched k"
    "k_episodes k' = k_episodes k" "k_op_classes k' = k_op_classes k"
    "k_connector_names k' = k_connector_names k" "k_spaces k' = k_spaces k" "k_world k' = k_world k"
proof -
  have t: "traced env w (k_ledger k) (k_ledger k')" and eq: "k' = k\<lparr> k_ledger := k_ledger k' \<rparr>"
    using assms by (simp_all add: only_traced_def)
  show "traced env w (k_ledger k) (k_ledger k')"
    by (rule t)
  show "k_dag k' = k_dag k" "k_identity k' = k_identity k"
    "k_policy k' = k_policy k" "k_broker k' = k_broker k" "k_sched k' = k_sched k"
    "k_episodes k' = k_episodes k" "k_op_classes k' = k_op_classes k"
    "k_connector_names k' = k_connector_names k" "k_spaces k' = k_spaces k" "k_world k' = k_world k"
    by (subst eq, simp)+
qed

lemma only_traced_refl [simp, intro]: "only_traced env w k k"
  by (simp add: only_traced_def traced.nothing)

lemma only_traced_trans: "only_traced env w k k1 \<Longrightarrow> only_traced env w k1 k2 \<Longrightarrow> only_traced env w k k2"
  unfolding only_traced_def by (metis Kernel.surjective Kernel.update_convs(2) traced_trans)

lemma only_traced_keeps: "only_traced env w k k' \<Longrightarrow> keeps env w k k'"
  by (simp add: keeps_def only_traced_fields)

lemma keeps_refl [simp, intro]: "keeps env w k k"
  by (simp add: keeps_def traced.nothing)

lemma keeps_trans: "keeps env w k k1 \<Longrightarrow> keeps env w k1 k2 \<Longrightarrow> keeps env w k k2"
  unfolding keeps_def by (auto intro: traced_trans)

lemma log_event_Some:
  "log_event env k w kind payload causes now = Some (k', r) \<longleftrightarrow>
     k' = k\<lparr> k_ledger := fst (record_caused_by (kv_ledger env) (k_ledger k) w kind payload causes now) \<rparr>
     \<and> r = map_sum id (\<lambda>ev. ev_seq (le_body ev)) (snd (record_caused_by (kv_ledger env) (k_ledger k) w kind payload causes now))"
  by (auto simp: log_event_def split: prod.splits)

lemma log_event_traced: "log_event env k w kind payload causes now = Some (k', r) \<Longrightarrow> only_traced env w k k'"
  by (auto simp: log_event_Some only_traced_def intro: traced.event [OF traced.nothing])

lemma log_event_Ok: "log_event env k w kind payload causes now = Some (k', Err e) \<Longrightarrow> False"
  by (auto simp: log_event_Some record_caused_by_def append_event_def Let_def split: option.splits prod.splits)

lemma keep_raw_traced:
  assumes "keep_raw env k bs = Some (k', r)"
  shows "only_traced env w k k'"
proof -
  have "k' = k\<lparr> k_ledger := fst (store_raw (kv_ledger env) (k_ledger k) bs) \<rparr>"
    using assms by (auto simp: keep_raw_def split: prod.splits)
  then show ?thesis
    by (simp add: only_traced_def traced.raw [OF traced.nothing])
qed

section \<open>What every way to end a step guarantees\<close>

fun emitted :: "Observation \<Rightarrow> json" where
  "emitted (ObsDenied d) = JObj [(''kind'', JStr ''denied''), (''code'', JStr (denial_code_name (denial_code d)))]"
| "emitted obs = observation_json obs"

definition concluded :: "'w KernelEnv \<Rightarrow> EventWriter \<Rightarrow> 'w Kernel \<Rightarrow> 'w Kernel \<Rightarrow> StepResult \<Rightarrow> bool" where
  "concluded env w k k' res \<longleftrightarrow> (\<exists>l causes now. traced env w (k_ledger k) l
     \<and> k_ledger k' = fst (record_caused_by (kv_ledger env) l w ObservationEmitted
                           (emitted (res_observation res)) causes now))"

definition head_is :: "'w Kernel \<Rightarrow> ident \<Rightarrow> ident \<Rightarrow> bool" where
  "head_is k branch st \<longleftrightarrow> (\<exists>b. load_branch (dd_dag (k_dag k)) branch = Ok b \<and> br_head b = st)"

definition denies :: "StepResult KernelResult \<Rightarrow> bool" where
  "denies r \<longleftrightarrow> (case r of Ok res \<Rightarrow> is_denial (res_observation res) | Err _ \<Rightarrow> False)"

definition step_summary ::
  "'w KernelEnv \<Rightarrow> EventWriter \<Rightarrow> ident \<Rightarrow> Branch \<Rightarrow> ident \<Rightarrow> 'w Kernel \<Rightarrow> 'w Kernel \<Rightarrow> StepResult KernelResult \<Rightarrow> bool" where
  "step_summary env w step b branch k k' r \<longleftrightarrow> keeps env w k k'
     \<and> (denies r \<longrightarrow> dd_dag (k_dag k') = dd_dag (k_dag k) \<and> k_broker k' = k_broker k)
     \<and> (\<forall>res. r = Ok res \<longrightarrow> concluded env w k k' res \<and> res_step res = step
          \<and> (if denies r then res_state res = br_head b else head_is k' branch (res_state res)))"

lemma step_summary_Err: "keeps env w k k' \<Longrightarrow> step_summary env w step b branch k k' (Err e)"
  by (simp add: step_summary_def denies_def)

lemma step_summary_after:
  assumes "keeps env w k k1" "step_summary env w step b branch k1 k' r"
    and "denies r \<Longrightarrow> dd_dag (k_dag k1) = dd_dag (k_dag k) \<and> k_broker k1 = k_broker k"
  shows "step_summary env w step b branch k k' r"
proof -
  have "concluded env w k k' res" if "concluded env w k1 k' res" for res
    using that assms(1) unfolding concluded_def keeps_def by (metis traced_trans)
  then show ?thesis
    using assms keeps_trans unfolding step_summary_def by metis
qed

lemma concludedI:
  assumes "traced env w (k_ledger k) (k_ledger k1)" "emitted (res_observation res) = payload"
    and "log_event env k1 w ObservationEmitted payload causes now = Some (k2, r)"
  shows "concluded env w k k2 res"
  unfolding concluded_def using assms by (intro exI [of _ "k_ledger k1"] exI [of _ causes] exI [of _ now])
    (simp add: log_event_Some)

lemma deny_step_summary:
  assumes "deny_step env inp k w b step who denial = Some (k', r)"
  shows "only_traced env w k k' \<and> step_summary env w step b branch k k' r"
  using assms unfolding deny_step_def Let_def
proof (elim and_then_SomeE)
  fix k1 seq k2 u
  assume ev: "log_event env k w DenialIssued (denial_json (redact_for denial (trust who))) [] (in_time inp 8) = Some (k1, Ok seq)"
    and obs: "log_event env k1 w ObservationEmitted (JObj [(''kind'', JStr ''denied''),
        (''code'', JStr (denial_code_name (denial_code (redact_for denial (trust who)))))]) [seq] (in_time inp 9) = Some (k2, Ok u)"
    and res: "Some (k2, Ok \<lparr> res_step = step, res_state = br_head b, res_observation = ObsDenied (redact_for denial (trust who)) \<rparr>) = Some (k', r)"
  have t1: "only_traced env w k k1" and t2: "only_traced env w k1 k2"
    using ev obs log_event_traced by blast+
  have t: "only_traced env w k k'"
    using only_traced_trans [OF t1 t2] res by simp
  have "concluded env w k k' \<lparr> res_step = step, res_state = br_head b, res_observation = ObsDenied (redact_for denial (trust who)) \<rparr>"
    using concludedI [OF only_traced_fields(1) [OF t1] _ obs] res by simp
  then show ?thesis
    using t only_traced_keeps [OF t] only_traced_fields(2,5) [OF t] res
    by (auto simp: step_summary_def denies_def)
qed (auto dest: log_event_Ok)

lemma deny_connector_step_summary:
  assumes "deny_connector_step env inp k w b step actor denial = Some (k', r)"
  shows "only_traced env w k k' \<and> step_summary env w step b branch k k' r"
  using assms unfolding deny_connector_step_def
proof (elim check_SomeE)
  show ?thesis if "k' = k" "r = Err e" for e
    using that by (simp add: step_summary_Err)
qed (use deny_step_summary in blast)

lemma emit_summary:
  assumes "emit env inp k w step node cause obs = Some (k', r)" "\<not> is_denial obs" "head_is k branch (st_id node)"
  shows "only_traced env w k k' \<and> step_summary env w step b branch k k' r \<and> \<not> denies r"
  using assms(1) unfolding emit_def
proof (elim and_then_SomeE)
  fix k1 seq k2 u
  assume ev: "log_event env k w StateDeltaRecorded (node_json node) [cause] (in_time inp 5) = Some (k1, Ok seq)"
    and obs: "log_event env k1 w ObservationEmitted (observation_json obs) [seq] (in_time inp 6) = Some (k2, Ok u)"
    and res: "Some (k2, Ok \<lparr> res_step = step, res_state = st_id node, res_observation = obs \<rparr>) = Some (k', r)"
  have t1: "only_traced env w k k1" and t2: "only_traced env w k1 k2"
    using ev obs log_event_traced by blast+
  have t: "only_traced env w k k'"
    using only_traced_trans [OF t1 t2] res by simp
  have em: "emitted obs = observation_json obs"
    using assms(2) by (cases obs) auto
  have "concluded env w k k' \<lparr> res_step = step, res_state = st_id node, res_observation = obs \<rparr>"
    using concludedI [OF only_traced_fields(1) [OF t1] _ obs] res em by simp
  moreover have "head_is k' branch (st_id node)"
    using assms(3) only_traced_fields(2) [OF t] by (simp add: head_is_def)
  ultimately show ?thesis
    using t only_traced_keeps [OF t] res assms(2) by (auto simp: step_summary_def denies_def)
qed (auto dest: log_event_Ok)

section \<open>Advancing the branch head\<close>

definition advances :: "'w KernelEnv \<Rightarrow> EventWriter \<Rightarrow> ident \<Rightarrow> 'w Kernel \<Rightarrow> 'w Kernel \<Rightarrow> StateNode KernelResult \<Rightarrow> bool" where
  "advances env w branch k k' r \<longleftrightarrow> keeps env w k k' \<and> (\<forall>node. r = Ok node \<longrightarrow> head_is k' branch (st_id node))"

lemma append_step_head:
  assumes "append_step d branch step actor delta wroot replay new_st now = (d', Ok node)"
  shows "\<exists>b. load_branch d' branch = Ok b \<and> br_head b = st_id node"
  using assms
  by (auto simp: append_step_def load_branch_def insert_state_def set_head_def Let_def
      split: sum.splits option.splits bool.splits if_splits)

lemma append_node_advances:
  assumes "append_node k branch step actor delta wroot replay new_st now = Some (k', r)"
  shows "advances env w branch k k' r" "k_broker k' = k_broker k" "k_world k' = k_world k"
  using assms append_step_head
  by (fastforce simp: append_node_def advances_def keeps_def head_is_def traced.nothing split: prod.splits)+

lemma snapshot_step_advances:
  assumes "snapshot_step env inp k branch step actor dir replay = Some (k', r)"
  shows "advances env w branch k k' r"
proof -
  obtain dd where eq: "snapshot_and_append (kv_dag env) (k_dag k) branch step actor dir (tree (space_of k branch)) replay
      (in_state inp) (in_time inp 4) = (dd, r)" and k': "k' = k\<lparr> k_dag := dd \<rparr>"
    using assms by (auto simp: snapshot_step_def split: prod.splits)
  have "\<exists>b. load_branch (dd_dag dd) branch = Ok b \<and> br_head b = st_id node" if "r = Ok node" for node
    using eq that append_step_head unfolding snapshot_and_append_def
    by (fastforce simp: Let_def split: sum.splits prod.splits)
  then show ?thesis
    by (auto simp: advances_def keeps_def head_is_def k' traced.nothing)
qed

lemma put_stat_cache_dag [simp]: "dd_dag (put_stat_cache dir cache d) = dd_dag d"
  by (simp add: put_stat_cache_def)

lemma materialize_branch_keeps:
  assumes "materialize_branch env k branch state dir now = (k', r)"
  shows "keeps env w k k'" "dd_dag (k_dag k') = dd_dag (k_dag k)" "k_broker k' = k_broker k"
  using assms
  by (auto simp: materialize_branch_def dag_materialize_def set_space_def keeps_def traced.nothing
      split: prod.splits sum.splits)

lemma discard_at_keeps:
  "keeps env w k (discard_at env bk branch k)" "dd_dag (k_dag (discard_at env bk branch k)) = dd_dag (k_dag k)"
  "k_broker (discard_at env bk branch k) = k_broker k"
  by (auto simp: discard_at_def keeps_def traced.nothing split: prod.splits)

lemma set_space_keeps: "keeps env w k (set_space branch x k)"
  by (simp add: set_space_def keeps_def traced.nothing)

lemma advances_after: "keeps env w k k1 \<Longrightarrow> advances env w branch k1 k' r \<Longrightarrow> advances env w branch k k' r"
  by (auto simp: advances_def intro: keeps_trans)

lemma advances_Err: "keeps env w k k' \<Longrightarrow> advances env w branch k k' (Err e)"
  by (simp add: advances_def)

lemma synced_transition_advances:
  assumes "synced_transition env inp k branch base step actor dir delta replay = Some (k', r)"
  shows "advances env w branch k k' r"
proof -
  obtain k1 m where mat: "materialize_branch env k branch base dir (in_time inp 10) = (k1, m)"
    by fastforce
  obtain x a where app: "apply_workspace_delta env (in_time inp 11) delta (space_of k1 branch) = (x, a)"
    by fastforce
  have k1: "keeps env w k k1" and k2: "keeps env w k (set_space branch x k1)"
    using materialize_branch_keeps(1) [OF mat] set_space_keeps keeps_trans by blast+
  show ?thesis
    using assms mat app k1 k2 advances_after [OF k2 snapshot_step_advances]
    by (auto simp: synced_transition_def intro: advances_Err split: sum.splits)
qed

lemma synced_node_advances:
  assumes "synced_node env inp k bk branch base step actor dir delta replay = Some (k', r)"
  shows "advances env w branch k k' r"
proof -
  obtain k1 m where tr: "synced_transition env inp k branch base step actor dir delta replay = Some (k1, m)"
    using assms by (auto simp: synced_node_def split: option.splits)
  have adv: "advances env w branch k k1 m"
    using synced_transition_advances [OF tr] .
  obtain k2 rb where mat: "materialize_branch env k1 branch base dir (in_time inp 12) = (k2, rb)"
    by fastforce
  have "keeps env w k k2"
    using adv materialize_branch_keeps(1) [OF mat] by (auto simp: advances_def intro: keeps_trans)
  then have "keeps env w k (discard_at env bk branch k2)"
    by (rule keeps_trans [OF _ discard_at_keeps(1)])
  then show ?thesis
    using assms adv tr mat by (auto simp: synced_node_def intro: advances_Err split: sum.splits)
qed

lemma audit_node_advances:
  assumes "audit_node k inp branch step actor = Some (k', r)"
  shows "advances env w branch k k' r"
  using assms append_node_advances(1) by (auto simp: audit_node_def intro: advances_Err elim!: check_SomeE)

section \<open>Steps that complete\<close>

definition completes ::
  "'w KernelEnv \<Rightarrow> EventWriter \<Rightarrow> ident \<Rightarrow> Branch \<Rightarrow> ident \<Rightarrow> 'w Kernel \<Rightarrow> 'w Kernel \<Rightarrow> StepResult KernelResult \<Rightarrow> bool" where
  "completes env w step b branch k k' r \<longleftrightarrow> step_summary env w step b branch k k' r \<and> \<not> denies r"

lemma completes_Err: "keeps env w k k' \<Longrightarrow> completes env w step b branch k k' (Err e)"
  by (simp add: completes_def step_summary_Err) (simp add: denies_def)

lemma completes_after:
  "keeps env w k k1 \<Longrightarrow> completes env w step b branch k1 k' r \<Longrightarrow> completes env w step b branch k k' r"
  unfolding completes_def using step_summary_after by blast

lemma completes_and_then:
  assumes "and_then m f = Some (k', r)"
    and "\<And>k1 x. m = Some (k1, x) \<Longrightarrow> keeps env w k k1"
    and "\<And>k1 x. m = Some (k1, Ok x) \<Longrightarrow> f k1 x = Some (k', r) \<Longrightarrow> completes env w step b branch k1 k' r"
  shows "completes env w step b branch k k' r"
  using assms(1)
proof (cases rule: and_then_SomeE)
  case (err e)
  then show ?thesis
    using completes_Err [OF assms(2) [OF err(1)]] by simp
next
  case (ok k1 x)
  then show ?thesis
    using completes_after [OF assms(2) [OF ok(1)] assms(3) [OF ok]] by simp
qed

lemma completes_check:
  assumes "check k v f = Some (k', r)"
    and "\<And>x. v = Ok x \<Longrightarrow> f x = Some (k', r) \<Longrightarrow> completes env w step b branch k k' r"
  shows "completes env w step b branch k k' r"
  using assms(1) by (cases rule: check_SomeE) (auto intro: assms(2) completes_Err [OF keeps_refl])

lemmas keeps_steps = only_traced_keeps [OF log_event_traced] only_traced_keeps [OF keep_raw_traced]

lemma completes_log:
  assumes "and_then (log_event env k w kind payload causes now) f = Some (k', r)"
    and "\<And>k1 seq. log_event env k w kind payload causes now = Some (k1, Ok seq) \<Longrightarrow> f k1 seq = Some (k', r) \<Longrightarrow>
           completes env w step b branch k1 k' r"
  shows "completes env w step b branch k k' r"
  by (rule completes_and_then [OF assms(1) keeps_steps(1) assms(2)])

lemma completes_raw:
  assumes "and_then (keep_raw env k raw) f = Some (k', r)"
    and "\<And>k1 full. keep_raw env k raw = Some (k1, Ok full) \<Longrightarrow> f k1 full = Some (k', r) \<Longrightarrow>
           completes env w step b branch k1 k' r"
  shows "completes env w step b branch k k' r"
  by (rule completes_and_then [OF assms(1) keeps_steps(2) assms(2)])

lemma emit_completes:
  assumes "emit env inp k w step node cause obs = Some (k', r)" "\<not> is_denial obs" "head_is k branch (st_id node)"
  shows "completes env w step b branch k k' r"
  using emit_summary [OF assms] by (simp add: completes_def)

lemma head_is_traced: "only_traced env w k k' \<Longrightarrow> head_is k' branch st = head_is k branch st"
  by (simp add: head_is_def only_traced_fields)

lemma append_emit_completes:
  assumes "and_then (append_node k branch step actor delta wroot replay new_st now) (\<lambda>k node.
             emit env inp k w step node cause obs) = Some (k', r)"
    and "\<not> is_denial obs"
  shows "completes env w step b branch k k' r"
proof (rule completes_and_then [OF assms(1)])
  show "keeps env w k k1" if "append_node k branch step actor delta wroot replay new_st now = Some (k1, x)" for k1 x
    using append_node_advances(1) [OF that] by (simp add: advances_def)
  show "completes env w step b branch k1 k' r"
    if "append_node k branch step actor delta wroot replay new_st now = Some (k1, Ok node)"
      "emit env inp k1 w step node cause obs = Some (k', r)" for k1 node
    using emit_completes [OF that(2) assms(2)] append_node_advances(1) [OF that(1)] by (simp add: advances_def)
qed

lemma finish_metadata_step_completes:
  assumes "finish_metadata_step env inp k w branch step actor action obs = Some (k', r)" "\<not> is_denial obs"
  shows "completes env w step b branch k k' r"
  using assms(1) unfolding finish_metadata_step_def
  by (elim completes_check completes_log append_emit_completes [OF _ assms(2)])

lemma report_run_completes:
  assumes "report_run env inp k w step kind p oc tool node = Some (k', r)" "head_is k branch (st_id node)"
  shows "completes env w step b branch k k' r"
  using assms(1) unfolding report_run_def Let_def
proof (elim completes_log)
  fix k1 seq
  assume log: "log_event env k w StateDeltaRecorded (node_json node) [tool] (in_time inp 5) = Some (k1, Ok seq)"
    and rest: "and_then (keep_raw env k1 (combined_output oc)) (\<lambda>k full_output.
      and_then (log_event env k w ObservationEmitted
        (observation_json (run_observation env kind p oc node full_output)) [seq] (in_time inp 6)) (\<lambda>k _.
      Some (k, Ok \<lparr> res_step = step, res_state = st_id node,
                    res_observation = run_observation env kind p oc node full_output \<rparr>))) = Some (k', r)"
  have head: "head_is k1 branch (st_id node)"
    using assms(2) log_event_traced [OF log] head_is_traced by blast
  show "completes env w step b branch k1 k' r"
    using rest
  proof (elim completes_raw)
    fix k2 out
    let ?obs = "run_observation env kind p oc node out"
    assume raw: "keep_raw env k1 (combined_output oc) = Some (k2, Ok out)"
      and "and_then (log_event env k2 w ObservationEmitted (observation_json ?obs) [seq] (in_time inp 6)) (\<lambda>k _.
        Some (k, Ok \<lparr> res_step = step, res_state = st_id node, res_observation = ?obs \<rparr>)) = Some (k', r)"
    then obtain u where obs: "log_event env k2 w ObservationEmitted (observation_json ?obs) [seq] (in_time inp 6) = Some (k', u)"
      and r: "r = Ok \<lparr> res_step = step, res_state = st_id node, res_observation = ?obs \<rparr>"
      by (elim and_then_SomeE) (auto dest: log_event_Ok)
    have em: "emitted ?obs = observation_json ?obs" and nd: "\<not> is_denial ?obs"
      by (auto simp: run_observation_def Let_def)
    have t: "only_traced env w k2 k'"
      using log_event_traced [OF obs] .
    have "head_is k' branch (st_id node)"
      using head head_is_traced [OF keep_raw_traced [OF raw]] head_is_traced [OF t] by blast
    then show "completes env w step b branch k2 k' r"
      using concludedI [OF traced.nothing _ obs] em nd only_traced_keeps [OF t]
      by (simp add: completes_def step_summary_def denies_def r)
  qed
qed

section \<open>Every action ends well\<close>

lemma propose_connector_op_completes:
  assumes "propose_connector_op env inp k w b branch step actor action connector op op_params = Some (k', r)"
  shows "completes env w step b branch k k' r"
proof -
  have broker: "keeps env w k (k\<lparr> k_broker := bk \<rparr>)" for bk
    by (simp add: keeps_def traced.nothing)
  show ?thesis
    using assms unfolding propose_connector_op_def Let_def
    by (auto split: prod.splits sum.splits intro: completes_Err [OF keeps_refl]
        intro!: completes_after [OF broker] elim!: completes_log completes_check append_emit_completes)
qed

lemma read_success_not_denial: "\<not> is_denial (read_success env full_op raw data full_output ms)"
  by (simp add: read_success_def Let_def)

lemma connector_read_run:
  assumes "connector_read env inp k conn ctr = Some (k', r)"
  shows "only_traced env w (k\<lparr> k_world := fst (conn_commit conn (k_world k) ctr) \<rparr>) k'"
    "r = Ok obs \<Longrightarrow> \<not> is_denial obs"
  using assms
  by (auto simp: connector_read_def Let_def read_success_not_denial intro: keep_raw_traced elim!: and_then_SomeE
      split: prod.splits sum.splits)

lemma execute_read_via_connector_completes:
  assumes "execute_read_via_connector env inp k w b branch step actor action conn full_op res args = Some (k', r)"
  shows "completes env w step b branch k k' r"
  using assms unfolding execute_read_via_connector_def
proof (elim completes_log completes_and_then)
  fix k1 :: "'a Kernel" and tool k2 x
  let ?ctr = "read_contract full_op res args b step"
  assume "connector_read env inp k1 conn ?ctr = Some (k2, x)"
  then have "only_traced env w (k1\<lparr> k_world := fst (conn_commit conn (k_world k1) ?ctr) \<rparr>) k2"
    by (rule connector_read_run(1))
  then have "keeps env w (k1\<lparr> k_world := fst (conn_commit conn (k_world k1) ?ctr) \<rparr>) k2"
    by (rule only_traced_keeps)
  then show "keeps env w k1 k2"
    by (simp add: keeps_def)
qed (auto dest: connector_read_run(2) elim!: completes_check append_emit_completes)

lemma completes_summary: "completes env w step b branch k k' r \<Longrightarrow> step_summary env w step b branch k k' r"
  by (simp add: completes_def)

lemma advances_report_completes:
  assumes "and_then m (\<lambda>k node. report_run env inp k w step kind p oc tool node) = Some (k', r)"
    and "\<And>k1 x. m = Some (k1, x) \<Longrightarrow> advances env w branch k k1 x"
  shows "completes env w step b branch k k' r"
proof (rule completes_and_then [OF assms(1)])
  show "keeps env w k k1" if "m = Some (k1, x)" for k1 x
    using assms(2) [OF that] by (simp add: advances_def)
  show "completes env w step b branch k1 k' r"
    if "m = Some (k1, Ok node)" "report_run env inp k1 w step kind p oc tool node = Some (k', r)" for k1 node
    using report_run_completes [OF that(2)] assms(2) [OF that(1)] by (simp add: advances_def)
qed

lemma discard_then_deny_summary:
  assumes "deny_connector_step env inp (discard_at env bk branch' k) w b step actor denial = Some (k', r)"
  shows "step_summary env w step b branch k k' r"
  using step_summary_after [OF discard_at_keeps(1) conjunct2 [OF deny_connector_step_summary [OF assms]]]
  by (simp add: discard_at_keeps)

lemma record_run_summary:
  assumes "record_run env inp k w b branch step actor kind writable ro tool = Some (k', r)"
  shows "step_summary env w step b branch k k' r"
  using assms unfolding record_run_def Let_def
  by (auto split: if_splits option.splits sum.splits
      intro!: completes_summary intro: snapshot_step_advances synced_node_advances audit_node_advances
      elim!: discard_then_deny_summary completes_check advances_report_completes)

lemma scheduled_keeps: "keeps env w k (k\<lparr> k_sched := s, k_world := x, k_spaces := y \<rparr>)"
  by (simp add: keeps_def traced.nothing)

lemma log_summary:
  assumes "and_then (log_event env k w kind payload causes now) f = Some (k', r)"
    and "\<And>k1 seq. f k1 seq = Some (k', r) \<Longrightarrow> step_summary env w step b branch k1 k' r"
  shows "step_summary env w step b branch k k' r"
  using assms(1)
proof (cases rule: and_then_SomeE)
  case (ok k1 seq)
  have t: "only_traced env w k k1"
    using log_event_traced [OF ok(1)] .
  show ?thesis
    using step_summary_after [OF only_traced_keeps [OF t] assms(2) [OF ok(2)]] only_traced_fields(2,5) [OF t] by simp
qed (use log_event_Ok in blast)

lemma conclude_run_summary:
  assumes "conclude_run env inp k w b branch step actor action conf tool x = Some (k', r)"
  shows "step_summary env w step b branch k k' r"
proof (cases x)
  case (Inl e)
  then show ?thesis
    using assms conjunct2 [OF deny_connector_step_summary]
    by (cases e) (auto simp: conclude_run_def step_summary_Err split: if_splits)
next
  case (Inr ro)
  then show ?thesis
    using assms record_run_summary by (simp add: conclude_run_def)
qed

lemma execute_local_summary:
  assumes "execute_local env inp k w b branch step actor action conf = Some (k', r)"
  shows "step_summary env w step b branch k k' r"
  using assms unfolding execute_local_def
proof (rule log_summary)
  fix k1 :: "'a Kernel" and tool
  let ?run = "sched_execute_step (kv_sched env) (kv_execute env) (in_clock inp) (k_sched k1) (k_world k1, k_spaces k1)
            (br_episode b) step (execution_request b branch actor action conf)
            (risk_tier_of (cc_risk_weight conf)) (needs_of (act_kind action))"
  assume "(case ?run of None \<Rightarrow> None
     | Some (s, (world, spaces), r) \<Rightarrow>
        conclude_run env inp (k1\<lparr> k_sched := s, k_world := world, k_spaces := spaces \<rparr>) w b branch step actor
          action conf tool r) = Some (k', r)"
  then obtain s world spaces where
    "step_summary env w step b branch (k1\<lparr> k_sched := s, k_world := world, k_spaces := spaces \<rparr>) k' r"
    by (auto dest: conclude_run_summary split: option.splits prod.splits)
  then show "step_summary env w step b branch k1 k' r"
    by (rule step_summary_after [OF scheduled_keeps]) simp
qed

lemmas action_summaries =
  conjunct2 [OF deny_connector_step_summary] completes_summary [OF execute_read_via_connector_completes]
  completes_summary [OF propose_connector_op_completes]

lemma execute_http_read_summary:
  assumes "execute_http_read env inp k w b branch step actor action url domains = Some (k', r)"
  shows "step_summary env w step b branch k k' r"
  using assms unfolding execute_http_read_def Let_def
  by (auto split: option.splits sum.splits if_splits intro: action_summaries)

lemma execute_mcp_invoke_summary:
  assumes "execute_mcp_invoke env inp k w b branch step actor action server tool args = Some (k', r)"
  shows "step_summary env w step b branch k k' r"
  using assms unfolding execute_mcp_invoke_def Let_def
  by (auto split: option.splits sum.splits if_splits intro: action_summaries)

lemma trace_query_step_completes:
  assumes "trace_query_step env inp k w b branch step actor action text = Some (k', r)"
  shows "completes env w step b branch k k' r"
  using assms unfolding trace_query_step_def Let_def
  by (elim completes_check completes_raw) (erule finish_metadata_step_completes, simp)

lemma branch_diff_step_completes:
  assumes "branch_diff_step env inp k w branch step actor action since = Some (k', r)"
  shows "completes env w step b branch k k' r"
  using assms unfolding branch_diff_step_def Let_def
  by (elim completes_check completes_raw) (erule finish_metadata_step_completes, simp)

lemma perform_action_summary:
  assumes "perform_action env inp k w b branch step actor action conf = Some (k', r)"
  shows "step_summary env w step b branch k k' r"
  using assms unfolding perform_action_def
  by (cases "act_kind action")
     (simp_all add: execute_local_summary execute_http_read_summary execute_mcp_invoke_summary
        completes_summary [OF propose_connector_op_completes] completes_summary [OF trace_query_step_completes]
        completes_summary [OF branch_diff_step_completes])

section \<open>Steps that fail\<close>

text \<open>Content blobs may stay behind when a step fails; the history of states and branches does not move.\<close>

definition history :: "'w Kernel \<Rightarrow> (ident, StateNode) table \<times> (ident, BranchRow) table" where
  "history k = (dag_states (dd_dag (k_dag k)), dag_branches (dd_dag (k_dag k)))"

lemma history_traced: "only_traced env w k k' \<Longrightarrow> history k' = history k"
  by (simp add: history_def only_traced_fields)

lemma history_update [simp]:
  "history (k\<lparr> k_ledger := l \<rparr>) = history k" "history (k\<lparr> k_broker := bk \<rparr>) = history k"
  "history (k\<lparr> k_world := x \<rparr>) = history k" "history (k\<lparr> k_sched := s \<rparr>) = history k"
  "history (k\<lparr> k_spaces := sp \<rparr>) = history k" "history (k\<lparr> k_identity := i \<rparr>) = history k"
  "history (set_space branch fs k) = history k" "history (discard_at env b branch k) = history k"
  by (simp_all add: history_def set_space_def discard_at_keeps(2))

lemma keep_raw_Ok: "keep_raw env k raw = Some (k', Err e) \<Longrightarrow> False"
  by (auto simp: keep_raw_def store_raw_def Let_def split: prod.splits)

lemma history_log: "log_event env k w kind payload causes now = Some (k', r) \<Longrightarrow> history k' = history k"
  by (rule history_traced [OF log_event_traced])

lemma history_raw: "keep_raw env k raw = Some (k', r) \<Longrightarrow> history k' = history k"
  by (rule history_traced [OF keep_raw_traced])

lemma emit_Ok: "emit env inp k w step node cause obs = Some (k', Err e) \<Longrightarrow> False"
  by (auto simp: emit_def elim!: and_then_SomeE dest: log_event_Ok)

lemma report_run_Ok: "report_run env inp k w step kind p oc tool node = Some (k', Err e) \<Longrightarrow> False"
  by (auto simp: report_run_def Let_def elim!: and_then_SomeE dest: log_event_Ok keep_raw_Ok)

lemma deny_step_Ok: "deny_step env inp k w b step who denial = Some (k', Err e) \<Longrightarrow> False"
  by (auto simp: deny_step_def Let_def elim!: and_then_SomeE dest: log_event_Ok)

lemma deny_connector_step_Err: "deny_connector_step env inp k w b step actor denial = Some (k', Err e) \<Longrightarrow> k' = k"
  by (auto simp: deny_connector_step_def elim!: check_SomeE dest: deny_step_Ok)

lemma append_node_Err:
  "append_node k branch step actor delta wroot replay new_st now = Some (k', Err e) \<Longrightarrow> history k' = history k"
  by (auto simp: append_node_def append_step_def history_def Let_def split: prod.splits sum.splits bool.splits)

lemma snapshot_step_Err:
  assumes "snapshot_step env inp k branch step actor dir replay = Some (k', Err e)"
  shows "history k' = history k"
  using assms
  by (auto simp: snapshot_step_def snapshot_and_append_def append_step_def history_def Let_def
      split: prod.splits sum.splits bool.splits)

lemma materialize_branch_history: "materialize_branch env k branch state dir now = (k', r) \<Longrightarrow> history k' = history k"
  by (simp add: history_def materialize_branch_keeps(2))

lemma synced_transition_Err:
  assumes "synced_transition env inp k branch base step actor dir delta replay = Some (k', Err e)"
  shows "history k' = history k"
  using assms unfolding synced_transition_def
  by (auto split: prod.splits sum.splits dest!: snapshot_step_Err materialize_branch_history)

lemma synced_node_Err:
  assumes "synced_node env inp k bk branch base step actor dir delta replay = Some (k', Err e)"
  shows "history k' = history k"
  using assms unfolding synced_node_def
  by (auto split: option.splits prod.splits sum.splits dest!: synced_transition_Err materialize_branch_history)

lemma audit_node_Err: "audit_node k inp branch step actor = Some (k', Err e) \<Longrightarrow> history k' = history k"
  by (auto simp: audit_node_def elim!: check_SomeE dest: append_node_Err)

lemmas never_fail = log_event_Ok keep_raw_Ok emit_Ok report_run_Ok deny_step_Ok

lemmas history_frame = history_log history_raw append_node_Err snapshot_step_Err synced_node_Err audit_node_Err
  deny_connector_step_Err

lemma finish_metadata_step_Err:
  "finish_metadata_step env inp k w branch step actor action obs = Some (k', Err e) \<Longrightarrow> history k' = history k"
  by (auto simp: finish_metadata_step_def elim!: and_then_SomeE check_SomeE dest: never_fail dest!: history_frame)

lemma propose_connector_op_Err:
  assumes "propose_connector_op env inp k w b branch step actor action connector op op_params = Some (k', Err e)"
  shows "history k' = history k"
  using assms unfolding propose_connector_op_def Let_def
  by (auto split: prod.splits sum.splits elim!: and_then_SomeE check_SomeE dest: never_fail dest!: history_frame)

lemma execute_read_via_connector_Err:
  assumes "execute_read_via_connector env inp k w b branch step actor action conn full_op res args = Some (k', Err e)"
  shows "history k' = history k"
proof -
  have "history k2 = history k1" if "connector_read env inp k1 conn ctr = Some (k2, x)" for k1 k2 :: "'a Kernel" and ctr x
    using history_traced [OF connector_read_run(1) [OF that]] by simp
  then show ?thesis
    using assms unfolding execute_read_via_connector_def
    by (auto elim!: and_then_SomeE check_SomeE dest: never_fail dest!: history_frame)
qed

lemma record_run_Err:
  assumes "record_run env inp k w b branch step actor kind writable ro tool = Some (k', Err e)"
  shows "history k' = history k"
  using assms unfolding record_run_def Let_def
  by (auto split: if_splits option.splits sum.splits elim!: and_then_SomeE check_SomeE dest: never_fail dest!: history_frame)

lemma execute_local_Err:
  assumes "execute_local env inp k w b branch step actor action conf = Some (k', Err e)"
  shows "history k' = history k"
  using assms unfolding execute_local_def conclude_run_def
  by (auto split: if_splits option.splits prod.splits sum.splits KernelError.splits
      elim!: and_then_SomeE dest: never_fail dest!: history_frame record_run_Err)

lemma perform_action_Err:
  assumes "perform_action env inp k w b branch step actor action conf = Some (k', Err e)"
  shows "history k' = history k"
proof (cases "act_kind action")
  case (HttpRead url)
  then show ?thesis
    using assms unfolding perform_action_def execute_http_read_def Let_def
    by (auto split: option.splits sum.splits if_splits
        dest!: deny_connector_step_Err execute_read_via_connector_Err propose_connector_op_Err)
next
  case (McpInvoke server tool args)
  then show ?thesis
    using assms unfolding perform_action_def execute_mcp_invoke_def Let_def
    by (auto split: option.splits sum.splits if_splits
        dest!: deny_connector_step_Err execute_read_via_connector_Err propose_connector_op_Err)
next
  case (TraceQueryAction q)
  then show ?thesis
    using assms unfolding perform_action_def trace_query_step_def Let_def
    by (auto elim!: check_SomeE and_then_SomeE dest: keep_raw_Ok dest!: finish_metadata_step_Err history_raw)
next
  case (BranchDiffAction since)
  then show ?thesis
    using assms unfolding perform_action_def branch_diff_step_def Let_def
    by (auto elim!: check_SomeE and_then_SomeE dest: keep_raw_Ok dest!: finish_metadata_step_Err history_raw)
qed (use assms in \<open>auto simp: perform_action_def dest: execute_local_Err propose_connector_op_Err\<close>)

section \<open>What connector actions do to the world\<close>

lemma append_node_world: "append_node k branch step actor delta wroot replay new_st now = Some (k', r) \<Longrightarrow> k_world k' = k_world k"
  by (rule append_node_advances(3))

lemma log_event_world: "log_event env k w kind payload causes now = Some (k', r) \<Longrightarrow> k_world k' = k_world k"
  by (rule only_traced_fields(11) [OF log_event_traced])

lemma keep_raw_world: "keep_raw env k raw = Some (k', r) \<Longrightarrow> k_world k' = k_world k"
  by (rule only_traced_fields(11) [OF keep_raw_traced])

lemma emit_world: "emit env inp k w step node cause obs = Some (k', r) \<Longrightarrow> k_world k' = k_world k"
  by (auto simp: emit_def elim!: and_then_SomeE dest!: log_event_world)

lemma deny_connector_step_world:
  "deny_connector_step env inp k w b step actor denial = Some (k', r) \<Longrightarrow> k_world k' = k_world k"
  using only_traced_fields(11) deny_connector_step_summary by blast

lemmas world_frame = append_node_world log_event_world keep_raw_world emit_world

lemma propose_connector_op_world:
  assumes "propose_connector_op env inp k w b branch step actor action connector op op_params = Some (k', r)"
  shows "k_world k' = k_world k"
  using assms unfolding propose_connector_op_def Let_def
  by (auto split: prod.splits sum.splits elim!: and_then_SomeE check_SomeE dest!: world_frame)

lemma log_event_returns:
  "log_event env k w kind payload causes now = Some (k', r) \<Longrightarrow> k_world k' = k_world k \<and> (\<exists>seq. r = Ok seq)"
  using log_event_world log_event_Ok by (cases r) blast+

lemma connector_read_world:
  assumes "connector_read env inp k conn ctr = Some (k', r)"
  shows "k_world k' = fst (conn_commit conn (k_world k) ctr)"
  using only_traced_fields(11) [OF connector_read_run(1) [OF assms]] by simp

lemma execute_read_via_connector_world:
  assumes "execute_read_via_connector env inp k w b branch step actor action conn full_op res args = Some (k', r)"
  shows "k_world k' = fst (conn_commit conn (k_world k) (read_contract full_op res args b step))"
  using assms unfolding execute_read_via_connector_def
  by (auto elim!: and_then_SomeE check_SomeE
      dest!: log_event_returns connector_read_world append_node_world emit_world)

text \<open>The one kind of external call a connector action can make.\<close>

definition pure_read ::
  "'w KernelEnv \<Rightarrow> string \<Rightarrow> json \<Rightarrow> EffectContract \<Rightarrow> 'w Kernel \<Rightarrow> 'w Kernel \<Rightarrow> bool" where
  "pure_read env name asked ctr k k' \<longleftrightarrow> (\<exists>conn. kernel_connector env name = Some conn
     \<and> conn_canonicalize conn (operation ctr) asked = Ok (arguments ctr)
     \<and> kv_classify env name (operation ctr) (arguments ctr) = Pure
     \<and> k_world k' = fst (conn_commit conn (k_world k) ctr))"

lemma execute_http_read_world:
  assumes "execute_http_read env inp k w b branch step actor action url domains = Some (k', r)"
    and "k_world k' \<noteq> k_world k"
  shows "\<exists>ctr. operation ctr = ''http.get'' \<and> effect_class ctr = Pure
    \<and> pure_read env ''http'' (JObj [(''url'', JStr url)]) ctr k k' \<and> list_ex (\<lambda>g. glob_match g (resource ctr)) domains"
proof -
  obtain conn canonical host where c: "kernel_connector env ''http'' = Some conn"
    "conn_canonicalize conn ''http.get'' (JObj [(''url'', JStr url)]) = Ok canonical"
    "list_ex (\<lambda>g. glob_match g host) domains" "kv_classify env ''http'' ''http.get'' canonical = Pure"
    "execute_read_via_connector env inp k w b branch step actor action conn ''http.get'' host canonical = Some (k', r)"
    using assms unfolding execute_http_read_def Let_def
    by (auto split: option.splits sum.splits if_splits dest: deny_connector_step_world propose_connector_op_world)
  show ?thesis
    using c execute_read_via_connector_world [OF c(5)]
    by (intro exI [of _ "read_contract ''http.get'' host canonical b step"]) (simp add: pure_read_def read_contract_def)
qed

lemma execute_mcp_invoke_world:
  assumes "execute_mcp_invoke env inp k w b branch step actor action server tool args = Some (k', r)"
    and "k_world k' \<noteq> k_world k"
  shows "\<exists>ctr. operation ctr = server @ ''.'' @ tool \<and> effect_class ctr = Pure \<and> pure_read env server args ctr k k'"
proof -
  obtain conn canonical where c: "kernel_connector env server = Some conn"
    "conn_canonicalize conn (server @ ''.'' @ tool) args = Ok canonical"
    "kv_classify env server (server @ ''.'' @ tool) canonical = Pure"
    "execute_read_via_connector env inp k w b branch step actor action conn (server @ ''.'' @ tool) server canonical = Some (k', r)"
    using assms unfolding execute_mcp_invoke_def Let_def
    by (auto split: option.splits sum.splits if_splits dest: deny_connector_step_world propose_connector_op_world)
  show ?thesis
    using c execute_read_via_connector_world [OF c(4)]
    by (intro exI [of _ "read_contract (server @ ''.'' @ tool) server canonical b step"])
       (simp add: pure_read_def read_contract_def)
qed

lemma metadata_step_world:
  "trace_query_step env inp k w b branch step actor action text = Some (k', r) \<Longrightarrow> k_world k' = k_world k"
  "branch_diff_step env inp k w branch step actor action since = Some (k', r) \<Longrightarrow> k_world k' = k_world k"
  by (auto simp: trace_query_step_def branch_diff_step_def finish_metadata_step_def Let_def
      elim!: and_then_SomeE check_SomeE dest!: world_frame)

section \<open>The authorization pipeline\<close>

text \<open>
  A step is refused before it has any effect, denied with only its trace written, or admitted by
  every gate and performed after exactly one use of its lease was consumed.
\<close>

definition admitted ::
  "'w KernelEnv \<Rightarrow> StepInput \<Rightarrow> 'w Kernel \<Rightarrow> ident \<Rightarrow> ident \<Rightarrow> Action \<Rightarrow> leases \<Rightarrow> CompiledGrant \<Rightarrow> bool" where
  "admitted env inp k actor branch action leases grant \<longleftrightarrow>
     (let op = required_operation (act_kind action); params = action_params (act_kind action); now = in_time inp 0 in
      \<exists>who lease rule remaining. kernel_principal env k actor = Ok who
        \<and> lease_get (db_leases (k_identity k)) (act_lease action) = Ok lease
        \<and> lease_check lease actor op params (Some branch) now = Ok ()
        \<and> fits_within (act_budget action) (lease_budget lease)
        \<and> evaluate (kv_add_seconds env) (kv_constraints env) (in_lease inp) (k_policy k) who op params (Some branch) now
            = Some (Allow rule grant)
        \<and> consume_use (db_leases (k_identity k)) (act_lease action) now = Ok (leases, remaining))"

lemma lease_check_branch: "lease_check l who op params (Some b) now = Ok () \<Longrightarrow> bound_branch l \<in> {None, Some b}"
  by (cases "bound_branch l") (auto simp: lease_check_Ok)

lemma admittedE:
  assumes "admitted env inp k actor branch action leases grant"
  obtains who lease rule where "registry_get (db_principals (k_identity k)) actor = Ok who"
    "tbl_get (db_leases (k_identity k)) (act_lease action) = Some lease"
    "lease_check lease actor (required_operation (act_kind action)) (action_params (act_kind action)) (Some branch)
       (in_time inp 0) = Ok ()"
    "0 < remaining_uses lease" "fits_within (act_budget action) (lease_budget lease)"
    "evaluate (kv_add_seconds env) (kv_constraints env) (in_lease inp) (k_policy k) who
        (required_operation (act_kind action)) (action_params (act_kind action)) (Some branch) (in_time inp 0)
        = Some (Allow rule grant)"
    "leases = tbl_update (act_lease action) (\<lambda>_. lease\<lparr> remaining_uses := remaining_uses lease - 1 \<rparr>) (db_leases (k_identity k))"
proof -
  obtain who lease rule remaining where h: "kernel_principal env k actor = Ok who"
    "lease_get (db_leases (k_identity k)) (act_lease action) = Ok lease"
    "lease_check lease actor (required_operation (act_kind action)) (action_params (act_kind action)) (Some branch)
       (in_time inp 0) = Ok ()"
    "fits_within (act_budget action) (lease_budget lease)"
    "evaluate (kv_add_seconds env) (kv_constraints env) (in_lease inp) (k_policy k) who
        (required_operation (act_kind action)) (action_params (act_kind action)) (Some branch) (in_time inp 0)
        = Some (Allow rule grant)"
    "consume_use (db_leases (k_identity k)) (act_lease action) (in_time inp 0) = Ok (leases, remaining)"
    using assms by (auto simp: admitted_def Let_def)
  have "registry_get (db_principals (k_identity k)) actor = Ok who"
    using h(1) by (simp add: kernel_principal_def split: sum.splits)
  moreover have l: "tbl_get (db_leases (k_identity k)) (act_lease action) = Some lease"
    using h(2) by (simp add: lease_get_def split: option.splits)
  moreover have "0 < remaining_uses lease"
    and "leases = tbl_update (act_lease action) (\<lambda>_. lease\<lparr> remaining_uses := remaining_uses lease - 1 \<rparr>) (db_leases (k_identity k))"
    using consume_use_Ok [OF h(6)] l by auto
  ultimately show ?thesis
    using h(3-5) by (rule_tac that)
qed

lemma execute_step_cases:
  assumes "execute_step env inp k actor branch action = Some (k', r)"
  obtains (failed) e where "k' = k" "r = Err e"
  | (denied) b who denial where "active_branch k branch = Ok b"
      "deny_step env inp k (step_writer b branch (in_step inp) actor) b (in_step inp) who denial = Some (k', r)"
  | (performed) b leases grant where "active_branch k branch = Ok b"
      "admitted env inp k actor branch action leases grant"
      "perform_action env inp (k\<lparr> k_identity := (k_identity k)\<lparr> db_leases := leases \<rparr> \<rparr>)
         (step_writer b branch (in_step inp) actor) b branch (in_step inp) actor action (confinement grant) = Some (k', r)"
  using assms unfolding execute_step_def Let_def admitted_def
  by (elim check_SomeE) (auto split: sum.splits option.splits if_splits Decision.splits)

text \<open>
  C1. No step of the kernel does anything beyond writing its own trace unless every gate admitted
  it: the presented lease exists, is neither revoked nor expired nor exhausted, belongs to the
  acting principal, grants exactly the action's operation on this branch with its constraints met,
  its envelope covers the action's budget, and the policy in force allows the request now. Then
  exactly one use of that lease has been consumed, and the principals and the policy are as before.
\<close>

theorem step_authorized:
  assumes "execute_step env inp k actor branch action = Some (k', r)"
    and "k' \<noteq> k\<lparr> k_ledger := k_ledger k' \<rparr>"
  shows "\<exists>who lease rule grant.
      registry_get (db_principals (k_identity k)) actor = Ok who
    \<and> tbl_get (db_leases (k_identity k)) (act_lease action) = Some lease
    \<and> \<not> revoked lease \<and> in_time inp 0 < expires_at lease \<and> 0 < remaining_uses lease
    \<and> lease_principal lease = actor \<and> lease_operation lease = required_operation (act_kind action)
    \<and> bound_branch lease \<in> {None, Some branch}
    \<and> (\<forall>(p, c) \<in> set (lease_constraints lease). allows c (json_get (action_params (act_kind action)) p))
    \<and> fits_within (act_budget action) (lease_budget lease)
    \<and> evaluate (kv_add_seconds env) (kv_constraints env) (in_lease inp) (k_policy k) who
        (required_operation (act_kind action)) (action_params (act_kind action)) (Some branch) (in_time inp 0)
        = Some (Allow rule grant)
    \<and> k_identity k' = (k_identity k)\<lparr> db_leases :=
        tbl_update (act_lease action) (\<lambda>_. lease\<lparr> remaining_uses := remaining_uses lease - 1 \<rparr>) (db_leases (k_identity k)) \<rparr>
    \<and> k_policy k' = k_policy k"
  using assms(1)
proof (cases rule: execute_step_cases)
  case (failed e)
  then show ?thesis
    using assms(2) by simp
next
  case (denied b who denial)
  from deny_step_summary [OF denied(2)] show ?thesis
    using assms(2) by (auto simp: only_traced_def)
next
  case (performed b leases grant)
  let ?k = "k\<lparr> k_identity := (k_identity k)\<lparr> db_leases := leases \<rparr> \<rparr>"
  have "keeps env (step_writer b branch (in_step inp) actor) ?k k'"
    using perform_action_summary [OF performed(3)] by (simp add: step_summary_def)
  then have "k_identity k' = (k_identity k)\<lparr> db_leases := leases \<rparr>" "k_policy k' = k_policy k"
    by (simp_all add: keeps_def)
  with performed(2) show ?thesis
    by (elim admittedE, frule_tac lease_check_branch) (auto simp: lease_check_Ok)
qed

text \<open>
  C2. Every step that returns a result is recorded to its end: the last event in the ledger is the
  observation handed to the agent, written under this step. A denied step leaves the state graph
  and the effect store exactly as they were and reports the unchanged branch head; any other step
  reports the state that is the branch head when it returns.
\<close>

theorem step_concludes:
  assumes "execute_step env inp k actor branch action = Some (k', Ok res)"
  shows "\<exists>b. active_branch k branch = Ok b \<and> res_step res = in_step inp
    \<and> concluded env (step_writer b branch (in_step inp) actor) k k' res
    \<and> (if is_denial (res_observation res)
       then dd_dag (k_dag k') = dd_dag (k_dag k) \<and> k_broker k' = k_broker k \<and> res_state res = br_head b
       else head_is k' branch (res_state res))"
  using assms
proof (cases rule: execute_step_cases)
  case (denied b who denial)
  from deny_step_summary [OF denied(2)] denied(1) show ?thesis
    by (auto simp: step_summary_def denies_def)
next
  case (performed b leases grant)
  from perform_action_summary [OF performed(3)] performed(1) show ?thesis
    by (auto simp: step_summary_def denies_def concluded_def)
qed simp



section \<open>A concrete step\<close>

text \<open>What a read through a connector returns depends on one thing only: whether its state can be appended.\<close>

lemma log_event_total: "\<exists>k1 seq. log_event env k w kind payload causes now = Some (k1, Ok seq) \<and> only_traced env w k k1"
proof -
  obtain k1 r where "log_event env k w kind payload causes now = Some (k1, r)"
    by (auto simp: log_event_Some)
  then show ?thesis
    using log_event_traced log_event_Ok by (cases r) blast+
qed

lemma connector_read_total: "\<exists>k1 obs. connector_read env inp k conn ctr = Some (k1, Ok obs)"
  by (auto simp: connector_read_def and_then_def keep_raw_def store_raw_def Let_def split: prod.splits sum.splits)

lemma emit_total: "\<exists>k1 r. emit env inp k w step node cause obs = Some (k1, r) \<and> (\<exists>res. r = Ok res)"
proof -
  obtain k1 seq where a: "log_event env k w StateDeltaRecorded (node_json node) [cause] (in_time inp 5) = Some (k1, Ok seq)"
    using log_event_total by blast
  obtain k2 seq2 where "log_event env k1 w ObservationEmitted (observation_json obs) [seq] (in_time inp 6) = Some (k2, Ok seq2)"
    using log_event_total by blast
  with a show ?thesis
    by (simp add: emit_def and_then_def)
qed

lemma execute_read_via_connector_returns:
  assumes "branch_head k branch = Ok hd_node"
    and "append_step (dd_dag (k_dag k)) branch step actor
           (default_delta\<lparr> tool_sessions := [full_op], delta_policy_epoch := delta_policy_epoch (st_delta hd_node) \<rparr>)
           (workspace_root hd_node) (st_replay hd_node) (in_state inp) (in_time inp 4) = (d, answer)"
  shows "\<exists>k' r. execute_read_via_connector env inp k w b branch step actor action conn full_op res args = Some (k', r)
    \<and> (case answer of Ok _ \<Rightarrow> \<exists>x. r = Ok x | Err e \<Rightarrow> r = Err e)"
proof -
  obtain k1 tool where log: "log_event env k w ToolInvocation
      (invocation_json True action [(''plane'', JStr ''observation'')]) [] (in_time inp 3) = Some (k1, Ok tool)"
    and t: "only_traced env w k k1"
    using log_event_total by blast
  obtain k2 obs where read: "connector_read env inp k1 conn (read_contract full_op res args b step) = Some (k2, Ok obs)"
    using connector_read_total by blast
  have dag: "k_dag k2 = k_dag k"
    using only_traced_fields(2) [OF t] only_traced_fields(2) [OF connector_read_run(1) [OF read]] by simp
  show ?thesis
    using assms dag log read
    by (auto simp: execute_read_via_connector_def and_then_def check_def branch_head_def append_node_def emit_total
        split: sum.splits)
qed

lemma demo_mcp_step:
  assumes "active_branch demo_kernel ''main'' = Ok b"
  shows "\<exists>leases (grant :: CompiledGrant). execute_step demo_kernel_env (demo_input st) demo_kernel ''pr-a'' ''main'' (demo_action server tool)
    = perform_action demo_kernel_env (demo_input st) (demo_kernel\<lparr> k_identity := (k_identity demo_kernel)\<lparr> db_leases := leases \<rparr> \<rparr>)
        (step_writer b ''main'' ''step-1'' ''pr-a'') b ''main'' ''step-1'' ''pr-a'' (demo_action server tool) (confinement grant)"
proof -
  let ?params = "action_params (McpInvoke server tool (JObj []))"
  obtain rule grant where "evaluate demo_add_seconds (\<lambda>_. JNull) ''lease-9'' demo_policy (new_agent ''pr-a'' ''a'')
      ''mcp.invoke'' ?params (Some ''main'') 5 = Some (Allow rule grant)"
    using demo_allows by blast
  moreover have "kv_add_seconds demo_kernel_env = demo_add_seconds" "kv_constraints demo_kernel_env = (\<lambda>_. JNull)"
    "k_policy demo_kernel = demo_policy"
    by (simp_all add: demo_kernel_env_def demo_kernel_def)
  ultimately have "execute_step demo_kernel_env (demo_input st) demo_kernel ''pr-a'' ''main'' (demo_action server tool)
    = perform_action demo_kernel_env (demo_input st) (demo_kernel\<lparr> k_identity := (k_identity demo_kernel)\<lparr> db_leases :=
          [(''lease-1'', demo_tool_lease\<lparr> remaining_uses := 1 \<rparr>)] \<rparr> \<rparr>)
        (step_writer b ''main'' ''step-1'' ''pr-a'') b ''main'' ''step-1'' ''pr-a'' (demo_action server tool) (confinement grant)"
    using assms by (simp add: execute_step_def demo_principal demo_lease demo_lease_check demo_fits demo_consume
        demo_input_def demo_action_def check_def Let_def)
  then show ?thesis
    by blast
qed

lemma demo_append:
  obtains d answer where
    "append_step (dd_dag (k_dag demo_kernel)) ''main'' step actor delta demo_root_hash replay st now = (d, answer)"
    "answer = Err (Storage ''sqlite: UNIQUE constraint failed: states.id'') \<longleftrightarrow> st = ''st-0''"
    "st \<noteq> ''st-0'' \<longrightarrow> (\<exists>node. answer = Ok node)"
proof -
  have "cas_contains [(demo_root_hash, [])] demo_root_hash = Ok True"
    by (simp add: cas_contains_def hex_of_def demo_root_hash_def ascii_hexdigit_def list_all_iff tbl_get_def)
  then show ?thesis
    by (cases "st = ''st-0''"; rule_tac that [OF surjective_pairing])
       (simp_all add: append_step_def demo_kernel_def load_branch_def status_parse_def tbl_get_def ensure_active_def
        insert_state_def Let_def)
qed

lemma demo_run:
  assumes "(server, tool) = (''docs'', ''search'') \<or> (server, tool) = (''http'', ''get'')"
  shows "\<exists>k' r. execute_step demo_kernel_env (demo_input st) demo_kernel ''pr-a'' ''main'' (demo_action server tool) = Some (k', r)
     \<and> k_world k' = 1 \<and> (if st = ''st-0'' then \<exists>e. r = Err e else \<exists>x. r = Ok x)"
proof -
  let ?run = "execute_step demo_kernel_env (demo_input st) demo_kernel ''pr-a'' ''main'' (demo_action server tool)"
  obtain b leases and grant :: CompiledGrant where step: "?run
    = perform_action demo_kernel_env (demo_input st) (demo_kernel\<lparr> k_identity := (k_identity demo_kernel)\<lparr> db_leases := leases \<rparr> \<rparr>)
        (step_writer b ''main'' ''step-1'' ''pr-a'') b ''main'' ''step-1'' ''pr-a'' (demo_action server tool) (confinement grant)"
    using demo_mcp_step [OF demo_branch_active] by blast
  let ?k = "demo_kernel\<lparr> k_identity := (k_identity demo_kernel)\<lparr> db_leases := leases \<rparr> \<rparr>"
  have read: "?run = execute_read_via_connector demo_kernel_env (demo_input st) ?k (step_writer b ''main'' ''step-1'' ''pr-a'') b
      ''main'' ''step-1'' ''pr-a'' (demo_action server tool) demo_tools (server @ ''.'' @ tool) server (JObj [])"
    unfolding step using assms
    by (auto simp: perform_action_def demo_action_def execute_mcp_invoke_def kernel_connector_def demo_kernel_env_def
        demo_broker_env_def demo_tools_def Let_def)
  have head: "branch_head ?k ''main'' = Ok demo_root_node"
    by (simp add: branch_head_def dag_head_def demo_kernel_def load_branch_def status_parse_def tbl_get_def load_state_def)
  have parts: "k_dag ?k = k_dag demo_kernel" "workspace_root demo_root_node = demo_root_hash" "in_state (demo_input st) = st"
    by (simp_all add: demo_root_node_def demo_input_def)
  let ?app = "append_step (dd_dag (k_dag ?k)) ''main'' ''step-1'' ''pr-a''
      (default_delta\<lparr> tool_sessions := [server @ ''.'' @ tool], delta_policy_epoch := delta_policy_epoch (st_delta demo_root_node) \<rparr>)
      (workspace_root demo_root_node) (st_replay demo_root_node) (in_state (demo_input st)) (in_time (demo_input st) 4)"
  obtain d answer where app: "?app = (d, answer)"
    and answer: "answer = Err (Storage ''sqlite: UNIQUE constraint failed: states.id'') \<longleftrightarrow> st = ''st-0''"
      "st \<noteq> ''st-0'' \<longrightarrow> (\<exists>node. answer = Ok node)"
    unfolding parts by (rule demo_append)
  obtain k' r where run: "?run = Some (k', r)" and r: "case answer of Ok _ \<Rightarrow> \<exists>x. r = Ok x | Err e \<Rightarrow> r = Err e"
    using execute_read_via_connector_returns [OF head app] unfolding read by blast
  have "k_world k' = 1"
    using execute_read_via_connector_world [OF run [unfolded read]] by (simp add: demo_tools_def demo_kernel_def)
  then show ?thesis
    using run r answer by auto
qed

theorem step_authorized_witness:
  "\<exists>k' r rule grant. execute_step demo_kernel_env (demo_input ''st-1'') demo_kernel ''pr-a'' ''main'' (demo_action ''docs'' ''search'') = Some (k', r)
     \<and> evaluate demo_add_seconds (\<lambda>_. JNull) ''lease-9'' demo_policy (new_agent ''pr-a'' ''a'') ''mcp.invoke''
         (action_params (act_kind (demo_action ''docs'' ''search''))) (Some ''main'') 5 = Some (Allow rule grant)
     \<and> db_leases (k_identity k') = [(''lease-1'', demo_tool_lease\<lparr> remaining_uses := 1 \<rparr>)]"
proof -
  obtain k' r where run: "execute_step demo_kernel_env (demo_input ''st-1'') demo_kernel ''pr-a'' ''main'' (demo_action ''docs'' ''search'') = Some (k', r)"
    and world: "k_world k' = 1"
    using demo_run [of "''docs''" "''search''"] by blast
  have changed: "k' \<noteq> demo_kernel\<lparr> k_ledger := k_ledger k' \<rparr>"
  proof
    assume "k' = demo_kernel\<lparr> k_ledger := k_ledger k' \<rparr>"
    from arg_cong [OF this, of k_world] world show False
      by (simp add: demo_kernel_def)
  qed
  from step_authorized [OF run changed] run show ?thesis
    by (auto simp: demo_kernel_def demo_kernel_env_def demo_action_def demo_input_def registry_get_def tbl_get_def
        tbl_update_def demo_tool_lease_def split: if_splits)
qed

theorem step_concludes_witness:
  "\<exists>k' res. execute_step demo_kernel_env (demo_input ''st-1'') demo_kernel ''pr-a'' ''main'' (demo_action ''docs'' ''search'') = Some (k', Ok res)
     \<and> res_step res = ''step-1''"
proof -
  obtain k' res where run: "execute_step demo_kernel_env (demo_input ''st-1'') demo_kernel ''pr-a'' ''main'' (demo_action ''docs'' ''search'') = Some (k', Ok res)"
    using demo_run [of "''docs''" "''search''" "''st-1''"] by auto
  from step_concludes [OF run] run show ?thesis
    by (auto simp: demo_input_def)
qed



section \<open>What the kernel does not confine\<close>

text \<open>
  The policy document's tool lists, by which empty lists allow no server and no tool, play no part
  in admitting a step: the agent's tool call reaches the server under a policy that lists neither.
\<close>

lemma tool_policy_not_enforced:
  "doc_tools (k_policy demo_kernel) = \<lparr> allowed_servers = [], allowed_tools = [] \<rparr>"
  "\<exists>k' r. execute_step demo_kernel_env (demo_input ''st-1'') demo_kernel ''pr-a'' ''main'' (demo_action ''docs'' ''search'')
      = Some (k', r) \<and> k_world k' \<noteq> k_world demo_kernel"
  using demo_run [of "''docs''" "''search''" "''st-1''"] by (auto simp: demo_kernel_def demo_policy_def)

text \<open>
  Egress confinement binds web reads only. The same request, made as a tool call on the web
  connector, is sent under a grant whose egress domains are empty.
\<close>

lemma tool_call_escapes_egress:
  "egress_domains (k_policy demo_kernel) = []"
  "\<exists>k' r. execute_step demo_kernel_env (demo_input ''st-1'') demo_kernel ''pr-a'' ''main'' (demo_action ''http'' ''get'')
      = Some (k', r) \<and> k_world k' \<noteq> k_world demo_kernel"
  using demo_run [of "''http''" "''get''" "''st-1''"] by (auto simp: demo_kernel_def demo_policy_def)

end
