(* ===== verification/KernelOps.thy ===== *)
theory KernelOps
  imports KernelSteps
begin

text \<open>
  The kernel's other operations (kernel/api/src/kernel.rs): episodes, branches, capability requests
  and envelopes, automatic lease resolution, and the life of an effect from its preparation to its
  compensation, each as the facade composes its components. An operation draws the identifiers it
  generates and the clock readings it makes from its input.
\<close>

record OpInput =
  op_new :: "nat \<Rightarrow> ident"
  op_time :: "nat \<Rightarrow> instant"

section \<open>Registration and access\<close>

definition register_principal :: "'w KernelEnv \<Rightarrow> 'w Kernel \<Rightarrow> Principal \<Rightarrow> ('w, unit) kernel_op" where
  "register_principal env k p =
     (case register (db_principals (k_identity k)) p of
        Err e \<Rightarrow> Some (k, Err (identity_to_kernel_error (kv_show_identity env) e))
      | Ok reg \<Rightarrow> Some (k\<lparr> k_identity := (k_identity k)\<lparr> db_principals := reg \<rparr> \<rparr>, Ok ()))"

text \<open>
  Registering a connector records its name and the classes it declares and hands it to the broker,
  whose connectors are those of the environment.
\<close>

definition kernel_register_connector ::
  "'w KernelEnv \<Rightarrow> 'w Kernel \<Rightarrow> string \<Rightarrow> 'w Connector \<Rightarrow> (string \<times> EffectClass) list \<Rightarrow> 'w KernelEnv \<times> 'w Kernel" where
  "kernel_register_connector env k name c ops =
     (env\<lparr> kv_broker := register_connector name c (kv_broker env) \<rparr>,
      k\<lparr> k_op_classes := foldl (\<lambda>t (op, cls). tbl_put op cls t) (k_op_classes k) ops,
         k_connector_names := k_connector_names k @ [name] \<rparr>)"

definition kernel_register_backend :: "'w Kernel \<Rightarrow> Backend \<Rightarrow> 'w Kernel" where
  "kernel_register_backend k bk = k\<lparr> k_sched := sched_register_backend (k_sched k) bk \<rparr>"

definition with_policy_mut :: "(PolicyDocument \<Rightarrow> PolicyDocument \<times> 'r) \<Rightarrow> 'w Kernel \<Rightarrow> 'w Kernel \<times> 'r" where
  "with_policy_mut f k = (case f (k_policy k) of (doc, r) \<Rightarrow> (k\<lparr> k_policy := doc \<rparr>, r))"

text \<open>What a backend that syncs state is given to read.\<close>

definition provider_manifest :: "'w KernelEnv \<Rightarrow> 'w Kernel \<Rightarrow> ident \<Rightarrow> SyncManifest KernelResult" where
  "provider_manifest env k state =
     (case load_state (dd_dag (k_dag k)) state of Err e \<Rightarrow> Err e | Ok node \<Rightarrow>
      case manifest_load (kv_dag env) (dag_cas (dd_dag (k_dag k))) (workspace_root node) of Err e \<Rightarrow> Err e | Ok m \<Rightarrow>
      Ok (map (\<lambda>(path, e). (path, \<lparr> sync_blob = blob e, sync_mode = mode e \<rparr>)) m))"

definition provider_blob :: "'w KernelEnv \<Rightarrow> 'w Kernel \<Rightarrow> string \<Rightarrow> bytes KernelResult" where
  "provider_blob env k h = cas_get (sha (kv_dag env)) (dag_cas (dd_dag (k_dag k))) h"

section \<open>Episodes\<close>

definition with_dag :: "StateDag \<Rightarrow> 'w Kernel \<Rightarrow> 'w Kernel" where
  "with_dag d k = k\<lparr> k_dag := (k_dag k)\<lparr> dd_dag := d \<rparr> \<rparr>"

definition set_up_workspace ::
  "'w KernelEnv \<Rightarrow> 'w Kernel \<Rightarrow> ident \<Rightarrow> ident \<Rightarrow> instant \<Rightarrow> 'w Kernel \<times> unit KernelResult" where
  "set_up_workspace env k branch state now =
     (case kv_workspace env branch of Err e \<Rightarrow> (k, Err e) | Ok dir \<Rightarrow> materialize_branch env k branch state dir now)"

text \<open>The branch workspace, the registration and the objective of an episode the state graph has.\<close>

definition open_episode ::
  "'w KernelEnv \<Rightarrow> OpInput \<Rightarrow> 'w Kernel \<Rightarrow> ident \<Rightarrow> string \<Rightarrow> EpisodeHandle \<Rightarrow> ('w, EpisodeHandle) kernel_op" where
  "open_episode env inp k actor objective handle =
     (case set_up_workspace env k (handle_branch handle) (st_id (handle_root handle)) (op_time inp 2) of
        (k, m) \<Rightarrow>
          check k m (\<lambda>_.
          and_then (log_event env
              (k\<lparr> k_sched := register_episode_default (k_sched k) (handle_episode handle),
                  k_episodes := tbl_put (handle_episode handle)
                    \<lparr> ei_root_branch = handle_branch handle, ei_root_state = st_id (handle_root handle),
                      ei_branches = [handle_branch handle], ei_created_by = actor \<rparr> (k_episodes k) \<rparr>)
              \<lparr> wr_episode = handle_episode handle, wr_branch = Some (handle_branch handle), wr_step = None,
                wr_principal = actor \<rparr>
              Objective (JObj [(''objective'', JStr objective)]) [] (op_time inp 3)) (\<lambda>k _.
          Some (k, Ok handle))))"

definition kernel_create_episode ::
  "'w KernelEnv \<Rightarrow> OpInput \<Rightarrow> 'w Kernel \<Rightarrow> ident \<Rightarrow> forest option \<Rightarrow> string \<Rightarrow> ('w, EpisodeHandle) kernel_op" where
  "kernel_create_episode env inp k actor workspace objective =
     check k (kernel_principal env k actor) (\<lambda>_.
     let ws = (case workspace of Some f \<Rightarrow> Some f | None \<Rightarrow> kv_root_workspace env) in
     case create_episode (kv_dag env) (dd_dag (k_dag k)) actor
            (map_option (\<lambda>f c. snapshot_dir (kv_dag env) (op_time inp 0) c f) ws)
            FilesystemOnly objective (op_new inp 0) (op_new inp 1) (op_new inp 2) (op_time inp 1) of
       (d, r) \<Rightarrow> check (with_dag d k) r (\<lambda>handle. open_episode env inp (with_dag d k) actor objective handle))"

record EpisodeDescription =
  ed_episode :: ident
  ed_root_branch :: ident
  ed_root_state :: ident
  ed_branches :: "Branch list"
  ed_created_by :: ident
  ed_remaining_budget :: ResourceBudget

fun load_branches :: "StateDag \<Rightarrow> ident list \<Rightarrow> Branch list KernelResult" where
  "load_branches d [] = Ok []"
| "load_branches d (i # is) =
     (case load_branch d i of Err e \<Rightarrow> Err e | Ok b \<Rightarrow>
      case load_branches d is of Err e \<Rightarrow> Err e | Ok bs \<Rightarrow> Ok (b # bs))"

definition episode_info :: "'w Kernel \<Rightarrow> ident \<Rightarrow> EpisodeInfo KernelResult" where
  "episode_info k e = (case tbl_get (k_episodes k) e of None \<Rightarrow> Err (NotFound ''episode'' e) | Some info \<Rightarrow> Ok info)"

definition describe_episode :: "'w Kernel \<Rightarrow> ident \<Rightarrow> EpisodeDescription KernelResult" where
  "describe_episode k e =
     (case episode_info k e of Err x \<Rightarrow> Err x | Ok info \<Rightarrow>
      case load_branches (dd_dag (k_dag k)) (ei_branches info) of Err x \<Rightarrow> Err x | Ok bs \<Rightarrow>
      Ok \<lparr> ed_episode = e, ed_root_branch = ei_root_branch info, ed_root_state = ei_root_state info,
           ed_branches = bs, ed_created_by = ei_created_by info,
           ed_remaining_budget = (case remaining_budget (k_sched k) e of Some b \<Rightarrow> b | None \<Rightarrow> budget_zero) \<rparr>)"

definition episode_owner :: "'w Kernel \<Rightarrow> ident \<Rightarrow> ident KernelResult" where
  "episode_owner k e = map_sum id ei_created_by (episode_info k e)"

definition branch_owner :: "'w Kernel \<Rightarrow> ident \<Rightarrow> ident KernelResult" where
  "branch_owner k branch =
     (case load_branch (dd_dag (k_dag k)) branch of Err e \<Rightarrow> Err e | Ok b \<Rightarrow> episode_owner k (br_episode b))"

section \<open>Branches\<close>

text \<open>Every backend releases the branch; the first refusal is kept.\<close>

fun discard_all ::
  "'w KernelEnv \<Rightarrow> ident \<Rightarrow> Backend list \<Rightarrow> 'w Kernel \<Rightarrow> 'w Kernel \<times> KernelError option" where
  "discard_all env branch [] k = (k, None)"
| "discard_all env branch (bk # bks) k =
     (case kv_discard env bk branch (k_world k, k_spaces k) of
        ((world, spaces), r) \<Rightarrow>
          (case discard_all env branch bks (k\<lparr> k_world := world, k_spaces := spaces \<rparr>) of
             (k', later) \<Rightarrow> (k', case r of Err e \<Rightarrow> Some e | Ok _ \<Rightarrow> later)))"

fun fork_natively :: "'w KernelEnv \<Rightarrow> ident \<Rightarrow> ident \<Rightarrow> Backend list \<Rightarrow> 'w Kernel \<Rightarrow> 'w Kernel" where
  "fork_natively env from branch [] k = k"
| "fork_natively env from branch (bk # bks) k =
     (if supports_fork (profile bk)
      then case kv_fork env bk from branch (k_world k, k_spaces k) of
             ((world, spaces), _) \<Rightarrow> fork_natively env from branch bks (k\<lparr> k_world := world, k_spaces := spaces \<rparr>)
      else fork_natively env from branch bks k)"

definition abandon_fork :: "'w KernelEnv \<Rightarrow> ident \<Rightarrow> 'w Kernel \<Rightarrow> 'w Kernel" where
  "abandon_fork env branch k =
     (let k = discard_at env (kv_local env) branch k in
      with_dag (fst (discard_branch (dd_dag (k_dag k)) branch)) k)"

definition fork_branch :: "'w KernelEnv \<Rightarrow> OpInput \<Rightarrow> 'w Kernel \<Rightarrow> ident \<Rightarrow> ('w, Branch) kernel_op" where
  "fork_branch env inp k branch =
     check k (active_branch k branch) (\<lambda>source.
     check k (load_state (dd_dag (k_dag k)) (br_head source)) (\<lambda>hd_node.
     case fork (dd_dag (k_dag k)) (st_id hd_node) (op_new inp 0) (op_time inp 0) of
       (d, r) \<Rightarrow>
         check (with_dag d k) r (\<lambda>new.
         case set_up_workspace env (with_dag d k) (br_id new) (br_head new) (op_time inp 1) of
           (k, Err e) \<Rightarrow> Some (abandon_fork env (br_id new) k, Err e)
         | (k, Ok _) \<Rightarrow>
             Some (fork_natively env (st_id hd_node) (br_id new) (sched_router (k_sched k))
                     (k\<lparr> k_episodes := tbl_update (br_episode new)
                           (\<lambda>i. i\<lparr> ei_branches := ei_branches i @ [br_id new] \<rparr>) (k_episodes k) \<rparr>), Ok new))))"

definition kernel_branch_compare ::
  "'w KernelEnv \<Rightarrow> 'w Kernel \<Rightarrow> ident \<Rightarrow> ident \<Rightarrow> BranchComparison KernelResult option" where
  "kernel_branch_compare env k a b = branch_compare (kv_dag env) (dd_dag (k_dag k)) a b"

definition merge_branch ::
  "'w KernelEnv \<Rightarrow> OpInput \<Rightarrow> 'w Kernel \<Rightarrow> ident \<Rightarrow> ident \<Rightarrow> ident \<Rightarrow> ('w, StateNode) kernel_op" where
  "merge_branch env inp k target source actor =
     (if target = source then Some (k, Err (Storage (''cannot merge branch `'' @ target @ ''` into itself'')))
      else case merge (kv_dag env) (dd_dag (k_dag k)) target source actor (op_new inp 0) (op_time inp 0) of
        None \<Rightarrow> None
      | Some (d, r) \<Rightarrow>
          check (with_dag d k) r (\<lambda>node.
          case set_up_workspace env (with_dag d k) target (st_id node) (op_time inp 1) of
            (k, m) \<Rightarrow>
              (let k = fst (discard_all env source (sched_router (k_sched k)) k) in
               Some (k, case m of
                 Err e \<Rightarrow> Err (Storage (''merge committed as '' @ st_id node @ '' but rebuilding target workspace `''
                   @ target @ ''` failed: '' @ show_error (kv_broker env) e
                   @ ''; retrying any target step will materialize its durable head''))
               | Ok _ \<Rightarrow> Ok node))))"

definition kernel_discard_branch :: "'w KernelEnv \<Rightarrow> 'w Kernel \<Rightarrow> ident \<Rightarrow> ('w, unit) kernel_op" where
  "kernel_discard_branch env k branch =
     check k (load_branch (dd_dag (k_dag k)) branch) (\<lambda>b.
     case br_status b of
       BranchGone \<Rightarrow> Some (k, Err (BranchDiscarded branch))
     | BranchMerged \<Rightarrow>
         (case discard_all env branch (sched_router (k_sched k)) k of
            (k, Some e) \<Rightarrow> Some (k, Err e) | (k, None) \<Rightarrow> Some (k, Ok ()))
     | BranchActive \<Rightarrow>
         (case discard_all env branch (filter (\<lambda>bk. bk \<noteq> kv_local env) (sched_router (k_sched k))) k of
            (k, Some e) \<Rightarrow> Some (k, Err e)
          | (k, None) \<Rightarrow>
              (case kv_discard env (kv_local env) branch (k_world k, k_spaces k) of
                 ((world, spaces), r) \<Rightarrow>
                   check (k\<lparr> k_world := world, k_spaces := spaces \<rparr>) r (\<lambda>_.
                   case discard_branch (dd_dag (k_dag k)) branch of
                     (d, r) \<Rightarrow> Some (with_dag d (k\<lparr> k_world := world, k_spaces := spaces \<rparr>), r)))))"

section \<open>Capabilities\<close>

definition request_approval_denial :: "'w KernelEnv \<Rightarrow> string \<Rightarrow> string \<Rightarrow> json \<Rightarrow> u64 \<Rightarrow> Denial" where
  "request_approval_denial env rule op cs epoch =
     recoverable_denial EffectRequiresApproval op
       (''rule `'' @ rule @ ''` requires out-of-band approval (policy epoch '' @ show_nat (unat epoch)
          @ ''); approved constraint sketch: '' @ show_json (kv_broker env) cs)
       [\<lparr> scope_operation = op, scope_constraints = cs, requires_human = True \<rparr>] True"

definition log_grant ::
  "'w KernelEnv \<Rightarrow> OpInput \<Rightarrow> 'w Kernel \<Rightarrow> ident \<Rightarrow> ident \<Rightarrow> string \<Rightarrow> json \<Rightarrow> string \<Rightarrow> CapabilityLease
    \<Rightarrow> ('w, CapabilityLease) kernel_op" where
  "log_grant env inp k branch actor op params rule lease =
     check k (load_branch (dd_dag (k_dag k)) branch) (\<lambda>b.
     let w = \<lparr> wr_episode = br_episode b, wr_branch = Some branch, wr_step = None, wr_principal = actor \<rparr> in
     and_then (log_event env k w CapabilityRequest (JObj [(''operation'', JStr op), (''params'', params)]) []
                 (op_time inp 1)) (\<lambda>k req.
     and_then (log_event env k w PolicyDecision
                 (JObj [(''decision'', JStr ''allow''), (''rule_id'', JStr rule), (''lease'', JStr (lease_id lease))])
                 [req] (op_time inp 2)) (\<lambda>k _.
     Some (k, Ok lease))))"

definition request_capability ::
  "'w KernelEnv \<Rightarrow> OpInput \<Rightarrow> 'w Kernel \<Rightarrow> ident \<Rightarrow> string \<Rightarrow> json \<Rightarrow> ident option \<Rightarrow> ('w, CapabilityLease) kernel_op" where
  "request_capability env inp k actor op params branch =
     check k (kernel_principal env k actor) (\<lambda>who.
     case evaluate (kv_add_seconds env) (kv_constraints env) (op_new inp 0) (k_policy k) who op params branch
            (op_time inp 0) of
       None \<Rightarrow> None
     | Some (Allow rule grant) \<Rightarrow>
         (let lease = grant_lease grant;
              k = k\<lparr> k_identity := (k_identity k)\<lparr> db_leases := lease_issue lease (db_leases (k_identity k)) \<rparr> \<rparr> in
          case branch of
            None \<Rightarrow> Some (k, Ok lease)
          | Some br \<Rightarrow> log_grant env inp k br actor op params rule lease)
     | Some (RequireApproval rule op cs epoch) \<Rightarrow>
         Some (k, Err (Denied (request_approval_denial env rule op cs epoch)))
     | Some (Deny d) \<Rightarrow> Some (k, Err (Denied d)))"

definition MAX_ENVELOPE_ITEMS :: nat where
  "MAX_ENVELOPE_ITEMS = 64"

record EnvelopeItemReport =
  item_operation :: string
  item_lease :: "CapabilityLease option"
  item_denial :: "Denial option"

record EnvelopeReport =
  report_items :: "EnvelopeItemReport list"
  report_granted :: nat
  report_needs_human :: nat
  report_refused :: nat

definition offers_human :: "Denial \<Rightarrow> bool" where
  "offers_human d = list_ex requires_human (requestable_scopes d)"

fun compile_items ::
  "'w KernelEnv \<Rightarrow> (nat \<Rightarrow> OpInput) \<Rightarrow> nat \<Rightarrow> 'w Kernel \<Rightarrow> ident \<Rightarrow> ident option \<Rightarrow> (string \<times> json) list \<Rightarrow> EnvelopeReport
    \<Rightarrow> ('w, EnvelopeReport) kernel_op" where
  "compile_items env inps n k actor branch [] rep = Some (k, Ok rep)"
| "compile_items env inps n k actor branch ((op, params) # reqs) rep =
     (case request_capability env (inps n) k actor op (if params = JNull then JObj [] else params) branch of
        None \<Rightarrow> None
      | Some (k, Ok lease) \<Rightarrow>
          compile_items env inps (Suc n) k actor branch reqs
            (rep\<lparr> report_granted := report_granted rep + 1, report_items := report_items rep
               @ [\<lparr> item_operation = op, item_lease = Some lease, item_denial = None \<rparr>] \<rparr>)
      | Some (k, Err (Denied d)) \<Rightarrow>
          compile_items env inps (Suc n) k actor branch reqs
            ((if offers_human d then rep\<lparr> report_needs_human := report_needs_human rep + 1 \<rparr>
              else rep\<lparr> report_refused := report_refused rep + 1 \<rparr>)\<lparr> report_items := report_items rep
               @ [\<lparr> item_operation = op, item_lease = None, item_denial = Some d \<rparr>] \<rparr>)
      | Some (k, Err e) \<Rightarrow> Some (k, Err e))"

definition compile_envelope ::
  "'w KernelEnv \<Rightarrow> (nat \<Rightarrow> OpInput) \<Rightarrow> 'w Kernel \<Rightarrow> ident \<Rightarrow> ident option \<Rightarrow> (string \<times> json) list
    \<Rightarrow> ('w, EnvelopeReport) kernel_op" where
  "compile_envelope env inps k actor branch reqs =
     (if reqs = [] then
        Some (k, Err (OtherError ''an autonomy envelope needs at least one capability request''))
      else if length reqs > MAX_ENVELOPE_ITEMS then
        Some (k, Err (OtherError (''envelope has '' @ show_nat (length reqs) @ '' requests; the maximum is ''
          @ show_nat MAX_ENVELOPE_ITEMS)))
      else compile_items env inps 0 k actor branch reqs
             \<lparr> report_items = [], report_granted = 0, report_needs_human = 0, report_refused = 0 \<rparr>)"

definition kernel_delegate ::
  "'w KernelEnv \<Rightarrow> OpInput \<Rightarrow> 'w Kernel \<Rightarrow> ident \<Rightarrow> ident \<Rightarrow> ident \<Rightarrow> (string \<times> constraint) list \<Rightarrow> u32 \<Rightarrow> instant
    \<Rightarrow> ResourceBudget \<Rightarrow> ('w, CapabilityLease) kernel_op" where
  "kernel_delegate env inp k delegator parent delegatee cs uses expiry budget =
     (case delegate (k_identity k) (op_new inp 0) delegator parent delegatee cs uses expiry budget (op_time inp 0) of
        Err e \<Rightarrow> Some (k, Err (identity_to_kernel_error (kv_show_identity env) e))
      | Ok (db, lease) \<Rightarrow> Some (k\<lparr> k_identity := db \<rparr>, Ok lease))"

definition kernel_revoke :: "'w KernelEnv \<Rightarrow> 'w Kernel \<Rightarrow> ident \<Rightarrow> ('w, ident list) kernel_op" where
  "kernel_revoke env k lease =
     (case revoke_cascading (db_leases (k_identity k)) lease of
        None \<Rightarrow> None
      | Some (Err e) \<Rightarrow> Some (k, Err (identity_to_kernel_error (kv_show_identity env) e))
      | Some (Ok (leases, ids)) \<Rightarrow>
          Some (k\<lparr> k_identity := (k_identity k)\<lparr> db_leases := leases \<rparr> \<rparr>, Ok ids))"

section \<open>Automatic lease resolution\<close>

text \<open>The order of \<open>(bound, Reverse(expires_at))\<close>: bound leases first, then the one expiring soonest.\<close>

definition better_lease :: "CapabilityLease \<Rightarrow> CapabilityLease \<Rightarrow> bool" where
  "better_lease l current =
     ((bound_branch l \<noteq> None \<and> bound_branch current = None)
      \<or> ((bound_branch l \<noteq> None) = (bound_branch current \<noteq> None) \<and> expires_at l < expires_at current))"

fun choose_lease ::
  "ident \<Rightarrow> string \<Rightarrow> json \<Rightarrow> ident \<Rightarrow> instant \<Rightarrow> CapabilityLease option \<Rightarrow> CapabilityLease list
    \<Rightarrow> CapabilityLease option" where
  "choose_lease actor op params branch now chosen [] = chosen"
| "choose_lease actor op params branch now chosen (l # ls) =
     choose_lease actor op params branch now
       (if lease_check l actor op params (Some branch) now \<noteq> Ok () then chosen
        else case chosen of None \<Rightarrow> Some l | Some c \<Rightarrow> if better_lease l c then Some l else chosen) ls"

record AutoStepResult =
  auto_result :: StepResult
  auto_lease :: ident
  auto_minted :: bool

definition auto_action :: "ActionKind \<Rightarrow> string option \<Rightarrow> ResourceBudget option \<Rightarrow> CapabilityLease \<Rightarrow> Action" where
  "auto_action kind intent budget lease =
     \<lparr> act_kind = kind, act_lease = lease_id lease, intent_hint = intent,
       act_budget = clamped_to (case budget of Some b \<Rightarrow> b | None \<Rightarrow> step_default) (lease_budget lease) \<rparr>"

definition execute_step_auto ::
  "'w KernelEnv \<Rightarrow> OpInput \<Rightarrow> StepInput \<Rightarrow> 'w Kernel \<Rightarrow> ident \<Rightarrow> ident \<Rightarrow> ActionKind \<Rightarrow> string option \<Rightarrow> ResourceBudget option
    \<Rightarrow> ('w, AutoStepResult) kernel_op" where
  "execute_step_auto env req inp k actor branch kind intent budget =
     (let op = required_operation kind; params = action_params kind; now = op_time req 3;
          run = (\<lambda>k lease minted.
            and_then (execute_step env inp k actor branch (auto_action kind intent budget lease)) (\<lambda>k result.
            Some (k, Ok \<lparr> auto_result = result, auto_lease = lease_id lease, auto_minted = minted \<rparr>))) in
      case choose_lease actor op params branch now None (active_for_principal (db_leases (k_identity k)) actor now) of
        Some lease \<Rightarrow> run k lease False
      | None \<Rightarrow> and_then (request_capability env req k actor op params (Some branch)) (\<lambda>k lease. run k lease True))"

section \<open>Effects\<close>

definition effect_writer :: "'w Kernel \<Rightarrow> PendingEffect \<Rightarrow> EventWriter KernelResult" where
  "effect_writer k fx =
     (case load_branch (dd_dag (k_dag k)) (fx_branch fx) of
        Err e \<Rightarrow> Err e
      | Ok b \<Rightarrow> Ok \<lparr> wr_episode = br_episode b, wr_branch = Some (fx_branch fx), wr_step = Some (fx_step fx),
                     wr_principal = proposer fx \<rparr>)"

text \<open>Load the effect, open its writer and record one event: the end of every effect operation.\<close>

definition log_effect ::
  "'w KernelEnv \<Rightarrow> 'w Kernel \<Rightarrow> ident \<Rightarrow> EventKind \<Rightarrow> json \<Rightarrow> instant \<Rightarrow> ('w, int) kernel_op" where
  "log_effect env k i kind payload now =
     check k (load_effect (k_broker k) i) (\<lambda>fx.
     check k (effect_writer k fx) (\<lambda>w. log_event env k w kind payload [] now))"

definition prepare_effect :: "'w KernelEnv \<Rightarrow> OpInput \<Rightarrow> 'w Kernel \<Rightarrow> ident \<Rightarrow> ('w, PreparedEffect) kernel_op" where
  "prepare_effect env inp k i =
     (case prepare (kv_broker env) (k_world k) (k_broker k) i of
        (world, bk, r) \<Rightarrow>
          check (k\<lparr> k_world := world, k_broker := bk \<rparr>) r (\<lambda>prepared.
          and_then (log_effect env (k\<lparr> k_world := world, k_broker := bk \<rparr>) i EffectPrepared
                      (JObj [(''effect_id'', JStr i), (''preview'', preview prepared)]) (op_time inp 0)) (\<lambda>k _.
          Some (k, Ok prepared))))"

definition approve_effect :: "'w KernelEnv \<Rightarrow> OpInput \<Rightarrow> 'w Kernel \<Rightarrow> ident \<Rightarrow> ident \<Rightarrow> ('w, unit) kernel_op" where
  "approve_effect env inp k i who =
     (let epoch = policy_epoch (k_policy k) in
      case approve (k_broker k) i who epoch (op_time inp 0) of
        (bk, r) \<Rightarrow>
          check (k\<lparr> k_broker := bk \<rparr>) r (\<lambda>_.
          and_then (log_effect env (k\<lparr> k_broker := bk \<rparr>) i EffectApproved
                      (JObj [(''effect_id'', JStr i), (''approver'', JStr who), (''policy_epoch'', JInt (uint epoch))])
                      (op_time inp 1)) (\<lambda>k _.
          Some (k, Ok ()))))"

definition lease_live :: "'w Kernel \<Rightarrow> instant \<Rightarrow> ident \<Rightarrow> bool" where
  "lease_live k now i =
     (case lease_get (db_leases (k_identity k)) i of Ok l \<Rightarrow> \<not> revoked l \<and> now < expires_at l | Err _ \<Rightarrow> False)"

definition abort_payload :: "'w KernelEnv \<Rightarrow> ident \<Rightarrow> KernelError \<Rightarrow> json" where
  "abort_payload env i err =
     JObj ([(''effect_id'', JStr i)]
       @ (case err of CommitInDoubt _ _ \<Rightarrow> [(''in_doubt'', JBool True)] | _ \<Rightarrow> [])
       @ [(''reason'', JStr (show_error (kv_broker env) err))])"

text \<open>The record of a committed effect: receipt, event and state; only the event's failure is reported.\<close>

definition record_commit ::
  "'w KernelEnv \<Rightarrow> OpInput \<Rightarrow> 'w Kernel \<Rightarrow> EventWriter \<Rightarrow> ident \<Rightarrow> PendingEffect \<Rightarrow> Receipt \<Rightarrow> ('w, Receipt) kernel_op" where
  "record_commit env inp k w i fx receipt =
     and_then (log_event env
         (k\<lparr> k_ledger := fst (store_receipt (k_ledger k) receipt (idempotency_key (contract fx))) \<rparr>) w EffectCommitted
         (JObj [(''effect_id'', JStr i), (''receipt_id'', JStr (rcpt_id receipt)),
                (''class'', JStr (class_name (effect_class (contract fx))))]) [] (op_time inp 3)) (\<lambda>k _.
     check k (branch_head k (fx_branch fx)) (\<lambda>hd_node.
     case append_node k (fx_branch fx) (op_new inp 1) (proposer fx)
            (default_delta\<lparr> effects_committed := [rcpt_id receipt],
               delta_policy_epoch := delta_policy_epoch (st_delta hd_node) \<rparr>)
            (workspace_root hd_node) (st_replay hd_node) (op_new inp 2) (op_time inp 4) of
       None \<Rightarrow> None
     | Some (k, _) \<Rightarrow> Some (k, Ok receipt)))"

definition commit_effect :: "'w KernelEnv \<Rightarrow> OpInput \<Rightarrow> 'w Kernel \<Rightarrow> ident \<Rightarrow> ('w, Receipt) kernel_op" where
  "commit_effect env inp k i =
     (case commit (kv_broker env) (k_world k) (k_broker k) i (policy_epoch (k_policy k)) (lease_live k (op_time inp 0))
             (op_time inp 1) (op_time inp 2) (op_new inp 0) of
        (world, bk, r) \<Rightarrow>
          (let k = k\<lparr> k_world := world, k_broker := bk \<rparr> in
           check k (load_effect (k_broker k) i) (\<lambda>fx.
           check k (effect_writer k fx) (\<lambda>w.
           case r of
             Ok receipt \<Rightarrow> record_commit env inp k w i fx receipt
           | Err err \<Rightarrow>
               and_then (log_event env k w EffectAborted (abort_payload env i err) [] (op_time inp 3)) (\<lambda>k _.
               Some (k, Err err))))))"

fun resolution_json :: "InDoubtResolution \<Rightarrow> json" where
  "resolution_json (ResolvedCommitted receipt) = JObj [(''resolution'', JStr ''committed''), (''receipt'', JStr receipt)]"
| "resolution_json ResolvedAborted = JObj [(''resolution'', JStr ''aborted'')]"
| "resolution_json StillInDoubt = JObj [(''resolution'', JStr ''still_in_doubt'')]"

fun log_resolutions ::
  "'w KernelEnv \<Rightarrow> (nat \<Rightarrow> instant) \<Rightarrow> nat \<Rightarrow> (ident \<times> InDoubtResolution) list \<Rightarrow> 'w Kernel \<Rightarrow> 'w Kernel option" where
  "log_resolutions env clock n [] k = Some k"
| "log_resolutions env clock n ((i, r) # rs) k =
     (case log_effect env k i EffectCommitted
             (JObj [(''effect_id'', JStr i), (''recovery'', JBool True), (''resolution'', resolution_json r)]) (clock n) of
        None \<Rightarrow> None
      | Some (k', _) \<Rightarrow> log_resolutions env clock (Suc n) rs k')"

definition recover_in_doubt_effects ::
  "'w KernelEnv \<Rightarrow> OpInput \<Rightarrow> (nat \<Rightarrow> instant) \<Rightarrow> 'w Kernel \<Rightarrow> ('w, (ident \<times> InDoubtResolution) list) kernel_op" where
  "recover_in_doubt_effects env inp clock k =
     (case recover_in_doubt (kv_broker env) (k_world k) (k_broker k) (op_time inp) (op_new inp) of
        (world, bk, rs) \<Rightarrow>
          map_option (\<lambda>k. (k, Ok rs)) (log_resolutions env clock 0 rs (k\<lparr> k_world := world, k_broker := bk \<rparr>)))"

definition resolve_in_doubt_effect ::
  "'w KernelEnv \<Rightarrow> OpInput \<Rightarrow> 'w Kernel \<Rightarrow> ident \<Rightarrow> OperatorResolution \<Rightarrow> ('w, Receipt option) kernel_op" where
  "resolve_in_doubt_effect env inp k i outcome =
     (case resolve_in_doubt (kv_broker env) (k_broker k) i outcome (op_time inp 0) (op_new inp 0) of
        (bk, r) \<Rightarrow>
          check (k\<lparr> k_broker := bk \<rparr>) r (\<lambda>receipt.
          Some (k\<lparr> k_broker := bk,
                   k_ledger := (case receipt of
                       None \<Rightarrow> k_ledger k
                     | Some rc \<Rightarrow> fst (store_receipt (k_ledger k) rc (rb_operation (rcpt_body rc)))) \<rparr>, Ok receipt)))"

definition compensate_effect :: "'w KernelEnv \<Rightarrow> OpInput \<Rightarrow> 'w Kernel \<Rightarrow> ident \<Rightarrow> ('w, Receipt) kernel_op" where
  "compensate_effect env inp k i =
     (case compensate (kv_broker env) (k_world k) (k_broker k) i (op_time inp 0) (op_new inp 0) of
        (world, bk, r) \<Rightarrow>
          check (k\<lparr> k_world := world, k_broker := bk \<rparr>) r (\<lambda>receipt.
          and_then (log_effect env (k\<lparr> k_world := world, k_broker := bk \<rparr>) i EffectAborted
                      (JObj [(''effect_id'', JStr i), (''compensating_receipt'', JStr (rcpt_id receipt)),
                             (''compensated'', JBool True)]) (op_time inp 1)) (\<lambda>k _.
          Some (k, Ok receipt))))"

definition replay_live ::
  "'w KernelEnv \<Rightarrow> (nat \<Rightarrow> OpInput) \<Rightarrow> string \<Rightarrow> 'w Kernel \<Rightarrow> ident \<Rightarrow> ident \<Rightarrow> ('w, Receipt) kernel_op" where
  "replay_live env inps millis k i who =
     check k (load_effect (k_broker k) i) (\<lambda>fx.
     let c = (contract fx)\<lparr> idempotency_key := idempotency_key (contract fx) @ ''-replay-'' @ millis \<rparr> in
     case propose (kv_broker env) (k_broker k) c (proposer fx) (fx_branch fx) (fx_step fx) (fx_lease fx)
            (op_time (inps 0) 0) (op_new (inps 0) 0) of
       (bk, r) \<Rightarrow>
         check (k\<lparr> k_broker := bk \<rparr>) r (\<lambda>replayed.
         and_then (prepare_effect env (inps 1) (k\<lparr> k_broker := bk \<rparr>) (fx_id replayed)) (\<lambda>k _.
         and_then (approve_effect env (inps 2) k (fx_id replayed) who) (\<lambda>k _.
         commit_effect env (inps 3) k (fx_id replayed)))))"

end
