(* ===== verification/KernelTrace.thy ===== *)
theory KernelTrace
  imports KernelOps
begin

text \<open>
  Reading the trace back (kernel/api/src/kernel.rs): explaining a recorded step from its events,
  retrying it, and the audit and sandbox replays.
\<close>

section \<open>Explaining a step\<close>

record StepExplanation =
  se_step :: ident
  se_episode :: ident
  se_branch :: "ident option"
  se_principal :: ident
  se_action :: "json option"
  se_policy_decisions :: "json list"
  se_denial :: "Denial option"
  se_state :: "ident option"
  se_state_delta :: "json option"
  se_observation :: "json option"
  se_effects_proposed :: "json list"
  se_events :: "LedgerEvent list"

definition explain_event :: "'w KernelEnv \<Rightarrow> StepExplanation \<Rightarrow> LedgerEvent \<Rightarrow> StepExplanation" where
  "explain_event env x ev =
     (let p = ev_payload (le_body ev) in
      case ev_kind (le_body ev) of
        ToolInvocation \<Rightarrow> x\<lparr> se_action := Some p \<rparr>
      | PolicyDecision \<Rightarrow> x\<lparr> se_policy_decisions := se_policy_decisions x @ [p] \<rparr>
      | CapabilityRequest \<Rightarrow> x\<lparr> se_policy_decisions := se_policy_decisions x @ [p] \<rparr>
      | DenialIssued \<Rightarrow> x\<lparr> se_denial := kv_parse_denial env p \<rparr>
      | StateDeltaRecorded \<Rightarrow>
          x\<lparr> se_state := Option.bind (json_get p ''state_id'') (\<lambda>v. ok_option (kv_parse_ident env v)),
             se_state_delta := json_get p ''delta'' \<rparr>
      | ObservationEmitted \<Rightarrow> x\<lparr> se_observation := Some p \<rparr>
      | EffectProposed \<Rightarrow> x\<lparr> se_effects_proposed := se_effects_proposed x @ [p] \<rparr>
      | _ \<Rightarrow> x)"

definition step_events :: "'w KernelEnv \<Rightarrow> 'w Kernel \<Rightarrow> ident \<Rightarrow> LedgerEvent list KernelResult" where
  "step_events env k step = query (kv_ledger env) (k_ledger k) (any_event\<lparr> tq_step := Some step \<rparr>)"

definition unexplained :: "ident \<Rightarrow> LedgerEvent \<Rightarrow> LedgerEvent list \<Rightarrow> StepExplanation" where
  "unexplained step first evs =
     \<lparr> se_step = step, se_episode = ev_episode (le_body first), se_branch = ev_branch (le_body first),
       se_principal = ev_principal (le_body first), se_action = None, se_policy_decisions = [], se_denial = None,
       se_state = None, se_state_delta = None, se_observation = None, se_effects_proposed = [], se_events = evs \<rparr>"

definition step_explain :: "'w KernelEnv \<Rightarrow> 'w Kernel \<Rightarrow> ident \<Rightarrow> StepExplanation KernelResult" where
  "step_explain env k step =
     (case step_events env k step of
        Err e \<Rightarrow> Err e
      | Ok [] \<Rightarrow> Err (NotFound ''step'' step)
      | Ok (first # rest) \<Rightarrow> Ok (foldl (explain_event env) (unexplained step first (first # rest)) (first # rest)))"

section \<open>Retrying a step\<close>

definition required :: "string \<Rightarrow> ident \<Rightarrow> 'a option \<Rightarrow> 'a KernelResult" where
  "required kind i x = (case x of None \<Rightarrow> Err (NotFound kind i) | Some y \<Rightarrow> Ok y)"

definition and_parse :: "'a KernelResult \<Rightarrow> ('a \<Rightarrow> 'b KernelResult) \<Rightarrow> 'b KernelResult" where
  "and_parse r f = (case r of Err e \<Rightarrow> Err e | Ok x \<Rightarrow> f x)"

definition retry_hint :: "ident \<Rightarrow> json \<Rightarrow> string" where
  "retry_hint step payload =
     (case json_str payload ''intent_hint'' of
        Some s \<Rightarrow> ''retry of '' @ step @ '': '' @ s
      | None \<Rightarrow> ''retry of '' @ step)"

text \<open>The recorded action with its recorded lease and budget.\<close>

definition recorded_action :: "'w KernelEnv \<Rightarrow> ident \<Rightarrow> json \<Rightarrow> Action KernelResult" where
  "recorded_action env step payload =
     and_parse (and_parse (required ''recorded_action'' step (json_get payload ''action'')) (kv_parse_action env)) (\<lambda>kind.
     and_parse (and_parse (required ''recorded_lease'' step (json_get payload ''lease'')) (kv_parse_ident env)) (\<lambda>lease.
     Ok \<lparr> act_kind = kind, act_lease = lease, intent_hint = Some (retry_hint step payload),
          act_budget = (case Option.bind (json_get payload ''budget'') (kv_parse_budget env) of
                          Some b \<Rightarrow> b | None \<Rightarrow> step_default) \<rparr>))"

definition step_retry :: "'w KernelEnv \<Rightarrow> StepInput \<Rightarrow> 'w Kernel \<Rightarrow> ident \<Rightarrow> ('w, StepResult) kernel_op" where
  "step_retry env inp k step =
     check k (step_explain env k step) (\<lambda>x.
     check k (required ''step_branch'' step (se_branch x)) (\<lambda>branch.
     check k (required ''tool_invocation'' step (se_action x)) (\<lambda>payload.
     check k (recorded_action env step payload) (\<lambda>action.
     execute_step env inp k (se_principal x) branch action))))"

section \<open>Replay\<close>

definition replay_audit :: "'w KernelEnv \<Rightarrow> 'w Kernel \<Rightarrow> int \<Rightarrow> int \<Rightarrow> LedgerEvent list KernelResult" where
  "replay_audit env k seq_from seq_to = query (kv_ledger env) (k_ledger k) (any_event\<lparr> tq_seq_range := Some (seq_from, seq_to) \<rparr>)"

record ReplaySandboxReport =
  rr_step :: ident
  original_exit_code :: "32 word option"
  rerun_exit_code :: "32 word"
  workspace_match :: bool
  rr_replay_class :: ReplayClass

definition event_field :: "EventKind \<Rightarrow> string \<Rightarrow> LedgerEvent list \<Rightarrow> json option" where
  "event_field kind key evs =
     Option.bind (find (\<lambda>e. ev_kind (le_body e) = kind) evs) (\<lambda>e. json_get (ev_payload (le_body e)) key)"

text \<open>\<open>as_i64\<close> and the cast to \<open>i32\<close>, which keeps the low 32 bits.\<close>

fun json_as_i32 :: "json \<Rightarrow> 32 word option" where
  "json_as_i32 (JInt n) = (if - (2 ^ 63) \<le> n \<and> n < 2 ^ 63 then Some (word_of_int n) else None)"
| "json_as_i32 _ = None"

fun replay_class_debug :: "ReplayClass \<Rightarrow> string" where
  "replay_class_debug AuditOnly = ''AuditOnly''"
| "replay_class_debug FilesystemOnly = ''FilesystemOnly''"
| "replay_class_debug ProcessAndFilesystem = ''ProcessAndFilesystem''"
| "replay_class_debug FrameworkHostCalls = ''FrameworkHostCalls''"
| "replay_class_debug BrowserProfile = ''BrowserProfile''"

definition replay_request :: "ident \<Rightarrow> ident \<Rightarrow> StateNode \<Rightarrow> ActionKind \<Rightarrow> CompiledConfinement \<Rightarrow> ExecutionRequest" where
  "replay_request branch parent recorded kind conf =
     \<lparr> rq_branch = branch, rq_base_state = parent, rq_actor = st_actor recorded, rq_action = kind,
       rq_budget = step_default, rq_writable_prefixes = cc_writable_prefixes conf,
       rq_readable_prefixes = cc_readable_prefixes conf, rq_egress_domains = cc_egress_domains conf \<rparr>"

text \<open>The rerun in a scratch workspace: materialize the parent, execute, compare the snapshots.\<close>

definition replay_in_scratch ::
  "'w KernelEnv \<Rightarrow> OpInput \<Rightarrow> 'w Kernel \<Rightarrow> ident \<Rightarrow> StateNode \<Rightarrow> ident \<Rightarrow> ActionKind \<Rightarrow> 32 word option \<Rightarrow> CompiledConfinement
    \<Rightarrow> ('w, ReplaySandboxReport) kernel_op" where
  "replay_in_scratch env inp k step recorded parent kind exit_code conf =
     check k (kv_scratch env) (\<lambda>dir.
     case dag_materialize (kv_dag env) (kv_fs env) (k_dag k) parent dir \<lparr> tree = [], through = [] \<rparr> (op_time inp 1) (op_time inp 1) of
       (dd, space, m) \<Rightarrow>
         check (k\<lparr> k_dag := dd \<rparr>) m (\<lambda>_.
         case kv_replay env (replay_request (op_new inp 1) parent recorded kind conf) space of
           (space', outcome_r) \<Rightarrow>
             check (k\<lparr> k_dag := dd \<rparr>) outcome_r (\<lambda>oc.
             case snapshot_dir (kv_dag env) (op_time inp 2) (dag_cas (dd_dag dd)) (tree space') of
               (c, snap) \<Rightarrow>
                 check (k\<lparr> k_dag := dd\<lparr> dd_dag := (dd_dag dd)\<lparr> dag_cas := c \<rparr> \<rparr> \<rparr>) snap (\<lambda>(root_hash, _).
                 Some (k\<lparr> k_dag := dd\<lparr> dd_dag := (dd_dag dd)\<lparr> dag_cas := c \<rparr> \<rparr> \<rparr>,
                   Ok \<lparr> rr_step = step, original_exit_code = exit_code, rerun_exit_code = oc_exit_code oc,
                        workspace_match = (root_hash = workspace_root recorded),
                        rr_replay_class = st_replay recorded \<rparr>)))))"

definition replay_sandbox ::
  "'w KernelEnv \<Rightarrow> OpInput \<Rightarrow> 'w Kernel \<Rightarrow> ident \<Rightarrow> ('w, ReplaySandboxReport) kernel_op" where
  "replay_sandbox env inp k step =
     check k (step_events env k step) (\<lambda>evs.
     check k (case event_field ToolInvocation ''action'' evs of
                None \<Rightarrow> Err (NotFound ''tool_invocation'' step) | Some v \<Rightarrow> kv_parse_action env v) (\<lambda>kind.
     check k (case event_field StateDeltaRecorded ''state_id'' evs of
                None \<Rightarrow> Err (NotFound ''state_delta'' step) | Some v \<Rightarrow> kv_parse_ident env v) (\<lambda>state.
     let exit_code = Option.bind (event_field ObservationEmitted ''exit_code'' evs) json_as_i32 in
     check k (load_state (dd_dag (k_dag k)) state) (\<lambda>recorded.
     if \<not> replay_supports (st_replay recorded) Sandbox then
       Some (k, Err (OtherError (''step '' @ step @ '' was recorded at replay class ''
         @ replay_class_debug (st_replay recorded) @ '', which does not support sandbox replay'')))
     else
     check k (required ''parent_state'' state (st_parent recorded)) (\<lambda>parent.
     check k (kernel_principal env k (st_actor recorded)) (\<lambda>who.
     case evaluate (kv_add_seconds env) (kv_constraints env) (op_new inp 0) (k_policy k) who
            (required_operation kind) (action_params kind) (Some (st_branch recorded)) (op_time inp 0) of
       None \<Rightarrow> None
     | Some (Deny d) \<Rightarrow> Some (k, Err (Denied d))
     | Some (RequireApproval rule _ _ _) \<Rightarrow>
         Some (k, Err (OtherError (''sandbox replay refused: rule `'' @ rule @ ''` now requires approval'')))
     | Some (Allow _ grant) \<Rightarrow>
         replay_in_scratch env inp k step recorded parent kind exit_code (confinement grant)))))))"

end
