(* ===== verification/KernelExplore.thy ===== *)
theory KernelExplore
  imports KernelOps
begin

text \<open>
  Server-side exploration (\<open>Kernel::explore\<close> of kernel/api/src/kernel.rs): one task per candidate
  under a parallelism cap, a shared flag for early stopping, and the merge of the winner with the
  disposal of the other branches once all tasks have returned. The tasks run concurrently: a move
  is one task's progress to its next read or write of shared state (a kernel operation, the flag,
  the permits), so every interleaving of the tasks is a sequence of moves.
\<close>

section \<open>Options and reports\<close>

definition MAX_EXPLORE_CANDIDATES :: nat where
  "MAX_EXPLORE_CANDIDATES = 16"

record ExploreCandidate =
  cand_name :: "string option"
  cand_actions :: "ActionKind list"

record ExploreOptions =
  xo_candidates :: "ExploreCandidate list"
  xo_evaluator :: "ActionKind option"
  xo_max_parallel :: "nat option"
  xo_early_stop :: bool
  xo_merge_winner :: bool
  xo_discard_losers :: bool
  xo_step_budget :: "ResourceBudget option"

record CandidateReport =
  cr_index :: nat
  cr_name :: "string option"
  cr_branch :: "ident option"
  cr_steps :: "StepResult list"
  cr_evaluation :: "StepResult option"
  cr_passed :: bool
  cr_skipped :: bool
  cr_error :: "string option"

record ExploreReport =
  xr_source :: ident
  xr_winner :: "nat option"
  xr_merged_state :: "ident option"
  xr_merge_error :: "string option"
  xr_candidates :: "CandidateReport list"
  xr_discarded :: "ident list"

section \<open>Tasks\<close>

datatype TaskPhase =
    Queued
  | Forking
  | Checking "ActionKind list"
  | Acting ActionKind "ActionKind list"
  | Judging ActionKind
  | Leaving
  | Done

record ExploreTask =
  task_phase :: TaskPhase
  task_report :: CandidateReport

record 'w Exploration =
  x_kernel :: "'w Kernel"
  x_won :: bool
  x_permits :: nat
  x_tasks :: "ExploreTask list"

definition new_task :: "nat \<times> ExploreCandidate \<Rightarrow> ExploreTask" where
  "new_task c =
     \<lparr> task_phase = Queued,
       task_report = \<lparr> cr_index = fst c, cr_name = cand_name (snd c), cr_branch = None, cr_steps = [], cr_evaluation = None,
                       cr_passed = False, cr_skipped = False, cr_error = None \<rparr> \<rparr>"

definition parallelism :: "nat \<Rightarrow> ExploreOptions \<Rightarrow> nat" where
  "parallelism max_branches opts =
     min (max (case xo_max_parallel opts of Some n \<Rightarrow> n | None \<Rightarrow> 4) 1) (max max_branches 1)"

definition explore_start :: "nat \<Rightarrow> ExploreOptions \<Rightarrow> 'w Kernel \<Rightarrow> 'w Exploration KernelResult" where
  "explore_start max_branches opts k =
     (if xo_candidates opts = [] then Err (OtherError ''explore requires at least one candidate'')
      else if length (xo_candidates opts) > MAX_EXPLORE_CANDIDATES then
        Err (OtherError (''explore accepts at most '' @ show_nat MAX_EXPLORE_CANDIDATES @ '' candidates per call''))
      else Ok \<lparr> x_kernel = k, x_won = False, x_permits = parallelism max_branches opts,
                x_tasks = map new_task (enumerate 0 (xo_candidates opts)) \<rparr>)"

fun step_succeeded :: "Observation \<Rightarrow> bool" where
  "step_succeeded (Success _ _ _ _ _ _ _) = True"
| "step_succeeded (EffectPending _ _ _) = True"
| "step_succeeded _ = False"

fun passes :: "Observation \<Rightarrow> bool" where
  "passes (Success _ _ _ _ exit_code _ _) = (exit_code = 0)"
| "passes _ = False"

definition put_task :: "nat \<Rightarrow> TaskPhase \<Rightarrow> CandidateReport \<Rightarrow> 'w Exploration \<Rightarrow> 'w Exploration" where
  "put_task i ph rep s = s\<lparr> x_tasks := (x_tasks s)[i := \<lparr> task_phase = ph, task_report = rep \<rparr>] \<rparr>"

text \<open>A task that returns raises the flag if it passed, and gives its permit back.\<close>

definition finish_task :: "nat \<Rightarrow> CandidateReport \<Rightarrow> 'w Exploration \<Rightarrow> 'w Exploration" where
  "finish_task i rep s =
     put_task i Done rep (s\<lparr> x_won := x_won s \<or> cr_passed rep, x_permits := x_permits s + 1 \<rparr>)"

definition auto_step ::
  "'w KernelEnv \<Rightarrow> ExploreOptions \<Rightarrow> ident \<Rightarrow> string \<Rightarrow> OpInput \<Rightarrow> StepInput \<Rightarrow> CandidateReport \<Rightarrow> ActionKind \<Rightarrow> 'w Kernel
    \<Rightarrow> ('w, AutoStepResult) kernel_op" where
  "auto_step env opts actor purpose req inp rep kind k =
     execute_step_auto env req inp k actor (case cr_branch rep of Some b \<Rightarrow> b | None \<Rightarrow> []) kind
       (Some (''explore '' @ purpose @ '' '' @ show_nat (cr_index rep))) (xo_step_budget opts)"

definition stopped :: "ExploreOptions \<Rightarrow> 'w Exploration \<Rightarrow> bool" where
  "stopped opts s = (xo_early_stop opts \<and> x_won s)"

definition explore_move ::
  "'w KernelEnv \<Rightarrow> ExploreOptions \<Rightarrow> ident \<Rightarrow> ident \<Rightarrow> OpInput \<Rightarrow> StepInput \<Rightarrow> nat \<Rightarrow> 'w Exploration \<Rightarrow> 'w Exploration option" where
  "explore_move env opts actor source req inp i s =
     (let rep = task_report (x_tasks s ! i); failed = (\<lambda>what e. rep\<lparr> cr_error := Some (what @ show_error (kv_broker env) e) \<rparr>) in
      case task_phase (x_tasks s ! i) of
        Queued \<Rightarrow>
          if x_permits s = 0 then None
          else let s = s\<lparr> x_permits := x_permits s - 1 \<rparr> in
            Some (if stopped opts s then put_task i Leaving (rep\<lparr> cr_skipped := True \<rparr>) s else put_task i Forking rep s)
      | Forking \<Rightarrow>
          (case fork_branch env req (x_kernel s) source of
             None \<Rightarrow> None
           | Some (k, Err e) \<Rightarrow> Some (put_task i Leaving (failed ''fork failed: '' e) (s\<lparr> x_kernel := k \<rparr>))
           | Some (k, Ok b) \<Rightarrow>
               Some (put_task i (Checking (cand_actions (xo_candidates opts ! i))) (rep\<lparr> cr_branch := Some (br_id b) \<rparr>)
                       (s\<lparr> x_kernel := k \<rparr>)))
      | Checking [] \<Rightarrow>
          (case xo_evaluator opts of
             Some kind \<Rightarrow> Some (put_task i (Judging kind) rep s)
           | None \<Rightarrow> Some (put_task i Leaving (rep\<lparr> cr_passed := True \<rparr>) s))
      | Checking (a # as) \<Rightarrow>
          if stopped opts s then Some (put_task i Leaving (rep\<lparr> cr_skipped := True \<rparr>) s)
          else Some (put_task i (Acting a as) rep s)
      | Acting a as \<Rightarrow>
          (case auto_step env opts actor ''candidate'' req inp rep a (x_kernel s) of
             None \<Rightarrow> None
           | Some (k, Err e) \<Rightarrow> Some (put_task i Leaving (failed ''step failed: '' e) (s\<lparr> x_kernel := k \<rparr>))
           | Some (k, Ok auto) \<Rightarrow>
               (let rep = rep\<lparr> cr_steps := cr_steps rep @ [auto_result auto] \<rparr>; s = s\<lparr> x_kernel := k \<rparr> in
                Some (if step_succeeded (res_observation (auto_result auto))
                      then put_task i (Checking as) rep s else put_task i Leaving rep s)))
      | Judging kind \<Rightarrow>
          (case auto_step env opts actor ''evaluator'' req inp rep kind (x_kernel s) of
             None \<Rightarrow> None
           | Some (k, Err e) \<Rightarrow> Some (put_task i Leaving (failed ''evaluator failed: '' e) (s\<lparr> x_kernel := k \<rparr>))
           | Some (k, Ok auto) \<Rightarrow>
               Some (put_task i Leaving (rep\<lparr> cr_passed := passes (res_observation (auto_result auto)),
                                        cr_evaluation := Some (auto_result auto) \<rparr>) (s\<lparr> x_kernel := k \<rparr>)))
      | Leaving \<Rightarrow> Some (finish_task i rep s)
      | Done \<Rightarrow> None)"

section \<open>After the tasks\<close>

definition winner :: "CandidateReport list \<Rightarrow> nat option" where
  "winner reps = map_option cr_index (find cr_passed reps)"

definition merge_winning ::
  "'w KernelEnv \<Rightarrow> ExploreOptions \<Rightarrow> OpInput \<Rightarrow> 'w Kernel \<Rightarrow> ident \<Rightarrow> ident \<Rightarrow> CandidateReport list
    \<Rightarrow> ('w Kernel \<times> ident option \<times> string option) option" where
  "merge_winning env opts inp k actor source reps =
     (case (xo_merge_winner opts, winner reps) of
        (True, Some w) \<Rightarrow>
          (case cr_branch (reps ! w) of
             None \<Rightarrow> Some (k, None, None)
           | Some b \<Rightarrow>
               map_option (\<lambda>(k, r). (k, case r of
                   Ok node \<Rightarrow> (Some (st_id node), None)
                 | Err e \<Rightarrow> (None, Some (show_error (kv_broker env) e))))
                 (merge_branch env inp k source b actor))
      | _ \<Rightarrow> Some (k, None, None))"

fun discard_losers ::
  "'w KernelEnv \<Rightarrow> nat option \<Rightarrow> CandidateReport list \<Rightarrow> ident list \<Rightarrow> 'w Kernel \<Rightarrow> ('w Kernel \<times> ident list) option" where
  "discard_losers env win [] gone k = Some (k, gone)"
| "discard_losers env win (c # cs) gone k =
     (if Some (cr_index c) = win then discard_losers env win cs gone k
      else case cr_branch c of
        None \<Rightarrow> discard_losers env win cs gone k
      | Some b \<Rightarrow>
          (case kernel_discard_branch env k b of
             None \<Rightarrow> None
           | Some (k, Ok _) \<Rightarrow> discard_losers env win cs (gone @ [b]) k
           | Some (k, Err _) \<Rightarrow> discard_losers env win cs gone k))"

definition explore_finish ::
  "'w KernelEnv \<Rightarrow> ExploreOptions \<Rightarrow> OpInput \<Rightarrow> ident \<Rightarrow> ident \<Rightarrow> 'w Exploration \<Rightarrow> ('w, ExploreReport) kernel_op" where
  "explore_finish env opts inp actor source s =
     (let reps = sort_key cr_index (map task_report (x_tasks s)) in
      case merge_winning env opts inp (x_kernel s) actor source reps of
        None \<Rightarrow> None
      | Some (k, merged, merge_err) \<Rightarrow>
          map_option (\<lambda>(k, gone). (k, Ok \<lparr> xr_source = source, xr_winner = winner reps, xr_merged_state = merged,
               xr_merge_error = merge_err, xr_candidates = reps, xr_discarded = gone \<rparr>))
            (if xo_discard_losers opts then discard_losers env (winner reps) reps [] k else Some (k, [])))"

end
