(* ===== verification/KernelMoves.thy ===== *)
theory KernelMoves
  imports KernelSafety KernelTrace KernelExplore BrokerSystem
begin

text \<open>
  Every operation of the composed kernel is a sequence of operations of its components. A move is
  one such component operation; the lemmas show, operation by operation, that the facade changes
  its state by moves only. What all moves preserve therefore holds of the kernel.
\<close>

section \<open>Operations of the components\<close>

inductive broker_op :: "'w BrokerEnv \<Rightarrow> 'w \<Rightarrow> Broker \<Rightarrow> 'w \<Rightarrow> Broker \<Rightarrow> bool" for env where
  op_propose: "propose env b c who branch step lease now i = (b', r) \<Longrightarrow> broker_op env w b w b'"
| op_prepare: "prepare env w b i = (w', b', r) \<Longrightarrow> broker_op env w b w' b'"
| op_approve: "approve b i who epoch now = (b', r) \<Longrightarrow> broker_op env w b w b'"
| op_commit: "commit env w b i epoch lease_valid claim_time now j = (w', b', r) \<Longrightarrow> broker_op env w b w' b'"
| op_recover: "recover_in_doubt env w b clock ids = (w', b', rs) \<Longrightarrow> broker_op env w b w' b'"
| op_resolve: "resolve_in_doubt env b i outcome now j = (b', res) \<Longrightarrow> broker_op env w b w b'"
| op_compensate: "compensate env w b i now j = (w', b', r) \<Longrightarrow> broker_op env w b w' b'"

inductive dag_op :: "DagEnv \<Rightarrow> StateDag \<Rightarrow> StateDag \<Rightarrow> bool" for env where
  dag_storage: "dag_op env d (d\<lparr> dag_cas := c \<rparr>)"
| dag_create: "create_episode env d actor snapshot replay objective ep br st now = (d', r) \<Longrightarrow> dag_op env d d'"
| dag_append: "append_step d branch step actor delta wroot replay st now = (d', node) \<Longrightarrow> dag_op env d d'"
| dag_fork: "fork d from br now = (d', b) \<Longrightarrow> dag_op env d d'"
| dag_discard: "discard_branch d branch = (d', u) \<Longrightarrow> dag_op env d d'"
| dag_merge: "merge env d target source actor st now = Some (d', node) \<Longrightarrow> dag_op env d d'"

inductive identity_op :: "IdentityDb \<Rightarrow> IdentityDb \<Rightarrow> bool" where
  id_register: "register (db_principals db) p = Ok reg \<Longrightarrow> identity_op db (db\<lparr> db_principals := reg \<rparr>)"
| id_issue: "\<lbrakk> tbl_get (db_leases db) (lease_id l) = None; parent_lease l = None \<rbrakk>
    \<Longrightarrow> identity_op db (db\<lparr> db_leases := lease_issue l (db_leases db) \<rparr>)"
| id_delegate: "\<lbrakk> tbl_get (db_leases db) new_id = None;
      delegate db new_id delegator parent_id delegatee cs uses expiry budget now = Ok (db', child) \<rbrakk>
    \<Longrightarrow> identity_op db db'"
| id_revoke: "revoke_cascading (db_leases db) i = Some (Ok (t, ids)) \<Longrightarrow> identity_op db (db\<lparr> db_leases := t \<rparr>)"
| id_consume: "consume_use (db_leases db) i now = Ok (t, l) \<Longrightarrow> identity_op db (db\<lparr> db_leases := t \<rparr>)"

text \<open>The episode table records only episodes and branches that the state graph has.\<close>

definition branch_in :: "StateDag \<Rightarrow> ident \<Rightarrow> ident \<Rightarrow> bool" where
  "branch_in d e br \<longleftrightarrow> (\<exists>r. tbl_get (dag_branches d) br = Some r \<and> brow_episode r = e)"

inductive moves :: "'w KernelEnv \<Rightarrow> 'w Kernel \<Rightarrow> 'w Kernel \<Rightarrow> bool" for env k where
  mv_none: "moves env k k"
| mv_event: "moves env k k' \<Longrightarrow>
    moves env k (k'\<lparr> k_ledger := fst (record_caused_by (kv_ledger env) (k_ledger k') w kind payload causes now) \<rparr>)"
| mv_raw: "moves env k k' \<Longrightarrow> moves env k (k'\<lparr> k_ledger := fst (store_raw (kv_ledger env) (k_ledger k') bs) \<rparr>)"
| mv_receipt: "moves env k k' \<Longrightarrow> moves env k (k'\<lparr> k_ledger := fst (store_receipt (k_ledger k') rc key) \<rparr>)"
| mv_identity: "\<lbrakk> moves env k k'; identity_op (k_identity k') db \<rbrakk> \<Longrightarrow> moves env k (k'\<lparr> k_identity := db \<rparr>)"
| mv_broker: "\<lbrakk> moves env k k'; broker_op (kv_broker env) (k_world k') (k_broker k') ext b \<rbrakk>
    \<Longrightarrow> moves env k (k'\<lparr> k_world := ext, k_broker := b \<rparr>)"
| mv_dag: "\<lbrakk> moves env k k'; dag_op (kv_dag env) (dd_dag (k_dag k')) (dd_dag dd) \<rbrakk> \<Longrightarrow> moves env k (k'\<lparr> k_dag := dd \<rparr>)"
| mv_around: "moves env k k' \<Longrightarrow> moves env k (k'\<lparr> k_sched := s, k_spaces := spaces, k_world := ext \<rparr>)"
| mv_config: "moves env k k' \<Longrightarrow> moves env k (k'\<lparr> k_policy := doc, k_op_classes := classes, k_connector_names := names \<rparr>)"
| mv_episode: "\<lbrakk> moves env k k'; branch_in (dd_dag (k_dag k')) e br; tbl_get (dag_states (dd_dag (k_dag k'))) st \<noteq> None \<rbrakk>
    \<Longrightarrow> moves env k (k'\<lparr> k_episodes := tbl_put e \<lparr> ei_root_branch = br, ei_root_state = st, ei_branches = [br],
          ei_created_by = who \<rparr> (k_episodes k') \<rparr>)"
| mv_branch: "\<lbrakk> moves env k k'; branch_in (dd_dag (k_dag k')) e br \<rbrakk>
    \<Longrightarrow> moves env k (k'\<lparr> k_episodes := tbl_update e (\<lambda>i. i\<lparr> ei_branches := ei_branches i @ [br] \<rparr>) (k_episodes k') \<rparr>)"

lemma moves_trans: "moves env k1 k2 \<Longrightarrow> moves env k k1 \<Longrightarrow> moves env k k2"
  by (induction rule: moves.induct) (blast intro: moves.intros)+

lemma kernel_same [simp]:
  "k\<lparr> k_ledger := k_ledger k \<rparr> = (k :: 'w Kernel)" "k\<lparr> k_world := k_world k \<rparr> = (k :: 'w Kernel)"
  "k\<lparr> k_sched := k_sched k \<rparr> = (k :: 'w Kernel)" "k\<lparr> k_spaces := k_spaces k \<rparr> = (k :: 'w Kernel)"
  "k\<lparr> k_dag := k_dag k \<rparr> = (k :: 'w Kernel)"
  by (cases k; simp)+

lemma traced_moves: "traced env w (k_ledger k) l' \<Longrightarrow> moves env k (k\<lparr> k_ledger := l' \<rparr>)"
proof (induction "k_ledger k" l' rule: traced.induct)
  case nothing
  show ?case
    using mv_none [of env k] by simp
next
  case (event l' kind payload causes now)
  then show ?case
    using mv_event [of env k "k\<lparr> k_ledger := l' \<rparr>" w kind payload causes now] by simp
next
  case (raw l' bs)
  then show ?case
    using mv_raw [of env k "k\<lparr> k_ledger := l' \<rparr>" bs] by simp
qed

lemma only_traced_moves: "only_traced env w k k' \<Longrightarrow> moves env k k'"
  unfolding only_traced_def using traced_moves by metis

lemma around_moves: "moves env k (k\<lparr> k_sched := s, k_spaces := spaces, k_world := ext \<rparr>)"
  by (rule mv_around [OF mv_none])

lemma around_moves2: "moves env k (k\<lparr> k_world := ext, k_spaces := spaces \<rparr>)"
proof -
  have "k\<lparr> k_world := ext, k_spaces := spaces \<rparr> = k\<lparr> k_sched := k_sched k, k_spaces := spaces, k_world := ext \<rparr>"
    by (cases k) simp
  then show ?thesis
    by (simp only: around_moves)
qed

lemma world_moves: "moves env k (k\<lparr> k_world := ext \<rparr>)"
  using around_moves2 [where k = k and ext = ext and spaces = "k_spaces k"] by (cases k) simp

lemma broker_moves:
  assumes "broker_op (kv_broker env) (k_world k) (k_broker k) (k_world k) b"
  shows "moves env k (k\<lparr> k_broker := b \<rparr>)"
  using mv_broker [OF mv_none assms] by (cases k) simp

lemma with_dag_moves: "dag_op (kv_dag env) (dd_dag (k_dag k)) d \<Longrightarrow> moves env k (with_dag d k)"
  unfolding with_dag_def by (rule mv_dag [OF mv_none]) simp

section \<open>Composition\<close>

lemma moves_and_then:
  assumes "and_then m f = Some (k', r)"
    and "\<And>k1 x. m = Some (k1, x) \<Longrightarrow> moves env k k1"
    and "\<And>k1 x. m = Some (k1, Ok x) \<Longrightarrow> f k1 x = Some (k', r) \<Longrightarrow> moves env k1 k'"
  shows "moves env k k'"
  using assms(1)
proof (cases rule: and_then_SomeE)
  case (err e)
  then show ?thesis
    using assms(2) by blast
next
  case (ok k1 x)
  then show ?thesis
    using moves_trans [OF assms(3) [OF ok] assms(2) [OF ok(1)]] by blast
qed

lemma moves_check:
  assumes "check k v f = Some (k', r)" "\<And>x. v = Ok x \<Longrightarrow> f x = Some (k', r) \<Longrightarrow> moves env k k'"
  shows "moves env k k'"
  using assms(1) by (cases rule: check_SomeE) (auto intro: assms(2) mv_none)

lemma moves_log:
  assumes "and_then (log_event env k w kind payload causes now) f = Some (k', r)"
    and "\<And>k1 seq. log_event env k w kind payload causes now = Some (k1, Ok seq) \<Longrightarrow> f k1 seq = Some (k', r) \<Longrightarrow> moves env k1 k'"
  shows "moves env k k'"
  by (rule moves_and_then [OF assms(1) only_traced_moves [OF log_event_traced] assms(2)])

lemma moves_raw:
  assumes "and_then (keep_raw env k raw) f = Some (k', r)"
    and "\<And>k1 full. keep_raw env k raw = Some (k1, Ok full) \<Longrightarrow> f k1 full = Some (k', r) \<Longrightarrow> moves env k1 k'"
  shows "moves env k k'"
  by (rule moves_and_then [OF assms(1) only_traced_moves [OF keep_raw_traced] assms(2)])

lemma moves_append:
  assumes "append_node k branch step actor delta wroot replay st now = Some (k', r)"
  shows "moves env k k'"
proof -
  obtain d where "append_step (dd_dag (k_dag k)) branch step actor delta wroot replay st now = (d, r)"
    and k': "k' = k\<lparr> k_dag := (k_dag k)\<lparr> dd_dag := d \<rparr> \<rparr>"
    using assms by (auto simp: append_node_def split: prod.splits)
  then have "dag_op (kv_dag env) (dd_dag (k_dag k)) (dd_dag ((k_dag k)\<lparr> dd_dag := d \<rparr>))"
    by (simp add: dag_append)
  then show ?thesis
    unfolding k' by (rule mv_dag [OF mv_none])
qed

lemma moves_append_then:
  assumes "and_then (append_node k branch step actor delta wroot replay st now) f = Some (k', r)"
    and "\<And>k1 node. append_node k branch step actor delta wroot replay st now = Some (k1, Ok node) \<Longrightarrow> f k1 node = Some (k', r) \<Longrightarrow> moves env k1 k'"
  shows "moves env k k'"
  by (rule moves_and_then [OF assms(1) moves_append assms(2)])

section \<open>Steps\<close>

lemma deny_step_moves: "deny_step env inp k w b step who denial = Some (k', r) \<Longrightarrow> moves env k k'"
  using deny_step_summary only_traced_moves by blast

lemma deny_connector_step_moves: "deny_connector_step env inp k w b step actor denial = Some (k', r) \<Longrightarrow> moves env k k'"
  using deny_connector_step_summary only_traced_moves by blast

lemma emit_moves:
  assumes "emit env inp k w step node cause obs = Some (k', r)"
  shows "moves env k k'"
  using assms unfolding emit_def by (elim moves_log) (auto intro: mv_none)

lemma finish_metadata_step_moves:
  assumes "finish_metadata_step env inp k w branch step actor action obs = Some (k', r)"
  shows "moves env k k'"
  using assms unfolding finish_metadata_step_def by (elim moves_check moves_log moves_append_then emit_moves)

lemma report_run_moves:
  assumes "report_run env inp k w step kind p oc tool node = Some (k', r)"
  shows "moves env k k'"
  using assms unfolding report_run_def Let_def by (elim moves_log moves_raw) (auto intro: mv_none)

lemma propose_connector_op_moves:
  assumes "propose_connector_op env inp k w b branch step actor action connector op op_params = Some (k', r)"
  shows "moves env k k'"
proof -
  have bk: "moves env k (k\<lparr> k_broker := bk \<rparr>)"
    if "propose (kv_broker env) (k_broker k) c actor branch step (act_lease action) now i = (bk, x)" for c now i bk x
    by (rule broker_moves [OF op_propose [OF that]])
  have ok: "moves env k k'" if "moves env k k1" "moves env k1 k'" for k1
    using moves_trans that by blast
  show ?thesis
    using assms unfolding propose_connector_op_def Let_def
    by (auto split: prod.splits sum.splits intro: bk mv_none elim!: ok [OF bk] moves_log moves_check moves_append_then emit_moves)
qed

lemma connector_read_moves:
  assumes "connector_read env inp k conn ctr = Some (k', r)"
  shows "moves env k k'"
  by (rule moves_trans [OF only_traced_moves [OF connector_read_run(1) [OF assms]] world_moves])

lemma execute_read_via_connector_moves:
  assumes "execute_read_via_connector env inp k w b branch step actor action conn full_op res args = Some (k', r)"
  shows "moves env k k'"
  using assms unfolding execute_read_via_connector_def
  by (elim moves_log moves_and_then [OF _ connector_read_moves] moves_check moves_append_then emit_moves)

lemma execute_http_read_moves:
  assumes "execute_http_read env inp k w b branch step actor action url domains = Some (k', r)"
  shows "moves env k k'"
  using assms unfolding execute_http_read_def Let_def
  by (auto split: option.splits sum.splits if_splits
      elim: deny_connector_step_moves execute_read_via_connector_moves propose_connector_op_moves)

lemma execute_mcp_invoke_moves:
  assumes "execute_mcp_invoke env inp k w b branch step actor action server tool args = Some (k', r)"
  shows "moves env k k'"
  using assms unfolding execute_mcp_invoke_def Let_def
  by (auto split: option.splits sum.splits if_splits
      elim: deny_connector_step_moves execute_read_via_connector_moves propose_connector_op_moves)

lemma discard_at_moves: "moves env k (discard_at env bk branch k)"
  unfolding discard_at_def by (auto split: prod.split intro: around_moves2)

lemma set_space_moves: "moves env k (set_space branch x k)"
  using around_moves2 [where k = k and ext = "k_world k" and spaces = "tbl_put branch x (k_spaces k)"]
  unfolding set_space_def by (cases k) simp

lemma storage_moves: "dd_dag dd = (dd_dag (k_dag k))\<lparr> dag_cas := c \<rparr> \<Longrightarrow> moves env k (k\<lparr> k_dag := dd \<rparr>)"
  by (rule mv_dag [OF mv_none]) (simp add: dag_storage)

lemma materialize_branch_moves:
  assumes "materialize_branch env k branch state dir now = (k', r)"
  shows "moves env k k'"
proof -
  obtain dd w where mat: "dag_materialize (kv_dag env) (kv_fs env) (k_dag k) state dir (space_of k branch) now now = (dd, w, r)"
    and k': "k' = set_space branch w (k\<lparr> k_dag := dd \<rparr>)"
    using assms by (auto simp: materialize_branch_def split: prod.splits)
  have "dd_dag dd = (dd_dag (k_dag k))\<lparr> dag_cas := dag_cas (dd_dag (k_dag k)) \<rparr>"
    using mat by (auto simp: dag_materialize_def split: sum.splits prod.splits)
  then show ?thesis
    unfolding k' by (rule moves_trans [OF set_space_moves storage_moves])
qed

lemma snapshot_and_append_ops:
  assumes "snapshot_and_append env d branch step actor dir forest replay st now = (dd, r)"
  obtains c where "dd_dag dd = (dd_dag d)\<lparr> dag_cas := c \<rparr>"
  | c delta wroot where "append_step ((dd_dag d)\<lparr> dag_cas := c \<rparr>) branch step actor delta wroot replay st now = (dd_dag dd, r)"
proof (cases "dag_head (dd_dag d) branch")
  case (Inl e)
  then show ?thesis
    using assms that(1) [of "dag_cas (dd_dag d)"] by (simp add: snapshot_and_append_def)
next
  case (Inr hd_node)
  then show ?thesis
    using assms by (auto simp: snapshot_and_append_def Let_def split: sum.splits prod.splits intro: that)
qed

lemma snapshot_step_moves:
  assumes "snapshot_step env inp k branch step actor dir replay = Some (k', r)"
  shows "moves env k k'"
proof -
  obtain dd where snap: "snapshot_and_append (kv_dag env) (k_dag k) branch step actor dir (tree (space_of k branch)) replay
      (in_state inp) (in_time inp 4) = (dd, r)" and k': "k' = k\<lparr> k_dag := dd \<rparr>"
    using assms by (auto simp: snapshot_step_def split: prod.splits)
  from snap show ?thesis
  proof (cases rule: snapshot_and_append_ops)
    case (1 c)
    then show ?thesis
      unfolding k' by (rule storage_moves)
  next
    case (2 c delta wroot)
    let ?k1 = "k\<lparr> k_dag := (k_dag k)\<lparr> dd_dag := (dd_dag (k_dag k))\<lparr> dag_cas := c \<rparr> \<rparr> \<rparr>"
    have "moves env k ?k1"
      by (rule storage_moves) simp
    moreover have "dag_op (kv_dag env) (dd_dag (k_dag ?k1)) (dd_dag dd)"
      using dag_append [OF 2] by simp
    ultimately have "moves env k (?k1\<lparr> k_dag := dd \<rparr>)"
      by (rule mv_dag)
    then show ?thesis
      by (simp add: k')
  qed
qed

lemma synced_transition_moves:
  assumes "synced_transition env inp k branch base step actor dir delta replay = Some (k', r)"
  shows "moves env k k'"
proof -
  obtain k1 m where mat: "materialize_branch env k branch base dir (in_time inp 10) = (k1, m)"
    by fastforce
  obtain x a where app: "apply_workspace_delta env (in_time inp 11) delta (space_of k1 branch) = (x, a)"
    by fastforce
  have k1: "moves env k k1"
    by (rule materialize_branch_moves [OF mat])
  have k2: "moves env k (set_space branch x k1)"
    by (rule moves_trans [OF set_space_moves k1])
  show ?thesis
    using assms mat app k1 k2 moves_trans [OF snapshot_step_moves k2]
    by (auto simp: synced_transition_def split: sum.splits)
qed

lemma synced_node_moves:
  assumes "synced_node env inp k bk branch base step actor dir delta replay = Some (k', r)"
  shows "moves env k k'"
proof -
  obtain k1 m where tr: "synced_transition env inp k branch base step actor dir delta replay = Some (k1, m)"
    using assms by (auto simp: synced_node_def split: option.splits)
  obtain k2 rb where mat: "materialize_branch env k1 branch base dir (in_time inp 12) = (k2, rb)"
    by fastforce
  have k1: "moves env k k1"
    by (rule synced_transition_moves [OF tr])
  have "moves env k (discard_at env bk branch k2)"
    by (rule moves_trans [OF discard_at_moves moves_trans [OF materialize_branch_moves [OF mat] k1]])
  then show ?thesis
    using assms k1 tr mat by (auto simp: synced_node_def split: sum.splits)
qed

lemma audit_node_moves:
  assumes "audit_node k inp branch step actor = Some (k', r)"
  shows "moves env k k'"
  using assms unfolding audit_node_def by (elim moves_check moves_append)

lemma moves_report:
  assumes "and_then m (\<lambda>k node. report_run env inp k w step kind p oc tool node) = Some (k', r)"
    and "\<And>k1 x. m = Some (k1, x) \<Longrightarrow> moves env k k1"
  shows "moves env k k'"
  by (rule moves_and_then [OF assms report_run_moves])

lemma deny_discarded_moves:
  assumes "deny_connector_step env inp (discard_at env bk branch k) w b step actor denial = Some (k', r)"
  shows "moves env k k'"
  by (rule moves_trans [OF deny_connector_step_moves [OF assms] discard_at_moves])

lemma record_run_moves:
  assumes "record_run env inp k w b branch step actor kind writable ro tool = Some (k', r)"
  shows "moves env k k'"
  using assms unfolding record_run_def Let_def
  by (auto split: if_splits option.splits sum.splits elim!: moves_check deny_discarded_moves
      elim: moves_report [OF _ snapshot_step_moves] moves_report [OF _ synced_node_moves] moves_report [OF _ audit_node_moves])

lemma conclude_run_moves:
  assumes "conclude_run env inp k w b branch step actor action conf tool r0 = Some (k', r)"
  shows "moves env k k'"
  using assms unfolding conclude_run_def
  by (auto split: sum.splits KernelError.splits if_splits elim: record_run_moves deny_connector_step_moves intro: mv_none)

lemma execute_local_moves:
  assumes "execute_local env inp k w b branch step actor action conf = Some (k', r)"
  shows "moves env k k'"
  using assms unfolding execute_local_def
proof (elim moves_log)
  fix k1 :: "'a Kernel" and tool
  assume "(case sched_execute_step (kv_sched env) (kv_execute env) (in_clock inp) (k_sched k1) (k_world k1, k_spaces k1)
            (br_episode b) step (execution_request b branch actor action conf)
            (risk_tier_of (cc_risk_weight conf)) (needs_of (act_kind action)) of
       None \<Rightarrow> None
     | Some (s, (ext, spaces), x) \<Rightarrow>
        conclude_run env inp (k1\<lparr> k_sched := s, k_world := ext, k_spaces := spaces \<rparr>) w b branch step actor
          action conf tool x) = Some (k', r)"
  then obtain s ext spaces x where
    "conclude_run env inp (k1\<lparr> k_sched := s, k_world := ext, k_spaces := spaces \<rparr>) w b branch step actor action conf tool x = Some (k', r)"
    by (auto split: option.splits prod.splits)
  then have "moves env (k1\<lparr> k_sched := s, k_world := ext, k_spaces := spaces \<rparr>) k'"
    by (rule conclude_run_moves)
  moreover have "k1\<lparr> k_sched := s, k_world := ext, k_spaces := spaces \<rparr> = k1\<lparr> k_sched := s, k_spaces := spaces, k_world := ext \<rparr>"
    by (cases k1) simp
  ultimately show "moves env k1 k'"
    using moves_trans [OF _ around_moves] by simp
qed

lemma trace_query_step_moves:
  assumes "trace_query_step env inp k w b branch step actor action q = Some (k', r)"
  shows "moves env k k'"
  using assms unfolding trace_query_step_def Let_def by (elim moves_check moves_raw finish_metadata_step_moves)

lemma branch_diff_step_moves:
  assumes "branch_diff_step env inp k w branch step actor action since = Some (k', r)"
  shows "moves env k k'"
  using assms unfolding branch_diff_step_def Let_def by (elim moves_check moves_raw finish_metadata_step_moves)

lemma perform_action_moves:
  assumes "perform_action env inp k w b branch step actor action conf = Some (k', r)"
  shows "moves env k k'"
  using assms unfolding perform_action_def
  by (cases "act_kind action") (auto elim: propose_connector_op_moves execute_http_read_moves execute_mcp_invoke_moves
      trace_query_step_moves branch_diff_step_moves execute_local_moves)

lemma execute_step_moves:
  assumes "execute_step env inp k actor branch action = Some (k', r)"
  shows "moves env k k'"
proof -
  have used: "moves env k k'"
    if "consume_use (db_leases (k_identity k)) i now = Ok (leases, l)"
      "perform_action env inp (k\<lparr> k_identity := (k_identity k)\<lparr> db_leases := leases \<rparr> \<rparr>) w b branch step actor action conf = Some (k', r)"
    for i now leases l w b step conf
    by (rule moves_trans [OF perform_action_moves [OF that(2)] mv_identity [OF mv_none id_consume [OF that(1)]]])
  show ?thesis
    using assms unfolding execute_step_def Let_def
    by (elim moves_check) (auto split: sum.splits if_splits option.splits Decision.splits prod.splits
        elim: deny_step_moves used)
qed

section \<open>Registration, episodes and branches\<close>

lemma register_principal_moves:
  assumes "register_principal env k p = Some (k', r)"
  shows "moves env k k'"
  using assms unfolding register_principal_def
  by (auto split: sum.splits intro: mv_none mv_identity [OF mv_none id_register])

lemma set_up_workspace_moves:
  assumes "set_up_workspace env k branch state now = (k', r)"
  shows "moves env k k'"
  using assms unfolding set_up_workspace_def
  by (auto split: sum.splits intro: mv_none elim: materialize_branch_moves)

lemma set_up_workspace_dag:
  assumes "set_up_workspace env k branch state now = (k', r)"
  shows "dd_dag (k_dag k') = dd_dag (k_dag k)"
  using assms materialize_branch_keeps(2) unfolding set_up_workspace_def by (auto split: sum.splits)

lemma with_dag_dag [simp]: "dd_dag (k_dag (with_dag d k)) = d"
  by (simp add: with_dag_def)

lemma create_episode_Ok:
  assumes "create_episode env d actor snapshot replay objective ep br st now = (d', Ok h)"
  shows "handle_episode h = ep" "branch_in d' ep (handle_branch h)" "tbl_get (dag_states d') (st_id (handle_root h)) \<noteq> None"
  using assms unfolding create_episode_def Let_def branch_in_def insert_episode_def insert_state_def insert_branch_def
  by (auto split: prod.splits sum.splits if_splits option.splits)

lemma fork_Ok:
  assumes "fork d from br now = (d', Ok b)"
  shows "branch_in d' (br_episode b) (br_id b)"
  using assms unfolding fork_def branch_in_def insert_branch_def
  by (auto split: sum.splits if_splits)

lemma open_episode_moves:
  assumes "open_episode env inp k actor objective h = Some (k', r)"
    and "branch_in (dd_dag (k_dag k)) (handle_episode h) (handle_branch h)"
    and "tbl_get (dag_states (dd_dag (k_dag k))) (st_id (handle_root h)) \<noteq> None"
  shows "moves env k k'"
proof -
  obtain k1 m where ws: "set_up_workspace env k (handle_branch h) (st_id (handle_root h)) (op_time inp 2) = (k1, m)"
    by fastforce
  let ?k2 = "k1\<lparr> k_sched := register_episode_default (k_sched k1) (handle_episode h) \<rparr>"
  have k1: "moves env k k1"
    by (rule set_up_workspace_moves [OF ws])
  have k2: "moves env k ?k2"
    using mv_around [OF k1, where s = "register_episode_default (k_sched k1) (handle_episode h)"
        and spaces = "k_spaces k1" and ext = "k_world k1"] by (cases k1) simp
  have dag: "dd_dag (k_dag ?k2) = dd_dag (k_dag k)"
    using set_up_workspace_dag [OF ws] by simp
  note k3 = mv_episode [OF k2, unfolded dag, OF assms(2,3), where who = actor]
  show ?thesis
    using assms(1) unfolding open_episode_def ws prod.case
    by (elim check_SomeE and_then_SomeE)
      (auto intro: k1 moves_trans [OF only_traced_moves [OF log_event_traced] k3])
qed

lemma kernel_create_episode_moves:
  assumes "kernel_create_episode env inp k actor ws objective = Some (k', r)"
  shows "moves env k k'"
  using assms unfolding kernel_create_episode_def Let_def
proof (elim moves_check)
  fix who
  let ?new = "create_episode (kv_dag env) (dd_dag (k_dag k)) actor
    (map_option (\<lambda>f c. snapshot_dir (kv_dag env) (op_time inp 0) c f) (case ws of Some f \<Rightarrow> Some f | None \<Rightarrow> kv_root_workspace env))
    FilesystemOnly objective (op_new inp 0) (op_new inp 1) (op_new inp 2) (op_time inp 1)"
  assume run: "(case ?new of (d, r) \<Rightarrow> check (with_dag d k) r (\<lambda>h. open_episode env inp (with_dag d k) actor objective h)) = Some (k', r)"
  obtain d h0 where new: "?new = (d, h0)"
    by fastforce
  have d: "moves env k (with_dag d k)"
    by (rule with_dag_moves [OF dag_create [OF new]])
  have "moves env (with_dag d k) k'"
    using run unfolding new prod.case
  proof (elim moves_check)
    fix h
    assume "h0 = Ok h" "open_episode env inp (with_dag d k) actor objective h = Some (k', r)"
    then show "moves env (with_dag d k) k'"
      using open_episode_moves create_episode_Ok [of "kv_dag env" "dd_dag (k_dag k)"] new by fastforce
  qed
  then show "moves env k k'"
    by (rule moves_trans [OF _ d])
qed

lemma discard_all_moves: "discard_all env branch bks k = (k', e) \<Longrightarrow> moves env k k'"
proof (induction bks arbitrary: k k' e)
  case (Cons bk bks)
  obtain ext spaces x where d: "kv_discard env bk branch (k_world k, k_spaces k) = ((ext, spaces), x)"
    by (metis surj_pair)
  obtain k1 later where rest: "discard_all env branch bks (k\<lparr> k_world := ext, k_spaces := spaces \<rparr>) = (k1, later)"
    by fastforce
  have "k' = k1"
    using Cons.prems by (simp add: d rest)
  then show ?case
    using moves_trans [OF Cons.IH [OF rest] around_moves2] by simp
qed (simp add: mv_none)

lemma fork_natively_moves: "moves env k (fork_natively env from branch bks k)"
proof (induction bks arbitrary: k)
  case (Cons bk bks)
  obtain ext spaces x where f: "kv_fork env bk from branch (k_world k, k_spaces k) = ((ext, spaces), x)"
    by (metis surj_pair)
  show ?case
    using Cons.IH [of k] moves_trans [OF Cons.IH around_moves2] by (simp add: f)
qed (simp add: mv_none)

lemma abandon_fork_moves: "moves env k (abandon_fork env branch k)"
proof -
  obtain d u where "discard_branch (dd_dag (k_dag (discard_at env (kv_local env) branch k))) branch = (d, u)"
    by fastforce
  then show ?thesis
    unfolding abandon_fork_def Let_def using moves_trans [OF with_dag_moves [OF dag_discard] discard_at_moves] by simp
qed

lemma fork_branch_moves:
  assumes "fork_branch env inp k branch = Some (k', r)"
  shows "moves env k k'"
  using assms unfolding fork_branch_def
proof (elim moves_check)
  fix src hd_node
  let ?set_up = "\<lambda>d new. set_up_workspace env (with_dag d k) (br_id new) (br_head new) (op_time inp 1)"
  assume run: "(case fork (dd_dag (k_dag k)) (st_id hd_node) (op_new inp 0) (op_time inp 0) of
       (d, r) \<Rightarrow>
         check (with_dag d k) r (\<lambda>new.
         case set_up_workspace env (with_dag d k) (br_id new) (br_head new) (op_time inp 1) of
           (k, Err e) \<Rightarrow> Some (abandon_fork env (br_id new) k, Err e)
         | (k, Ok _) \<Rightarrow>
             Some (fork_natively env (st_id hd_node) (br_id new) (sched_router (k_sched k))
                     (k\<lparr> k_episodes := tbl_update (br_episode new)
                           (\<lambda>i. i\<lparr> ei_branches := ei_branches i @ [br_id new] \<rparr>) (k_episodes k) \<rparr>), Ok new))) = Some (k', r)"
  obtain d b0 where fk: "fork (dd_dag (k_dag k)) (st_id hd_node) (op_new inp 0) (op_time inp 0) = (d, b0)"
    by fastforce
  have d: "moves env k (with_dag d k)"
    by (rule with_dag_moves [OF dag_fork [OF fk]])
  have "moves env (with_dag d k) k'"
    using run unfolding fk prod.case
  proof (elim moves_check)
    fix b
    assume b: "b0 = Ok b"
    obtain k1 m where ws: "set_up_workspace env (with_dag d k) (br_id b) (br_head b) (op_time inp 1) = (k1, m)"
      by fastforce
    have k1: "moves env (with_dag d k) k1" and dag: "dd_dag (k_dag k1) = d"
      using set_up_workspace_moves [OF ws] set_up_workspace_dag [OF ws] by simp_all
    note known = mv_branch [OF k1, unfolded dag, OF fork_Ok [OF fk [unfolded b]]]
    assume "(case set_up_workspace env (with_dag d k) (br_id b) (br_head b) (op_time inp 1) of
           (k, Err e) \<Rightarrow> Some (abandon_fork env (br_id b) k, Err e)
         | (k, Ok _) \<Rightarrow>
             Some (fork_natively env (st_id hd_node) (br_id b) (sched_router (k_sched k))
                     (k\<lparr> k_episodes := tbl_update (br_episode b)
                           (\<lambda>i. i\<lparr> ei_branches := ei_branches i @ [br_id b] \<rparr>) (k_episodes k) \<rparr>), Ok b)) = Some (k', r)"
    then show "moves env (with_dag d k) k'"
      unfolding ws prod.case
      by (cases m) (auto intro: moves_trans [OF abandon_fork_moves k1] moves_trans [OF fork_natively_moves known])
  qed
  then show "moves env k k'"
    by (rule moves_trans [OF _ d])
qed

lemma merge_branch_moves:
  assumes "merge_branch env inp k target src actor = Some (k', r)"
  shows "moves env k k'"
proof (cases "target = src")
  case True
  then show ?thesis
    using assms by (simp add: merge_branch_def mv_none)
next
  case False
  obtain d r0 where mg: "merge (kv_dag env) (dd_dag (k_dag k)) target src actor (op_new inp 0) (op_time inp 0) = Some (d, r0)"
    using assms False by (auto simp: merge_branch_def split: option.splits)
  have d: "moves env k (with_dag d k)"
    by (rule with_dag_moves [OF dag_merge [OF mg]])
  show ?thesis
  proof (cases r0)
    case (Inl e)
    then show ?thesis
      using assms False mg d by (simp add: merge_branch_def check_def)
  next
    case (Inr node)
    obtain k1 m where ws: "set_up_workspace env (with_dag d k) target (st_id node) (op_time inp 1) = (k1, m)"
      by fastforce
    obtain k2 e where all: "discard_all env src (sched_router (k_sched k1)) k1 = (k2, e)"
      by fastforce
    have "k' = k2"
      using assms False by (simp add: merge_branch_def mg Inr check_def ws all del: One_nat_def)
    then show ?thesis
      using moves_trans [OF discard_all_moves [OF all] moves_trans [OF set_up_workspace_moves [OF ws] d]] by simp
  qed
qed

lemma kernel_discard_branch_moves:
  assumes "kernel_discard_branch env k branch = Some (k', r)"
  shows "moves env k k'"
  using assms unfolding kernel_discard_branch_def
proof (elim moves_check)
  fix b
  let ?all = "discard_all env branch (sched_router (k_sched k)) k"
  let ?others = "discard_all env branch (filter (\<lambda>bk. bk \<noteq> kv_local env) (sched_router (k_sched k))) k"
  obtain k1 e1 where all: "?all = (k1, e1)"
    by fastforce
  obtain k2 e2 where others: "?others = (k2, e2)"
    by fastforce
  obtain ext spaces x where loc: "kv_discard env (kv_local env) branch (k_world k2, k_spaces k2) = ((ext, spaces), x)"
    by (metis surj_pair)
  let ?k3 = "k2\<lparr> k_world := ext, k_spaces := spaces \<rparr>"
  obtain d u where dis: "discard_branch (dd_dag (k_dag k2)) branch = (d, u)"
    by fastforce
  have k1: "moves env k k1" and k2: "moves env k k2"
    using discard_all_moves all others by blast+
  have k3: "moves env k ?k3"
    by (rule moves_trans [OF around_moves2 k2])
  have k4: "moves env k (with_dag d ?k3)"
    by (rule moves_trans [OF with_dag_moves [OF dag_discard [where branch = branch and u = u]] k3]) (simp add: dis)
  assume "(case br_status b of
       BranchGone \<Rightarrow> Some (k, Err (BranchDiscarded branch))
     | BranchMerged \<Rightarrow> (case ?all of (k, Some e) \<Rightarrow> Some (k, Err e) | (k, None) \<Rightarrow> Some (k, Ok ()))
     | BranchActive \<Rightarrow>
         (case ?others of
            (k, Some e) \<Rightarrow> Some (k, Err e)
          | (k, None) \<Rightarrow>
              (case kv_discard env (kv_local env) branch (k_world k, k_spaces k) of
                 ((ext, spaces), r) \<Rightarrow>
                   check (k\<lparr> k_world := ext, k_spaces := spaces \<rparr>) r (\<lambda>_.
                   case discard_branch (dd_dag (k_dag k)) branch of
                     (d, r) \<Rightarrow> Some (with_dag d (k\<lparr> k_world := ext, k_spaces := spaces \<rparr>), r))))) = Some (k', r)"
  then show "moves env k k'"
    using k1 k2 k3 k4 unfolding all others
    by (cases "br_status b") (auto simp: loc dis check_def intro: mv_none split: option.splits sum.splits)
qed

section \<open>Capabilities\<close>

lemma compile_grant_lease:
  assumes "compile_grant add new_id doc p op rule extra branch now = Some (Ok g)"
  shows "lease_id (grant_lease g) = new_id" "parent_lease (grant_lease g) = None"
  using assms by (auto simp: compile_grant_def split: if_splits sum.splits option.splits)

lemma evaluate_lease:
  assumes "evaluate add cv new_id doc p op params branch now = Some (Allow rule g)"
  shows "lease_id (grant_lease g) = new_id \<and> parent_lease (grant_lease g) = None"
proof -
  have "lease_id (grant_lease g) = new_id \<and> parent_lease (grant_lease g) = None"
    if "evaluate_rules add cv new_id doc p op params branch now rules = Some (Allow rule g)" for rules
    using that compile_grant_lease
    by (induction rules) (fastforce split: if_splits option.splits sum.splits RuleEffect.splits simp: engine_deny_def)+
  then show ?thesis
    using assms by (simp add: evaluate_def)
qed

lemma log_grant_moves:
  assumes "log_grant env inp k branch actor op params rule lease = Some (k', r)"
  shows "moves env k k'"
  using assms unfolding log_grant_def Let_def by (elim moves_check moves_log) (auto intro: mv_none)

definition fresh_lease :: "'w Kernel \<Rightarrow> ident \<Rightarrow> bool" where
  "fresh_lease k i \<longleftrightarrow> tbl_get (db_leases (k_identity k)) i = None"

lemma log_grant_traced:
  assumes "log_grant env inp k branch actor op params rule lease = Some (k', r)"
  shows "k_identity k' = k_identity k"
  using assms unfolding log_grant_def Let_def
  by (elim check_SomeE and_then_SomeE) (auto dest!: log_event_traced only_traced_fields(3))

lemma request_capability_moves:
  assumes "request_capability env inp k actor op params branch = Some (k', r)" "fresh_lease k (op_new inp 0)"
  shows "moves env k k' \<and> (\<forall>i. i \<noteq> op_new inp 0 \<longrightarrow> fresh_lease k i \<longrightarrow> fresh_lease k' i)"
  using assms(1) unfolding request_capability_def
proof (cases rule: check_SomeE)
  case (ok who)
  show ?thesis
  proof (cases "\<exists>rule g. evaluate (kv_add_seconds env) (kv_constraints env) (op_new inp 0) (k_policy k) who op params branch
      (op_time inp 0) = Some (Allow rule g)")
    case True
    then obtain rule g where ev: "evaluate (kv_add_seconds env) (kv_constraints env) (op_new inp 0) (k_policy k) who op params branch
        (op_time inp 0) = Some (Allow rule g)"
      by blast
    let ?k1 = "k\<lparr> k_identity := (k_identity k)\<lparr> db_leases := lease_issue (grant_lease g) (db_leases (k_identity k)) \<rparr> \<rparr>"
    have lease: "lease_id (grant_lease g) = op_new inp 0" "parent_lease (grant_lease g) = None"
      using evaluate_lease [OF ev] by simp_all
    have k1: "moves env k ?k1"
      by (rule mv_identity [OF mv_none id_issue]) (use assms(2) lease in \<open>simp_all add: fresh_lease_def\<close>)
    have "(case branch of None \<Rightarrow> Some (?k1, Ok (grant_lease g))
        | Some br \<Rightarrow> log_grant env inp ?k1 br actor op params rule (grant_lease g)) = Some (k', r)"
      using ok(2) by (simp add: ev Let_def)
    then have k': "moves env ?k1 k' \<and> k_identity k' = k_identity ?k1"
      by (cases branch) (auto intro: mv_none log_grant_moves dest: log_grant_traced)
    show ?thesis
      using moves_trans [OF conjunct1 [OF k'] k1] conjunct2 [OF k'] by (simp add: fresh_lease_def lease_issue_def lease)
  next
    case False
    then have "k' = k"
      using ok(2) by (auto split: option.splits Decision.splits)
    then show ?thesis
      by (simp add: mv_none)
  qed
qed (simp add: mv_none)

lemma compile_items_moves:
  assumes "compile_items env inps n k actor branch reqs rep = Some (k', r)"
    and "inj_on (\<lambda>j. op_new (inps j) 0) {n..<n + length reqs}"
    and "\<forall>j \<in> {n..<n + length reqs}. fresh_lease k (op_new (inps j) 0)"
  shows "moves env k k'"
  using assms
proof (induction reqs arbitrary: n k rep)
  case (Cons req reqs)
  obtain op params where req: "req = (op, params)"
    by (cases req)
  obtain k1 r1 where one: "request_capability env (inps n) k actor op (if params = JNull then JObj [] else params) branch = Some (k1, r1)"
    using Cons.prems(1) by (auto simp: req split: option.splits)
  have k1: "moves env k k1" and other: "\<And>i. i \<noteq> op_new (inps n) 0 \<Longrightarrow> fresh_lease k i \<Longrightarrow> fresh_lease k1 i"
    using request_capability_moves [OF one] Cons.prems(3) by auto
  have "op_new (inps j) 0 \<noteq> op_new (inps n) 0" if "j \<in> {Suc n..<Suc n + length reqs}" for j
    using inj_onD [OF Cons.prems(2), of j n] that by auto
  then have fresh: "\<forall>j \<in> {Suc n..<Suc n + length reqs}. fresh_lease k1 (op_new (inps j) 0)"
    using other Cons.prems(3) by auto
  have inj: "inj_on (\<lambda>j. op_new (inps j) 0) {Suc n..<Suc n + length reqs}"
    by (rule inj_on_subset [OF Cons.prems(2)]) auto
  have "k' = k1 \<or> (\<exists>rep'. compile_items env inps (Suc n) k1 actor branch reqs rep' = Some (k', r))"
    using Cons.prems(1) by (auto simp: req one split: sum.splits KernelError.splits)
  then show ?case
    using k1 moves_trans [OF Cons.IH [OF _ inj fresh] k1] by blast
qed (simp add: mv_none)

lemma compile_envelope_moves:
  assumes "compile_envelope env inps k actor branch reqs = Some (k', r)"
    and "inj_on (\<lambda>j. op_new (inps j) 0) {..<length reqs}" "\<forall>j < length reqs. fresh_lease k (op_new (inps j) 0)"
  shows "moves env k k'"
  using assms compile_items_moves [of env inps 0 k actor branch reqs]
  by (auto simp: compile_envelope_def lessThan_atLeast0 split: if_splits intro: mv_none)

lemma kernel_delegate_moves:
  assumes "kernel_delegate env inp k delegator parent delegatee cs uses expiry budget = Some (k', r)" "fresh_lease k (op_new inp 0)"
  shows "moves env k k'"
  using assms unfolding kernel_delegate_def fresh_lease_def
  by (auto split: sum.splits intro: mv_none mv_identity [OF mv_none id_delegate])

lemma kernel_revoke_moves:
  assumes "kernel_revoke env k lease = Some (k', r)"
  shows "moves env k k'"
  using assms unfolding kernel_revoke_def
  by (auto split: sum.splits option.splits intro: mv_none mv_identity [OF mv_none id_revoke])

lemma execute_step_auto_moves:
  assumes "execute_step_auto env req inp k actor branch kind intent budget = Some (k', r)" "fresh_lease k (op_new req 0)"
  shows "moves env k k'"
proof -
  have run: "moves env k1 k'"
    if "and_then (execute_step env inp k1 actor branch action) (\<lambda>k result. Some (k, Ok (f result))) = Some (k', r)" for k1 action f
    using that by (elim moves_and_then [OF _ execute_step_moves]) (auto intro: mv_none)
  show ?thesis
    using assms(1) unfolding execute_step_auto_def Let_def
    by (auto split: option.splits elim!: run moves_and_then dest: request_capability_moves [OF _ assms(2)])
qed

section \<open>Effects\<close>

lemma log_effect_moves:
  assumes "log_effect env k i kind payload now = Some (k', r)"
  shows "moves env k k'"
  using assms unfolding log_effect_def by (elim moves_check) (auto intro: only_traced_moves [OF log_event_traced])

lemma moves_log_effect:
  assumes "and_then (log_effect env k i kind payload now) f = Some (k', r)"
    and "\<And>k1 seq. f k1 seq = Some (k', r) \<Longrightarrow> moves env k1 k'"
  shows "moves env k k'"
  by (rule moves_and_then [OF assms(1) log_effect_moves assms(2)])

lemma prepare_effect_moves:
  assumes "prepare_effect env inp k i = Some (k', r)"
  shows "moves env k k'"
proof -
  obtain ext bk x where p: "prepare (kv_broker env) (k_world k) (k_broker k) i = (ext, bk, x)"
    by (metis surj_pair)
  have "moves env (k\<lparr> k_world := ext, k_broker := bk \<rparr>) k'"
    using assms unfolding prepare_effect_def p prod.case
    by (elim moves_check moves_log_effect) (auto intro: mv_none)
  then show ?thesis
    by (rule moves_trans [OF _ mv_broker [OF mv_none op_prepare [OF p]]])
qed

lemma approve_effect_moves:
  assumes "approve_effect env inp k i who = Some (k', r)"
  shows "moves env k k'"
proof -
  obtain bk x where p: "approve (k_broker k) i who (policy_epoch (k_policy k)) (op_time inp 0) = (bk, x)"
    by fastforce
  have "moves env (k\<lparr> k_broker := bk \<rparr>) k'"
    using assms unfolding approve_effect_def Let_def p prod.case
    by (elim moves_check moves_log_effect) (auto intro: mv_none)
  then show ?thesis
    by (rule moves_trans [OF _ broker_moves [OF op_approve [OF p]]])
qed

lemma record_commit_moves:
  assumes "record_commit env inp k w i fx receipt = Some (k', r)"
  shows "moves env k k'"
proof -
  let ?k1 = "k\<lparr> k_ledger := fst (store_receipt (k_ledger k) receipt (idempotency_key (contract fx))) \<rparr>"
  have "moves env ?k1 k'"
    using assms unfolding record_commit_def
    by (elim moves_log moves_check) (auto split: option.splits intro: moves_append)
  then show ?thesis
    by (rule moves_trans [OF _ mv_receipt [OF mv_none]])
qed

lemma commit_effect_moves:
  assumes "commit_effect env inp k i = Some (k', r)"
  shows "moves env k k'"
proof -
  obtain ext bk x where p: "commit (kv_broker env) (k_world k) (k_broker k) i (policy_epoch (k_policy k))
      (lease_live k (op_time inp 0)) (op_time inp 1) (op_time inp 2) (op_new inp 0) = (ext, bk, x)"
    by (metis surj_pair)
  have "moves env (k\<lparr> k_world := ext, k_broker := bk \<rparr>) k'"
    using assms unfolding commit_effect_def p prod.case Let_def
    by (elim moves_check) (auto split: sum.splits elim!: moves_log record_commit_moves intro: mv_none)
  then show ?thesis
    by (rule moves_trans [OF _ mv_broker [OF mv_none op_commit [OF p]]])
qed

lemma log_resolutions_moves: "log_resolutions env clock n rs k = Some k' \<Longrightarrow> moves env k k'"
proof (induction rs arbitrary: n k)
  case (Cons x rs)
  obtain i res where x: "x = (i, res)"
    by (cases x)
  let ?log = "log_effect env k i EffectCommitted
      (JObj [(''effect_id'', JStr i), (''recovery'', JBool True), (''resolution'', resolution_json res)]) (clock n)"
  show ?case
  proof (cases ?log)
    case None
    then show ?thesis
      using Cons.prems unfolding x log_resolutions.simps by simp
  next
    case (Some y)
    obtain k1 z where y: "y = (k1, z)"
      by (cases y)
    have "log_resolutions env clock (Suc n) rs k1 = Some k'"
      using Cons.prems unfolding x log_resolutions.simps Some y by simp
    then show ?thesis
      by (rule moves_trans [OF Cons.IH log_effect_moves [OF Some [unfolded y]]])
  qed
qed (simp add: mv_none)

lemma recover_in_doubt_effects_moves:
  assumes "recover_in_doubt_effects env inp clock k = Some (k', r)"
  shows "moves env k k'"
proof -
  obtain ext bk rs where p: "recover_in_doubt (kv_broker env) (k_world k) (k_broker k) (op_time inp) (op_new inp) = (ext, bk, rs)"
    by (metis surj_pair)
  have "moves env (k\<lparr> k_world := ext, k_broker := bk \<rparr>) k'"
    using assms unfolding recover_in_doubt_effects_def p prod.case by (auto intro: log_resolutions_moves)
  then show ?thesis
    by (rule moves_trans [OF _ mv_broker [OF mv_none op_recover [OF p]]])
qed

lemma resolve_in_doubt_effect_moves:
  assumes "resolve_in_doubt_effect env inp k i outcome = Some (k', r)"
  shows "moves env k k'"
proof -
  obtain bk x where p: "resolve_in_doubt (kv_broker env) (k_broker k) i outcome (op_time inp 0) (op_new inp 0) = (bk, x)"
    by fastforce
  have k1: "moves env k (k\<lparr> k_broker := bk \<rparr>)"
    by (rule broker_moves [OF op_resolve [OF p]])
  have "moves env k (k\<lparr> k_broker := bk, k_ledger := fst (store_receipt (k_ledger k) rc key) \<rparr>)" for rc key
    using mv_receipt [OF k1, of rc key] by simp
  moreover have "k\<lparr> k_broker := bk, k_ledger := k_ledger k \<rparr> = k\<lparr> k_broker := bk \<rparr>"
    by (cases k) simp
  ultimately show ?thesis
    using assms k1 unfolding resolve_in_doubt_effect_def p prod.case
    by (elim check_SomeE) (auto split: option.splits)
qed

lemma compensate_effect_moves:
  assumes "compensate_effect env inp k i = Some (k', r)"
  shows "moves env k k'"
proof -
  obtain ext bk x where p: "compensate (kv_broker env) (k_world k) (k_broker k) i (op_time inp 0) (op_new inp 0) = (ext, bk, x)"
    by (metis surj_pair)
  have "moves env (k\<lparr> k_world := ext, k_broker := bk \<rparr>) k'"
    using assms unfolding compensate_effect_def p prod.case
    by (elim moves_check moves_log_effect) (auto intro: mv_none)
  then show ?thesis
    by (rule moves_trans [OF _ mv_broker [OF mv_none op_compensate [OF p]]])
qed

lemma replay_live_moves:
  assumes "replay_live env inps millis k i who = Some (k', r)"
  shows "moves env k k'"
  using assms unfolding replay_live_def Let_def
proof (elim moves_check)
  fix fx
  let ?c = "(contract fx)\<lparr> idempotency_key := idempotency_key (contract fx) @ ''-replay-'' @ millis \<rparr>"
  obtain bk x where p: "propose (kv_broker env) (k_broker k) ?c (proposer fx) (fx_branch fx) (fx_step fx) (fx_lease fx)
      (op_time (inps 0) 0) (op_new (inps 0) 0) = (bk, x)"
    by fastforce
  assume "(case propose (kv_broker env) (k_broker k) ?c (proposer fx) (fx_branch fx) (fx_step fx) (fx_lease fx)
      (op_time (inps 0) 0) (op_new (inps 0) 0) of (bk, r) \<Rightarrow>
         check (k\<lparr> k_broker := bk \<rparr>) r (\<lambda>replayed.
         and_then (prepare_effect env (inps 1) (k\<lparr> k_broker := bk \<rparr>) (fx_id replayed)) (\<lambda>k _.
         and_then (approve_effect env (inps 2) k (fx_id replayed) who) (\<lambda>k _.
         commit_effect env (inps 3) k (fx_id replayed))))) = Some (k', r)"
  then have "moves env (k\<lparr> k_broker := bk \<rparr>) k'"
    unfolding p prod.case
    by (elim moves_check moves_and_then [OF _ prepare_effect_moves] moves_and_then [OF _ approve_effect_moves] commit_effect_moves)
  then show "moves env k k'"
    by (rule moves_trans [OF _ broker_moves [OF op_propose [OF p]]])
qed

section \<open>Retry and replay\<close>

lemma step_retry_moves:
  assumes "step_retry env inp k step = Some (k', r)"
  shows "moves env k k'"
  using assms unfolding step_retry_def by (elim moves_check execute_step_moves)

lemma dag_materialize_storage:
  assumes "dag_materialize env fenv d state dir w t1 t2 = (dd, w', r)"
  shows "dd_dag dd = dd_dag d"
  using assms by (auto simp: dag_materialize_def split: sum.splits prod.splits)

lemma replay_in_scratch_moves:
  assumes "replay_in_scratch env inp k step recorded parent kind exit_code conf = Some (k', r)"
  shows "moves env k k'"
  using assms unfolding replay_in_scratch_def
proof (elim moves_check)
  fix dir
  obtain dd space m where mat: "dag_materialize (kv_dag env) (kv_fs env) (k_dag k) parent dir \<lparr> tree = [], through = [] \<rparr>
      (op_time inp 1) (op_time inp 1) = (dd, space, m)"
    by (metis surj_pair)
  have same: "moves env k (k\<lparr> k_dag := dd \<rparr>)" and cas: "moves env k (k\<lparr> k_dag := dd\<lparr> dd_dag := (dd_dag dd)\<lparr> dag_cas := c \<rparr> \<rparr> \<rparr>)" for c
    by (rule storage_moves [where c = "dag_cas (dd_dag (k_dag k))"], simp add: dag_materialize_storage [OF mat])
      (rule storage_moves [where c = c], simp add: dag_materialize_storage [OF mat])
  assume "(case dag_materialize (kv_dag env) (kv_fs env) (k_dag k) parent dir \<lparr> tree = [], through = [] \<rparr>
        (op_time inp 1) (op_time inp 1) of
       (dd, space, m) \<Rightarrow>
         check (k\<lparr> k_dag := dd \<rparr>) m (\<lambda>_.
         case kv_replay env (replay_request (op_new inp 1) parent recorded kind conf) space of
           (space', outcome_r) \<Rightarrow>
             check (k\<lparr> k_dag := dd \<rparr>) outcome_r (\<lambda>oc.
             case snapshot_dir (kv_dag env) (op_time inp 2) (dag_cas (dd_dag dd)) (tree space') of
               (c, snap) \<Rightarrow>
                 check (k\<lparr> k_dag := dd\<lparr> dd_dag := (dd_dag dd)\<lparr> dag_cas := c \<rparr> \<rparr> \<rparr>) snap (\<lambda>(root_hash, _).
                 Some (k\<lparr> k_dag := dd\<lparr> dd_dag := (dd_dag dd)\<lparr> dag_cas := c \<rparr> \<rparr> \<rparr>,
                   Ok \<lparr> rr_step = step, original_exit_code = exit_code, rerun_exit_code = oc_exit_code oc,
                        workspace_match = (root_hash = workspace_root recorded),
                        rr_replay_class = st_replay recorded \<rparr>))))) = Some (k', r)"
  then show "moves env k k'"
    unfolding mat prod.case
    by (auto split: prod.splits elim!: check_SomeE intro: same cas)
qed

lemma replay_sandbox_moves:
  assumes "replay_sandbox env inp k step = Some (k', r)"
  shows "moves env k k'"
  using assms unfolding replay_sandbox_def Let_def
  by (elim moves_check) (auto split: if_splits option.splits Decision.splits
      elim!: moves_check replay_in_scratch_moves intro: mv_none)

section \<open>Configuration and exploration\<close>

lemma kernel_register_connector_moves:
  assumes "kernel_register_connector env k name c ops = (env', k')"
  shows "moves env k k'"
proof -
  have "k' = k\<lparr> k_policy := k_policy k,
      k_op_classes := foldl (\<lambda>t (op, cls). tbl_put op cls t) (k_op_classes k) ops, k_connector_names := k_connector_names k @ [name] \<rparr>"
    using assms by (cases k) (auto simp: kernel_register_connector_def)
  then show ?thesis
    by (simp only: mv_config [OF mv_none])
qed

lemma with_policy_mut_moves: "moves env k (fst (with_policy_mut f k))"
proof -
  have "fst (with_policy_mut f k) = k\<lparr> k_policy := fst (f (k_policy k)), k_op_classes := k_op_classes k,
      k_connector_names := k_connector_names k \<rparr>"
    by (cases k) (simp add: with_policy_mut_def split: prod.splits)
  then show ?thesis
    by (simp only: mv_config [OF mv_none])
qed

lemma kernel_register_backend_moves: "moves env k (kernel_register_backend k bk)"
proof -
  have "kernel_register_backend k bk = k\<lparr> k_sched := sched_register_backend (k_sched k) bk, k_spaces := k_spaces k, k_world := k_world k \<rparr>"
    by (cases k) (simp add: kernel_register_backend_def)
  then show ?thesis
    by (simp only: around_moves)
qed

lemma task_kernel [simp]:
  "x_kernel (put_task i ph rep s) = x_kernel s" "x_kernel (finish_task i rep s) = x_kernel s"
  by (simp_all add: put_task_def finish_task_def)

lemma explore_move_moves:
  assumes "explore_move env opts actor src req inp i s = Some s'" "fresh_lease (x_kernel s) (op_new req 0)"
  shows "moves env (x_kernel s) (x_kernel s')"
proof (cases "task_phase (x_tasks s ! i)")
  case Forking
  obtain k' r where fk: "fork_branch env req (x_kernel s) src = Some (k', r)"
    using assms(1) Forking by (auto simp: explore_move_def Let_def split: option.splits)
  have "x_kernel s' = k'"
    using assms(1) Forking by (cases r) (auto simp: explore_move_def Let_def fk)
  then show ?thesis
    using fork_branch_moves [OF fk] by simp
next
  case (Checking as)
  then show ?thesis
    using assms(1) by (cases as) (auto simp: explore_move_def Let_def intro: mv_none split: option.splits if_splits)
next
  case (Acting a as)
  have *: "moves env (x_kernel s) k'" if "auto_step env opts actor purpose req inp rep kind (x_kernel s) = Some (k', r)" for purpose rep kind k' r
    using that assms(2) execute_step_auto_moves unfolding auto_step_def by blast
  obtain k' r where "auto_step env opts actor ''candidate'' req inp (task_report (x_tasks s ! i)) a (x_kernel s) = Some (k', r)"
    using assms(1) Acting by (auto simp: explore_move_def Let_def split: option.splits)
  then show ?thesis
    using * assms(1) Acting by (cases r) (auto simp: explore_move_def Let_def split: if_splits)
next
  case (Judging kind)
  have *: "moves env (x_kernel s) k'" if "auto_step env opts actor purpose req inp rep kind (x_kernel s) = Some (k', r)" for purpose rep kind k' r
    using that assms(2) execute_step_auto_moves unfolding auto_step_def by blast
  obtain k' r where "auto_step env opts actor ''evaluator'' req inp (task_report (x_tasks s ! i)) kind (x_kernel s) = Some (k', r)"
    using assms(1) Judging by (auto simp: explore_move_def Let_def split: option.splits)
  then show ?thesis
    using * assms(1) Judging by (cases r) (auto simp: explore_move_def Let_def)
qed (use assms(1) in \<open>auto simp: explore_move_def Let_def intro: mv_none split: if_splits\<close>)

lemma merge_winning_moves:
  assumes "merge_winning env opts inp k actor src reps = Some (k', x)"
  shows "moves env k k'"
  using assms merge_branch_moves unfolding merge_winning_def
  by (auto split: bool.splits option.splits intro: mv_none)

lemma discard_losers_moves: "discard_losers env win reps gone k = Some (k', ids) \<Longrightarrow> moves env k k'"
proof (induction env win reps gone k rule: discard_losers.induct)
  case (2 env win c cs gone k)
  show ?case
  proof (cases "Some (cr_index c) = win \<or> cr_branch c = None")
    case True
    then show ?thesis
      using 2 by (auto split: if_splits)
  next
    case False
    then obtain b where b: "cr_branch c = Some b"
      by auto
    then obtain k1 r where d: "kernel_discard_branch env k b = Some (k1, r)"
      using 2(5) False by (auto split: option.splits)
    then have "moves env k1 k'"
      using 2 b False by (cases r) auto
    then show ?thesis
      by (rule moves_trans [OF _ kernel_discard_branch_moves [OF d]])
  qed
qed (simp add: mv_none)

lemma explore_finish_moves:
  assumes "explore_finish env opts inp actor src s = Some (k', r)"
  shows "moves env (x_kernel s) k'"
proof -
  obtain k1 m e where win: "merge_winning env opts inp (x_kernel s) actor src (sort_key cr_index (map task_report (x_tasks s))) = Some (k1, m, e)"
    using assms by (auto simp: explore_finish_def Let_def split: option.splits)
  have "moves env k1 k'"
    using assms win by (auto simp: explore_finish_def Let_def intro: mv_none discard_losers_moves split: if_splits)
  then show ?thesis
    by (rule moves_trans [OF _ merge_winning_moves [OF win]])
qed

end
