(* ===== verification/KernelSystem.thy ===== *)
theory KernelSystem
  imports KernelMoves
begin

text \<open>
  The composed kernel as a system: a run is any sequence of its operations, each finished before
  the next begins; the connectors a run registers are those its environment has. In every run the components are driven only through their own operations, so
  what they guarantee holds in the kernel; the state graph, the episodes and the leases stay well
  typed; and nothing recorded is ever taken back. The lemmas here are about single moves;
  \<open>KernelGuarantees\<close> states what they give for runs.
\<close>

section \<open>Runs\<close>

inductive kernel_step :: "'w KernelEnv \<Rightarrow> 'w Kernel \<Rightarrow> 'w Kernel \<Rightarrow> bool" for env where
  do_register: "register_principal env k p = Some (k', r) \<Longrightarrow> kernel_step env k k'"
| do_connector: "kernel_register_connector env k name c ops = (env, k') \<Longrightarrow> kernel_step env k k'"
| do_backend: "kernel_step env k (kernel_register_backend k bk)"
| do_policy: "kernel_step env k (fst (with_policy_mut (f :: PolicyDocument \<Rightarrow> PolicyDocument \<times> unit) k))"
| do_create: "kernel_create_episode env inp k actor ws objective = Some (k', handle) \<Longrightarrow> kernel_step env k k'"
| do_fork: "fork_branch env inp k branch = Some (k', b) \<Longrightarrow> kernel_step env k k'"
| do_merge: "merge_branch env inp k target src actor = Some (k', node) \<Longrightarrow> kernel_step env k k'"
| do_discard: "kernel_discard_branch env k branch = Some (k', u) \<Longrightarrow> kernel_step env k k'"
| do_request: "\<lbrakk> request_capability env inp k actor op params branch = Some (k', lease); fresh_lease k (op_new inp 0) \<rbrakk>
    \<Longrightarrow> kernel_step env k k'"
| do_envelope: "\<lbrakk> compile_envelope env inps k actor branch reqs = Some (k', rep);
      inj_on (\<lambda>j. op_new (inps j) 0) {..<length reqs}; \<forall>j < length reqs. fresh_lease k (op_new (inps j) 0) \<rbrakk>
    \<Longrightarrow> kernel_step env k k'"
| do_delegate: "\<lbrakk> kernel_delegate env inp k delegator parent delegatee cs uses expiry budget = Some (k', lease);
      fresh_lease k (op_new inp 0) \<rbrakk> \<Longrightarrow> kernel_step env k k'"
| do_revoke: "kernel_revoke env k i = Some (k', ids) \<Longrightarrow> kernel_step env k k'"
| do_step: "execute_step env sinp k actor branch action = Some (k', res) \<Longrightarrow> kernel_step env k k'"
| do_auto: "\<lbrakk> execute_step_auto env inp sinp k actor branch kind intent budget = Some (k', auto); fresh_lease k (op_new inp 0) \<rbrakk>
    \<Longrightarrow> kernel_step env k k'"
| do_explore: "\<lbrakk> explore_move env opts actor src inp sinp i x = Some x'; fresh_lease (x_kernel x) (op_new inp 0) \<rbrakk>
    \<Longrightarrow> kernel_step env (x_kernel x) (x_kernel x')"
| do_conclude: "explore_finish env opts inp actor src x = Some (k', xr) \<Longrightarrow> kernel_step env (x_kernel x) k'"
| do_prepare: "prepare_effect env inp k i = Some (k', prepared) \<Longrightarrow> kernel_step env k k'"
| do_approve: "approve_effect env inp k i who = Some (k', u) \<Longrightarrow> kernel_step env k k'"
| do_commit: "commit_effect env inp k i = Some (k', receipt) \<Longrightarrow> kernel_step env k k'"
| do_recover: "recover_in_doubt_effects env inp clock k = Some (k', rs) \<Longrightarrow> kernel_step env k k'"
| do_resolve: "resolve_in_doubt_effect env inp k i outcome = Some (k', oreceipt) \<Longrightarrow> kernel_step env k k'"
| do_compensate: "compensate_effect env inp k i = Some (k', receipt) \<Longrightarrow> kernel_step env k k'"
| do_replay: "replay_live env inps millis k i who = Some (k', receipt) \<Longrightarrow> kernel_step env k k'"
| do_retry: "step_retry env sinp k step = Some (k', res) \<Longrightarrow> kernel_step env k k'"
| do_sandbox: "replay_sandbox env inp k step = Some (k', srep) \<Longrightarrow> kernel_step env k k'"

inductive kernel_run :: "'w KernelEnv \<Rightarrow> 'w Kernel \<Rightarrow> 'w Kernel \<Rightarrow> bool" for env k where
  run_none: "kernel_run env k k"
| run_more: "\<lbrakk> kernel_run env k k'; kernel_step env k' k'' \<rbrakk> \<Longrightarrow> kernel_run env k k''"

text \<open>A kernel over empty stores, with any configuration and surroundings.\<close>

definition new_kernel :: "'w Kernel \<Rightarrow> bool" where
  "new_kernel k \<longleftrightarrow> dag_episodes (dd_dag (k_dag k)) = [] \<and> dag_states (dd_dag (k_dag k)) = []
     \<and> dag_branches (dd_dag (k_dag k)) = [] \<and> k_ledger k = empty_ledger
     \<and> k_identity k = \<lparr> db_principals = [], db_leases = [], db_delegations = [] \<rparr>
     \<and> k_broker k = empty_broker \<and> k_episodes k = []"

lemma step_moves: "kernel_step env k k' \<Longrightarrow> moves env k k'"
  by (induction rule: kernel_step.induct)
    (erule register_principal_moves kernel_register_connector_moves
      | rule kernel_register_backend_moves with_policy_mut_moves
      | erule kernel_create_episode_moves fork_branch_moves merge_branch_moves kernel_discard_branch_moves
      | erule (1) request_capability_moves [THEN conjunct1]
      | erule (2) compile_envelope_moves
      | erule (1) kernel_delegate_moves execute_step_auto_moves explore_move_moves
      | erule kernel_revoke_moves execute_step_moves explore_finish_moves prepare_effect_moves approve_effect_moves
          commit_effect_moves recover_in_doubt_effects_moves resolve_in_doubt_effect_moves compensate_effect_moves
          replay_live_moves step_retry_moves replay_sandbox_moves)+

lemma run_moves: "kernel_run env k k' \<Longrightarrow> moves env k k'"
  by (induction rule: kernel_run.induct) (blast intro: mv_none moves_trans step_moves)+

section \<open>The effect store\<close>

lemma approve_Err: "approve b i who epoch now = (b', Err e) \<Longrightarrow> b' = b"
  by (auto simp: approve_def Let_def split: sum.splits EffectPhase.splits)

definition brokered :: "'w BrokerEnv \<Rightarrow> 'w \<Rightarrow> Broker \<Rightarrow> bool" where
  "brokered env w b \<longleftrightarrow> (\<exists>s. broker_run env s \<and> world s = w \<and> store s = b \<and> waiting s = [] \<and> calling s = [])"

lemma brokeredI: "\<lbrakk> broker_run env s; world s = w; store s = b; waiting s = []; calling s = [] \<rbrakk> \<Longrightarrow> brokered env w b"
  unfolding brokered_def by blast

lemma brokeredE:
  assumes "brokered env w b"
  obtains s where "broker_run env s" "world s = w" "store s = b" "waiting s = []" "calling s = []"
  using assms unfolding brokered_def by blast

lemma brokered_world:
  assumes "brokered env w b"
  shows "brokered env w' b"
  using assms
proof (rule brokeredE)
  fix s
  assume "broker_run env s" "store s = b" "waiting s = []" "calling s = []"
  then show ?thesis
    by (intro brokeredI [OF run_step [OF _ step_world [where w' = w']]]) simp_all
qed

lemma brokered_inv: "brokered env w b \<Longrightarrow> \<exists>aps. broker_inv env aps b"
  using run_inv system_invD(1) unfolding brokered_def by blast

lemma brokered_commit:
  assumes "brokered env w b" "commit env w b i epoch lease_valid claim_time now j = (w', b', r)"
  shows "brokered env w' b'"
proof -
  obtain s where s: "broker_run env s" "world s = w" "store s = b" "waiting s = []" "calling s = []"
    using assms(1) by (rule brokeredE)
  show ?thesis
  proof (cases "commit_gate env b i epoch lease_valid")
    case (GateDone x)
    then show ?thesis
      using assms by (simp add: commit_def)
  next
    case (GateStale reason)
    have st: "stale b i reason = (b', r)" and "w' = w"
      using assms(2) by (simp_all add: commit_def GateStale)
    then have "broker_step env s (s\<lparr> store := b' \<rparr>)"
      using step_commit_stale [of env s i epoch lease_valid reason] GateStale s(3) by simp
    from run_step [OF s(1) this] show ?thesis
      by (rule brokeredI) (simp_all add: s \<open>w' = w\<close>)
  next
    case (GateProceed fx approval)
    have id: "fx_id fx = i"
      using commit_gate_Proceed [OF system_invD(1) [OF run_inv [OF s(1)]]] GateProceed s(3) by blast
    show ?thesis
    proof (cases "connector_for env (operation (contract fx))")
      case (Inl e)
      then show ?thesis
        using assms by (simp add: commit_def GateProceed)
    next
      case (Inr conn)
      obtain w1 re where prep: "conn_prepare conn w (contract fx) = (w1, re)"
        by fastforce
      show ?thesis
      proof (cases re)
        case (Inl e)
        then show ?thesis
          using assms(2) brokered_world [OF assms(1)] by (simp add: commit_def GateProceed Inr prep)
      next
        case (Inr reprepared)
        let ?c = "\<lparr> call_effect = fx, call_approval = approval, call_epoch = epoch, call_lease_valid = lease_valid \<rparr>"
        let ?s1 = "s\<lparr> world := w1, waiting := [(?c, reprepared)] \<rparr>"
        have "broker_step env s ?s1"
          using step_commit_gate [of env s i epoch lease_valid fx approval conn w1 reprepared]
            GateProceed \<open>connector_for env (operation (contract fx)) = Ok conn\<close> prep Inr s by simp
        with s(1) have s1: "broker_run env ?s1"
          by (rule run_step)
        obtain b1 e1 where enter: "commit_enter env b i fx reprepared claim_time = (b1, e1)"
          by fastforce
        show ?thesis
        proof (cases e1)
          case (Inl e)
          have "broker_step env ?s1 (?s1\<lparr> store := b1, waiting := remove1 (?c, reprepared) (waiting ?s1) \<rparr>)"
            by (rule step_commit_refused [where now = claim_time and e = e]) (simp_all add: s id enter Inl)
          from run_step [OF s1 this] have "brokered env w1 b1"
            by (rule brokeredI) (simp_all add: s)
          then show ?thesis
            using assms(2) \<open>connector_for env (operation (contract fx)) = Ok conn\<close> \<open>re = Ok reprepared\<close> Inl
            by (simp add: commit_def GateProceed prep enter)
        next
          case (Inr u)
          let ?s2 = "?s1\<lparr> store := b1, waiting := remove1 (?c, reprepared) (waiting ?s1), calling := ?c # calling ?s1,
            calls := ?c # calls ?s1 \<rparr>"
          have "broker_step env ?s1 ?s2"
            by (rule step_commit_enter [where now = claim_time and u = u]) (simp_all add: s id enter Inr)
          with s1 have s2: "broker_run env ?s2"
            by (rule run_step)
          have call: "commit_call env w1 b1 fx conn approval epoch now j = (w', b', r)"
            using assms(2) \<open>connector_for env (operation (contract fx)) = Ok conn\<close> \<open>re = Ok reprepared\<close> Inr
            by (simp add: commit_def GateProceed prep enter)
          have "broker_step env ?s2 (?s2\<lparr> world := w', store := b', calling := remove1 ?c (calling ?s2),
              undone := (if call_refuted conn (world ?s2) (contract (call_effect ?c))
                         then call_id ?c # undone ?s2 else undone ?s2) \<rparr>)"
            by (rule step_commit_return [where now = now and new_id = j and res = r])
              (simp_all add: call \<open>connector_for env (operation (contract fx)) = Ok conn\<close>)
          from run_step [OF s2 this] show ?thesis
            by (rule brokeredI) (simp_all add: s)
        qed
      qed
    qed
  qed
qed

lemma in_doubt_iff:
  assumes "broker_inv env aps b"
  shows "fx \<in> set (in_doubt_effects b) \<longleftrightarrow> (\<exists>r. tbl_get (effects b) (fx_id fx) = Some r \<and> row_effect r = fx
    \<and> eq_ignore_ascii_case (phase_name (phase fx)) ''committing'')"
proof -
  have ok: "tbl_ok (effects b)"
    using broker_invD(1) [OF assms] by (simp add: stores_ok_def)
  have "fx \<in> set (in_doubt_effects b) \<longleftrightarrow> (\<exists>i r. tbl_get (effects b) i = Some r \<and> row_effect r = fx
    \<and> eq_ignore_ascii_case (phase_name (phase fx)) ''committing'')"
    by (auto simp: in_doubt_effects_def list_effects_def tbl_vals_def image_iff Bex_def tbl_in_set_iff [OF ok, symmetric])
  moreover have "i = fx_id fx" if "tbl_get (effects b) i = Some r" "row_effect r = fx" for i r
    using broker_invD(4) [OF assms that(1)] that(2) by (simp add: row_ok_def)
  ultimately show ?thesis
    by blast
qed

lemma in_doubt_distinct:
  assumes "broker_inv env aps b"
  shows "distinct (map fx_id (in_doubt_effects b))"
proof -
  have ok: "tbl_ok (effects b)"
    using broker_invD(1) [OF assms] by (simp add: stores_ok_def)
  have id: "fx_id (row_effect r) = i" if "(i, r) \<in> set (effects b)" for i r
    using broker_invD(4) [OF assms] that by (auto simp: tbl_in_set_iff [OF ok] row_ok_def)
  have "map fx_id (map row_effect (tbl_vals (rev (effects b)))) = map fst (rev (effects b))"
    using id by (auto simp: tbl_vals_def)
  moreover have "distinct (map fst (rev (effects b)))"
    using ok by (simp add: tbl_ok_def rev_map [symmetric])
  ultimately have "distinct (map fx_id (map row_effect (tbl_vals (rev (effects b)))))"
    by (simp only:)
  then show ?thesis
    unfolding in_doubt_effects_def list_effects_def by (rule distinct_map_filter)
qed

lemma recover_one_other:
  assumes "recover_one env w b fx now j = (w', b', r)" "i \<noteq> fx_id fx"
  shows "tbl_get (effects b') i = tbl_get (effects b) i"
  using assms by (auto simp: recover_one_def finalize_commit_def insert_receipt_def release_claim_def Let_def
      split: sum.splits prod.splits CommitProbe.splits if_splits)

lemma brokered_recover_one:
  assumes "brokered env w b" "fx \<in> set (in_doubt_effects b)" "recover_one env w b fx now j = (w', b', r)"
  shows "brokered env w' b'"
proof -
  obtain s where s: "broker_run env s" "world s = w" "store s = b" "waiting s = []" "calling s = []"
    using assms(1) by (rule brokeredE)
  have "broker_step env s (s\<lparr> world := w', store := b',
      undone := (if r = ResolvedAborted then fx_id fx # undone s else undone s) \<rparr>)"
    by (rule step_recover [where now = now and new_id = j]) (simp_all add: s assms in_call_def)
  from run_step [OF s(1) this] show ?thesis
    by (rule brokeredI) (simp_all add: s)
qed

lemma brokered_recover_loop:
  assumes "brokered env w b" "set fxs \<subseteq> set (in_doubt_effects b)" "distinct (map fx_id fxs)"
    and "recover_loop env w b clock ids n fxs = (w', b', rs)"
  shows "brokered env w' b'"
  using assms
proof (induction fxs arbitrary: w b n rs)
  case (Cons fx fxs)
  obtain w1 b1 r where one: "recover_one env w b fx (clock n) (ids n) = (w1, b1, r)"
    by (metis surj_pair)
  obtain rs' where rest: "recover_loop env w1 b1 clock ids (Suc n) fxs = (w', b', rs')"
    using Cons.prems(4) by (auto simp: one Let_def split: prod.splits)
  have b1: "brokered env w1 b1"
    using brokered_recover_one [OF Cons.prems(1) _ one] Cons.prems(2) by simp
  obtain aps aps' where inv: "broker_inv env aps b" "broker_inv env aps' b1"
    using brokered_inv Cons.prems(1) b1 by metis
  have "set fxs \<subseteq> set (in_doubt_effects b1)"
  proof
    fix y
    assume y: "y \<in> set fxs"
    then have "y \<in> set (in_doubt_effects b)" "fx_id y \<noteq> fx_id fx"
      using Cons.prems(2,3) by (auto simp: image_iff)
    then show "y \<in> set (in_doubt_effects b1)"
      by (simp add: in_doubt_iff [OF inv(1)] in_doubt_iff [OF inv(2)] recover_one_other [OF one])
  qed
  then show ?case
    using Cons.IH [OF b1 _ _ rest] Cons.prems(3) by simp
qed simp

lemma broker_op_brokered:
  assumes "broker_op env w b w' b'" "brokered env w b"
  shows "brokered env w' b'"
proof -
  obtain s where s: "broker_run env s" "world s = w" "store s = b" "waiting s = []" "calling s = []"
    using assms(2) by (rule brokeredE)
  have step: "brokered env w' b'" if "broker_step env s s'" "world s' = w'" "store s' = b'" "waiting s' = []" "calling s' = []" for s'
    by (rule brokeredI [OF run_step [OF s(1) that(1)] that(2-)])
  show ?thesis
    using assms(1)
  proof cases
    case (op_propose c who branch step lease now i r)
    then show ?thesis
      using step [OF step_propose] s by simp
  next
    case (op_prepare i r)
    then show ?thesis
      using step [OF step_prepare] s by simp
  next
    case (op_approve i who epoch now r)
    then show ?thesis
    proof (cases r)
      case (Inl e)
      then show ?thesis
        using op_approve approve_Err assms(2) by metis
    next
      case (Inr u)
      then show ?thesis
        using op_approve step [OF step_approve] s by simp
    qed
  next
    case op_commit
    then show ?thesis
      using brokered_commit [OF assms(2)] by blast
  next
    case (op_recover clock ids rs)
    obtain aps where inv: "broker_inv env aps b"
      using brokered_inv [OF assms(2)] by blast
    show ?thesis
      using brokered_recover_loop [OF assms(2) subset_refl in_doubt_distinct [OF inv]] op_recover
      unfolding recover_in_doubt_def by blast
  next
    case (op_resolve i outcome now j res)
    then show ?thesis
      using step [OF step_resolve [where i = i]] s by (simp add: in_call_def)
  next
    case (op_compensate i now j r)
    then show ?thesis
      using step [OF step_compensate] s by simp
  qed
qed

lemma moves_brokered:
  "moves env k k' \<Longrightarrow> brokered (kv_broker env) (k_world k) (k_broker k) \<Longrightarrow> brokered (kv_broker env) (k_world k') (k_broker k')"
  by (induction rule: moves.induct) (auto intro: broker_op_brokered brokered_world)

section \<open>Identity\<close>

lemma identity_op_reachable: "identity_op db db' \<Longrightarrow> identity_reachable db \<Longrightarrow> identity_reachable db'"
  by (induction rule: identity_op.induct) (blast intro: identity_reachable.intros)+

lemma moves_identity: "moves env k k' \<Longrightarrow> identity_reachable (k_identity k) \<Longrightarrow> identity_reachable (k_identity k')"
  by (induction rule: moves.induct) (auto intro: identity_op_reachable)

section \<open>The ledger\<close>

text \<open>
  The stored rows are those of hash-chained events with consecutive sequence numbers. Whether a
  row reads back as the event it was written for depends on the text columns alone.
\<close>

definition stored_row :: "LedgerEnv \<Rightarrow> LedgerEvent \<Rightarrow> EventRow" where
  "stored_row env e = event_row env (le_body e) (le_hash e)"

definition written :: "LedgerEnv \<Rightarrow> Ledger \<Rightarrow> LedgerEvent list \<Rightarrow> bool" where
  "written env l evs \<longleftrightarrow> lg_events l = map (stored_row env) evs \<and> chain env None evs
     \<and> map (ev_seq \<circ> le_body) evs = [1..int (length evs)]"

definition readable :: "LedgerEnv \<Rightarrow> LedgerEvent \<Rightarrow> bool" where
  "readable env e = columns_ok env (ev_payload (le_body e)) (ev_caused_by (le_body e)) (ev_time (le_body e))"

lemma stored_row_fields [simp]: "er_seq (stored_row env e) = ev_seq (le_body e)" "er_hash (stored_row env e) = le_hash e"
  by (simp_all add: stored_row_def event_row_def)

lemma written_seqs: "written env l evs \<Longrightarrow> map er_seq (lg_events l) = [1..int (length (lg_events l))]"
  by (simp add: written_def comp_def)

lemma written_append:
  assumes "written env l evs" "append_event env l e now = (l', x)"
  obtains ev where "x = Ok ev" "written env l' (evs @ [ev])" "ev_kind (le_body ev) = ne_kind e" "ev_step (le_body ev) = ne_step e"
    "ev_payload (le_body ev) = ne_payload e" "ev_branch (le_body ev) = ne_branch e" "ev_principal (le_body ev) = ne_principal e"
    "ev_episode (le_body ev) = ne_episode e"
proof -
  define body where "body = \<lparr> ev_seq = int (length evs) + 1, ev_kind = ne_kind e, ev_episode = ne_episode e,
    ev_branch = ne_branch e, ev_step = ne_step e, ev_principal = ne_principal e, ev_time = now,
    ev_payload = ne_payload e, ev_caused_by = ne_caused_by e, ev_prev = head_hash None evs \<rparr>"
  define ev where "ev = \<lparr> le_body = body, le_hash = compute_hash env body \<rparr>"
  have rows: "lg_events l = map (stored_row env) evs"
    using assms(1) by (simp add: written_def)
  have "last_event l = (if evs = [] then None else Some (int (length evs), le_hash (last evs)))"
    using last_event_ok [OF written_seqs [OF assms(1)]] by (simp add: rows last_map)
  then have out: "l' = l\<lparr> lg_events := map (stored_row env) (evs @ [ev]) \<rparr>" "x = Ok ev"
    using assms(2) by (auto simp: append_event_def Let_def rows body_def ev_def stored_row_def head_hash_def)
  have "written env l' (evs @ [ev])"
    using assms(1) by (auto simp: written_def out chain_snoc upto_rec2) (simp_all add: ev_def body_def)
  then show ?thesis
    using out(2) by (intro that [of ev]) (simp_all add: ev_def body_def)
qed

lemma written_parse: "written env l evs \<Longrightarrow> list_all (readable env) evs \<Longrightarrow> parse_rows env (lg_events l) = Ok evs"
proof -
  have "list_all (readable env) evs \<Longrightarrow> parse_rows env (map (stored_row env) evs) = Ok evs"
    by (induction evs) (simp_all add: readable_def stored_row_def row_to_event_row)
  then show "written env l evs \<Longrightarrow> list_all (readable env) evs \<Longrightarrow> parse_rows env (lg_events l) = Ok evs"
    by (simp add: written_def)
qed

lemma written_verifies:
  assumes "written env l evs" "list_all (readable env) evs"
  shows "verify_chain env l = Ok (length evs)"
  using assms written_parse [OF assms] by_seq_ok [OF written_seqs [OF assms(1)]]
  by (auto simp: written_def verify_chain_def verify_loop_Ok)

lemma moves_written:
  "moves env k k' \<Longrightarrow> written (kv_ledger env) (k_ledger k) evs \<Longrightarrow> \<exists>more. written (kv_ledger env) (k_ledger k') (evs @ more)"
proof (induction rule: moves.induct)
  case mv_none
  then show ?case
    by (metis append_Nil2)
next
  case (mv_event k' w kind payload causes now)
  then obtain more where "written (kv_ledger env) (k_ledger k') (evs @ more)"
    by blast
  then obtain ev where
    "written (kv_ledger env) (fst (record_caused_by (kv_ledger env) (k_ledger k') w kind payload causes now)) ((evs @ more) @ [ev])"
    unfolding record_caused_by_def by (metis written_append surjective_pairing)
  then show ?case
    by (intro exI [of _ "more @ [ev]"]) simp
next
  case (mv_raw k' bs)
  then show ?case
    by (auto simp: written_def store_raw_def Let_def)
next
  case (mv_receipt k' rc key)
  then show ?case
    by (auto simp: written_def store_receipt_def split: option.splits)
qed simp_all

section \<open>The state graph\<close>

definition parents :: "StateNode \<Rightarrow> ident list" where
  "parents n = opt_list (st_parent n) @ opt_list (merge_parent n)"

text \<open>Every state comes after its parents.\<close>

definition in_order :: "(ident \<times> StateNode) list \<Rightarrow> bool" where
  "in_order t \<longleftrightarrow> (\<forall>j < length t. set (parents (snd (t ! j))) \<subseteq> fst ` set (take j t))"

definition branch_ok :: "(ident, StateNode) table \<Rightarrow> BranchRow \<Rightarrow> bool" where
  "branch_ok states r \<longleftrightarrow> (\<exists>n. tbl_get states (brow_head r) = Some n \<and> st_episode n = brow_episode r)
     \<and> tbl_get states (brow_base r) \<noteq> None \<and> (\<exists>s. status_parse (brow_status r) = Ok s)"

definition dag_typed :: "StateDag \<Rightarrow> bool" where
  "dag_typed d \<longleftrightarrow> tbl_ok (dag_states d) \<and> tbl_ok (dag_branches d) \<and> tbl_ok (dag_episodes d)
     \<and> in_order (dag_states d)
     \<and> (\<forall>i n. tbl_get (dag_states d) i = Some n \<longrightarrow> st_id n = i)
     \<and> (\<forall>i r. tbl_get (dag_branches d) i = Some r \<longrightarrow> branch_ok (dag_states d) r)
     \<and> (\<forall>i e. tbl_get (dag_episodes d) i = Some e \<longrightarrow> ep_id e = i \<and> tbl_get (dag_states d) (root_state e) \<noteq> None
          \<and> branch_in d i (root_branch e))"

text \<open>What no operation on the graph takes back.\<close>

definition extends :: "StateDag \<Rightarrow> StateDag \<Rightarrow> bool" where
  "extends d d' \<longleftrightarrow> (\<forall>i n. tbl_get (dag_states d) i = Some n \<longrightarrow> tbl_get (dag_states d') i = Some n)
     \<and> (\<forall>e i. branch_in d e i \<longrightarrow> branch_in d' e i)
     \<and> (\<forall>i e. tbl_get (dag_episodes d) i = Some e \<longrightarrow> tbl_get (dag_episodes d') i = Some e)"

lemma extends_refl [simp]: "extends d d"
  by (simp add: extends_def)

lemma extends_trans: "extends d d1 \<Longrightarrow> extends d1 d2 \<Longrightarrow> extends d d2"
  by (simp add: extends_def)

lemma branch_ok_extends:
  "(\<And>i n. tbl_get t i = Some n \<Longrightarrow> tbl_get t' i = Some n) \<Longrightarrow> branch_ok t r \<Longrightarrow> branch_ok t' r"
  by (auto simp: branch_ok_def)

lemma in_order_snoc: "in_order t \<Longrightarrow> set (parents n) \<subseteq> fst ` set t \<Longrightarrow> in_order (t @ [(i, n)])"
  by (auto simp: in_order_def nth_append less_Suc_eq)

lemma status_round [simp]: "status_parse (status_as_str s) = Ok s"
  by (cases s) (simp_all add: status_parse_def)

lemma dag_typedD:
  assumes "dag_typed d"
  shows "tbl_ok (dag_states d)" "in_order (dag_states d)"
    and "tbl_get (dag_states d) i = Some n \<Longrightarrow> st_id n = i"
    and "tbl_get (dag_branches d) i = Some r \<Longrightarrow> branch_ok (dag_states d) r"
  using assms by (simp_all add: dag_typed_def)

definition grows :: "StateDag \<Rightarrow> StateDag \<Rightarrow> bool" where
  "grows d d' \<longleftrightarrow> dag_typed d' \<and> extends d d'"

lemma grows_refl [simp]: "grows d d \<longleftrightarrow> dag_typed d"
  by (simp add: grows_def)

lemma grows_trans: "grows d d1 \<Longrightarrow> grows d1 d2 \<Longrightarrow> grows d d2"
  by (auto simp: grows_def intro: extends_trans)

lemma storage_grows: "dag_typed d \<Longrightarrow> grows d (d\<lparr> dag_cas := c \<rparr>)"
  by (simp add: grows_def dag_typed_def extends_def branch_in_def)

lemma insert_state_grows:
  assumes "dag_typed d" "insert_state n d = Ok d'" "set (parents n) \<subseteq> fst ` set (dag_states d)"
  shows "grows d d' \<and> tbl_get (dag_states d') (st_id n) = Some n \<and> dag_branches d' = dag_branches d"
proof -
  have fresh: "tbl_get (dag_states d) (st_id n) = None" and d': "d' = d\<lparr> dag_states := dag_states d @ [(st_id n, n)] \<rparr>"
    using assms(2) by (auto simp: insert_state_def split: if_splits)
  have old: "tbl_get (dag_states d) i = Some m \<Longrightarrow> tbl_get (dag_states d') i = Some m" for i m
    using fresh by (auto simp: d')
  have "branch_ok (dag_states d') r" if "tbl_get (dag_branches d) i = Some r" for i r
    using branch_ok_extends [OF old dag_typedD(4) [OF assms(1) that]] .
  then have "dag_typed d'"
    using assms(1,3) fresh by (auto simp: dag_typed_def d' branch_in_def intro: in_order_snoc)
  then show ?thesis
    using fresh by (auto simp: grows_def extends_def d' branch_in_def)
qed

lemma insert_branch_grows:
  assumes "dag_typed d" "insert_branch i r d = Ok d'" "branch_ok (dag_states d) r"
  shows "grows d d'"
proof -
  have fresh: "tbl_get (dag_branches d) i = None" and d': "d' = d\<lparr> dag_branches := dag_branches d @ [(i, r)] \<rparr>"
    using assms(2) by (auto simp: insert_branch_def split: if_splits)
  have "branch_in d e j \<Longrightarrow> branch_in d' e j" for e j
    using fresh by (auto simp: branch_in_def d')
  then show ?thesis
    using assms(1,3) fresh by (auto simp: grows_def extends_def dag_typed_def d')
qed

lemma set_head_grows:
  assumes "dag_typed d" "tbl_get (dag_branches d) b = Some r" "tbl_get (dag_states d) h = Some n" "st_episode n = brow_episode r"
  shows "grows d (set_head b h d)"
proof -
  have "branch_in d e j = branch_in (set_head b h d) e j" for e j
    using assms(2) by (auto simp: branch_in_def set_head_def tbl_get_update_Some)
  moreover have "branch_ok (dag_states d) r"
    by (rule dag_typedD(4) [OF assms(1,2)])
  ultimately show ?thesis
    using assms by (auto simp: grows_def extends_def dag_typed_def branch_ok_def set_head_def tbl_get_update_Some)
qed

lemma set_status_grows:
  assumes "dag_typed d"
  shows "grows d (set_status b s d)"
proof (cases "tbl_get (dag_branches d) b")
  case None
  then have "tbl_get (dag_branches (set_status b s d)) = tbl_get (dag_branches d)"
    by (auto simp: set_status_def)
  then show ?thesis
    using assms by (auto simp: grows_def extends_def dag_typed_def branch_in_def set_status_def)
next
  case (Some r)
  have "branch_in d e j = branch_in (set_status b s d) e j" for e j
    using Some by (auto simp: branch_in_def set_status_def tbl_get_update_Some)
  moreover have "branch_ok (dag_states d) r"
    by (rule dag_typedD(4) [OF assms Some])
  ultimately show ?thesis
    using assms Some by (auto simp: grows_def extends_def dag_typed_def branch_ok_def set_status_def tbl_get_update_Some)
qed

lemma load_branch_row:
  assumes "load_branch d i = Ok b"
  obtains r where "tbl_get (dag_branches d) i = Some r" "br_id b = i" "br_episode b = brow_episode r" "br_head b = brow_head r"
  using assms by (auto simp: load_branch_def split: option.splits sum.splits)

lemma typed_head:
  assumes "dag_typed d" "load_branch d i = Ok b"
  shows "\<exists>n. tbl_get (dag_states d) (br_head b) = Some n \<and> st_episode n = br_episode b" "br_head b \<in> fst ` set (dag_states d)"
proof -
  show ex: "\<exists>n. tbl_get (dag_states d) (br_head b) = Some n \<and> st_episode n = br_episode b"
    using assms(2) by (rule load_branch_row) (use dag_typedD(4) [OF assms(1)] in \<open>auto simp: branch_ok_def\<close>)
  then show "br_head b \<in> fst ` set (dag_states d)"
    using tbl_get_None_iff [of "dag_states d" "br_head b"] by auto
qed

text \<open>Adding a state on top of a branch.\<close>

lemma push_state_grows:
  assumes "dag_typed d" "load_branch d branch = Ok b" "insert_state n d = Ok d'" "st_episode n = br_episode b"
    and "set (parents n) \<subseteq> fst ` set (dag_states d)"
  shows "grows d (set_head branch (st_id n) d')"
proof -
  have ins: "grows d d'" "tbl_get (dag_states d') (st_id n) = Some n" "dag_branches d' = dag_branches d"
    using insert_state_grows [OF assms(1,3,5)] by simp_all
  obtain r where r: "tbl_get (dag_branches d) branch = Some r" "br_episode b = brow_episode r"
    using assms(2) by (rule load_branch_row)
  have "grows d' (set_head branch (st_id n) d')"
    by (rule set_head_grows [OF _ _ ins(2)]) (use ins r assms(4) in \<open>simp_all add: grows_def\<close>)
  then show ?thesis
    by (rule grows_trans [OF ins(1)])
qed

lemma append_step_grows:
  assumes "append_step d branch step actor delta wroot replay st now = (d', r)" "dag_typed d"
  shows "grows d d'"
proof (cases r)
  case (Inl e)
  then have "d' = d"
    using assms(1) by (auto simp: append_step_def Let_def split: sum.splits bool.splits)
  then show ?thesis
    using assms(2) by simp
next
  case (Inr node)
  then obtain b d1 where b: "load_branch d branch = Ok b" and n: "insert_state node d = Ok d1" "d' = set_head branch (st_id node) d1"
    and f: "st_episode node = br_episode b" "st_parent node = Some (br_head b)" "merge_parent node = None"
    using assms(1) by (auto simp: append_step_def Let_def split: sum.splits bool.splits)
  show ?thesis
    unfolding n(2) using typed_head(2) [OF assms(2) b]
    by (intro push_state_grows [OF assms(2) b n(1) f(1)]) (simp add: parents_def opt_list_def f)
qed

lemma fork_grows:
  assumes "fork d from br now = (d', r)" "dag_typed d"
  shows "grows d d'"
proof (cases r)
  case (Inl e)
  then have "d' = d"
    using assms(1) by (auto simp: fork_def split: sum.splits)
  then show ?thesis
    using assms(2) by simp
next
  case (Inr b)
  then obtain base where base: "tbl_get (dag_states d) from = Some base"
    and ins: "insert_branch br \<lparr> brow_episode = st_episode base, brow_base = from, brow_head = from,
       brow_status = status_as_str BranchActive, brow_created = now \<rparr> d = Ok d'"
    using assms(1) by (auto simp: fork_def load_state_def split: sum.splits option.splits)
  show ?thesis
    by (rule insert_branch_grows [OF assms(2) ins]) (simp add: branch_ok_def base del: status_as_str.simps)
qed

lemma discard_branch_grows:
  assumes "discard_branch d branch = (d', r)" "dag_typed d"
  shows "grows d d'"
  using assms set_status_grows by (auto simp: discard_branch_def split: sum.splits if_splits)

lemma create_episode_grows:
  assumes "create_episode env d actor snapshot replay objective ep br st now = (d', r)" "dag_typed d"
  shows "grows d d'"
proof (cases r)
  case (Inl e)
  then obtain c where "d' = d\<lparr> dag_cas := c \<rparr>"
    using assms(1) by (auto simp: create_episode_def Let_def split: prod.splits sum.splits)
  then show ?thesis
    using storage_grows [OF assms(2)] by simp
next
  case (Inr h)
  then obtain c wroot where fresh: "tbl_get (dag_episodes d) ep = None" "tbl_get (dag_states d) st = None" "tbl_get (dag_branches d) br = None"
    and d': "d' = d\<lparr> dag_cas := c, dag_episodes := dag_episodes d @ [(ep, \<lparr> ep_id = ep, root_state = st, root_branch = br, created_by = actor,
          ep_objective = objective, ep_created = now \<rparr>)],
        dag_states := dag_states d @ [(st, \<lparr> st_id = st, st_episode = ep, st_branch = br, st_parent = None, produced_by = None,
          merge_parent = None, st_actor = actor, st_delta = default_delta, workspace_root = wroot, st_replay = replay, st_created = now \<rparr>)],
        dag_branches := dag_branches d @ [(br, \<lparr> brow_episode = ep, brow_base = st, brow_head = st,
          brow_status = ''active'', brow_created = now \<rparr>)] \<rparr>"
    using assms(1)
    by (auto simp: create_episode_def Let_def insert_episode_def insert_state_def insert_branch_def
        split: prod.splits sum.splits if_splits)
  have keep: "branch_in d e j \<Longrightarrow> branch_in d' e j" for e j
    using fresh by (auto simp: branch_in_def d')
  have old: "tbl_get (dag_states d) i = Some m \<Longrightarrow> tbl_get (dag_states d') i = Some m" for i m
    using fresh by (auto simp: d')
  have "branch_ok (dag_states d') r" if "tbl_get (dag_branches d) i = Some r" for i r
    using branch_ok_extends [OF old dag_typedD(4) [OF assms(2) that]] .
  moreover have "in_order (dag_states d')"
    unfolding d' using dag_typedD(2) [OF assms(2)] by (auto intro!: in_order_snoc simp: parents_def opt_list_def)
  moreover have "branch_in d' ep br"
    using fresh by (simp add: branch_in_def d')
  moreover have "branch_ok (dag_states d') \<lparr> brow_episode = ep, brow_base = st, brow_head = st,
          brow_status = ''active'', brow_created = now \<rparr>"
    using fresh by (simp add: branch_ok_def d' status_parse_def)
  ultimately have "dag_typed d'"
    using assms(2) fresh keep unfolding dag_typed_def by (auto simp: d')
  moreover have "extends d d'"
    using keep old fresh by (auto simp: extends_def d')
  ultimately show ?thesis
    by (simp add: grows_def)
qed

lemma merge_cases:
  assumes "merge env d target src actor st now = Some (d', r)"
  obtains (refused) "d' = d" | (into) tb sb base where "load_branch d target = Ok tb" "load_branch d src = Ok sb"
    "merge_into env d tb sb base actor st now = (d', r)"
proof (cases "\<exists>tb sb base. load_branch d target = Ok tb \<and> load_branch d src = Ok sb \<and> lca d (br_head tb) (br_head sb) = Some (Ok base)
    \<and> merge_into env d tb sb base actor st now = (d', r)")
  case True
  then show ?thesis
    using into by blast
next
  case False
  have "d' = d"
    using assms False unfolding merge_def
    by (cases "target = src"; cases "load_branch d target"; cases "load_branch d src"; auto split: sum.splits)
      (metis obj_sumE)
  then show ?thesis
    by (rule refused)
qed

lemma merge_into_Err: "merge_into env d tb sb base actor st now = (d', Err e) \<Longrightarrow> \<exists>c. d' = d\<lparr> dag_cas := c \<rparr>"
  unfolding merge_into_def Let_def
  by (cases "merge_plan env d tb sb base") (auto split: prod.splits sum.splits intro: exI [of _ "dag_cas d"])

lemma merge_into_Ok:
  assumes "merge_into env d tb sb base actor st now = (d', Ok node)"
  obtains c d1 where "insert_state node (d\<lparr> dag_cas := c \<rparr>) = Ok d1"
    "d' = set_status (br_id sb) BranchMerged (set_head (br_id tb) (st_id node) d1)"
    "st_episode node = br_episode tb" "st_parent node = Some (br_head tb)" "merge_parent node = Some (br_head sb)"
  using assms by (auto simp: merge_into_def merge_node_def Let_def split: sum.splits prod.splits)

lemma merge_grows:
  assumes "merge env d target src actor st now = Some (d', r)" "dag_typed d"
  shows "grows d d'"
  using assms(1)
proof (cases rule: merge_cases)
  case refused
  then show ?thesis
    using assms(2) by simp
next
  case (into tb sb base)
  show ?thesis
  proof (cases r)
    case (Inl e)
    then show ?thesis
      using merge_into_Err into(3) storage_grows [OF assms(2)] by blast
  next
    case (Inr node)
    obtain c d1 where n: "insert_state node (d\<lparr> dag_cas := c \<rparr>) = Ok d1"
        "d' = set_status (br_id sb) BranchMerged (set_head (br_id tb) (st_id node) d1)"
      and f: "st_episode node = br_episode tb" "st_parent node = Some (br_head tb)" "merge_parent node = Some (br_head sb)"
      using into(3) [unfolded Inr] by (rule merge_into_Ok)
    let ?d = "d\<lparr> dag_cas := c \<rparr>"
    have d: "grows d ?d" and typed: "dag_typed ?d"
      using storage_grows [OF assms(2)] by (auto simp: grows_def)
    have id: "br_id tb = target"
      using into(1) by (rule load_branch_row)
    have same: "load_branch ?d target = Ok tb"
      using into(1) by (simp add: load_branch_def)
    have push: "grows ?d (set_head target (st_id node) d1)"
      using typed_head(2) [OF assms(2) into(1)] typed_head(2) [OF assms(2) into(2)]
      by (intro push_state_grows [OF typed same n(1) f(1)]) (simp add: parents_def opt_list_def f)
    show ?thesis
      unfolding n(2) id
      by (rule grows_trans [OF grows_trans [OF d push] set_status_grows]) (use push in \<open>simp add: grows_def\<close>)
  qed
qed

lemma dag_op_grows: "dag_op env d d' \<Longrightarrow> dag_typed d \<Longrightarrow> grows d d'"
  by (erule dag_op.cases) (blast intro: storage_grows create_episode_grows append_step_grows fork_grows discard_branch_grows merge_grows)+

section \<open>Episodes\<close>

definition episodes_ok :: "StateDag \<Rightarrow> (ident, EpisodeInfo) table \<Rightarrow> bool" where
  "episodes_ok d t \<longleftrightarrow> (\<forall>e info. tbl_get t e = Some info \<longrightarrow> ei_root_branch info \<in> set (ei_branches info)
     \<and> list_all (branch_in d e) (ei_branches info) \<and> tbl_get (dag_states d) (ei_root_state info) \<noteq> None)"

lemma episodes_ok_grows: "episodes_ok d t \<Longrightarrow> extends d d' \<Longrightarrow> episodes_ok d' t"
  unfolding episodes_ok_def extends_def list_all_iff by fastforce

lemma moves_typed:
  assumes "moves env k k'" "dag_typed (dd_dag (k_dag k))" "episodes_ok (dd_dag (k_dag k)) (k_episodes k)"
  shows "grows (dd_dag (k_dag k)) (dd_dag (k_dag k')) \<and> episodes_ok (dd_dag (k_dag k')) (k_episodes k')"
  using assms
proof (induction rule: moves.induct)
  case (mv_dag k' dd)
  then have "grows (dd_dag (k_dag k')) (dd_dag dd)"
    using dag_op_grows by (auto simp: grows_def)
  then show ?case
    using mv_dag grows_trans episodes_ok_grows by (auto simp: grows_def)
next
  case (mv_episode k' e br st who)
  then show ?case
    by (auto simp: episodes_ok_def)
next
  case (mv_branch k' e br)
  then show ?case
    by (auto simp: episodes_ok_def)
qed auto

section \<open>What is never taken back\<close>

lemma moves_ledger:
  "moves env k k' \<Longrightarrow> prefix (lg_events (k_ledger k)) (lg_events (k_ledger k'))
     \<and> (\<forall>h b. tbl_get (lg_raw (k_ledger k)) h = Some b \<longrightarrow> tbl_get (lg_raw (k_ledger k')) h = Some b)"
  by (induction rule: moves.induct)
    (auto simp: record_caused_by_def append_event_def store_raw_def store_receipt_def Let_def prefix_def split: option.splits prod.splits)

lemma insert_receipt_keeps:
  "insert_receipt i r b = Ok b' \<Longrightarrow> tbl_get (receipts b) j = Some rr \<Longrightarrow> tbl_get (receipts b') j = Some rr"
  by (auto simp: insert_receipt_def split: if_splits)

lemma finalize_commit_keeps:
  "finalize_commit env b fx a e x now i = (b', r) \<Longrightarrow> tbl_get (receipts b) j = Some rr \<Longrightarrow> tbl_get (receipts b') j = Some rr"
  using insert_receipt_keeps by (auto simp: finalize_commit_def Let_def split: sum.splits)

lemma recover_loop_keeps:
  assumes "recover_loop env w b clock ids n fxs = (w', b', rs)" "tbl_get (receipts b) j = Some rr"
  shows "tbl_get (receipts b') j = Some rr"
  using assms
proof (induction fxs arbitrary: w b n rs)
  case (Cons fx fxs)
  obtain w1 b1 r where one: "recover_one env w b fx (clock n) (ids n) = (w1, b1, r)"
    by (metis surj_pair)
  have "tbl_get (receipts b1) j = Some rr"
    using one Cons.prems(2) finalize_commit_keeps
    by (auto simp: recover_one_def release_claim_def Let_def split: sum.splits prod.splits CommitProbe.splits)
  then show ?case
    using Cons.IH Cons.prems(1) by (auto simp: one Let_def split: prod.splits)
qed simp

lemma commit_call_keeps:
  "commit_call env w b fx conn a e now i = (w', b', r) \<Longrightarrow> tbl_get (receipts b) j = Some rr \<Longrightarrow> tbl_get (receipts b') j = Some rr"
  using finalize_commit_keeps
  by (auto simp: commit_call_def resolve_failed_commit_def release_claim_def split: prod.splits sum.splits CommitProbe.splits)

lemma stale_receipts: "stale b i reason = (b', r) \<Longrightarrow> receipts b' = receipts b"
  by (auto simp: stale_def abort_def Let_def split: sum.splits prod.splits EffectPhase.splits)

lemma commit_enter_receipts: "commit_enter env b i fx re now = (b', r) \<Longrightarrow> receipts b' = receipts b"
  using stale_receipts by (auto simp: commit_enter_def claim_commit_def Let_def split: sum.splits option.splits if_splits)

lemma commit_keeps:
  assumes "commit env w b i epoch lv t1 t2 nid = (w', b', r)" "tbl_get (receipts b) j = Some rr"
  shows "tbl_get (receipts b') j = Some rr"
proof (cases "commit_gate env b i epoch lv")
  case (GateDone x)
  then show ?thesis
    using assms by (simp add: commit_def)
next
  case (GateStale reason)
  then show ?thesis
    using assms by (auto simp: commit_def dest: stale_receipts)
next
  case (GateProceed fx approval)
  then show ?thesis
    using assms commit_enter_receipts commit_call_keeps
    by (fastforce simp: commit_def split: sum.splits prod.splits)
qed

lemma broker_op_keeps:
  assumes "broker_op env w b w' b'" "tbl_get (receipts b) j = Some rr"
  shows "tbl_get (receipts b') j = Some rr"
  using assms(1)
proof cases
  case op_propose
  then show ?thesis
    using assms(2) by (auto simp: propose_def Let_def split: sum.splits option.splits if_splits)
next
  case op_prepare
  then show ?thesis
    using assms(2) by (auto simp: prepare_def prepare_finish_def split: sum.splits prod.splits)
next
  case op_approve
  then show ?thesis
    using assms(2) by (auto simp: approve_def Let_def split: sum.splits EffectPhase.splits)
next
  case op_commit
  then show ?thesis
    using assms(2) by (rule commit_keeps)
next
  case (op_recover clock ids rs)
  from op_recover [unfolded recover_in_doubt_def] assms(2) show ?thesis
    by (rule recover_loop_keeps)
next
  case op_resolve
  then show ?thesis
    using assms(2) finalize_commit_keeps
    by (auto simp: resolve_in_doubt_def release_claim_def Let_def split: sum.splits prod.splits EffectPhase.splits OperatorResolution.splits)
next
  case op_compensate
  then show ?thesis
    using assms(2) insert_receipt_keeps
    by (auto simp: compensate_def sign_and_store_def Let_def split: sum.splits prod.splits EffectPhase.splits)
qed

lemma moves_receipts:
  "moves env k k' \<Longrightarrow> tbl_get (receipts (k_broker k)) j = Some rr \<Longrightarrow> tbl_get (receipts (k_broker k')) j = Some rr"
  by (induction rule: moves.induct) (auto intro: broker_op_keeps)

definition dead_lease :: "leases \<Rightarrow> ident \<Rightarrow> bool" where
  "dead_lease t i \<longleftrightarrow> (\<exists>l. tbl_get t i = Some l \<and> revoked l)"

lemma dead_lease_get: "dead_lease t i \<longleftrightarrow> (\<exists>l. lease_get t i = Ok l \<and> revoked l)"
  by (auto simp: dead_lease_def lease_get_def split: option.splits)

lemma revoke_cascading_dead:
  assumes "lease_inv t" "revoke_cascading t i = Some (Ok (t', ids))" "(j, i) \<in> (child_rel t)\<^sup>*"
  shows "dead_lease t' j" "dead_lease t m \<Longrightarrow> dead_lease t' m"
proof -
  have there: "tbl_get t i \<noteq> None"
    using assms(2) by (auto simp: revoke_cascading_def split: if_splits)
  then have t': "t' = revoke_all (below t i) t"
    using revoke_cascading_ends [of t i] assms(1,2) by (auto simp: lease_inv_def)
  have "tbl_get t j \<noteq> None"
    using assms(3) there by (cases rule: converse_rtranclE) (auto simp: child_rel_def bind_eq_Some_conv)
  then show "dead_lease t' j"
    using assms(3) by (auto simp: dead_lease_def t' tbl_get_revoke_all below_def)
  show "dead_lease t m \<Longrightarrow> dead_lease t' m"
    by (cases "m \<in> below t i") (auto simp: dead_lease_def t' tbl_get_revoke_all)
qed

lemma identity_op_dead:
  assumes "identity_op db db'" "lease_inv (db_leases db)" "dead_lease (db_leases db) i"
  shows "dead_lease (db_leases db') i"
  using assms(1)
proof cases
  case (id_delegate new_id delegator parent_id delegatee cs uses expiry budget now child)
  obtain parent where "attenuate parent new_id delegatee cs uses expiry budget now = Ok child"
    and db': "db' = delegate_store db delegator parent_id delegatee child now"
    using id_delegate(2) by (rule delegate_Ok)
  then have "lease_id child = new_id"
    by (simp add: attenuate_Ok)
  then show ?thesis
    using assms(3) id_delegate(1) by (auto simp: dead_lease_def db' delegate_store_def lease_issue_def)
next
  case (id_revoke j t ids)
  then show ?thesis
    using revoke_cascading_dead(2) [OF assms(2) _ rtrancl.rtrancl_refl] assms(3) by simp
next
  case (id_consume j now t l)
  then show ?thesis
    using assms(3) by (auto simp: dead_lease_def consume_use_def Let_def tbl_get_update_Some split: option.splits if_splits)
qed (use assms(3) in \<open>auto simp: dead_lease_def lease_issue_def\<close>)

lemma moves_dead:
  assumes "moves env k k'" "identity_reachable (k_identity k)" "dead_lease (db_leases (k_identity k)) i"
  shows "dead_lease (db_leases (k_identity k')) i"
  using assms
proof (induction rule: moves.induct)
  case (mv_identity k' db)
  then show ?case
    using identity_op_dead reachable_lease_inv moves_identity by (metis Kernel.select_convs(3) Kernel.update_convs(3) Kernel.surjective)
qed auto

section \<open>Runs from empty stores\<close>

lemma run_from_new:
  assumes "new_kernel k0" "kernel_run env k0 k"
  shows "brokered (kv_broker env) (k_world k) (k_broker k)" "identity_reachable (k_identity k)"
    "dag_typed (dd_dag (k_dag k))" "episodes_ok (dd_dag (k_dag k)) (k_episodes k)" "\<exists>evs. written (kv_ledger env) (k_ledger k) evs"
proof -
  note m = run_moves [OF assms(2)]
  have "brokered (kv_broker env) (k_world k0) (k_broker k0)"
    by (rule brokeredI [OF run_start [where w = "k_world k0"]]) (use assms(1) in \<open>simp_all add: new_kernel_def start_system_def\<close>)
  then show "brokered (kv_broker env) (k_world k) (k_broker k)"
    by (rule moves_brokered [OF m])
  show "identity_reachable (k_identity k)"
    by (rule moves_identity [OF m]) (use assms(1) in \<open>simp add: new_kernel_def identity_reachable.init\<close>)
  have "dag_typed (dd_dag (k_dag k0))" "episodes_ok (dd_dag (k_dag k0)) (k_episodes k0)"
    using assms(1) by (simp_all add: new_kernel_def dag_typed_def in_order_def episodes_ok_def)
  with moves_typed [OF m] show "dag_typed (dd_dag (k_dag k))" "episodes_ok (dd_dag (k_dag k)) (k_episodes k)"
    by (simp_all add: grows_def)
  have "written (kv_ledger env) (k_ledger k0) []"
    using assms(1) by (simp add: new_kernel_def written_def empty_ledger_def)
  with moves_written [OF m] show "\<exists>evs. written (kv_ledger env) (k_ledger k) evs"
    by fastforce
qed

lemma kernel_run_trans: "kernel_run env k1 k2 \<Longrightarrow> kernel_run env k k1 \<Longrightarrow> kernel_run env k k2"
  by (induction rule: kernel_run.induct) (blast intro: kernel_run.intros)+

lemma deny_step_denies:
  assumes "deny_step env inp k w b step who denial = Some (k', r)"
  shows "\<not> (\<exists>res. r = Ok res \<and> \<not> is_denial (res_observation res))"
  using assms unfolding deny_step_def Let_def by (elim and_then_SomeE) auto

lemma dead_lease_denied:
  assumes "dead_lease (db_leases (k_identity k)) (act_lease action)" "execute_step env inp k actor branch action = Some (k', r)"
  shows "k' = k\<lparr> k_ledger := k_ledger k' \<rparr> \<and> \<not> (\<exists>res. r = Ok res \<and> \<not> is_denial (res_observation res))"
  using assms(2)
proof (cases rule: execute_step_cases)
  case (failed e)
  then show ?thesis
    by simp
next
  case (denied b who denial)
  have "only_traced env (step_writer b branch (in_step inp) actor) k k'"
    using deny_step_summary [OF denied(2)] by blast
  then show ?thesis
    using deny_step_denies [OF denied(2)] by (simp add: only_traced_def)
next
  case (performed b leases grant)
  then show ?thesis
    using assms(1) by (elim admittedE) (auto simp: dead_lease_def lease_check_Ok)
qed

end
