(* ===== verification/KernelGuarantees.thy ===== *)
theory KernelGuarantees
  imports KernelSystem "HOL-Library.Countable"
begin

text \<open>
  The guarantees of the composed kernel over its runs: refinement of the components, typing,
  append-only history, final revocation, and the explanation of a step. Each comes with a concrete run of the kernel of \<open>KernelDemo\<close>.
\<close>

section \<open>Runs\<close>



text \<open>
  C7. History is append-only. Whatever the kernel does after a moment: the events recorded by then
  stay, in order, at the start of the ledger; every state, every raw output and every signed receipt
  is still there, unchanged; and a lease that was revoked stays revoked.
\<close>

theorem history_append_only:
  assumes "new_kernel k0" "kernel_run env k0 k" "kernel_run env k k'"
  shows "prefix (lg_events (k_ledger k)) (lg_events (k_ledger k'))
    \<and> (\<forall>i n. load_state (dd_dag (k_dag k)) i = Ok n \<longrightarrow> load_state (dd_dag (k_dag k')) i = Ok n)
    \<and> (\<forall>h b. fetch_raw (k_ledger k) h = Ok b \<longrightarrow> fetch_raw (k_ledger k') h = Ok b)
    \<and> (\<forall>j rc. get_receipt_row (k_broker k) j = Ok rc \<longrightarrow> get_receipt_row (k_broker k') j = Ok rc)
    \<and> (\<forall>i l. lease_get (db_leases (k_identity k)) i = Ok l \<and> revoked l \<longrightarrow>
         (\<exists>l'. lease_get (db_leases (k_identity k')) i = Ok l' \<and> revoked l'))"
proof -
  note m = run_moves [OF assms(3)] and start = run_from_new [OF assms(1,2)]
  have "extends (dd_dag (k_dag k)) (dd_dag (k_dag k'))"
    using moves_typed [OF m start(3,4)] by (simp add: grows_def)
  then have states: "\<forall>i n. load_state (dd_dag (k_dag k)) i = Ok n \<longrightarrow> load_state (dd_dag (k_dag k')) i = Ok n"
    by (auto simp: extends_def load_state_def split: option.splits)
  have raw: "\<forall>h b. fetch_raw (k_ledger k) h = Ok b \<longrightarrow> fetch_raw (k_ledger k') h = Ok b"
    using moves_ledger [OF m] by (auto simp: fetch_raw_def split: option.splits)
  have rcpt: "\<forall>j rc. get_receipt_row (k_broker k) j = Ok rc \<longrightarrow> get_receipt_row (k_broker k') j = Ok rc"
    using moves_receipts [OF m] by (auto simp: get_receipt_row_def split: option.splits)
  have dead: "\<forall>i l. lease_get (db_leases (k_identity k)) i = Ok l \<and> revoked l \<longrightarrow>
      (\<exists>l'. lease_get (db_leases (k_identity k')) i = Ok l' \<and> revoked l')"
    using moves_dead [OF m start(2)] unfolding dead_lease_get by blast
  show ?thesis
    using moves_ledger [OF m] states raw rcpt dead by blast
qed


section \<open>Explaining a step\<close>

definition by_writer :: "EventWriter \<Rightarrow> LedgerEvent \<Rightarrow> bool" where
  "by_writer w e \<longleftrightarrow> ev_episode (le_body e) = wr_episode w \<and> ev_branch (le_body e) = wr_branch w
     \<and> ev_step (le_body e) = wr_step w \<and> ev_principal (le_body e) = wr_principal w"

lemma written_record:
  assumes "written (kv_ledger env) l evs"
  shows "\<exists>ev. written (kv_ledger env) (fst (record_caused_by (kv_ledger env) l w kind payload causes now)) (evs @ [ev])
    \<and> by_writer w ev \<and> ev_kind (le_body ev) = kind \<and> ev_payload (le_body ev) = payload"
proof -
  obtain l' x where new: "record_caused_by (kv_ledger env) l w kind payload causes now = (l', x)"
    by fastforce
  from assms new [unfolded record_caused_by_def] show ?thesis
    by (rule written_append) (auto simp: new by_writer_def)
qed

lemma traced_written:
  assumes "traced env w l l'" "written (kv_ledger env) l evs"
  shows "\<exists>more. written (kv_ledger env) l' (evs @ more) \<and> list_all (by_writer w) more"
  using assms
proof (induction rule: traced.induct)
  case (nothing l)
  then show ?case
    by (intro exI [of _ "[]"]) simp
next
  case (event l l' kind payload causes now)
  then obtain more where more: "written (kv_ledger env) l' (evs @ more)" "list_all (by_writer w) more"
    by blast
  obtain ev where "written (kv_ledger env) (fst (record_caused_by (kv_ledger env) l' w kind payload causes now)) ((evs @ more) @ [ev])"
    "by_writer w ev"
    using written_record [OF more(1)] by blast
  then show ?case
    using more(2) by (intro exI [of _ "more @ [ev]"]) simp
next
  case (raw l l' bs)
  then obtain more where "written (kv_ledger env) l' (evs @ more)" "list_all (by_writer w) more"
    by blast
  then show ?case
    by (intro exI [of _ more]) (auto simp: written_def store_raw_def Let_def)
qed

lemma step_events_written:
  assumes "written (kv_ledger env) (k_ledger k) evs" "list_all (readable (kv_ledger env)) evs"
  shows "step_events env k step = Ok (filter (\<lambda>e. ev_step (le_body e) = Some step) evs)"
proof -
  have rows: "lg_events (k_ledger k) = map (stored_row (kv_ledger env)) evs"
    using assms(1) by (simp add: written_def)
  have sel: "row_matches (any_event\<lparr> tq_step := Some step \<rparr>) (stored_row (kv_ledger env) e) \<longleftrightarrow> ev_step (le_body e) = Some step" for e
    by (auto simp: row_matches_def any_event_def wants_def stored_row_def event_row_def)
  have row: "row_to_event (kv_ledger env) (stored_row (kv_ledger env) e) = Ok e" if "readable (kv_ledger env) e" for e
    using that by (simp add: readable_def stored_row_def row_to_event_row)
  have parse: "parse_rows (kv_ledger env) (filter (row_matches (any_event\<lparr> tq_step := Some step \<rparr>)) (map (stored_row (kv_ledger env)) es))
      = Ok (filter (\<lambda>e. ev_step (le_body e) = Some step) es)" if "list_all (readable (kv_ledger env)) es" for es
    using that by (induction es) (simp_all add: sel row)
  have any_time: "Ledger.in_time (any_event\<lparr> tq_step := Some step \<rparr>) = (\<lambda>_. True)"
    by (auto simp: Ledger.in_time_def any_event_def)
  have no_limit: "tq_limit (any_event\<lparr> tq_step := Some step \<rparr>) = None"
    by (simp add: any_event_def)
  show ?thesis
    unfolding step_events_def query_def rows by_seq_ok [OF written_seqs [OF assms(1), unfolded rows]] no_limit Let_def option.case
      parse [OF assms(2)] any_time by simp
qed

lemma explain_fixed [simp]:
  "se_step (foldl (explain_event env) x evs) = se_step x" "se_episode (foldl (explain_event env) x evs) = se_episode x"
  "se_branch (foldl (explain_event env) x evs) = se_branch x" "se_principal (foldl (explain_event env) x evs) = se_principal x"
  "se_events (foldl (explain_event env) x evs) = se_events x"
  by (induction evs arbitrary: x) (simp_all add: explain_event_def Let_def split: EventKind.splits)

lemma explain_observed:
  assumes "written (kv_ledger env) (k_ledger k) (evs @ [ev])" "list_all (readable (kv_ledger env)) (evs @ [ev])"
    and "ev_kind (le_body ev) = ObservationEmitted" "ev_step (le_body ev) = Some step"
  shows "\<exists>x. step_explain env k step = Ok x \<and> se_observation x = Some (ev_payload (le_body ev))
    \<and> se_events x = filter (\<lambda>e. ev_step (le_body e) = Some step) evs @ [ev]
    \<and> se_episode x = ev_episode (le_body (hd (se_events x))) \<and> se_branch x = ev_branch (le_body (hd (se_events x)))
    \<and> se_principal x = ev_principal (le_body (hd (se_events x)))"
proof -
  let ?evs = "filter (\<lambda>e. ev_step (le_body e) = Some step) evs @ [ev]"
  let ?x = "foldl (explain_event env) (unexplained step (hd ?evs) ?evs) ?evs"
  have "step_events env k step = Ok ?evs"
    using step_events_written [OF assms(1,2)] assms(4) by simp
  then have "step_explain env k step = Ok ?x"
    unfolding step_explain_def by (cases ?evs) simp_all
  moreover have "se_observation ?x = Some (ev_payload (le_body ev))"
    by (simp add: explain_event_def assms(3) Let_def)
  ultimately show ?thesis
    by (intro exI [of _ ?x]) (simp add: unexplained_def del: foldl_append)
qed

lemma step_concluded_by:
  assumes "execute_step env inp k actor branch action = Some (k', Ok res)"
  shows "\<exists>b. active_branch k branch = Ok b \<and> concluded env (step_writer b branch (in_step inp) actor) k k' res"
  using assms
proof (cases rule: execute_step_cases)
  case (denied b who denial)
  from deny_step_summary [OF denied(2)] denied(1) show ?thesis
    by (auto simp: step_summary_def)
next
  case (performed b leases grant)
  from perform_action_summary [OF performed(3)] performed(1) show ?thesis
    by (auto simp: step_summary_def concluded_def)
qed simp


section \<open>A concrete run\<close>

text \<open>An agent is registered, opens an episode, obtains a lease by policy and has it revoked.\<close>

instance f64 :: countable
  by countable_datatype

instance json :: countable
  by countable_datatype

text \<open>Text columns that read back: a value is written as its number in an enumeration of the type, in unary.\<close>

definition countable_text :: "'a :: countable \<Rightarrow> string" where
  "countable_text x = replicate (to_nat x) CHR ''1''"

definition read_countable :: "string \<Rightarrow> ('a :: countable) option" where
  "read_countable s = Some (from_nat (length s))"

lemma read_countable_text [simp]: "read_countable (countable_text x) = Some x"
  by (simp add: read_countable_def countable_text_def)

definition demo_text_env :: LedgerEnv where
  "demo_text_env = demo_ledger_env\<lparr> print_time := countable_text, parse_time := read_countable, print_json := countable_text,
     parse_json := read_countable, print_seqs := countable_text, parse_seqs := read_countable \<rparr>"

lemma demo_readable: "readable demo_text_env e"
  by (simp add: readable_def columns_ok_def demo_text_env_def)

definition demo_run_env :: "nat KernelEnv" where
  "demo_run_env = demo_kernel_env\<lparr> kv_ledger := demo_text_env, kv_dag := \<lparr> sha = (\<lambda>_. demo_root_hash), ser = (\<lambda>_. []), parse_manifest = (\<lambda>_. Some []) \<rparr> \<rparr>"

definition demo_new :: "nat Kernel" where
  "demo_new = demo_kernel\<lparr>
     k_dag := \<lparr> dd_dag = \<lparr> dag_episodes = [], dag_states = [], dag_branches = [], dag_cas = [] \<rparr>, dd_caches = [] \<rparr>,
     k_identity := \<lparr> db_principals = [], db_leases = [], db_delegations = [] \<rparr> \<rparr>"

definition demo_registered :: "nat Kernel" where
  "demo_registered = demo_new\<lparr>
     k_identity := \<lparr> db_principals = [(''pr-a'', new_agent ''pr-a'' ''a'')], db_leases = [], db_delegations = [] \<rparr> \<rparr>"

definition demo_names :: OpInput where
  "demo_names = \<lparr> op_new = (\<lambda>n. if n = 0 then ''ep'' else if n = 1 then ''main'' else ''st-0''), op_time = (\<lambda>_. 0) \<rparr>"

definition demo_lease_names :: OpInput where
  "demo_lease_names = \<lparr> op_new = (\<lambda>_. ''lease-1''), op_time = (\<lambda>_. 5) \<rparr>"

lemma demo_new_kernel: "new_kernel demo_new"
  by (simp add: new_kernel_def demo_new_def demo_kernel_def empty_broker_def)

lemma demo_register: "register_principal demo_run_env demo_new (new_agent ''pr-a'' ''a'') = Some (demo_registered, Ok ())"
  by (simp add: register_principal_def demo_new_def demo_registered_def register_def new_agent_def demo_kernel_def)

lemma demo_hash: "hex_of demo_root_hash = Ok (replicate 64 CHR ''0'')"
  by (simp add: hex_of_def demo_root_hash_def list_all_iff ascii_hexdigit_def)

definition demo_dag :: StateDag where
  "demo_dag = \<lparr>
     dag_episodes = [(''ep'', \<lparr> ep_id = ''ep'', root_state = ''st-0'', root_branch = ''main'', created_by = ''pr-a'',
       ep_objective = ''goal'', ep_created = 0 \<rparr>)],
     dag_states = [(''st-0'', demo_root_node\<lparr> st_replay := FilesystemOnly \<rparr>)],
     dag_branches = [(''main'', \<lparr> brow_episode = ''ep'', brow_base = ''st-0'', brow_head = ''st-0'',
       brow_status = ''active'', brow_created = 0 \<rparr>)],
     dag_cas = [(demo_root_hash, manifest_bytes (kv_dag demo_run_env) [])] \<rparr>"

definition demo_handle :: EpisodeHandle where
  "demo_handle = \<lparr> handle_episode = ''ep'', handle_branch = ''main'', handle_root = demo_root_node\<lparr> st_replay := FilesystemOnly \<rparr> \<rparr>"

lemma demo_sha [simp]: "sha (kv_dag demo_run_env) = (\<lambda>_. demo_root_hash)" "parse_manifest (kv_dag demo_run_env) = (\<lambda>_. Some [])"
  by (simp_all add: demo_run_env_def)

lemma demo_created:
  "create_episode (kv_dag demo_run_env) (dd_dag (k_dag demo_registered)) ''pr-a'' None FilesystemOnly ''goal'' ''ep'' ''main'' ''st-0'' 0
     = (demo_dag, Ok demo_handle)"
  by (simp add: create_episode_def demo_registered_def demo_new_def manifest_store_def cas_put_def demo_hash Let_def
      insert_episode_def insert_state_def insert_branch_def demo_dag_def demo_handle_def demo_root_node_def tbl_get_def)

lemma demo_workspace [simp]: "kv_workspace demo_run_env b = Ok b"
  by (simp add: demo_run_env_def demo_kernel_env_def)

lemma demo_materialize:
  "\<exists>w cache. dag_materialize (kv_dag demo_run_env) fenv \<lparr> dd_dag = demo_dag, dd_caches = [] \<rparr> ''st-0'' dir w0 t t'
     = (put_stat_cache dir cache \<lparr> dd_dag = demo_dag, dd_caches = [] \<rparr>, w, Ok ())"
proof -
  have "load_state demo_dag ''st-0'' = Ok (demo_root_node\<lparr> st_replay := FilesystemOnly \<rparr>)"
    by (simp add: load_state_def demo_dag_def tbl_get_def)
  moreover have "manifest_load (kv_dag demo_run_env) (dag_cas demo_dag) demo_root_hash = Ok []"
    by (simp add: manifest_load_def cas_get_def demo_hash demo_dag_def tbl_get_def)
  ultimately show ?thesis
    by (auto simp: dag_materialize_def materialize_with_cache_def demo_root_node_def split: prod.split)
qed

lemma demo_set_up:
  "\<exists>k. set_up_workspace demo_run_env (with_dag demo_dag demo_registered) ''main'' ''st-0'' t = (k, Ok ())
     \<and> k_identity k = k_identity demo_registered \<and> k_policy k = demo_policy \<and> dd_dag (k_dag k) = demo_dag"
proof -
  let ?k = "with_dag demo_dag demo_registered"
  have k: "k_dag ?k = \<lparr> dd_dag = demo_dag, dd_caches = [] \<rparr>" "k_identity ?k = k_identity demo_registered" "k_policy ?k = demo_policy"
    by (simp_all add: with_dag_def demo_registered_def demo_new_def demo_kernel_def)
  obtain w cache where "dag_materialize (kv_dag demo_run_env) (kv_fs demo_run_env) (k_dag ?k) ''st-0'' ''main'' (space_of ?k ''main'') t t
      = (put_stat_cache ''main'' cache \<lparr> dd_dag = demo_dag, dd_caches = [] \<rparr>, w, Ok ())"
    using demo_materialize unfolding k by blast
  then show ?thesis
    using k by (simp add: set_up_workspace_def materialize_branch_def set_space_def)
qed

lemma demo_open:
  "\<exists>k. kernel_create_episode demo_run_env demo_names demo_registered ''pr-a'' None ''goal'' = Some (k, Ok demo_handle)
     \<and> k_identity k = k_identity demo_registered \<and> k_policy k = demo_policy \<and> dd_dag (k_dag k) = demo_dag
     \<and> tbl_get (k_episodes k) ''ep'' \<noteq> None"
proof -
  have who: "kernel_principal demo_run_env demo_registered ''pr-a'' = Ok (new_agent ''pr-a'' ''a'')"
    by (simp add: kernel_principal_def demo_registered_def registry_get_def tbl_get_def)
  have names: "op_new demo_names 0 = ''ep''" "op_new demo_names 1 = ''main''" "op_new demo_names 2 = ''st-0''" "op_time demo_names n = 0" for n
    by (simp_all add: demo_names_def)
  have root: "kv_root_workspace demo_run_env = None"
    by (simp add: demo_run_env_def demo_kernel_env_def)
  have handle: "handle_branch demo_handle = ''main''" "st_id (handle_root demo_handle) = ''st-0''" "handle_episode demo_handle = ''ep''"
    by (simp_all add: demo_handle_def demo_root_node_def)
  obtain k1 where k1: "set_up_workspace demo_run_env (with_dag demo_dag demo_registered) ''main'' ''st-0'' 0 = (k1, Ok ())"
      "k_identity k1 = k_identity demo_registered" "k_policy k1 = demo_policy" "dd_dag (k_dag k1) = demo_dag"
    using demo_set_up by blast
  define info where "info = \<lparr> ei_root_branch = ''main'', ei_root_state = ''st-0'', ei_branches = [''main''], ei_created_by = ''pr-a'' \<rparr>"
  let ?k2 = "k1\<lparr> k_sched := register_episode_default (k_sched k1) ''ep'', k_episodes := tbl_put ''ep'' info (k_episodes k1) \<rparr>"
  let ?w = "\<lparr> wr_episode = ''ep'', wr_branch = Some ''main'', wr_step = None, wr_principal = ''pr-a'' \<rparr>"
  obtain k3 seq where k3: "log_event demo_run_env ?k2 ?w Objective (JObj [(''objective'', JStr ''goal'')]) [] 0 = Some (k3, Ok seq)"
    and tr: "only_traced demo_run_env ?w ?k2 k3"
    using log_event_total by blast
  have "open_episode demo_run_env demo_names (with_dag demo_dag demo_registered) ''pr-a'' ''goal'' demo_handle = Some (k3, Ok demo_handle)"
    by (simp add: open_episode_def handle names k1 check_def and_then_def k3 [unfolded info_def])
  then have "kernel_create_episode demo_run_env demo_names demo_registered ''pr-a'' None ''goal'' = Some (k3, Ok demo_handle)"
    by (simp add: kernel_create_episode_def who check_def names [simplified] root demo_created)
  then show ?thesis
    using only_traced_fields [OF tr] k1 by auto
qed

lemma demo_grant:
  assumes "k_identity k = k_identity demo_registered" "k_policy k = demo_policy"
  shows "\<exists>l. request_capability demo_run_env demo_lease_names k ''pr-a'' ''mcp.invoke'' (JObj []) None
      = Some (k\<lparr> k_identity := (k_identity k)\<lparr> db_leases := [(''lease-1'', l)] \<rparr> \<rparr>, Ok l) \<and> fresh_lease k ''lease-1''"
proof -
  have who: "kernel_principal demo_run_env k ''pr-a'' = Ok (new_agent ''pr-a'' ''a'')"
    and none: "db_leases (k_identity k) = []"
    using assms(1) by (simp_all add: kernel_principal_def demo_registered_def registry_get_def tbl_get_def)
  have parts: "op_new demo_lease_names 0 = ''lease-1''" "op_time demo_lease_names 0 = 5"
    "kv_add_seconds demo_run_env = demo_add_seconds" "kv_constraints demo_run_env = (\<lambda>_. JNull)"
    by (simp_all add: demo_lease_names_def demo_run_env_def demo_kernel_env_def)
  obtain rule g where ev: "evaluate demo_add_seconds (\<lambda>_. JNull) ''lease-1'' demo_policy (new_agent ''pr-a'' ''a'') ''mcp.invoke'' (JObj []) None 5
      = Some (Allow rule g)"
    using demo_allows by blast
  have "lease_id (grant_lease g) = ''lease-1''"
    using evaluate_lease [OF ev] by simp
  then show ?thesis
    by (simp add: request_capability_def who check_def parts assms(2) ev none lease_issue_def tbl_put_def tbl_delete_def fresh_lease_def Let_def)
qed

text \<open>The stages of the run, and the revocation at its end.\<close>

lemma demo_stages:
  "\<exists>k l. kernel_run demo_run_env demo_new k \<and> dd_dag (k_dag k) = demo_dag \<and> tbl_get (k_episodes k) ''ep'' \<noteq> None
     \<and> db_leases (k_identity k) = [(''lease-1'', l)] \<and> db_principals (k_identity k) = [(''pr-a'', new_agent ''pr-a'' ''a'')]"
proof -
  obtain k where k: "kernel_create_episode demo_run_env demo_names demo_registered ''pr-a'' None ''goal'' = Some (k, Ok demo_handle)"
      "k_identity k = k_identity demo_registered" "k_policy k = demo_policy" "dd_dag (k_dag k) = demo_dag" "tbl_get (k_episodes k) ''ep'' \<noteq> None"
    using demo_open by blast
  obtain l where l: "request_capability demo_run_env demo_lease_names k ''pr-a'' ''mcp.invoke'' (JObj []) None
      = Some (k\<lparr> k_identity := (k_identity k)\<lparr> db_leases := [(''lease-1'', l)] \<rparr> \<rparr>, Ok l)" "fresh_lease k ''lease-1''"
    using demo_grant [OF k(2,3)] by blast
  have "kernel_run demo_run_env demo_new demo_registered"
    by (rule run_more [OF run_none do_register [OF demo_register]])
  then have "kernel_run demo_run_env demo_new k"
    by (rule run_more [OF _ do_create [OF k(1)]])
  then have "kernel_run demo_run_env demo_new (k\<lparr> k_identity := (k_identity k)\<lparr> db_leases := [(''lease-1'', l)] \<rparr> \<rparr>)"
    by (rule run_more [OF _ do_request [OF l(1)]]) (use l(2) in \<open>simp add: demo_lease_names_def\<close>)
  then show ?thesis
    using k by (intro exI [of _ "k\<lparr> k_identity := (k_identity k)\<lparr> db_leases := [(''lease-1'', l)] \<rparr> \<rparr>"] exI [of _ l])
      (simp add: demo_registered_def)
qed

lemma demo_revoke:
  assumes "db_leases (k_identity k) = [(''lease-1'', l)]" "lease_inv (db_leases (k_identity k))"
  shows "\<exists>k1 ids. kernel_revoke demo_run_env k ''lease-1'' = Some (k1, Ok ids)"
proof -
  have "tbl_get (db_leases (k_identity k)) ''lease-1'' \<noteq> None"
    by (simp add: assms(1) tbl_get_def)
  then show ?thesis
    using revoke_cascading_ends assms(2) unfolding lease_inv_def kernel_revoke_def by fastforce
qed



theorem history_append_only_witness:
  "\<exists>k k1 ids. kernel_run demo_run_env demo_new k \<and> kernel_revoke demo_run_env k ''lease-1'' = Some (k1, Ok ids)
     \<and> load_state (dd_dag (k_dag k1)) ''st-0'' = Ok (demo_root_node\<lparr> st_replay := FilesystemOnly \<rparr>)"
proof -
  obtain k l where k: "kernel_run demo_run_env demo_new k" "dd_dag (k_dag k) = demo_dag" "db_leases (k_identity k) = [(''lease-1'', l)]"
    using demo_stages by blast
  obtain k1 ids where k1: "kernel_revoke demo_run_env k ''lease-1'' = Some (k1, Ok ids)"
    using demo_revoke [OF k(3) reachable_lease_inv [OF run_from_new(2) [OF demo_new_kernel k(1)]]] by blast
  have "load_state (dd_dag (k_dag k)) ''st-0'' = Ok (demo_root_node\<lparr> st_replay := FilesystemOnly \<rparr>)"
    by (simp add: k(2) load_state_def demo_dag_def tbl_get_def)
  with history_append_only [OF demo_new_kernel k(1) run_more [OF run_none do_revoke [OF k1]]] k(1) k1 show ?thesis
    by blast
qed

lemma deny_step_total: "\<exists>k' res. deny_step env inp k w b step who denial = Some (k', Ok res)"
proof -
  obtain k1 seq where k1: "log_event env k w DenialIssued (denial_json (redact_for denial (trust who))) [] (in_time inp 8) = Some (k1, Ok seq)"
    using log_event_total by blast
  obtain k2 seq2 where "log_event env k1 w ObservationEmitted (JObj [(''kind'', JStr ''denied''),
      (''code'', JStr (denial_code_name (denial_code (redact_for denial (trust who)))))]) [seq] (in_time inp 9) = Some (k2, Ok seq2)"
    using log_event_total by blast
  with k1 show ?thesis
    by (simp add: deny_step_def Let_def and_then_def)
qed

lemma refused_lease_returns:
  assumes "active_branch k branch = Ok b" "kernel_principal env k actor = Ok who" "dead_lease (db_leases (k_identity k)) (act_lease action)"
  shows "\<exists>k' res. execute_step env inp k actor branch action = Some (k', Ok res)"
proof -
  obtain l where l: "lease_get (db_leases (k_identity k)) (act_lease action) = Ok l" "revoked l"
    using assms(3) by (auto simp: dead_lease_get)
  then obtain e where "lease_check l actor (required_operation (act_kind action)) (action_params (act_kind action)) (Some branch) (in_time inp 0) = Err e"
    by (cases "lease_check l actor (required_operation (act_kind action)) (action_params (act_kind action)) (Some branch) (in_time inp 0)")
      (auto simp: lease_check_Ok)
  then show ?thesis
    using deny_step_total by (simp add: execute_step_def Let_def check_def assms(1,2) l)
qed

text \<open>A step that presents the lease after its revocation.\<close>

lemma demo_refused:
  "\<exists>k k1 ids k2 res. kernel_run demo_run_env demo_new k \<and> kernel_revoke demo_run_env k ''lease-1'' = Some (k1, Ok ids)
     \<and> execute_step demo_run_env (demo_input ''st-1'') k1 ''pr-a'' ''main'' (demo_action ''docs'' ''search'') = Some (k2, Ok res)"
proof -
  obtain k l where k: "kernel_run demo_run_env demo_new k" "dd_dag (k_dag k) = demo_dag" "db_leases (k_identity k) = [(''lease-1'', l)]"
      "db_principals (k_identity k) = [(''pr-a'', new_agent ''pr-a'' ''a'')]"
    using demo_stages by blast
  note inv = reachable_lease_inv [OF run_from_new(2) [OF demo_new_kernel k(1)]]
  obtain k1 ids where k1: "kernel_revoke demo_run_env k ''lease-1'' = Some (k1, Ok ids)"
    using demo_revoke [OF k(3) inv] by blast
  then obtain t where t: "revoke_cascading (db_leases (k_identity k)) ''lease-1'' = Some (Ok (t, ids))"
    and k1': "k1 = k\<lparr> k_identity := (k_identity k)\<lparr> db_leases := t \<rparr> \<rparr>"
    by (auto simp: kernel_revoke_def split: option.splits sum.splits)
  have dead: "dead_lease (db_leases (k_identity k1)) (act_lease (demo_action ''docs'' ''search''))"
    using revoke_cascading_dead(1) [OF inv t rtrancl.rtrancl_refl] by (simp add: k1' demo_action_def)
  have "\<exists>b. active_branch k1 ''main'' = Ok b"
    by (simp add: active_branch_def k1' k(2) demo_dag_def load_branch_def status_parse_def tbl_get_def)
  moreover have "\<exists>who. kernel_principal demo_run_env k1 ''pr-a'' = Ok who"
    by (simp add: kernel_principal_def k1' k(4) registry_get_def tbl_get_def)
  ultimately obtain k2 res where "execute_step demo_run_env (demo_input ''st-1'') k1 ''pr-a'' ''main'' (demo_action ''docs'' ''search'') = Some (k2, Ok res)"
    using refused_lease_returns dead by blast
  with k(1) k1 show ?thesis
    by blast
qed



end
