(* ===== verification/KernelRequests.thy ===== *)
theory KernelRequests
  imports KernelGuarantees
begin

text \<open>
  How the kernel obtains authority for an agent: the lease that automatic resolution picks, and the
  report of an autonomy envelope.
\<close>

section \<open>Automatic lease resolution\<close>

definition usable :: "ident \<Rightarrow> string \<Rightarrow> json \<Rightarrow> ident \<Rightarrow> instant \<Rightarrow> CapabilityLease \<Rightarrow> bool" where
  "usable actor op params branch now l \<longleftrightarrow> lease_check l actor op params (Some branch) now = Ok ()"

lemma better_lease_trans: "better_lease a b \<Longrightarrow> \<not> better_lease c b \<Longrightarrow> \<not> better_lease c a"
  by (auto simp: better_lease_def)

lemma better_lease_irrefl: "\<not> better_lease l l"
  by (auto simp: better_lease_def)

definition best_of :: "(CapabilityLease \<Rightarrow> bool) \<Rightarrow> CapabilityLease list \<Rightarrow> CapabilityLease option \<Rightarrow> bool" where
  "best_of P ls r \<longleftrightarrow> (case r of
       None \<Rightarrow> list_all (\<lambda>l. \<not> P l) ls
     | Some l \<Rightarrow> l \<in> set ls \<and> P l \<and> list_all (\<lambda>l'. P l' \<longrightarrow> \<not> better_lease l' l) ls)"

lemma choose_lease_best_from:
  "best_of (usable actor op params branch now) seen chosen \<Longrightarrow>
     best_of (usable actor op params branch now) (seen @ ls) (choose_lease actor op params branch now chosen ls)"
proof (induction ls arbitrary: seen chosen)
  case (Cons l ls)
  have "best_of (usable actor op params branch now) (seen @ [l])
      (if lease_check l actor op params (Some branch) now \<noteq> Ok () then chosen
       else case chosen of None \<Rightarrow> Some l | Some c \<Rightarrow> if better_lease l c then Some l else chosen)"
    using Cons.prems
    by (auto simp: best_of_def usable_def better_lease_irrefl list_all_iff split: option.splits dest: better_lease_trans)
  from Cons.IH [OF this] show ?case
    by simp
qed simp

lemma choose_lease_best:
  "best_of (usable actor op params branch now) ls (choose_lease actor op params branch now None ls)"
  using choose_lease_best_from [of actor op params branch now "[]" None ls] by (simp add: best_of_def)

text \<open>Every stored lease that authorizes the action is among those considered.\<close>

lemma usable_considered:
  assumes "lease_inv t" "tbl_get t i = Some l" "usable actor op params branch now l"
  shows "l \<in> set (active_for_principal t actor now)"
  using assms tbl_get_in_set [OF assms(2)]
  by (force simp: active_for_principal_def list_for_principal_def usable_def lease_check_Ok tbl_vals_def word_greater_zero_iff)

lemma considered_stored:
  assumes "tbl_ok t" "l \<in> set (active_for_principal t actor now)"
  shows "\<exists>i. tbl_get t i = Some l"
  using assms by (auto simp: active_for_principal_def list_for_principal_def tbl_vals_def tbl_in_set_iff)

lemma clamped_fits: "fits_within (clamped_to b outer) outer"
  using clamped_to_greatest [of "clamped_to b outer" b outer] by simp

text \<open>
  C10. Automatic resolution spends the narrowest authority there is. If no stored lease authorizes
  the action on this branch, and only then, a lease is minted, by the policy; otherwise the lease
  used is stored, authorizes the action, and no other that does is preferable: none is bound to the
  branch while the chosen one is not, and none equally bound expires sooner. Either way the step runs
  under that lease with a budget inside its envelope.
\<close>

theorem auto_step_resolves:
  assumes "lease_inv (db_leases (k_identity k))"
    and "execute_step_auto env req inp k actor branch kind intent budget = Some (k', Ok auto)"
  defines "fit \<equiv> usable actor (required_operation kind) (action_params kind) branch (op_time req 3)"
  shows "\<exists>k1 lease. execute_step env inp k1 actor branch (auto_action kind intent budget lease) = Some (k', Ok (auto_result auto))
    \<and> lease_id lease = auto_lease auto \<and> fits_within (act_budget (auto_action kind intent budget lease)) (lease_budget lease)
    \<and> (if auto_minted auto
       then request_capability env req k actor (required_operation kind) (action_params kind) (Some branch) = Some (k1, Ok lease)
         \<and> (\<forall>i l. tbl_get (db_leases (k_identity k)) i = Some l \<longrightarrow> \<not> fit l)
       else k1 = k \<and> tbl_get (db_leases (k_identity k)) (auto_lease auto) = Some lease \<and> fit lease
         \<and> (\<forall>i l. tbl_get (db_leases (k_identity k)) i = Some l \<and> fit l \<longrightarrow>
              \<not> (bound_branch l \<noteq> None \<and> bound_branch lease = None)
              \<and> ((bound_branch l \<noteq> None) = (bound_branch lease \<noteq> None) \<longrightarrow> expires_at lease \<le> expires_at l)))"
proof -
  let ?t = "db_leases (k_identity k)"
  let ?ls = "active_for_principal ?t actor (op_time req 3)"
  let ?chosen = "choose_lease actor (required_operation kind) (action_params kind) branch (op_time req 3) None ?ls"
  have best: "best_of fit ?ls ?chosen"
    unfolding fit_def by (rule choose_lease_best)
  have among: "l \<in> set ?ls" if "tbl_get ?t i = Some l" "fit l" for i l
    using usable_considered [OF assms(1) that(1)] that(2) unfolding fit_def by blast
  have fits: "fits_within (act_budget (auto_action kind intent budget lease)) (lease_budget lease)" for lease
    by (simp add: auto_action_def clamped_fits)
  have run: "execute_step env inp k1 actor branch (auto_action kind intent budget lease) = Some (k', Ok (auto_result auto))
      \<and> lease_id lease = auto_lease auto \<and> auto_minted auto = minted"
    if "and_then (execute_step env inp k1 actor branch (auto_action kind intent budget lease)) (\<lambda>k result.
          Some (k, Ok \<lparr> auto_result = result, auto_lease = lease_id lease, auto_minted = minted \<rparr>)) = Some (k', Ok auto)"
    for k1 lease minted
    using that by (elim and_then_SomeE) auto
  show ?thesis
  proof (cases ?chosen)
    case None
    then have none: "\<not> fit l" if "tbl_get ?t i = Some l" for i l
      using best among [OF that] by (auto simp: best_of_def list_all_iff)
    obtain k1 lease where "request_capability env req k actor (required_operation kind) (action_params kind) (Some branch) = Some (k1, Ok lease)"
      "and_then (execute_step env inp k1 actor branch (auto_action kind intent budget lease)) (\<lambda>k result.
          Some (k, Ok \<lparr> auto_result = result, auto_lease = lease_id lease, auto_minted = True \<rparr>)) = Some (k', Ok auto)"
      using assms(2) None by (auto simp: execute_step_auto_def Let_def elim!: and_then_SomeE [of "request_capability _ _ _ _ _ _ _"])
    then show ?thesis
      using run none fits by (intro exI [of _ k1] exI [of _ lease]) auto
  next
    case (Some lease)
    have min: "\<not> better_lease l lease" if "tbl_get ?t i = Some l" "fit l" for i l
      using best among [OF that] that(2) Some by (auto simp: best_of_def list_all_iff)
    have lease: "lease \<in> set ?ls" "fit lease"
      using best Some by (simp_all add: best_of_def)
    obtain i where i: "tbl_get ?t i = Some lease"
      using considered_stored [OF _ lease(1)] assms(1) by (auto simp: lease_inv_def)
    have id: "lease_id lease = i"
      using assms(1) i by (auto simp: lease_inv_def)
    have "and_then (execute_step env inp k actor branch (auto_action kind intent budget lease)) (\<lambda>k result.
          Some (k, Ok \<lparr> auto_result = result, auto_lease = lease_id lease, auto_minted = False \<rparr>)) = Some (k', Ok auto)"
      using assms(2) Some by (simp add: execute_step_auto_def Let_def)
    note ran = run [OF this]
    have "\<forall>i l. tbl_get ?t i = Some l \<and> fit l \<longrightarrow> \<not> (bound_branch l \<noteq> None \<and> bound_branch lease = None)
        \<and> ((bound_branch l \<noteq> None) = (bound_branch lease \<noteq> None) \<longrightarrow> expires_at lease \<le> expires_at l)"
      using min unfolding better_lease_def not_less [symmetric] by blast
    then show ?thesis
      using ran i id lease(2) fits by (intro exI [of _ k] exI [of _ lease]) simp
  qed
qed

theorem auto_step_resolves_witness:
  "\<exists>k' auto. execute_step_auto demo_kernel_env \<lparr> op_new = (\<lambda>_. ''lease-7''), op_time = (\<lambda>_. 5) \<rparr> (demo_input ''st-1'') demo_kernel ''pr-a''
      ''main'' (McpInvoke ''docs'' ''search'' (JObj [])) None (Some budget_zero) = Some (k', Ok auto)
    \<and> lease_inv (db_leases (k_identity demo_kernel)) \<and> auto_lease auto = ''lease-1''"
proof -
  let ?req = "\<lparr> op_new = (\<lambda>_. ''lease-7''), op_time = (\<lambda>_. 5) \<rparr>"
  let ?kind = "McpInvoke ''docs'' ''search'' (JObj [])"
  have leases: "db_leases (k_identity demo_kernel) = [(''lease-1'', demo_tool_lease)]"
    by (simp add: demo_kernel_def)
  have no_child: "child_rel [(''lease-1'', demo_tool_lease)] = {}"
    by (auto simp: child_rel_def tbl_get_def demo_tool_lease_def bind_eq_Some_conv split: if_splits)
  have inv: "lease_inv (db_leases (k_identity demo_kernel))"
    by (simp add: leases lease_inv_def tbl_ok_def no_child acyclic_def) (simp add: tbl_get_def demo_tool_lease_def)
  have "active_for_principal (db_leases (k_identity demo_kernel)) ''pr-a'' 5 = [demo_tool_lease]"
    by (simp add: leases active_for_principal_def list_for_principal_def demo_tool_lease_def)
  then have chosen: "choose_lease ''pr-a'' ''mcp.invoke'' params ''main'' 5 None
      (active_for_principal (db_leases (k_identity demo_kernel)) ''pr-a'' 5) = Some demo_tool_lease" for params
    by (simp add: demo_lease_check)
  have action: "auto_action ?kind None (Some budget_zero) demo_tool_lease = demo_action ''docs'' ''search''"
    by (simp add: auto_action_def demo_action_def clamped_to_id [OF demo_fits]) (simp add: demo_tool_lease_def)
  obtain k' res where run: "execute_step demo_kernel_env (demo_input ''st-1'') demo_kernel ''pr-a'' ''main'' (demo_action ''docs'' ''search'') = Some (k', Ok res)"
    using demo_run [of "''docs''" "''search''" "''st-1''"] by auto
  have auto: "execute_step_auto demo_kernel_env ?req (demo_input ''st-1'') demo_kernel ''pr-a'' ''main'' ?kind None (Some budget_zero)
      = Some (k', Ok \<lparr> auto_result = res, auto_lease = lease_id demo_tool_lease, auto_minted = False \<rparr>)"
    by (simp add: execute_step_auto_def Let_def chosen action run and_then_def)
  from auto_step_resolves [OF inv auto] have "tbl_get (db_leases (k_identity demo_kernel)) (lease_id demo_tool_lease) \<noteq> None"
    by auto
  then show ?thesis
    using auto inv by (auto simp: leases tbl_get_def split: if_splits)
qed

section \<open>Envelopes\<close>

definition item_matches :: "ident option \<Rightarrow> string \<times> json \<Rightarrow> EnvelopeItemReport \<Rightarrow> bool" where
  "item_matches branch req item \<longleftrightarrow> item_operation item = fst req
     \<and> (case item_lease item of
          None \<Rightarrow> item_denial item \<noteq> None
        | Some l \<Rightarrow> item_denial item = None \<and> lease_operation l = fst req \<and> bound_branch l = branch \<and> parent_lease l = None)"

definition tallied :: "EnvelopeReport \<Rightarrow> bool" where
  "tallied rep \<longleftrightarrow>
     report_granted rep = length (filter (\<lambda>i. item_lease i \<noteq> None) (report_items rep))
     \<and> report_needs_human rep = length (filter (\<lambda>i. \<exists>d. item_denial i = Some d \<and> offers_human d) (report_items rep))
     \<and> report_refused rep = length (filter (\<lambda>i. \<exists>d. item_denial i = Some d \<and> \<not> offers_human d) (report_items rep))"

lemma compile_grant_scope:
  assumes "compile_grant add new_id doc p op rule extra branch now = Some (Ok g)"
  shows "lease_operation (grant_lease g) = op \<and> bound_branch (grant_lease g) = branch"
  using assms by (auto simp: compile_grant_def split: if_splits sum.splits option.splits)

lemma log_grant_Ok: "log_grant env inp k br actor op params rule lease = Some (k', Ok l) \<Longrightarrow> l = lease"
  unfolding log_grant_def Let_def by (elim check_SomeE and_then_SomeE) simp_all

lemma request_capability_cases:
  assumes "request_capability env inp k actor op params branch = Some (k', r)"
  obtains (refused) "k' = k" "\<not> (\<exists>l. r = Ok l)"
  | (granted) l where "k_identity k' = (k_identity k)\<lparr> db_leases := lease_issue l (db_leases (k_identity k)) \<rparr>"
      "lease_operation l = op" "bound_branch l = branch" "parent_lease l = None" "lease_id l = op_new inp 0" "\<forall>l'. r = Ok l' \<longrightarrow> l' = l"
  using assms unfolding request_capability_def
proof (cases rule: check_SomeE)
  case (err e)
  then show ?thesis
    using refused by simp
next
  case (ok who)
  let ?ev = "evaluate (kv_add_seconds env) (kv_constraints env) (op_new inp 0) (k_policy k) who op params branch (op_time inp 0)"
  show ?thesis
  proof (cases "\<exists>rule g. ?ev = Some (Allow rule g)")
    case True
    then obtain rule g where ev: "?ev = Some (Allow rule g)"
      by blast
    let ?k1 = "k\<lparr> k_identity := (k_identity k)\<lparr> db_leases := lease_issue (grant_lease g) (db_leases (k_identity k)) \<rparr> \<rparr>"
    have rest: "(case branch of None \<Rightarrow> Some (?k1, Ok (grant_lease g))
        | Some br \<Rightarrow> log_grant env inp ?k1 br actor op params rule (grant_lease g)) = Some (k', r)"
      using ok(2) by (simp add: ev Let_def)
    have "k_identity k' = k_identity ?k1 \<and> (\<forall>l'. r = Ok l' \<longrightarrow> l' = grant_lease g)"
    proof (cases branch)
      case None
      then show ?thesis
        using rest by auto
    next
      case (Some br)
      then have log: "log_grant env inp ?k1 br actor op params rule (grant_lease g) = Some (k', r)"
        using rest by simp
      show ?thesis
        using log_grant_Ok log log_grant_traced [OF log] by auto
    qed
    moreover have "lease_operation (grant_lease g) = op \<and> bound_branch (grant_lease g) = branch"
      using ev unfolding evaluate_Allow by (auto dest: compile_grant_scope)
    ultimately show ?thesis
      using evaluate_lease [OF ev] by (intro granted [of "grant_lease g"]) simp_all
  next
    case False
    then show ?thesis
      using ok(2) refused by (auto split: option.splits Decision.splits)
  qed
qed

lemma request_capability_leases:
  assumes "request_capability env inp k actor op params branch = Some (k', r)"
  shows "i \<noteq> op_new inp 0 \<Longrightarrow> tbl_get (db_leases (k_identity k')) i = tbl_get (db_leases (k_identity k)) i"
    and "r = Ok l \<Longrightarrow> tbl_get (db_leases (k_identity k')) (lease_id l) = Some l \<and> lease_id l = op_new inp 0
      \<and> lease_operation l = op \<and> bound_branch l = branch \<and> parent_lease l = None"
  using assms by (cases rule: request_capability_cases; auto simp: lease_issue_def)+

text \<open>The report of the requests from the \<open>n\<close>-th on, and what they leave of the leases stored before.\<close>

lemma compile_items_report:
  assumes "compile_items env inps n k actor branch reqs rep = Some (k', Ok rep')" "tallied rep"
    and "inj_on (\<lambda>j. op_new (inps j) 0) {n..<n + length reqs}"
  shows "\<exists>items. report_items rep' = report_items rep @ items \<and> list_all2 (item_matches branch) reqs items \<and> tallied rep'
    \<and> (\<forall>i. i \<notin> (\<lambda>j. op_new (inps j) 0) ` {n..<n + length reqs} \<longrightarrow>
         tbl_get (db_leases (k_identity k')) i = tbl_get (db_leases (k_identity k)) i)
    \<and> (\<forall>item \<in> set items. \<forall>l. item_lease item = Some l \<longrightarrow> tbl_get (db_leases (k_identity k')) (lease_id l) = Some l)"
  using assms
proof (induction reqs arbitrary: n k rep)
  case (Cons req reqs)
  obtain op params where req: "req = (op, params)"
    by (cases req)
  let ?new = "\<lambda>j. op_new (inps j) 0"
  obtain k1 r where one: "request_capability env (inps n) k actor op (if params = JNull then JObj [] else params) branch = Some (k1, r)"
    using Cons.prems(1) by (auto simp: req split: option.splits)
  note leases = request_capability_leases [OF one]
  obtain item rep1 where rest: "compile_items env inps (Suc n) k1 actor branch reqs rep1 = Some (k', Ok rep')" "tallied rep1"
    and item: "report_items rep1 = report_items rep @ [item]" "item_matches branch req item" "\<forall>l. item_lease item = Some l \<longrightarrow> r = Ok l"
  proof (cases r)
    case (Inr l)
    show ?thesis
      using Cons.prems(1,2) leases(2) [OF Inr] Inr
      by (intro that [of "rep\<lparr> report_granted := report_granted rep + 1, report_items := report_items rep
               @ [\<lparr> item_operation = op, item_lease = Some l, item_denial = None \<rparr>] \<rparr>"
            "\<lparr> item_operation = op, item_lease = Some l, item_denial = None \<rparr>"])
        (simp_all add: req one tallied_def item_matches_def)
  next
    case (Inl e)
    then obtain d where d: "e = Denied d"
      using Cons.prems(1) by (cases e) (simp_all add: req one)
    show ?thesis
      using Cons.prems(1,2) Inl d
      by (intro that [of "(if offers_human d then rep\<lparr> report_needs_human := report_needs_human rep + 1 \<rparr>
              else rep\<lparr> report_refused := report_refused rep + 1 \<rparr>)\<lparr> report_items := report_items rep
               @ [\<lparr> item_operation = op, item_lease = None, item_denial = Some d \<rparr>] \<rparr>"
            "\<lparr> item_operation = op, item_lease = None, item_denial = Some d \<rparr>"])
        (simp_all add: req one tallied_def item_matches_def)
  qed
  have inj: "inj_on ?new {Suc n..<Suc n + length reqs}"
    by (rule inj_on_subset [OF Cons.prems(3)]) auto
  obtain items where items: "report_items rep' = report_items rep1 @ items" "list_all2 (item_matches branch) reqs items" "tallied rep'"
    and keep: "\<And>i. i \<notin> ?new ` {Suc n..<Suc n + length reqs} \<Longrightarrow>
       tbl_get (db_leases (k_identity k')) i = tbl_get (db_leases (k_identity k1)) i"
    and stored: "\<forall>item \<in> set items. \<forall>l. item_lease item = Some l \<longrightarrow> tbl_get (db_leases (k_identity k')) (lease_id l) = Some l"
    using Cons.IH [OF rest inj] by blast
  have other: "?new n \<notin> ?new ` {Suc n..<Suc n + length reqs}"
    using inj_on_image_mem_iff [OF Cons.prems(3), of n "{Suc n..<Suc n + length reqs}"] by auto
  have "tbl_get (db_leases (k_identity k')) (lease_id l) = Some l" if "item_lease item = Some l" for l
    using leases(2) item(3) that keep [OF other] by metis
  moreover have "tbl_get (db_leases (k_identity k')) i = tbl_get (db_leases (k_identity k)) i"
    if "i \<notin> ?new ` {n..<n + length (req # reqs)}" for i
    using keep [of i] leases(1) [of i] that by (force simp: image_iff)
  ultimately show ?case
    using items item stored by (intro exI [of _ "item # items"]) auto
qed auto

lemma categories_sum:
  "list_all2 (item_matches branch) reqs items \<Longrightarrow>
     length (filter (\<lambda>i. item_lease i \<noteq> None) items) + length (filter (\<lambda>i. \<exists>d. item_denial i = Some d \<and> offers_human d) items)
     + length (filter (\<lambda>i. \<exists>d. item_denial i = Some d \<and> \<not> offers_human d) items) = length reqs"
  by (induction rule: list_all2_induct) (auto simp: item_matches_def split: option.splits)

text \<open>
  C11. An envelope reports exactly what it did. The report has one item per request, in order: either
  a lease for the requested operation on the given branch, which is stored when the call returns, or
  the denial that refused it. The three counters count the granted items, those a human could still
  grant and those refused outright, and add up to the number of requests, which is between one and 64.
\<close>

theorem envelope_report_exact:
  assumes "compile_envelope env inps k actor branch reqs = Some (k', Ok rep)"
    and "inj_on (\<lambda>j. op_new (inps j) 0) {..<length reqs}"
  shows "reqs \<noteq> [] \<and> length reqs \<le> 64
    \<and> list_all2 (item_matches branch) reqs (report_items rep) \<and> tallied rep
    \<and> report_granted rep + report_needs_human rep + report_refused rep = length reqs
    \<and> (\<forall>item \<in> set (report_items rep). \<forall>l. item_lease item = Some l \<longrightarrow>
         lease_get (db_leases (k_identity k')) (lease_id l) = Ok l)"
proof -
  let ?empty = "\<lparr> report_items = [], report_granted = 0, report_needs_human = 0, report_refused = 0 \<rparr> :: EnvelopeReport"
  have run: "compile_items env inps 0 k actor branch reqs ?empty = Some (k', Ok rep)" and len: "reqs \<noteq> []" "length reqs \<le> 64"
    using assms(1) by (auto simp: compile_envelope_def MAX_ENVELOPE_ITEMS_def split: if_splits)
  have "tallied ?empty"
    by (simp add: tallied_def)
  from compile_items_report [OF run this] assms(2)
  have rep: "list_all2 (item_matches branch) reqs (report_items rep)" "tallied rep"
    and stored: "\<forall>item \<in> set (report_items rep). \<forall>l. item_lease item = Some l \<longrightarrow>
       tbl_get (db_leases (k_identity k')) (lease_id l) = Some l"
    by (auto simp: lessThan_atLeast0)
  have "report_granted rep + report_needs_human rep + report_refused rep = length reqs"
    using rep(2) categories_sum [OF rep(1)] by (simp add: tallied_def)
  then show ?thesis
    using len rep stored by (auto simp: lease_get_def)
qed

theorem envelope_report_exact_witness:
  "\<exists>k' rep. compile_envelope demo_run_env (\<lambda>_. demo_lease_names) demo_registered ''pr-a'' None [(''mcp.invoke'', JObj [])] = Some (k', Ok rep)
     \<and> report_granted rep + report_needs_human rep + report_refused rep = 1 \<and> db_leases (k_identity k') \<noteq> []"
proof -
  have "k_policy demo_registered = demo_policy"
    by (simp add: demo_registered_def demo_new_def demo_kernel_def)
  then obtain l where l: "request_capability demo_run_env demo_lease_names demo_registered ''pr-a'' ''mcp.invoke'' (JObj []) None
      = Some (demo_registered\<lparr> k_identity := (k_identity demo_registered)\<lparr> db_leases := [(''lease-1'', l)] \<rparr> \<rparr>, Ok l)"
    using demo_grant [OF refl] by blast
  then obtain rep where run: "compile_envelope demo_run_env (\<lambda>_. demo_lease_names) demo_registered ''pr-a'' None [(''mcp.invoke'', JObj [])]
      = Some (demo_registered\<lparr> k_identity := (k_identity demo_registered)\<lparr> db_leases := [(''lease-1'', l)] \<rparr> \<rparr>, Ok rep)"
    by (simp add: compile_envelope_def MAX_ENVELOPE_ITEMS_def)
  have "inj_on (\<lambda>j :: nat. op_new demo_lease_names 0) {..<length [(''mcp.invoke'', JObj [])]}"
    by (simp add: inj_on_def)
  from envelope_report_exact [OF run this] have "report_granted rep + report_needs_human rep + report_refused rep = 1"
    by simp
  with run show ?thesis
    by simp
qed

end
