(* ===== verification/KernelSearch.thy ===== *)
theory KernelSearch
  imports KernelRequests
begin

text \<open>
  Exploration under concurrency. A run interleaves the moves of the candidate tasks with any other
  operations of the kernel; what its reports say is true at every moment, the tasks end, and the
  winner is decided by the order of the candidates and not by that of their completion.
\<close>

section \<open>Runs of an exploration\<close>

text \<open>The counter is the number of moves the tasks have made.\<close>

inductive explore_run ::
  "'w KernelEnv \<Rightarrow> ExploreOptions \<Rightarrow> ident \<Rightarrow> ident \<Rightarrow> nat \<Rightarrow> 'w Kernel \<Rightarrow> nat \<Rightarrow> 'w Exploration \<Rightarrow> bool"
  for env opts actor src cap k where
  explore_begin: "explore_start cap opts k = Ok s \<Longrightarrow> explore_run env opts actor src cap k 0 s"
| explore_task: "\<lbrakk> explore_run env opts actor src cap k n s; i < length (x_tasks s);
      explore_move env opts actor src req inp i s = Some s'; fresh_lease (x_kernel s) (op_new req 0) \<rbrakk>
    \<Longrightarrow> explore_run env opts actor src cap k (Suc n) s'"
| explore_other: "\<lbrakk> explore_run env opts actor src cap k n s; kernel_step env (x_kernel s) k' \<rbrakk>
    \<Longrightarrow> explore_run env opts actor src cap k n (s\<lparr> x_kernel := k' \<rparr>)"

fun busy :: "TaskPhase \<Rightarrow> bool" where
  "busy Queued = False"
| "busy Done = False"
| "busy _ = True"

definition running :: "ExploreTask list \<Rightarrow> nat" where
  "running ts = length (filter (busy \<circ> task_phase) ts)"

definition all_succeeded :: "CandidateReport \<Rightarrow> bool" where
  "all_succeeded rep = list_all (step_succeeded \<circ> res_observation) (cr_steps rep)"

text \<open>What it means for a candidate to have passed.\<close>

definition passed_ok :: "ExploreOptions \<Rightarrow> ExploreCandidate \<Rightarrow> CandidateReport \<Rightarrow> bool" where
  "passed_ok opts c rep \<longleftrightarrow> cr_branch rep \<noteq> None \<and> \<not> cr_skipped rep \<and> cr_error rep = None
     \<and> length (cr_steps rep) = length (cand_actions c) \<and> all_succeeded rep
     \<and> (case xo_evaluator opts of
          None \<Rightarrow> cr_evaluation rep = None
        | Some _ \<Rightarrow> \<exists>r. cr_evaluation rep = Some r \<and> passes (res_observation r))"

text \<open>A task that has \<open>todo\<close> actions before it and nothing decided yet.\<close>

definition under_way :: "nat \<Rightarrow> ExploreCandidate \<Rightarrow> CandidateReport \<Rightarrow> bool" where
  "under_way todo c rep \<longleftrightarrow> cr_branch rep \<noteq> None \<and> \<not> cr_passed rep \<and> \<not> cr_skipped rep \<and> cr_error rep = None
     \<and> cr_evaluation rep = None \<and> all_succeeded rep \<and> length (cr_steps rep) + todo = length (cand_actions c)"

fun phase_ok :: "ExploreOptions \<Rightarrow> ExploreCandidate \<Rightarrow> TaskPhase \<Rightarrow> CandidateReport \<Rightarrow> bool" where
  "phase_ok opts c (Checking as) rep = under_way (length as) c rep"
| "phase_ok opts c (Acting a as) rep = under_way (Suc (length as)) c rep"
| "phase_ok opts c (Judging kind) rep = (under_way 0 c rep \<and> xo_evaluator opts \<noteq> None)"
| "phase_ok opts c Leaving rep = (cr_passed rep \<longrightarrow> passed_ok opts c rep)"
| "phase_ok opts c Done rep = (cr_passed rep \<longrightarrow> passed_ok opts c rep)"
| "phase_ok opts c _ rep = (cr_branch rep = None \<and> cr_steps rep = [] \<and> cr_evaluation rep = None \<and> \<not> cr_passed rep
     \<and> \<not> cr_skipped rep \<and> cr_error rep = None)"

definition task_ok :: "ExploreOptions \<Rightarrow> bool \<Rightarrow> nat \<Rightarrow> ExploreTask \<Rightarrow> bool" where
  "task_ok opts won i t \<longleftrightarrow> cr_index (task_report t) = i
     \<and> phase_ok opts (xo_candidates opts ! i) (task_phase t) (task_report t)
     \<and> (cr_skipped (task_report t) \<longrightarrow> xo_early_stop opts \<and> won) \<and> (cr_passed (task_report t) \<and> task_phase t = Done \<longrightarrow> won)"

definition explore_inv :: "ExploreOptions \<Rightarrow> nat \<Rightarrow> 'w Exploration \<Rightarrow> bool" where
  "explore_inv opts par s \<longleftrightarrow> length (x_tasks s) = length (xo_candidates opts)
     \<and> (\<forall>i < length (x_tasks s). task_ok opts (x_won s) i (x_tasks s ! i))
     \<and> (x_won s \<longrightarrow> (\<exists>t \<in> set (x_tasks s). cr_passed (task_report t) \<and> task_phase t = Done))
     \<and> x_permits s + running (x_tasks s) = par"

lemma running_update:
  "i < length ts \<Longrightarrow> running (ts[i := t]) + (if busy (task_phase (ts ! i)) then 1 else 0)
     = running ts + (if busy (task_phase t) then 1 else 0)"
proof (induction ts arbitrary: i)
  case (Cons x ts)
  then show ?case
    by (cases i) (auto simp: running_def)
qed simp

lemma inv_put:
  assumes "explore_inv opts par s" "i < length (x_tasks s)" "task_phase (x_tasks s ! i) \<noteq> Done"
    and "task_ok opts won i \<lparr> task_phase = ph, task_report = rep \<rparr>" "won \<longleftrightarrow> x_won s \<or> cr_passed rep \<and> ph = Done"
    and "permits + (if busy ph then 1 else 0) = x_permits s + (if busy (task_phase (x_tasks s ! i)) then 1 else 0)"
  shows "explore_inv opts par (put_task i ph rep (s\<lparr> x_kernel := k, x_won := won, x_permits := permits \<rparr>))"
proof -
  let ?t = "\<lparr> task_phase = ph, task_report = rep \<rparr>"
  have old: "task_ok opts won j (x_tasks s ! j)" if "j < length (x_tasks s)" for j
    using assms(1,5) that by (auto simp: explore_inv_def task_ok_def)
  have tasks: "task_ok opts won j ((x_tasks s)[i := ?t] ! j)" if "j < length (x_tasks s)" for j
    using assms(4) old that by (cases "j = i") auto
  have "\<exists>t \<in> set ((x_tasks s)[i := ?t]). cr_passed (task_report t) \<and> task_phase t = Done" if won
  proof (cases "cr_passed rep \<and> ph = Done")
    case True
    then show ?thesis
      using assms(2) set_update_memI [OF assms(2), of ?t] by (intro bexI [of _ ?t]) simp_all
  next
    case False
    then have "x_won s"
      using assms(5) that by blast
    then obtain j where j: "j < length (x_tasks s)" "cr_passed (task_report (x_tasks s ! j))" "task_phase (x_tasks s ! j) = Done"
      using assms(1) by (auto simp: explore_inv_def in_set_conv_nth)
    then have "(x_tasks s)[i := ?t] ! j = x_tasks s ! j"
      using assms(3) by (cases "j = i") auto
    then show ?thesis
      using j by (metis length_list_update nth_mem)
  qed
  moreover have "permits + running ((x_tasks s)[i := ?t]) = par"
    using running_update [OF assms(2), of ?t] assms(1,6) by (auto simp: explore_inv_def split: if_splits)
  ultimately show ?thesis
    using assms(1) tasks by (auto simp: explore_inv_def put_task_def)
qed

text \<open>An upper bound of the moves a task has left.\<close>

fun weight :: "ExploreCandidate \<Rightarrow> TaskPhase \<Rightarrow> nat" where
  "weight c Queued = 2 * length (cand_actions c) + 5"
| "weight c Forking = 2 * length (cand_actions c) + 4"
| "weight c (Checking as) = 2 * length as + 3"
| "weight c (Acting a as) = 2 * length as + 4"
| "weight c (Judging kind) = 2"
| "weight c Leaving = 1"
| "weight c Done = 0"

definition advances :: "ExploreOptions \<Rightarrow> nat \<Rightarrow> 'w Exploration \<Rightarrow> 'w Exploration \<Rightarrow> bool" where
  "advances opts i s s' \<longleftrightarrow> (\<exists>ph rep k won permits.
     s' = put_task i ph rep (s\<lparr> x_kernel := k, x_won := won, x_permits := permits \<rparr>)
     \<and> task_ok opts won i \<lparr> task_phase = ph, task_report = rep \<rparr> \<and> (won \<longleftrightarrow> x_won s \<or> cr_passed rep \<and> ph = Done)
     \<and> permits + (if busy ph then 1 else 0) = x_permits s + (if busy (task_phase (x_tasks s ! i)) then 1 else 0)
     \<and> weight (xo_candidates opts ! i) ph < weight (xo_candidates opts ! i) (task_phase (x_tasks s ! i)))"

lemma advances_put:
  assumes "task_ok opts (x_won s) i \<lparr> task_phase = ph, task_report = rep \<rparr>" "ph \<noteq> Done" "busy ph" "busy (task_phase (x_tasks s ! i))"
    and "weight (xo_candidates opts ! i) ph < weight (xo_candidates opts ! i) (task_phase (x_tasks s ! i))"
  shows "advances opts i s (put_task i ph rep (s\<lparr> x_kernel := k \<rparr>))"
  unfolding advances_def
  by (rule exI [of _ ph], rule exI [of _ rep], rule exI [of _ k], rule exI [of _ "x_won s"], rule exI [of _ "x_permits s"])
    (use assms in simp)

lemma advances_put_same:
  assumes "task_ok opts (x_won s) i \<lparr> task_phase = ph, task_report = rep \<rparr>" "ph \<noteq> Done" "busy ph" "busy (task_phase (x_tasks s ! i))"
    and "weight (xo_candidates opts ! i) ph < weight (xo_candidates opts ! i) (task_phase (x_tasks s ! i))"
  shows "advances opts i s (put_task i ph rep s)"
  using advances_put [OF assms, of "x_kernel s"] by simp

lemma move_advances:
  assumes "explore_move env opts actor src req inp i s = Some s'" "task_ok opts (x_won s) i (x_tasks s ! i)"
  shows "advances opts i s s'"
proof (cases "task_phase (x_tasks s ! i)")
  case Queued
  let ?ph = "if stopped opts s then Leaving else Forking"
  let ?rep = "if stopped opts s then (task_report (x_tasks s ! i))\<lparr> cr_skipped := True \<rparr> else task_report (x_tasks s ! i)"
  have "s' = put_task i ?ph ?rep (s\<lparr> x_kernel := x_kernel s, x_won := x_won s, x_permits := x_permits s - 1 \<rparr>)" "x_permits s > 0"
    using assms(1) Queued by (auto simp: explore_move_def Let_def stopped_def split: if_splits)
  moreover have "task_ok opts (x_won s) i \<lparr> task_phase = ?ph, task_report = ?rep \<rparr>"
    using assms(2) Queued by (auto simp: task_ok_def stopped_def)
  ultimately show ?thesis
    unfolding advances_def using Queued
    by (intro exI [of _ ?ph] exI [of _ ?rep] exI [of _ "x_kernel s"] exI [of _ "x_won s"] exI [of _ "x_permits s - 1"]) auto
next
  case Forking
  then show ?thesis
    using assms unfolding explore_move_def Let_def
    by (auto simp: task_ok_def under_way_def all_succeeded_def split: option.splits prod.splits sum.splits intro!: advances_put)
next
  case (Checking as)
  then show ?thesis
    using assms unfolding explore_move_def Let_def
    by (cases as) (auto simp: task_ok_def under_way_def passed_ok_def all_succeeded_def stopped_def split: option.splits if_splits intro!: advances_put_same)
next
  case (Acting a as)
  then show ?thesis
    using assms unfolding explore_move_def Let_def
    by (auto simp: task_ok_def under_way_def all_succeeded_def split: option.splits prod.splits sum.splits if_splits intro!: advances_put)
next
  case (Judging kind)
  then show ?thesis
    using assms unfolding explore_move_def Let_def
    by (auto simp: task_ok_def under_way_def passed_ok_def all_succeeded_def split: option.splits prod.splits sum.splits if_splits intro!: advances_put)
next
  case Leaving
  let ?rep = "task_report (x_tasks s ! i)"
  have "s' = put_task i Done ?rep (s\<lparr> x_kernel := x_kernel s, x_won := x_won s \<or> cr_passed ?rep, x_permits := x_permits s + 1 \<rparr>)"
    using assms(1) Leaving by (auto simp: explore_move_def Let_def finish_task_def)
  then show ?thesis
    unfolding advances_def using Leaving assms(2)
    by (intro exI [of _ Done] exI [of _ ?rep] exI [of _ "x_kernel s"] exI [of _ "x_won s \<or> cr_passed ?rep"] exI [of _ "x_permits s + 1"])
      (auto simp: task_ok_def)
next
  case Done
  then show ?thesis
    using assms(1) by (simp add: explore_move_def Let_def)
qed

section \<open>What a run keeps\<close>

lemma start_inv:
  assumes "explore_start cap opts k = Ok s"
  shows "explore_inv opts (parallelism cap opts) s"
proof -
  have s: "x_tasks s = map new_task (enumerate 0 (xo_candidates opts))" "x_won s = False" "x_permits s = parallelism cap opts"
    using assms by (auto simp: explore_start_def split: if_splits)
  have "running (x_tasks s) = 0"
    unfolding running_def s(1) by (simp add: filter_empty_conv new_task_def)
  then show ?thesis
    by (auto simp: explore_inv_def s nth_enumerate_eq task_ok_def new_task_def)
qed

lemma inv_advances:
  assumes "explore_inv opts par s" "i < length (x_tasks s)" "advances opts i s s'"
  shows "explore_inv opts par s'"
proof -
  obtain ph rep k won permits where *: "s' = put_task i ph rep (s\<lparr> x_kernel := k, x_won := won, x_permits := permits \<rparr>)"
    "task_ok opts won i \<lparr> task_phase = ph, task_report = rep \<rparr>" "won \<longleftrightarrow> x_won s \<or> cr_passed rep \<and> ph = Done"
    "permits + (if busy ph then 1 else 0) = x_permits s + (if busy (task_phase (x_tasks s ! i)) then 1 else 0)"
    "weight (xo_candidates opts ! i) ph < weight (xo_candidates opts ! i) (task_phase (x_tasks s ! i))"
    using assms(3) unfolding advances_def by blast
  have "task_phase (x_tasks s ! i) \<noteq> Done"
    using *(5) by auto
  from inv_put [OF assms(1,2) this *(2-4)] show ?thesis
    unfolding *(1) .
qed

lemma run_inv_explore: "explore_run env opts actor src cap k n s \<Longrightarrow> explore_inv opts (parallelism cap opts) s"
proof (induction rule: explore_run.induct)
  case (explore_begin s)
  then show ?case
    by (rule start_inv)
next
  case (explore_task n s i req inp s')
  then have "advances opts i s s'"
    by (intro move_advances) (auto simp: explore_inv_def)
  then show ?case
    using inv_advances explore_task by blast
qed (simp add: explore_inv_def)

definition remaining_moves :: "ExploreOptions \<Rightarrow> ExploreTask list \<Rightarrow> nat" where
  "remaining_moves opts ts = (\<Sum>i < length ts. weight (xo_candidates opts ! i) (task_phase (ts ! i)))"

definition move_bound :: "ExploreOptions \<Rightarrow> nat" where
  "move_bound opts = sum_list (map (\<lambda>c. 2 * length (cand_actions c) + 5) (xo_candidates opts))"

lemma advances_remaining:
  assumes "advances opts i s s'" "i < length (x_tasks s)"
  shows "remaining_moves opts (x_tasks s') < remaining_moves opts (x_tasks s)"
proof -
  let ?w = "\<lambda>ts j. weight (xo_candidates opts ! j) (task_phase (ts ! j))"
  have len: "length (x_tasks s') = length (x_tasks s)" and less: "?w (x_tasks s') i < ?w (x_tasks s) i"
    using assms by (auto simp: advances_def put_task_def)
  have same: "?w (x_tasks s') j = ?w (x_tasks s) j" if "j \<noteq> i" for j
    using assms(1) that by (auto simp: advances_def put_task_def)
  have "(\<Sum>j < length (x_tasks s). ?w (x_tasks s') j) < (\<Sum>j < length (x_tasks s). ?w (x_tasks s) j)"
  proof (rule sum_strict_mono_ex1)
    show "\<forall>j \<in> {..<length (x_tasks s)}. ?w (x_tasks s') j \<le> ?w (x_tasks s) j"
    proof
      fix j
      show "?w (x_tasks s') j \<le> ?w (x_tasks s) j"
        by (cases "j = i") (use less same in auto)
    qed
    show "\<exists>j \<in> {..<length (x_tasks s)}. ?w (x_tasks s') j < ?w (x_tasks s) j"
      using less assms(2) by blast
  qed simp
  then show ?thesis
    unfolding remaining_moves_def len .
qed

lemma run_bound:
  "explore_run env opts actor src cap k n s \<Longrightarrow> n + remaining_moves opts (x_tasks s) \<le> move_bound opts"
proof (induction rule: explore_run.induct)
  case (explore_begin s)
  then have s: "x_tasks s = map new_task (enumerate 0 (xo_candidates opts))"
    by (auto simp: explore_start_def split: if_splits)
  have "remaining_moves opts (x_tasks s) = (\<Sum>i < length (xo_candidates opts). 2 * length (cand_actions (xo_candidates opts ! i)) + 5)"
    unfolding remaining_moves_def s by (rule sum.cong) (simp_all add: nth_enumerate_eq new_task_def)
  also have "\<dots> = move_bound opts"
    unfolding move_bound_def by (simp add: sum_list_sum_nth lessThan_atLeast0)
  finally show ?case
    by simp
next
  case (explore_task n s i req inp s')
  have "advances opts i s s'"
    using explore_task.hyps run_inv_explore [OF explore_task.hyps(1)] by (intro move_advances) (auto simp: explore_inv_def)
  then show ?case
    using advances_remaining explore_task by fastforce
qed simp

text \<open>While a task is left, one of them can go on unless the kernel operation it calls does not return.\<close>

lemma some_task_moves:
  assumes "explore_inv opts par s" "par > 0" "i < length (x_tasks s)" "task_phase (x_tasks s ! i) \<noteq> Done"
  shows "\<exists>j < length (x_tasks s). task_phase (x_tasks s ! j) \<noteq> Done \<and> (busy (task_phase (x_tasks s ! j)) \<or> x_permits s > 0)"
proof (cases "x_permits s = 0")
  case True
  then have "running (x_tasks s) > 0"
    using assms(1,2) by (simp add: explore_inv_def)
  then obtain t where "t \<in> set (x_tasks s)" "busy (task_phase t)"
    unfolding running_def by (fastforce simp: length_greater_0_conv filter_empty_conv)
  then show ?thesis
    unfolding in_set_conv_nth by force
next
  case False
  then show ?thesis
    using assms by auto
qed

lemma move_returns:
  assumes "explore_move env opts actor src req inp i s = None" "task_phase (x_tasks s ! i) \<noteq> Done"
    and "busy (task_phase (x_tasks s ! i)) \<or> x_permits s > 0"
  shows "fork_branch env req (x_kernel s) src = None
    \<or> (\<exists>purpose kind. auto_step env opts actor purpose req inp (task_report (x_tasks s ! i)) kind (x_kernel s) = None)"
proof (cases "task_phase (x_tasks s ! i)")
  case (Checking as)
  then show ?thesis
    using assms by (cases as) (auto simp: explore_move_def Let_def split: option.splits if_splits)
next
  case (Acting a as)
  then have "auto_step env opts actor ''candidate'' req inp (task_report (x_tasks s ! i)) a (x_kernel s) = None"
    using assms(1) by (auto simp: explore_move_def Let_def split: option.splits prod.splits sum.splits)
  then show ?thesis
    by blast
next
  case (Judging kind)
  then have "auto_step env opts actor ''evaluator'' req inp (task_report (x_tasks s ! i)) kind (x_kernel s) = None"
    using assms(1) by (auto simp: explore_move_def Let_def split: option.splits prod.splits sum.splits)
  then show ?thesis
    by blast
qed (use assms in \<open>auto simp: explore_move_def Let_def split: option.splits prod.splits sum.splits\<close>)

lemma parallelism_pos: "parallelism cap opts > 0"
  by (simp add: parallelism_def less_max_iff_disj)


text \<open>
  C13. An exploration ends. Its tasks make at most two moves per action and five per candidate, counted
  over the whole exploration and whatever else the kernel does meanwhile, and as long as a task has not
  returned there is one that is not waiting for a permit: it moves unless the kernel operation it has
  called does not return.
\<close>

theorem explore_ends:
  assumes "explore_run env opts actor src cap k n s"
  shows "n \<le> (\<Sum>c \<leftarrow> xo_candidates opts. 2 * length (cand_actions c) + 5)
    \<and> (list_all (\<lambda>t. task_phase t = Done) (x_tasks s)
       \<or> (\<exists>i < length (x_tasks s). task_phase (x_tasks s ! i) \<noteq> Done
           \<and> (\<forall>req inp. explore_move env opts actor src req inp i s \<noteq> None
                \<or> fork_branch env req (x_kernel s) src = None
                \<or> (\<exists>purpose kind. auto_step env opts actor purpose req inp (task_report (x_tasks s ! i)) kind (x_kernel s) = None))))"
proof (cases "list_all (\<lambda>t. task_phase t = Done) (x_tasks s)")
  case False
  then obtain i where "i < length (x_tasks s)" "task_phase (x_tasks s ! i) \<noteq> Done"
    by (auto simp: list_all_length)
  then obtain j where "j < length (x_tasks s)" "task_phase (x_tasks s ! j) \<noteq> Done"
      "busy (task_phase (x_tasks s ! j)) \<or> x_permits s > 0"
    using some_task_moves [OF run_inv_explore [OF assms] parallelism_pos] by blast
  then have "\<exists>i < length (x_tasks s). task_phase (x_tasks s ! i) \<noteq> Done
      \<and> (\<forall>req inp. explore_move env opts actor src req inp i s \<noteq> None \<or> fork_branch env req (x_kernel s) src = None
           \<or> (\<exists>purpose kind. auto_step env opts actor purpose req inp (task_report (x_tasks s ! i)) kind (x_kernel s) = None))"
    using move_returns by blast
  then show ?thesis
    using add_leD1 [OF run_bound [OF assms]] unfolding move_bound_def by blast
qed (use run_bound [OF assms] in \<open>simp add: move_bound_def\<close>)

section \<open>After the tasks\<close>

lemma lca_total: "\<exists>r. lca d a b = Some r"
proof -
  obtain r where r: "ancestors d a = Some r"
    using ancestors_spec by blast
  have "\<exists>x. Worklist.explore stop (parents_of d) [] [] [b] = Some x" for stop
    using explore_search [of "parents_of d" "[b]" stop] finite_ancestry by (auto simp: reach_parents)
  then show ?thesis
    by (auto simp: lca_def r split: sum.split)
qed

lemma merge_branch_total: "\<exists>k' r. merge_branch env inp k target src actor = Some (k', r)"
proof -
  have "lca d a b \<noteq> None" for d a b
    using lca_total by (metis option.distinct(1))
  then have "merge (kv_dag env) (dd_dag (k_dag k)) target src actor (op_new inp 0) (op_time inp 0) \<noteq> None"
    by (simp add: merge_def option.map_disc_iff del: not_None_eq split: sum.split)
  then obtain d r where "merge (kv_dag env) (dd_dag (k_dag k)) target src actor (op_new inp 0) (op_time inp 0) = Some (d, r)"
    by auto
  then show ?thesis
    by (cases r) (auto simp: merge_branch_def check_def Let_def split: prod.split)
qed

text \<open>A branch that no longer accepts steps.\<close>

definition retired :: "StateDag \<Rightarrow> ident \<Rightarrow> bool" where
  "retired d b \<longleftrightarrow> (\<exists>x. load_branch d b = Ok x \<and> br_status x \<noteq> BranchActive)"

lemma discard_all_dag: "discard_all env branch bks k = (k', e) \<Longrightarrow> k_dag k' = k_dag k"
  by (induction bks arbitrary: k k' e) (auto split: prod.splits)

lemma discard_branch_retires:
  assumes "discard_branch d b = (d', r)"
  shows "r = Ok () \<longrightarrow> retired d' b" "retired d c \<longrightarrow> retired d' c"
  using assms
  by (auto simp: discard_branch_def retired_def load_branch_def set_status_def status_parse_def
      split: option.splits sum.splits if_splits)

lemma kernel_discard_branch_retires:
  obtains k' r where "kernel_discard_branch env k b = Some (k', r)" "r = Ok () \<longrightarrow> retired (dd_dag (k_dag k')) b"
    "\<forall>c. retired (dd_dag (k_dag k)) c \<longrightarrow> retired (dd_dag (k_dag k')) c"
proof (cases "load_branch (dd_dag (k_dag k)) b")
  case (Inl e)
  then show ?thesis
    using that [of k "Err e"] by (simp add: kernel_discard_branch_def check_def)
next
  case (Inr x)
  let ?others = "filter (\<lambda>bk. bk \<noteq> kv_local env) (sched_router (k_sched k))"
  obtain k1 e1 where all: "discard_all env b (sched_router (k_sched k)) k = (k1, e1)"
    by fastforce
  obtain k2 e2 where others: "discard_all env b ?others k = (k2, e2)"
    by fastforce
  obtain ext spaces u where loc: "kv_discard env (kv_local env) b (k_world k2, k_spaces k2) = ((ext, spaces), u)"
    by (metis surj_pair)
  obtain d v where dis: "discard_branch (dd_dag (k_dag k2)) b = (d, v)"
    by fastforce
  note dag = discard_all_dag [OF all] discard_all_dag [OF others]
  note kept = discard_branch_retires [OF dis]
  show ?thesis
  proof (cases "br_status x")
    case BranchGone
    then show ?thesis
      using that [of k "Err (BranchDiscarded b)"] Inr by (simp add: kernel_discard_branch_def check_def)
  next
    case BranchMerged
    then have "retired (dd_dag (k_dag k)) b"
      using Inr by (simp add: retired_def)
    then show ?thesis
      using that [of k1 "case e1 of None \<Rightarrow> Ok () | Some e \<Rightarrow> Err e"] Inr BranchMerged dag
      by (cases e1) (simp_all add: kernel_discard_branch_def check_def all)
  next
    case BranchActive
    let ?k3 = "k2\<lparr> k_world := ext, k_spaces := spaces \<rparr>"
    consider e where "e2 = Some e" | e where "e2 = None" "u = Err e" | "e2 = None" "u = Ok ()"
      by (cases e2; cases u) auto
    then show ?thesis
    proof cases
      case 1
      then show ?thesis
        using that [of k2 "Err e"] Inr BranchActive dag by (simp add: kernel_discard_branch_def check_def others)
    next
      case 2
      then show ?thesis
        using that [of ?k3 "Err e"] Inr BranchActive dag by (simp add: kernel_discard_branch_def check_def others loc)
    next
      case 3
      then show ?thesis
        using that [of "with_dag d ?k3" v] Inr BranchActive dag kept
        by (simp add: kernel_discard_branch_def check_def others loc dis [unfolded dag(2)] with_dag_def)
    qed
  qed
qed

lemma discard_losers_retires:
  assumes "\<forall>b \<in> set gone. retired (dd_dag (k_dag k)) b"
  obtains k' new where "discard_losers env win cs gone k = Some (k', gone @ new)"
    "\<forall>b \<in> set (gone @ new). retired (dd_dag (k_dag k')) b"
    "\<forall>b \<in> set new. \<exists>c \<in> set cs. Some (cr_index c) \<noteq> win \<and> cr_branch c = Some b"
  using assms
proof (induction cs arbitrary: gone k thesis)
  case Nil
  show ?case
    using Nil.prems by (intro Nil.prems(1) [of k "[]"]) simp_all
next
  case (Cons c cs)
  show ?case
  proof (cases "Some (cr_index c) = win \<or> cr_branch c = None")
    case True
    obtain k' new where "discard_losers env win cs gone k = Some (k', gone @ new)"
      "\<forall>b \<in> set (gone @ new). retired (dd_dag (k_dag k')) b"
      "\<forall>b \<in> set new. \<exists>c \<in> set cs. Some (cr_index c) \<noteq> win \<and> cr_branch c = Some b"
      using Cons.IH [OF _ Cons.prems(2)] by blast
    then show ?thesis
      using True by (intro Cons.prems(1) [of k' new]) auto
  next
    case False
    then obtain b where b: "cr_branch c = Some b" "Some (cr_index c) \<noteq> win"
      by blast
    obtain k1 r where k1: "kernel_discard_branch env k b = Some (k1, r)" "r = Ok () \<longrightarrow> retired (dd_dag (k_dag k1)) b"
      "\<forall>c. retired (dd_dag (k_dag k)) c \<longrightarrow> retired (dd_dag (k_dag k1)) c"
      by (rule kernel_discard_branch_retires)
    let ?gone = "if r = Ok () then gone @ [b] else gone"
    have "\<forall>b \<in> set ?gone. retired (dd_dag (k_dag k1)) b"
      using k1 Cons.prems(2) by auto
    then obtain k' new where rest: "discard_losers env win cs ?gone k1 = Some (k', ?gone @ new)"
      "\<forall>b \<in> set (?gone @ new). retired (dd_dag (k_dag k')) b"
      "\<forall>b \<in> set new. \<exists>c \<in> set cs. Some (cr_index c) \<noteq> win \<and> cr_branch c = Some b"
      using Cons.IH by blast
    show ?thesis
      using rest b k1(1)
      by (intro Cons.prems(1) [of k' "(if r = Ok () then [b] else []) @ new"]) (cases r; auto split: if_splits)+
  qed
qed

lemma merge_winning_total:
  obtains k' merged err where "merge_winning env opts inp k actor src reps = Some (k', merged, err)"
    "merged \<noteq> None \<longrightarrow> xo_merge_winner opts \<and> winner reps \<noteq> None"
proof (cases "xo_merge_winner opts \<and> winner reps \<noteq> None")
  case True
  then obtain w where w: "winner reps = Some w" "xo_merge_winner opts"
    by blast
  show ?thesis
  proof (cases "cr_branch (reps ! w)")
    case None
    then show ?thesis
      using w that [of k None None] by (simp add: merge_winning_def)
  next
    case (Some b)
    obtain k1 r where "merge_branch env inp k src b actor = Some (k1, r)"
      using merge_branch_total by blast
    then show ?thesis
      using w Some that by (cases r) (simp_all add: merge_winning_def)
  qed
next
  case False
  then show ?thesis
    using that [of k None None] by (auto simp: merge_winning_def split: bool.splits option.splits)
qed

text \<open>Reports are already in the order of the candidates.\<close>

lemma reports_sorted:
  assumes "explore_inv opts par s"
  shows "sort_key cr_index (map task_report (x_tasks s)) = map task_report (x_tasks s)"
proof (rule sort_key_id_if_sorted)
  have "map cr_index (map task_report (x_tasks s)) = [0..<length (x_tasks s)]"
    using assms by (intro nth_equalityI) (auto simp: explore_inv_def task_ok_def)
  then show "sorted (map cr_index (map task_report (x_tasks s)))"
    by simp
qed

lemma winner_first:
  assumes "\<And>i. i < length reps \<Longrightarrow> cr_index (reps ! i) = i"
  shows "winner reps = None \<longleftrightarrow> list_all (\<lambda>c. \<not> cr_passed c) reps"
    and "winner reps = Some w \<longleftrightarrow> w < length reps \<and> cr_passed (reps ! w) \<and> (\<forall>j < w. \<not> cr_passed (reps ! j))"
  using assms by (auto simp: winner_def find_None_iff find_Some_iff list_all_iff)

text \<open>
  C14. The outcome of an exploration is decided by the candidates and not by the order in which they
  finished. Once its tasks have returned, the exploration returns a report. It lists the candidates in
  their order; the winner is the first of them that passed, and there is none only when none passed;
  only branches of the other candidates are discarded, and each branch listed as discarded accepts no
  further step; and a state is reported as merged only if merging was asked for and there is a winner.
\<close>

theorem explore_outcome:
  assumes "explore_run env opts actor src cap k n s" "list_all (\<lambda>t. task_phase t = Done) (x_tasks s)"
  shows "\<exists>k' rep. explore_finish env opts inp actor src s = Some (k', Ok rep)
    \<and> xr_candidates rep = map task_report (x_tasks s)
    \<and> (xr_winner rep = None \<longleftrightarrow> list_all (\<lambda>c. \<not> cr_passed c) (xr_candidates rep))
    \<and> (\<forall>w. xr_winner rep = Some w \<longrightarrow> w < length (xo_candidates opts)
         \<and> passed_ok opts (xo_candidates opts ! w) (xr_candidates rep ! w) \<and> (\<forall>j < w. \<not> cr_passed (xr_candidates rep ! j)))
    \<and> (\<forall>b \<in> set (xr_discarded rep). retired (dd_dag (k_dag k')) b
         \<and> (\<exists>c \<in> set (xr_candidates rep). Some (cr_index c) \<noteq> xr_winner rep \<and> cr_branch c = Some b))
    \<and> (xr_merged_state rep \<noteq> None \<longrightarrow> xo_merge_winner opts \<and> xr_winner rep \<noteq> None)"
proof -
  let ?reps = "map task_report (x_tasks s)"
  have inv: "explore_inv opts (parallelism cap opts) s"
    by (rule run_inv_explore [OF assms(1)])
  note sorted = reports_sorted [OF inv]
  have idx: "cr_index (?reps ! i) = i" if "i < length ?reps" for i
    using inv that by (simp add: explore_inv_def task_ok_def)
  have passed: "passed_ok opts (xo_candidates opts ! i) (?reps ! i)" if "i < length ?reps" "cr_passed (?reps ! i)" for i
    using inv that assms(2) by (auto simp: explore_inv_def task_ok_def list_all_length)
  obtain k1 merged err where k1: "merge_winning env opts inp (x_kernel s) actor src ?reps = Some (k1, merged, err)"
    "merged \<noteq> None \<longrightarrow> xo_merge_winner opts \<and> winner ?reps \<noteq> None"
    by (rule merge_winning_total)
  obtain k2 new where "discard_losers env (winner ?reps) ?reps [] k1 = Some (k2, [] @ new)"
    "\<forall>b \<in> set ([] @ new). retired (dd_dag (k_dag k2)) b"
    "\<forall>b \<in> set new. \<exists>c \<in> set ?reps. Some (cr_index c) \<noteq> winner ?reps \<and> cr_branch c = Some b"
    by (rule discard_losers_retires [where gone = "[]" and k = k1 and env = env and win = "winner ?reps" and cs = ?reps])
      (simp, rule that)
  then obtain k' gone where gone: "(if xo_discard_losers opts then discard_losers env (winner ?reps) ?reps [] k1 else Some (k1, [])) = Some (k', gone)"
    "\<forall>b \<in> set gone. retired (dd_dag (k_dag k')) b \<and> (\<exists>c \<in> set ?reps. Some (cr_index c) \<noteq> winner ?reps \<and> cr_branch c = Some b)"
    by (cases "xo_discard_losers opts") auto
  let ?rep = "\<lparr> xr_source = src, xr_winner = winner ?reps, xr_merged_state = merged, xr_merge_error = err,
    xr_candidates = ?reps, xr_discarded = gone \<rparr>"
  have "explore_finish env opts inp actor src s = Some (k', Ok ?rep)"
    by (simp add: explore_finish_def Let_def sorted k1(1) gone(1))
  moreover have "\<forall>w. winner ?reps = Some w \<longrightarrow> w < length (xo_candidates opts)
      \<and> passed_ok opts (xo_candidates opts ! w) (?reps ! w) \<and> (\<forall>j < w. \<not> cr_passed (?reps ! j))"
    using winner_first(2) [of ?reps, OF idx] passed inv unfolding explore_inv_def by auto
  ultimately show ?thesis
    using winner_first(1) [of ?reps, OF idx] gone(2) k1(2) by (intro exI [of _ k'] exI [of _ ?rep]) simp
qed

section \<open>A concrete exploration\<close>

text \<open>Two candidates with nothing to do, explored one after the other: the first wins, the second is skipped.\<close>

definition demo_options :: ExploreOptions where
  "demo_options = \<lparr> xo_candidates = [\<lparr> cand_name = None, cand_actions = [] \<rparr>, \<lparr> cand_name = None, cand_actions = [] \<rparr>],
     xo_evaluator = None, xo_max_parallel = Some 1, xo_early_stop = True, xo_merge_winner = False, xo_discard_losers = True,
     xo_step_budget = None \<rparr>"

definition demo_fork_names :: OpInput where
  "demo_fork_names = \<lparr> op_new = (\<lambda>_. ''br-1''), op_time = (\<lambda>_. 7) \<rparr>"

definition demo_forked :: Branch where
  "demo_forked = \<lparr> br_id = ''br-1'', br_episode = ''ep'', base_state = ''st-0'', br_head = ''st-0'', br_status = BranchActive \<rparr>"

lemma demo_fork:
  assumes "dd_dag (k_dag k) = demo_dag"
  shows "\<exists>k'. fork_branch demo_run_env demo_fork_names k ''main'' = Some (k', Ok demo_forked)"
proof -
  let ?node = "demo_root_node\<lparr> st_replay := FilesystemOnly \<rparr>"
  have branch: "active_branch k ''main'' = Ok \<lparr> br_id = ''main'', br_episode = ''ep'', base_state = ''st-0'', br_head = ''st-0'',
      br_status = BranchActive \<rparr>"
    by (simp add: active_branch_def assms demo_dag_def load_branch_def status_parse_def tbl_get_def)
  have state: "load_state demo_dag ''st-0'' = Ok ?node"
    by (simp add: load_state_def demo_dag_def tbl_get_def)
  obtain d where d: "fork demo_dag ''st-0'' ''br-1'' 7 = (d, Ok demo_forked)" "dag_states d = dag_states demo_dag" "dag_cas d = dag_cas demo_dag"
    by (auto simp: fork_def load_state_def insert_branch_def demo_dag_def demo_root_node_def demo_forked_def tbl_get_def)
  have "load_state d ''st-0'' = Ok ?node"
    using state d(2) by (simp add: load_state_def)
  moreover have "manifest_load (kv_dag demo_run_env) (dag_cas d) demo_root_hash = Ok []"
    by (simp add: d(3) manifest_load_def cas_get_def demo_hash demo_dag_def tbl_get_def)
  ultimately have "\<exists>k'. set_up_workspace demo_run_env (with_dag d k) ''br-1'' ''st-0'' 7 = (k', Ok ())"
    by (auto simp: set_up_workspace_def materialize_branch_def with_dag_def dag_materialize_def materialize_with_cache_def
        demo_root_node_def split: prod.split)
  then obtain k' where "set_up_workspace demo_run_env (with_dag d k) ''br-1'' ''st-0'' 7 = (k', Ok ())"
    by blast
  then show ?thesis
    by (simp add: fork_branch_def check_def branch assms state demo_fork_names_def demo_root_node_def d(1)) (simp add: demo_forked_def)
qed

lemma fresh_lease_exists: "\<exists>i. fresh_lease k i"
proof -
  have "finite (fst ` set (db_leases (k_identity k)))"
    by simp
  then obtain i :: ident where "i \<notin> fst ` set (db_leases (k_identity k))"
    using ex_new_if_finite infinite_UNIV_listI by metis
  then show ?thesis
    unfolding fresh_lease_def by (metis tbl_get_in_set fst_conv image_eqI option.exhaust)
qed

definition demo_report :: "nat \<Rightarrow> CandidateReport" where
  "demo_report i = \<lparr> cr_index = i, cr_name = None, cr_branch = None, cr_steps = [], cr_evaluation = None,
     cr_passed = False, cr_skipped = False, cr_error = None \<rparr>"

definition demo_won :: CandidateReport where
  "demo_won = (demo_report 0)\<lparr> cr_branch := Some ''br-1'', cr_passed := True \<rparr>"

text \<open>The exploration with the phases and reports of the two tasks.\<close>

definition demo_at :: "'w Kernel \<Rightarrow> bool \<Rightarrow> nat \<Rightarrow> TaskPhase \<Rightarrow> CandidateReport \<Rightarrow> TaskPhase \<Rightarrow> CandidateReport \<Rightarrow> 'w Exploration" where
  "demo_at k won permits p0 r0 p1 r1 = \<lparr> x_kernel = k, x_won = won, x_permits = permits,
     x_tasks = [\<lparr> task_phase = p0, task_report = r0 \<rparr>, \<lparr> task_phase = p1, task_report = r1 \<rparr>] \<rparr>"

lemmas demo_move = explore_move_def demo_at_def demo_options_def stopped_def put_task_def finish_task_def Let_def demo_report_def demo_won_def

lemma demo_exploration:
  "\<exists>k s. explore_run demo_run_env demo_options ''pr-a'' ''main'' 4 k 6 s \<and> list_all (\<lambda>t. task_phase t = Done) (x_tasks s)
     \<and> map (cr_passed \<circ> task_report) (x_tasks s) = [True, False] \<and> map (cr_skipped \<circ> task_report) (x_tasks s) = [False, True]"
proof -
  obtain k :: "nat Kernel" and l where k: "dd_dag (k_dag k) = demo_dag" "db_leases (k_identity k) = [(''lease-1'', l)]"
    using demo_stages by blast
  obtain k' where fk: "fork_branch demo_run_env demo_fork_names k ''main'' = Some (k', Ok demo_forked)"
    using demo_fork [OF k(1)] by blast
  obtain i where i: "fresh_lease k' i"
    using fresh_lease_exists by blast
  let ?req = "\<lparr> op_new = (\<lambda>_. i), op_time = (\<lambda>_. 8) \<rparr>" and ?inp = "demo_input []"
  let ?run = "explore_run demo_run_env demo_options ''pr-a'' ''main'' 4 k"
  let ?branched = "(demo_report 0)\<lparr> cr_branch := Some ''br-1'' \<rparr>" and ?skipped = "(demo_report 1)\<lparr> cr_skipped := True \<rparr>"
  have names: "fresh_lease k (op_new demo_fork_names 0)" "fresh_lease k' (op_new ?req 0)"
    using i by (simp_all add: fresh_lease_def k(2) demo_fork_names_def tbl_get_def)
  note move = explore_task [where req = demo_fork_names and inp = ?inp] explore_task [where req = ?req and inp = ?inp]
  have "?run 0 (demo_at k False 1 Queued (demo_report 0) Queued (demo_report 1))"
    by (rule explore_begin) (simp add: explore_start_def demo_options_def MAX_EXPLORE_CANDIDATES_def demo_at_def parallelism_def
        new_task_def demo_report_def enumerate_eq_zip)
  then have "?run (Suc 0) (demo_at k False 0 Forking (demo_report 0) Queued (demo_report 1))"
    by (rule move(1) [where i = 0]) (use names in \<open>simp_all add: demo_move\<close>)
  then have "?run (Suc (Suc 0)) (demo_at k' False 0 (Checking []) ?branched Queued (demo_report 1))"
    by (rule move(1) [where i = 0]) (use names in \<open>simp_all add: demo_move fk demo_forked_def\<close>)
  then have "?run (Suc (Suc (Suc 0))) (demo_at k' False 0 Leaving demo_won Queued (demo_report 1))"
    by (rule move(2) [where i = 0]) (use names in \<open>simp_all add: demo_move\<close>)
  then have "?run (Suc (Suc (Suc (Suc 0)))) (demo_at k' True 1 Done demo_won Queued (demo_report 1))"
    by (rule move(2) [where i = 0]) (use names in \<open>simp_all add: demo_move\<close>)
  then have "?run (Suc (Suc (Suc (Suc (Suc 0))))) (demo_at k' True 0 Done demo_won Leaving ?skipped)"
    by (rule move(2) [where i = 1]) (use names in \<open>simp_all add: demo_move\<close>)
  then have "?run (Suc (Suc (Suc (Suc (Suc (Suc 0)))))) (demo_at k' True 1 Done demo_won Done ?skipped)"
    by (rule move(2) [where i = 1]) (use names in \<open>simp_all add: demo_move\<close>)
  then show ?thesis
    by (intro exI [of _ k] exI [of _ "demo_at k' True 1 Done demo_won Done ?skipped"])
      (simp add: numeral_eq_Suc demo_at_def demo_won_def demo_report_def)
qed


theorem explore_ends_witness:
  "\<exists>k s. explore_run demo_run_env demo_options ''pr-a'' ''main'' 4 k 6 s \<and> (6 :: nat) \<le> (\<Sum>c \<leftarrow> xo_candidates demo_options. 2 * length (cand_actions c) + 5)"
proof -
  obtain k s where s: "explore_run demo_run_env demo_options ''pr-a'' ''main'' 4 k 6 s"
    using demo_exploration by (elim exE conjE) (rule that)
  show ?thesis
    using explore_ends [OF s] s by blast
qed

theorem explore_outcome_witness:
  "\<exists>k s k' rep. explore_run demo_run_env demo_options ''pr-a'' ''main'' 4 k 6 s
     \<and> explore_finish demo_run_env demo_options demo_fork_names ''pr-a'' ''main'' s = Some (k', Ok rep) \<and> xr_winner rep = Some 0"
proof -
  obtain k s where s: "explore_run demo_run_env demo_options ''pr-a'' ''main'' 4 k 6 s" "list_all (\<lambda>t. task_phase t = Done) (x_tasks s)"
    "map (cr_passed \<circ> task_report) (x_tasks s) = [True, False]"
    using demo_exploration by (elim exE conjE) (rule that)
  obtain k' rep where rep: "explore_finish demo_run_env demo_options demo_fork_names ''pr-a'' ''main'' s = Some (k', Ok rep)"
    "xr_candidates rep = map task_report (x_tasks s)" "xr_winner rep = None \<longleftrightarrow> list_all (\<lambda>c. \<not> cr_passed c) (xr_candidates rep)"
    "\<And>w. xr_winner rep = Some w \<Longrightarrow> w < length (xo_candidates demo_options) \<and> (\<forall>j < w. \<not> cr_passed (xr_candidates rep ! j))"
    using explore_outcome [OF s(1,2), of demo_fork_names] by (elim exE conjE) (rule that, assumption+, blast)
  have first: "xr_candidates rep \<noteq> []" "cr_passed (xr_candidates rep ! 0)"
    using s(3) unfolding rep(2) by (auto simp: map_eq_Cons_conv)
  then have "xr_winner rep \<noteq> None"
    using rep(3) by (cases "xr_candidates rep") auto
  then have "xr_winner rep = Some 0"
    using rep(4) first by (metis not_gr_zero option.exhaust)
  then show ?thesis
    using s(1) rep(1) by blast
qed

end
