(* ===== verification/KernelEffects.thy ===== *)
theory KernelEffects
  imports KernelSafety KernelOps
begin

text \<open>
  What the ledger records of effects, where it differs from what happened to them.
\<close>

lemma record_row:
  obtains l ev where "record_caused_by env l0 w kind payload causes now = (l, Ok ev)"
    "\<exists>row. lg_events l = lg_events l0 @ [row] \<and> er_kind row = kind_as_str kind"
proof -
  obtain l x where new: "record_caused_by env l0 w kind payload causes now = (l, x)"
    by fastforce
  then have "\<exists>ev. x = Ok ev" "\<exists>row. lg_events l = lg_events l0 @ [row] \<and> er_kind row = kind_as_str kind"
    by (auto simp: record_caused_by_def append_event_def event_row_def Let_def split: prod.splits)
  then show ?thesis
    using new that by blast
qed

lemma log_effect_row:
  assumes "load_effect (k_broker k) i = Ok fx" "effect_writer k fx = Ok w"
  shows "\<exists>k' row x. log_effect env k i kind payload now = Some (k', Ok x) \<and> k' = k\<lparr> k_ledger := k_ledger k' \<rparr>
    \<and> lg_events (k_ledger k') = lg_events (k_ledger k) @ [row] \<and> er_kind row = kind_as_str kind"
proof -
  obtain l ev where new: "record_caused_by (kv_ledger env) (k_ledger k) w kind payload [] now = (l, Ok ev)"
    and l: "\<exists>row. lg_events l = lg_events (k_ledger k) @ [row] \<and> er_kind row = kind_as_str kind"
    by (rule record_row)
  have "log_effect env k i kind payload now = Some (k\<lparr> k_ledger := l \<rparr>, Ok (ev_seq (le_body ev)))"
    by (simp add: log_effect_def check_def assms log_event_def new)
  then show ?thesis
    using l by auto
qed

text \<open>
  An effect that recovery found never to have executed is recorded as committed, and the payload of
  the event does not name the effect's class.
\<close>

lemma recovery_logs_aborted_as_committed:
  assumes "load_effect (k_broker k) i = Ok fx" "effect_writer k fx = Ok w"
  shows "\<exists>k' row. log_resolutions env clock n [(i, ResolvedAborted)] k = Some k'
    \<and> lg_events (k_ledger k') = lg_events (k_ledger k) @ [row] \<and> er_kind row = kind_as_str EffectCommitted"
proof -
  obtain k' row x where "log_effect env k i EffectCommitted
      (JObj [(''effect_id'', JStr i), (''recovery'', JBool True), (''resolution'', resolution_json ResolvedAborted)]) (clock n) = Some (k', Ok x)"
    "lg_events (k_ledger k') = lg_events (k_ledger k) @ [row]" "er_kind row = kind_as_str EffectCommitted"
    using log_effect_row [OF assms] by blast
  then show ?thesis
    by (intro exI [of _ k'] exI [of _ row]) simp
qed

lemma recovery_payload_has_no_class:
  "json_get (JObj [(''effect_id'', JStr i), (''recovery'', JBool True), (''resolution'', resolution_json r)]) ''class'' = None"
  by simp

text \<open>
  A receipt an operator resolved is filed under the name of the operation: when another receipt of
  that operation is already filed, the new one is not recorded, and the call still succeeds.
\<close>

lemma second_resolution_not_filed:
  assumes "resolve_in_doubt_effect env inp k i outcome = Some (k', Ok (Some rc))"
    and "receipt_by_key (k_ledger k) (rb_operation (rcpt_body rc)) = Some other"
  shows "k_ledger k' = k_ledger k"
  using assms unfolding resolve_in_doubt_effect_def
  by (auto simp: check_def store_receipt_def split: prod.splits sum.splits option.splits if_splits)

text \<open>
  Committing an effect that was never prepared is refused and leaves it as it was, and the ledger
  records that it was aborted.
\<close>

lemma refused_commit_logged_as_aborted:
  assumes "load_effect (k_broker k) i = Ok fx" "phase fx = Proposed" "effect_writer k fx = Ok w"
  shows "\<exists>k' e row. commit_effect env inp k i = Some (k', Err e) \<and> load_effect (k_broker k') i = Ok fx
    \<and> lg_events (k_ledger k') = lg_events (k_ledger k) @ [row] \<and> er_kind row = kind_as_str EffectAborted"
proof -
  have "commit (kv_broker env) (k_world k) (k_broker k) i ep lv t1 t2 j = (k_world k, k_broker k, Err (wrong_phase fx ''approved''))" for ep lv t1 t2 j
    by (simp add: commit_def commit_gate_def commit_authority_def assms)
  moreover have "k\<lparr> k_world := k_world k, k_broker := k_broker k \<rparr> = k"
    by (cases k) simp
  moreover obtain l ev where new: "record_caused_by (kv_ledger env) (k_ledger k) w EffectAborted
        (abort_payload env i (wrong_phase fx ''approved'')) [] (op_time inp 3) = (l, Ok ev)"
    and l: "\<exists>row. lg_events l = lg_events (k_ledger k) @ [row] \<and> er_kind row = kind_as_str EffectAborted"
    by (rule record_row)
  ultimately have "commit_effect env inp k i = Some (k\<lparr> k_ledger := l \<rparr>, Err (wrong_phase fx ''approved''))"
    by (simp add: commit_effect_def Let_def check_def assms log_event_def new and_then_def)
  then show ?thesis
    using l assms(1) by auto
qed

end
