(* ===== verification/Spec2Isabelle.thy ===== *)
theory Spec2Isabelle
  imports Base64 NetGuard StateSync LeaseStore Policy BrokerSystem Materialize Ledger Observation Scheduler KernelSafety
    KernelSearch KernelEffects
begin

text \<open>
  A verification library for the agent kernel of this repository: the crates under src/kernel and the
  facade (src/kernel/api/src/kernel.rs) that composes them.

  \<^bold>\<open>The program.\<close> An agent acts in episodes. Each step names an action, the branch it acts on and the
  capability lease that permits it. The facade checks the lease, asks the policy engine, consumes a
  use of the lease, and then routes the action: to a local or remote sandbox through the scheduler,
  to a connector for a read, or to the effect broker when the action changes the outside world. The
  state after the step is a node of the state DAG over a content-addressed store, and everything that
  happened is an event of the hash-chained causal ledger. External effects are proposed first, then
  prepared, approved and committed, with a claim per idempotency key that makes a commit happen at
  most once; a crash between claim and answer leaves the effect in doubt until recovery.

  \<^bold>\<open>Vocabulary.\<close> \<open>Prelude\<close> has identifiers, instants, results as sums (\<open>Err\<close> and \<open>Ok\<close>), saturating
  arithmetic and keyed tables, with the interface \<open>row_store\<close> of a database table. \<open>Strings\<close> has the
  string operations of the standard library and the glob matcher, \<open>Json_Value\<close> the JSON values and
  their canonical encoding (core/src/hash.rs), \<open>KernelTypes\<close> the types of core/src that several
  components share.

  \<^bold>\<open>Components.\<close> The theory, what it models under src/kernel, and what its lemmas show:

  \<^item> \<open>Budget\<close> (core/src/budget.rs): budgets on 64- and 32-bit words; the order, clamping and charging
    are those of the six dimensions, through the interface \<open>budget_dimension\<close>.
  \<^item> \<open>Capability\<close> (core/src/capability.rs): the check of a lease and attenuation; a chain of
    attenuations never widens what a lease admits, apart from one constraint kind shown as a lemma.
  \<^item> \<open>Registry\<close> and \<open>LeaseStore\<close> (identity/src): the principals with their lineage, the lease table,
    delegation and cascading revocation; revocation ends and revokes exactly the subtree, and uses are
    neither lost nor invented.
  \<^item> \<open>Policy\<close> (policy/src): documents, evaluation, compilation of grants, confinements and autonomy
    envelopes; evaluation allows exactly when the first matching rule does.
  \<^item> \<open>Broker\<close>, \<open>BrokerProtocol\<close>, \<open>BrokerSystem\<close> (effect_broker/src/broker.rs): every operation on the
    effect store, the abstract protocol of an effect, and the system in which commits, cut where they
    await a connector, interleave with all other operations, crashes and recovery. Each step refines
    the protocol; external commits happen at most once and only with current authority.
  \<^item> \<open>Cas\<close>, \<open>Worklist\<close>, \<open>StateDag\<close>, \<open>StateGc\<close> (state_dag/src/cas.rs, dag.rs): the content store, the
    queue-driven searches, the DAG with three-way merge, and garbage collection, which keeps exactly
    what is reachable in every history.
  \<^item> \<open>FileTree\<close>, \<open>Paths\<close>, \<open>Snapshot\<close>, \<open>Materialize\<close> (state_dag/src/snapshot.rs, core/src/path.rs,
    state.rs): directory trees, the walk with its stat cache, and materialization; a snapshot is exact,
    the incremental one agrees with the full one, and materializing it gives it back.
  \<^item> \<open>Base64\<close>, \<open>NetGuard\<close>, \<open>StateSync\<close> (core/src/b64.rs, net.rs, sync.rs, and the delta validation of
    the facade): codec, address filter, transfer plan and the acceptance of a remote delta.
  \<^item> \<open>Ledger\<close> (causal_ledger/src): events, hash chain, verification, raw outputs, receipts and queries;
    ledgers that verify and end in the same hash agree.
  \<^item> \<open>Observation\<close> (core/src/observation.rs): observations, distillation of output within its bounds.
  \<^item> \<open>Router\<close>, \<open>Scheduler\<close> (scheduler/src, core/src/traits.rs): backend choice, and the scheduler cut at
    its lock and await points; under every interleaving the accounts balance and calls drain.

  \<^bold>\<open>The composed kernel\<close> (api/src/kernel.rs). \<open>KernelState\<close> has the record of the components, the
  environment of code the kernel calls and the pure helpers; \<open>KernelSteps\<close> has \<open>execute_step\<close> with its
  gates, the connector planes and local and remote runs; \<open>KernelOps\<close> has registration, episodes,
  branches, capability requests, envelopes, delegation, revocation, automatic lease resolution and the
  effect operations; \<open>KernelTrace\<close> explanation, retry and replay; \<open>KernelExplore\<close> the exploration of
  candidates as interleaved tasks. On them:

  \<^item> \<open>KernelSafety\<close>: what one step can change, when, and what it records; a denied or failed step
    leaves history alone.
  \<^item> \<open>KernelMoves\<close>, \<open>KernelSystem\<close>: every operation is a sequence of operations of the components, so
    component invariants carry over to runs of the kernel (\<open>kernel_run\<close>), in which generated lease
    identifiers are new and the registered connectors are those of the environment.
  \<^item> \<open>KernelGuarantees\<close>: for every run from a new kernel, refinement of the components, well-typedness,
    append-only history, finality of revocation, and that a step's explanation returns what it did.
  \<^item> \<open>KernelRequests\<close>: which lease automatic resolution uses and what an envelope report says.
  \<^item> \<open>KernelSearch\<close>: an exploration whose tasks interleave with each other and with other operations
    ends, reports what happened, and has the first passing candidate as its winner.
  \<^item> \<open>KernelEffects\<close>: where the ledger's record of an effect differs from what happened to it.
  \<^item> \<open>KernelDemo\<close>: a concrete kernel on which the witnesses evaluate.

  \<^bold>\<open>Parameters.\<close> SHA-256, the printers and parsers of serde_json, signing, Unicode lower-casing, the
  connectors, the backends and the answers of the operating system are arguments of the definitions.
  Identifiers and clock readings are inputs. What a theorem needs of them, for example that a hash is
  injective on the values at hand or that a generated identifier is new, is a named hypothesis.

  \<^bold>\<open>Effects, errors and loops.\<close> State is passed explicitly. An operation that fails returns its error
  with the state it left behind. An operation of the kernel holds the lock of its branch until it
  returns, so it is one step of a run; the broker, the scheduler and the exploration, where the source
  lets calls overlap, are cut at their suspension points. No model uses fuel: loops are structural or
  come with a termination proof, and the ones that need an invariant to end (revocation, the graph
  searches, the closure over causes) are partial functions into option, where \<open>None\<close> is not returning,
  and their theorems show that they return.

  \<^bold>\<open>Not modelled.\<close> Opening the kernel and its configuration, which read files and start processes; lock
  poisoning, panics and failures of the database; the HTTP surface, authentication and the server
  binary; the secret vault, key files and sealing, which wrap cipher libraries; the backends and
  connectors themselves, which are system calls and network clients and enter as parameters; the
  conformance suite, the benchmarks, the example, the client libraries, the user interface and the
  protocol files, which contain no part of the kernel.
\<close>

end
